(* ===== verification/Prelude.thy ===== *)
theory Prelude
  imports Main "HOL-Library.Word" "HOL-Library.Monad_Syntax"
begin

text \<open>
  Shared vocabulary of the development: the machine types and the error numbers of the C sources,
  little-endian loads and stores on byte lists (the ABI of the structures that cross the
  user/kernel and the guest/host boundaries), and the generic list, option and word lemmas that
  the component theories rely on.

  Conventions used by every theory.  A C function that returns an \<open>int\<close> status is a HOL function
  that returns the status as an \<open>int\<close> (zero, or a negated error number) next to the new state.  A
  function that may wait for ever, run into \<open>BUG()\<close> or follow an invalid pointer returns an
  \<open>option\<close>, with \<open>None\<close> for "this call does not return".
\<close>

section \<open>Machine types\<close>

type_synonym u8 = "8 word"
type_synonym u16 = "16 word"
type_synonym u32 = "32 word"
type_synonym u64 = "64 word"
type_synonym byte = "8 word"

unbundle bit_operations_syntax

named_theorems layout_simps "offsets and sizes of the structures shared across a boundary"
named_theorems copy_simps "reading and writing memory"

section \<open>Error numbers\<close>

abbreviation (input) EPERM :: int where "EPERM \<equiv> 1"
abbreviation (input) ENOENT :: int where "ENOENT \<equiv> 2"
abbreviation (input) ENXIO :: int where "ENXIO \<equiv> 6"
abbreviation (input) EAGAIN :: int where "EAGAIN \<equiv> 11"
abbreviation (input) ENOMEM :: int where "ENOMEM \<equiv> 12"
abbreviation (input) EFAULT :: int where "EFAULT \<equiv> 14"
abbreviation (input) EBUSY :: int where "EBUSY \<equiv> 16"
abbreviation (input) ENODEV :: int where "ENODEV \<equiv> 19"
abbreviation (input) EINVAL :: int where "EINVAL \<equiv> 22"
abbreviation (input) EMFILE :: int where "EMFILE \<equiv> 24"
abbreviation (input) ENOTTY :: int where "ENOTTY \<equiv> 25"
abbreviation (input) EPIPE :: int where "EPIPE \<equiv> 32"
abbreviation (input) EBADMSG :: int where "EBADMSG \<equiv> 74"
abbreviation (input) EINPROGRESS :: int where "EINPROGRESS \<equiv> 115"

section \<open>Little-endian integers on byte lists\<close>

lemma unat_bound: "unat (w :: 'a::len word) < 2 ^ LENGTH('a)"
  by (rule unsigned_less)

lemma unat_of_nat_small: "n < 2 ^ LENGTH('a) \<Longrightarrow> unat (of_nat n :: 'a::len word) = n"
  by (simp add: unat_of_nat)

lemma unat_byte: "unat (b :: byte) < 256"
  using unat_bound [of b] by simp

fun le_nat :: "byte list \<Rightarrow> nat" where
  "le_nat [] = 0"
| "le_nat (b # bs) = unat b + 256 * le_nat bs"

fun le_bytes :: "nat \<Rightarrow> nat \<Rightarrow> byte list" where
  "le_bytes 0 v = []"
| "le_bytes (Suc n) v = of_nat (v mod 256) # le_bytes n (v div 256)"

lemma length_le_bytes [simp]: "length (le_bytes n v) = n"
  by (induction n arbitrary: v) auto

lemma le_nat_bound: "le_nat bs < 256 ^ length bs"
proof (induction bs)
  case Nil
  then show ?case by simp
next
  case (Cons b bs)
  have "unat b < 256" by (rule unat_byte)
  with Cons have "unat b + 256 * le_nat bs < 256 + 256 * (256 ^ length bs - 1)"
    by (intro add_less_le_mono mult_le_mono2) auto
  also have "\<dots> = 256 * 256 ^ length bs"
    by (simp add: right_diff_distrib')
  finally show ?case by simp
qed

lemma le_nat_bytes [simp]: "le_nat (le_bytes n v) = v mod 256 ^ n"
proof (induction n arbitrary: v)
  case 0
  then show ?case by simp
next
  case (Suc n)
  have "unat (of_nat (v mod 256) :: byte) = v mod 256"
    by (simp add: unat_of_nat)
  then show ?case
    by (simp add: Suc mod_mult2_eq)
qed

lemma le_bytes_nat [simp]: "le_bytes (length bs) (le_nat bs) = bs"
proof (induction bs)
  case Nil
  then show ?case by simp
next
  case (Cons b bs)
  have b: "unat b < 256" by (rule unat_byte)
  then have "(unat b + 256 * le_nat bs) div 256 = le_nat bs"
    and "(unat b + 256 * le_nat bs) mod 256 = unat b"
    by auto
  with Cons show ?case by simp
qed

definition field :: "byte list \<Rightarrow> nat \<Rightarrow> nat \<Rightarrow> nat" where
  "field bs off n = le_nat (take n (drop off bs))"

definition get16 :: "byte list \<Rightarrow> nat \<Rightarrow> u16" where
  "get16 bs off = of_nat (field bs off 2)"

definition get32 :: "byte list \<Rightarrow> nat \<Rightarrow> u32" where
  "get32 bs off = of_nat (field bs off 4)"

definition get64 :: "byte list \<Rightarrow> nat \<Rightarrow> u64" where
  "get64 bs off = of_nat (field bs off 8)"

definition put16 :: "u16 \<Rightarrow> byte list" where
  "put16 w = le_bytes 2 (unat w)"

definition put32 :: "u32 \<Rightarrow> byte list" where
  "put32 w = le_bytes 4 (unat w)"

definition put64 :: "u64 \<Rightarrow> byte list" where
  "put64 w = le_bytes 8 (unat w)"

lemma length_put [simp]:
  "length (put16 a) = 2" "length (put32 b) = 4" "length (put64 c) = 8"
  by (simp_all add: put16_def put32_def put64_def)

lemma le_nat_put [simp]:
  "le_nat (put16 a) = unat a" "le_nat (put32 b) = unat b" "le_nat (put64 c) = unat c"
  using unat_bound [of a] unat_bound [of b] unat_bound [of c]
  by (simp_all add: put16_def put32_def put64_def)

lemma put_of_le_nat:
  "length bs = 2 \<Longrightarrow> put16 (of_nat (le_nat bs)) = bs"
  "length bs = 4 \<Longrightarrow> put32 (of_nat (le_nat bs)) = bs"
  "length bs = 8 \<Longrightarrow> put64 (of_nat (le_nat bs)) = bs"
  using le_nat_bound [of bs] le_bytes_nat [of bs]
  by (simp_all add: put16_def put32_def put64_def unat_of_nat_small)

section \<open>Slices and splices of lists\<close>

definition splice_at :: "nat \<Rightarrow> 'a list \<Rightarrow> 'a list \<Rightarrow> 'a list" where
  "splice_at i new xs = take i xs @ new @ drop (i + length new) xs"

lemma length_splice_at [simp]:
  "i + length new \<le> length xs \<Longrightarrow> length (splice_at i new xs) = length xs"
  by (simp add: splice_at_def)

lemma nth_splice_at:
  assumes "i + length new \<le> length xs" "j < length xs"
  shows "splice_at i new xs ! j = (if i \<le> j \<and> j < i + length new then new ! (j - i) else xs ! j)"
  using assms by (auto simp: splice_at_def nth_append min_def)

lemma take_drop_splice_at [simp]:
  "i + length new \<le> length xs \<Longrightarrow> take (length new) (drop i (splice_at i new xs)) = new"
  by (simp add: splice_at_def)

lemma splice_at_same [simp]:
  "i + n \<le> length xs \<Longrightarrow> splice_at i (take n (drop i xs)) xs = xs"
  by (simp add: splice_at_def min_def)
     (metis add.commute append_take_drop_id drop_drop)

lemma take_splice_other:
  "j + k \<le> i \<or> i + length b \<le> j \<Longrightarrow> i + length b \<le> length xs \<Longrightarrow> j + k \<le> length xs \<Longrightarrow> take k (drop j (splice_at i b xs)) = take k (drop j xs)"
  by (rule nth_equalityI) (auto simp: nth_splice_at)

lemma map_upt_split:
  "n \<le> m \<Longrightarrow> map f [0..<m] = map f [0..<n] @ map (\<lambda>i. f (n + i)) [0..<m - n]"
  by (rule nth_equalityI) (auto simp: nth_append)

section \<open>Computations that return\<close>

text \<open>Taking apart a computation that returned.\<close>

lemma bind_SomeE: "Option.bind m f = Some y \<Longrightarrow> (\<And>x. m = Some x \<Longrightarrow> f x = Some y \<Longrightarrow> P) \<Longrightarrow> P"
  by (auto simp: bind_eq_Some_conv)

lemma if_SomeE: "(if b then x else y) = Some z \<Longrightarrow> (b \<Longrightarrow> x = Some z \<Longrightarrow> P) \<Longrightarrow> (\<not> b \<Longrightarrow> y = Some z \<Longrightarrow> P) \<Longrightarrow> P"
  by (auto split: if_splits)

lemma pair_SomeE: "(case q of (a, b) \<Rightarrow> f a b) = Some z \<Longrightarrow> (\<And>a b. q = (a, b) \<Longrightarrow> f a b = Some z \<Longrightarrow> P) \<Longrightarrow> P"
  by (auto split: prod.splits)

lemma option_SomeE:
  "(case q of None \<Rightarrow> x | Some a \<Rightarrow> f a) = Some z \<Longrightarrow> (q = None \<Longrightarrow> x = Some z \<Longrightarrow> P) \<Longrightarrow> (\<And>a. q = Some a \<Longrightarrow> f a = Some z \<Longrightarrow> P) \<Longrightarrow> P"
  by (auto split: option.splits)

lemmas returned = bind_SomeE if_SomeE pair_SomeE option_SomeE

end
