(* ===== verification/Kernel_Env.thy ===== *)
theory Kernel_Env
  imports Prelude
begin

text \<open>
  What the driver sources take from the C runtime and the kernel around them: byte-addressed
  memory with multi-byte transfers that stop at the first fault (\<open>copy_from_user\<close>,
  \<open>copy_to_user\<close>, \<open>get_user\<close>, \<open>put_user\<close>), an allocator that may fail, and the pinned pages of
  zero-copy transfers.  Whether an allocation succeeds is not decided by the sources: the state
  holds the outcomes of the allocations to come, and every theorem is about all such sequences.
  Every object a driver allocates is entered in a table of live objects and leaves it when it is
  freed, so that leaks and double frees are visible in the state.
\<close>

section \<open>Byte-addressed memory\<close>

text \<open>
  A transfer of several bytes in terms of single-byte accesses.  A load fails when one byte
  cannot be read; a store stops at the first byte that cannot be written and says how many bytes
  are left, which is what \<open>copy_to_user\<close> returns.
\<close>

fun load_bytes :: "('m \<Rightarrow> u64 \<Rightarrow> byte option) \<Rightarrow> 'm \<Rightarrow> u64 \<Rightarrow> nat \<Rightarrow> byte list option" where
  "load_bytes rd m a 0 = Some []"
| "load_bytes rd m a (Suc n) =
     (case rd m a of
        None \<Rightarrow> None
      | Some b \<Rightarrow> map_option (\<lambda>bs. b # bs) (load_bytes rd m (a + 1) n))"

fun store_bytes :: "('m \<Rightarrow> u64 \<Rightarrow> byte \<Rightarrow> 'm option) \<Rightarrow> 'm \<Rightarrow> u64 \<Rightarrow> byte list \<Rightarrow> nat \<times> 'm" where
  "store_bytes wr m a [] = (0, m)"
| "store_bytes wr m a (b # bs) =
     (case wr m a b of
        None \<Rightarrow> (length (b # bs), m)
      | Some m' \<Rightarrow> store_bytes wr m' (a + 1) bs)"

definition in_range :: "u64 \<Rightarrow> nat \<Rightarrow> u64 \<Rightarrow> bool" where
  "in_range a n x \<longleftrightarrow> unat (x - a) < n"

definition disjoint_ranges :: "u64 \<Rightarrow> nat \<Rightarrow> u64 \<Rightarrow> nat \<Rightarrow> bool" where
  "disjoint_ranges a n b k \<longleftrightarrow> (\<forall>i \<in> set [0..<n]. \<not> in_range b k (a + of_nat i))"

lemma in_range_0 [simp]: "\<not> in_range a 0 x"
  by (simp add: in_range_def)

lemma in_range_start [simp]: "in_range a (Suc n) a"
  by (simp add: in_range_def)

lemma in_range_offset: "i < n \<Longrightarrow> n \<le> 2 ^ 64 \<Longrightarrow> in_range a n (a + of_nat i)"
  by (simp add: in_range_def unat_of_nat_small)

lemma in_range_Suc:
  "in_range a (Suc n) x \<longleftrightarrow> x = a \<or> in_range (a + 1) n x" if "n < 2 ^ 64" for n
proof (cases "x = a")
  case True
  then show ?thesis by simp
next
  case False
  have eq: "x - (a + 1) = (x - a) - 1" by simp
  from False have "unat (x - (a + 1)) = unat (x - a) - 1"
    unfolding eq by (intro unat_minus_one) simp
  moreover from False have "0 < unat (x - a)" by (simp add: unat_gt_0)
  ultimately show ?thesis using False by (auto simp: in_range_def)
qed

lemma not_in_range_step:
  "\<not> in_range a (Suc n) x \<Longrightarrow> \<not> in_range (a + 1) n x" if "n < 2 ^ 64" for n
  using that by (simp add: in_range_Suc)

text \<open>
  The contract of a memory as its clients use it: a byte that was written is read back, other
  bytes keep their value, and a write does not change which addresses can be written.
\<close>

locale byte_space =
  fixes rd :: "'m \<Rightarrow> u64 \<Rightarrow> byte option"
    and wr :: "'m \<Rightarrow> u64 \<Rightarrow> byte \<Rightarrow> 'm option"
  assumes rd_same: "wr m a b = Some m' \<Longrightarrow> rd m' a = Some b"
    and rd_other: "wr m a b = Some m' \<Longrightarrow> x \<noteq> a \<Longrightarrow> rd m' x = rd m x"
    and wr_stable: "wr m a b = Some m' \<Longrightarrow> (wr m' x c = None) = (wr m x c = None)"
begin

lemma store_frame:
  "store_bytes wr m a bs = (k, m') \<Longrightarrow> length bs \<le> 2 ^ 64 \<Longrightarrow> \<not> in_range a (length bs) x
    \<Longrightarrow> rd m' x = rd m x"
proof (induction bs arbitrary: m a)
  case Nil
  then show ?case by simp
next
  case (Cons b bs)
  from Cons.prems(2,3) have x: "x \<noteq> a" "\<not> in_range (a + 1) (length bs) x"
    using in_range_start not_in_range_step [of "length bs" a x] by auto
  show ?case
  proof (cases "wr m a b")
    case None
    with Cons.prems show ?thesis by simp
  next
    case (Some m1)
    with Cons.prems x have "rd m' x = rd m1 x"
      by (intro Cons.IH [of m1 "a + 1"]) auto
    with Some x rd_other [OF Some x(1)] show ?thesis by simp
  qed
qed

lemma load_cong:
  "(\<And>i. i < n \<Longrightarrow> rd m' (a + of_nat i) = rd m (a + of_nat i))
    \<Longrightarrow> load_bytes rd m' a n = load_bytes rd m a n"
proof (induction n arbitrary: a)
  case 0
  then show ?case by simp
next
  case (Suc n)
  have "rd m' a = rd m a" using Suc.prems [of 0] by simp
  moreover have "load_bytes rd m' (a + 1) n = load_bytes rd m (a + 1) n"
  proof (rule Suc.IH)
    fix i assume "i < n"
    then show "rd m' (a + 1 + of_nat i) = rd m (a + 1 + of_nat i)"
      using Suc.prems [of "Suc i"] by (simp add: add.assoc)
  qed
  ultimately show ?case by (simp split: option.split)
qed

lemma load_after_store:
  "store_bytes wr m a bs = (0, m') \<Longrightarrow> length bs \<le> 2 ^ 64
    \<Longrightarrow> load_bytes rd m' a (length bs) = Some bs"
proof (induction bs arbitrary: m a)
  case Nil
  then show ?case by simp
next
  case (Cons b bs)
  then obtain m1 where m1: "wr m a b = Some m1" and rest: "store_bytes wr m1 (a + 1) bs = (0, m')"
    by (auto split: option.splits)
  have "\<not> in_range (a + 1) (length bs) a"
    using Cons.prems(2) by (simp add: in_range_def unsigned_minus_1_eq_mask mask_eq_exp_minus_1)
  with rest Cons.prems(2) have "rd m' a = rd m1 a"
    by (intro store_frame) auto
  with rd_same [OF m1] Cons.IH [OF rest] Cons.prems(2) show ?case by simp
qed

lemma load_store_disjoint:
  assumes "store_bytes wr m a bs = (k, m')" "length bs \<le> 2 ^ 64" "disjoint_ranges c n a (length bs)"
  shows "load_bytes rd m' c n = load_bytes rd m c n"
  using assms by (intro load_cong store_frame) (auto simp: disjoint_ranges_def)

lemma store_all_writable:
  "(\<And>i c. i < length bs \<Longrightarrow> wr m (a + of_nat i) c \<noteq> None) \<Longrightarrow> fst (store_bytes wr m a bs) = 0"
proof (induction bs arbitrary: m a)
  case Nil
  then show ?case by simp
next
  case (Cons b bs)
  from Cons.prems [of 0] obtain m1 where m1: "wr m a b = Some m1" by fastforce
  have "wr m1 (a + 1 + of_nat i) c \<noteq> None" if "i < length bs" for i c
    using Cons.prems [of "Suc i" c] that wr_stable [OF m1] by (simp add: add.assoc)
  then have "fst (store_bytes wr m1 (a + 1) bs) = 0" by (intro Cons.IH) auto
  with m1 show ?case by simp
qed

end

lemma length_load_bytes: "load_bytes rd m a n = Some bs \<Longrightarrow> length bs = n"
  by (induction n arbitrary: a bs) (auto split: option.splits)

lemma store_bytes_le: "store_bytes wr m a bs = (k, m') \<Longrightarrow> k \<le> length bs"
proof (induction bs arbitrary: m a)
  case (Cons b bs)
  then show ?case by (fastforce split: option.splits)
qed simp

lemma store_bytes_append:
  "store_bytes wr m a (xs @ ys) =
    (case store_bytes wr m a xs of
       (k, m') \<Rightarrow> if k = 0 then store_bytes wr m' (a + of_nat (length xs)) ys else (k + length ys, m'))"
proof (induction xs arbitrary: m a)
  case Nil
  then show ?case by simp
next
  case (Cons x xs)
  then show ?case by (auto split: option.splits prod.splits simp: ac_simps)
qed

lemma load_bytes_append:
  "load_bytes rd m a (n + k) =
    (case load_bytes rd m a n of
       None \<Rightarrow> None
     | Some xs \<Rightarrow> map_option (\<lambda>ys. xs @ ys) (load_bytes rd m (a + of_nat n) k))"
proof (induction n arbitrary: a)
  case 0
  then show ?case by (cases "load_bytes rd m a k") auto
next
  case (Suc n)
  then show ?case by (auto split: option.splits simp: ac_simps map_option_case)
qed

lemma load_bytes_split:
  assumes "load_bytes rd m a (n + k) = Some bs"
  shows "load_bytes rd m a n = Some (take n bs)" "load_bytes rd m (a + of_nat n) k = Some (drop n bs)"
proof -
  from assms obtain xs ys where "load_bytes rd m a n = Some xs" "load_bytes rd m (a + of_nat n) k = Some ys" "bs = xs @ ys"
    unfolding load_bytes_append by (auto split: option.splits)
  with length_load_bytes [of rd m a n xs]
  show "load_bytes rd m a n = Some (take n bs)" "load_bytes rd m (a + of_nat n) k = Some (drop n bs)" by simp_all
qed

lemma load_bytes_nth:
  "load_bytes rd m a n = Some bs \<Longrightarrow> i < n \<Longrightarrow> rd m (a + of_nat i) = Some (bs ! i)"
proof (induction n arbitrary: a bs i)
  case (Suc n)
  then show ?case
  proof (cases i)
    case (Suc j)
    with Suc.prems obtain b cs where "load_bytes rd m (a + 1) n = Some cs" "bs = b # cs" "j < n"
      by (auto split: option.splits)
    with Suc.IH [of "a + 1" cs j] \<open>i = Suc j\<close> show ?thesis by (simp add: ac_simps)
  qed (auto split: option.splits)
qed simp

section \<open>User memory\<close>

text \<open>
  The address space of the calling process: the bytes that are mapped, and which of them the
  process may write.
\<close>

record umem =
  ubytes :: "u64 \<Rightarrow> byte option"
  uwritable :: "u64 \<Rightarrow> bool"

definition urd :: "umem \<Rightarrow> u64 \<Rightarrow> byte option" where
  "urd m a = ubytes m a"

definition uwr :: "umem \<Rightarrow> u64 \<Rightarrow> byte \<Rightarrow> umem option" where
  "uwr m a b =
     (if ubytes m a \<noteq> None \<and> uwritable m a then Some (m\<lparr>ubytes := (ubytes m)(a \<mapsto> b)\<rparr>) else None)"

interpretation user: byte_space urd uwr
  by unfold_locales (auto simp: urd_def uwr_def split: if_splits)

abbreviation copy_from_user :: "umem \<Rightarrow> u64 \<Rightarrow> nat \<Rightarrow> byte list option" where
  "copy_from_user \<equiv> load_bytes urd"

abbreviation copy_to_user :: "umem \<Rightarrow> u64 \<Rightarrow> byte list \<Rightarrow> nat \<times> umem" where
  "copy_to_user \<equiv> store_bytes uwr"

lemma uwritable_copy [simp]: "uwritable (snd (copy_to_user m a bs)) = uwritable m"
proof (induction bs arbitrary: m a)
  case (Cons b bs)
  then show ?case by (auto simp: uwr_def split: option.splits if_splits)
qed simp

lemma mapped_copy: "(ubytes (snd (copy_to_user m a bs)) x = None) = (ubytes m x = None)"
proof (induction bs arbitrary: m a)
  case (Cons b bs)
  then show ?case by (auto simp: uwr_def split: option.splits if_splits)
qed simp

text \<open>\<open>get_user\<close> and \<open>put_user\<close> on a 32-bit variable: zero or \<open>-EFAULT\<close>.\<close>

definition get_user32 :: "umem \<Rightarrow> u64 \<Rightarrow> int + u32" where
  "get_user32 m a =
     (case copy_from_user m a 4 of None \<Rightarrow> Inl (- EFAULT) | Some bs \<Rightarrow> Inr (get32 bs 0))"

definition put_user32 :: "umem \<Rightarrow> u64 \<Rightarrow> u32 \<Rightarrow> int \<times> umem" where
  "put_user32 m a v =
     (case copy_to_user m a (put32 v) of (k, m') \<Rightarrow> (if k = 0 then 0 else - EFAULT, m'))"

section \<open>The kernel state of a call\<close>

text \<open>
  Pages a scatterlist can refer to: a page of the calling process, named by its virtual page
  number, or the one kernel page a call allocates with \<open>__get_free_page\<close> for data in transit.
\<close>

datatype page = UPage u64 | KPage

text \<open>Kinds of objects the drivers allocate, for the table of live objects.\<close>

datatype okind =
    TfmAblk | TfmAead | TfmAhash | ReqAblk | ReqAead | ReqAhash | ResultObj
  | SessionObj | PagesArr | SgArr | FreePage | TodoItem | PrivObj

text \<open>What \<open>release_user_pages\<close> does to a page.\<close>

datatype pgev = SetDirty page | FlushDcache page | PutPage page

text \<open>
  \<open>allocs\<close> are the outcomes of the allocations to come (when the list is used up, allocations
  succeed); \<open>uninit\<close> and \<open>uninit_int\<close> are what an uninitialised local array and an
  uninitialised \<open>int\<close> of the calling function happen to hold; \<open>random\<close> is what
  \<open>get_random_bytes\<close> delivers next.
\<close>

record kst =
  um :: umem
  kbuf :: "byte list"
  live :: "(nat \<times> okind) list"
  next_id :: nat
  allocs :: "bool list"
  bad_free :: bool
  pins :: "page \<Rightarrow> int"
  pglog :: "pgev list"
  uninit :: "nat \<Rightarrow> byte"
  uninit_int :: int
  random :: "nat \<Rightarrow> u32"

definition kalloc :: "okind \<Rightarrow> kst \<Rightarrow> nat option \<times> kst" where
  "kalloc k s =
     (case allocs s of
        False # r \<Rightarrow> (None, s\<lparr>allocs := r\<rparr>)
      | _ \<Rightarrow> (Some (next_id s),
              s\<lparr>allocs := tl (allocs s), live := (next_id s, k) # live s, next_id := Suc (next_id s)\<rparr>))"

definition kfree :: "nat option \<Rightarrow> kst \<Rightarrow> kst" where
  "kfree p s =
     (case p of
        None \<Rightarrow> s
      | Some i \<Rightarrow>
          (case map_of (live s) i of
             None \<Rightarrow> s\<lparr>bad_free := True\<rparr>
           | Some _ \<Rightarrow> s\<lparr>live := filter (\<lambda>x. fst x \<noteq> i) (live s)\<rparr>))"

definition heap_wf :: "kst \<Rightarrow> bool" where
  "heap_wf s \<longleftrightarrow> distinct (map fst (live s)) \<and> (\<forall>x \<in> set (live s). fst x < next_id s)"

lemma kfree_None [simp]: "kfree None s = s"
  by (simp add: kfree_def)

text \<open>The parts of the state that allocation and deallocation leave alone.\<close>

definition same_mem :: "kst \<Rightarrow> kst \<Rightarrow> bool" where
  "same_mem s s' \<longleftrightarrow> um s' = um s \<and> kbuf s' = kbuf s \<and> pins s' = pins s \<and> pglog s' = pglog s
     \<and> uninit s' = uninit s \<and> uninit_int s' = uninit_int s \<and> random s' = random s"

lemma same_mem_refl [simp, intro]: "same_mem s s"
  by (simp add: same_mem_def)

lemma same_mem_trans [trans]: "same_mem s t \<Longrightarrow> same_mem t r \<Longrightarrow> same_mem s r"
  by (simp add: same_mem_def)

lemma same_mem_kalloc: "kalloc k s = (p, s') \<Longrightarrow> same_mem s s'"
  by (auto simp: kalloc_def same_mem_def split: list.splits bool.splits)

lemma same_mem_kfree: "same_mem s (kfree p s)"
  by (auto simp: kfree_def same_mem_def split: option.splits)

lemma kalloc_None: "kalloc k s = (None, s') \<Longrightarrow> live s' = live s \<and> bad_free s' = bad_free s \<and> (heap_wf s \<longrightarrow> heap_wf s')"
  by (fastforce simp: kalloc_def heap_wf_def split: list.splits bool.splits)

lemma kalloc_Some:
  assumes "kalloc k s = (Some i, s')" "heap_wf s"
  shows "live s' = (i, k) # live s" "heap_wf s'" "bad_free s' = bad_free s" "i \<notin> fst ` set (live s)"
  using assms by (fastforce simp: kalloc_def heap_wf_def split: list.splits bool.splits)+

lemma kfree_live:
  assumes "heap_wf s" "live s = (i, k) # l"
  shows "live (kfree (Some i) s) = l" "heap_wf (kfree (Some i) s)" "bad_free (kfree (Some i) s) = bad_free s"
proof -
  from assms have "i \<notin> fst ` set l" by (auto simp: heap_wf_def)
  then have "filter (\<lambda>x. fst x \<noteq> i) l = l" by (auto simp: filter_id_conv)
  with assms show "live (kfree (Some i) s) = l" "heap_wf (kfree (Some i) s)"
    "bad_free (kfree (Some i) s) = bad_free s"
    by (auto simp: kfree_def heap_wf_def)
qed

section \<open>Object accounting\<close>

definition ids :: "kst \<Rightarrow> nat set" where
  "ids s = fst ` set (live s)"

definition opt_ids :: "nat option \<Rightarrow> nat list" where
  "opt_ids p = (case p of None \<Rightarrow> [] | Some i \<Rightarrow> [i])"

definition kfrees :: "nat list \<Rightarrow> kst \<Rightarrow> kst" where
  "kfrees l s = fold (\<lambda>i. kfree (Some i)) l s"

lemma opt_ids_simps [simp]: "opt_ids None = []" "opt_ids (Some i) = [i]"
  by (simp_all add: opt_ids_def)

lemma kfrees_simps [simp]: "kfrees [] s = s" "kfrees (i # l) s = kfrees l (kfree (Some i) s)"
  "kfrees (l @ l') s = kfrees l' (kfrees l s)"
  by (simp_all add: kfrees_def)

lemma kfree_kfrees: "kfree p s = kfrees (opt_ids p) s"
  by (cases p) simp_all

lemma same_mem_kfrees: "same_mem s (kfrees l s)"
  by (induction l arbitrary: s) (auto intro: same_mem_trans same_mem_kfree)

lemma same_mem_kfreesI [simp, intro]: "same_mem s t \<Longrightarrow> same_mem s (kfrees l t)"
  by (rule same_mem_trans [OF _ same_mem_kfrees])

lemma map_of_ids: "i \<in> ids s \<Longrightarrow> \<exists>k. map_of (live s) i = Some k"
  by (metis ids_def map_of_eq_None_iff option.exhaust)

lemma kfree_owned:
  assumes "heap_wf s" "i \<in> ids s"
  shows "live (kfree (Some i) s) = filter (\<lambda>x. fst x \<noteq> i) (live s)" "heap_wf (kfree (Some i) s)"
    "bad_free (kfree (Some i) s) = bad_free s" "next_id (kfree (Some i) s) = next_id s"
proof -
  from map_of_ids [OF assms(2)] have *: "kfree (Some i) s = s\<lparr>live := filter (\<lambda>x. fst x \<noteq> i) (live s)\<rparr>"
    by (auto simp: kfree_def)
  show "live (kfree (Some i) s) = filter (\<lambda>x. fst x \<noteq> i) (live s)" "heap_wf (kfree (Some i) s)"
    "bad_free (kfree (Some i) s) = bad_free s" "next_id (kfree (Some i) s) = next_id s"
    using assms(1) unfolding * by (auto simp: heap_wf_def distinct_map_filter)
qed

text \<open>Freeing distinct live objects removes exactly them, with no invalid free.\<close>

lemma kfrees_owned:
  assumes "heap_wf s" "distinct l" "set l \<subseteq> ids s"
  shows "live (kfrees l s) = filter (\<lambda>x. fst x \<notin> set l) (live s) \<and> heap_wf (kfrees l s)
    \<and> bad_free (kfrees l s) = bad_free s \<and> next_id (kfrees l s) = next_id s"
  using assms
proof (induction l arbitrary: s)
  case (Cons i l)
  note k = kfree_owned [of s i]
  have "set l \<subseteq> ids (kfree (Some i) s)"
    using Cons.prems k(1) by (fastforce simp: ids_def)
  with Cons k have "live (kfrees l (kfree (Some i) s)) = filter (\<lambda>x. fst x \<notin> set l) (live (kfree (Some i) s))
      \<and> heap_wf (kfrees l (kfree (Some i) s)) \<and> bad_free (kfrees l (kfree (Some i) s)) = bad_free (kfree (Some i) s)
      \<and> next_id (kfrees l (kfree (Some i) s)) = next_id (kfree (Some i) s)"
    by simp
  with k Cons.prems show ?case by (auto intro: filter_cong)
qed simp

text \<open>A call that allocates the objects \<open>l\<close>, newest last, and nothing else.\<close>

definition allocates :: "nat list \<Rightarrow> kst \<Rightarrow> kst \<Rightarrow> bool" where
  "allocates l s s' \<longleftrightarrow> heap_wf s' \<and> bad_free s' = bad_free s \<and> distinct l
     \<and> (\<exists>objs. live s' = objs @ live s \<and> set (map fst objs) = set l) \<and> (\<forall>i \<in> set l. i \<notin> ids s)"

lemma allocates_refl: "heap_wf s \<Longrightarrow> allocates [] s s"
  by (simp add: allocates_def)

lemma allocates_kalloc: "heap_wf s \<Longrightarrow> kalloc k s = (Some i, s') \<Longrightarrow> allocates [i] s s'"
  using kalloc_Some [of k s i s'] by (auto simp: allocates_def ids_def)

lemma allocates_None: "heap_wf s \<Longrightarrow> kalloc k s = (None, s') \<Longrightarrow> allocates [] s s'"
  using kalloc_None [of k s s'] by (auto simp: allocates_def)

lemma allocates_trans: "allocates l s t \<Longrightarrow> allocates l' t u \<Longrightarrow> allocates (l @ l') s u"
proof -
  assume a: "allocates l s t" "allocates l' t u"
  from a(1) obtain o1 where o1: "live t = o1 @ live s" "fst ` set o1 = set l" by (auto simp: allocates_def)
  from a(2) obtain o2 where o2: "live u = o2 @ live t" "fst ` set o2 = set l'" by (auto simp: allocates_def)
  have "ids t = set l \<union> ids s" using o1 by (auto simp: ids_def)
  then have "set l \<inter> set l' = {}" "\<forall>i \<in> set l'. i \<notin> ids s" using a(2) by (auto simp: allocates_def)
  then show ?thesis
    using a o1 o2 by (auto simp: allocates_def intro: exI [of _ "o2 @ o1"])
qed

lemma allocates_perm: "allocates l s t \<Longrightarrow> distinct l' \<Longrightarrow> set l' = set l \<Longrightarrow> allocates l' s t"
  by (auto simp: allocates_def)

lemma allocates_free:
  assumes "allocates (l @ l') s t" "distinct m" "set m = set l'"
  shows "allocates l s (kfrees m t)"
proof -
  from assms(1) obtain objs where o: "live t = objs @ live s" "fst ` set objs = set l \<union> set l'"
    and wf: "heap_wf t" "bad_free t = bad_free s" and d: "distinct (l @ l')"
    and new: "\<forall>i \<in> set (l @ l'). i \<notin> ids s"
    by (auto simp: allocates_def)
  have "set m \<subseteq> ids t" using o assms(3) by (auto simp: ids_def)
  note k = kfrees_owned [OF wf(1) assms(2) this]
  have "filter (\<lambda>x. fst x \<notin> set m) (live s) = live s"
    using new assms(3) by (auto simp: filter_id_conv ids_def)
  moreover have "fst ` {x \<in> set objs. fst x \<notin> set m} = fst ` set objs - set m" by auto
  moreover have "fst ` set objs - set m = set l" using o(2) d assms(3) by auto
  ultimately show ?thesis using k o(1) wf(2) d new
    by (auto simp: allocates_def intro!: exI [of _ "filter (\<lambda>x. fst x \<notin> set m) objs"])
qed

lemma allocates_none_live: "allocates [] s t \<Longrightarrow> live t = live s"
  by (auto simp: allocates_def)

end
