(* ===== verification/Cryptodev_Types.thy ===== *)
theory Cryptodev_Types
  imports Kernel_Env
begin

text \<open>
  The user interface of the driver, from \<open>cryptodev-linux/crypto/cryptodev.h\<close> and
  \<open>cryptodev-linux/cryptodev_int.h\<close>: the algorithm numbers, the structures that the ioctls pass
  by address with their layout in memory (x86-64, and the 32-bit layout of the compatibility
  structures), the flags of an operation and the ioctl command numbers.  A structure is a record
  with one field per member and one per padding gap, so that reading it from user memory and
  writing it back is a bijection on byte strings of its size.
\<close>

section \<open>Algorithms\<close>

datatype cryptodev_crypto_op_t =
    CRYPTO_DES_CBC | CRYPTO_3DES_CBC | CRYPTO_BLF_CBC | CRYPTO_CAST_CBC | CRYPTO_SKIPJACK_CBC
  | CRYPTO_MD5_HMAC | CRYPTO_SHA1_HMAC | CRYPTO_RIPEMD160_HMAC | CRYPTO_MD5_KPDK | CRYPTO_SHA1_KPDK
  | CRYPTO_AES_CBC | CRYPTO_ARC4 | CRYPTO_MD5 | CRYPTO_SHA1 | CRYPTO_DEFLATE_COMP | CRYPTO_NULL
  | CRYPTO_LZS_COMP | CRYPTO_SHA2_256_HMAC | CRYPTO_SHA2_384_HMAC | CRYPTO_SHA2_512_HMAC
  | CRYPTO_AES_CTR | CRYPTO_AES_XTS | CRYPTO_AES_ECB | CRYPTO_AES_GCM | CRYPTO_CAMELLIA_CBC
  | CRYPTO_RIPEMD160 | CRYPTO_SHA2_256 | CRYPTO_SHA2_384 | CRYPTO_SHA2_512 | CRYPTO_ALGORITHM_ALL

fun op_code :: "cryptodev_crypto_op_t \<Rightarrow> u32" where
  "op_code CRYPTO_DES_CBC = 1"
| "op_code CRYPTO_3DES_CBC = 2"
| "op_code CRYPTO_BLF_CBC = 3"
| "op_code CRYPTO_CAST_CBC = 4"
| "op_code CRYPTO_SKIPJACK_CBC = 5"
| "op_code CRYPTO_MD5_HMAC = 6"
| "op_code CRYPTO_SHA1_HMAC = 7"
| "op_code CRYPTO_RIPEMD160_HMAC = 8"
| "op_code CRYPTO_MD5_KPDK = 9"
| "op_code CRYPTO_SHA1_KPDK = 10"
| "op_code CRYPTO_AES_CBC = 11"
| "op_code CRYPTO_ARC4 = 12"
| "op_code CRYPTO_MD5 = 13"
| "op_code CRYPTO_SHA1 = 14"
| "op_code CRYPTO_DEFLATE_COMP = 15"
| "op_code CRYPTO_NULL = 16"
| "op_code CRYPTO_LZS_COMP = 17"
| "op_code CRYPTO_SHA2_256_HMAC = 18"
| "op_code CRYPTO_SHA2_384_HMAC = 19"
| "op_code CRYPTO_SHA2_512_HMAC = 20"
| "op_code CRYPTO_AES_CTR = 21"
| "op_code CRYPTO_AES_XTS = 22"
| "op_code CRYPTO_AES_ECB = 23"
| "op_code CRYPTO_AES_GCM = 50"
| "op_code CRYPTO_CAMELLIA_CBC = 101"
| "op_code CRYPTO_RIPEMD160 = 102"
| "op_code CRYPTO_SHA2_256 = 103"
| "op_code CRYPTO_SHA2_384 = 104"
| "op_code CRYPTO_SHA2_512 = 105"
| "op_code CRYPTO_ALGORITHM_ALL = 106"

lemma op_code_inj: "op_code a = op_code b \<longleftrightarrow> a = b"
  by (cases a; cases b) simp_all

abbreviation (input) CRYPTO_HMAC_MAX_KEY_LEN :: u32 where "CRYPTO_HMAC_MAX_KEY_LEN \<equiv> 512"
abbreviation (input) CRYPTO_CIPHER_MAX_KEY_LEN :: u32 where "CRYPTO_CIPHER_MAX_KEY_LEN \<equiv> 64"
abbreviation (input) EALG_MAX_BLOCK_LEN :: nat where "EALG_MAX_BLOCK_LEN \<equiv> 16"
abbreviation (input) AALG_MAX_RESULT_LEN :: nat where "AALG_MAX_RESULT_LEN \<equiv> 64"
abbreviation (input) CRYPTODEV_MAX_ALG_NAME :: nat where "CRYPTODEV_MAX_ALG_NAME \<equiv> 64"

section \<open>Flags\<close>

abbreviation (input) COP_ENCRYPT :: u16 where "COP_ENCRYPT \<equiv> 0"
abbreviation (input) COP_DECRYPT :: u16 where "COP_DECRYPT \<equiv> 1"

datatype cop_flag =
    COP_FLAG_UPDATE | COP_FLAG_FINAL | COP_FLAG_WRITE_IV | COP_FLAG_NO_ZC
  | COP_FLAG_AEAD_TLS_TYPE | COP_FLAG_AEAD_SRTP_TYPE | COP_FLAG_RESET

fun flag_bit :: "cop_flag \<Rightarrow> nat" where
  "flag_bit COP_FLAG_UPDATE = 0"
| "flag_bit COP_FLAG_FINAL = 1"
| "flag_bit COP_FLAG_WRITE_IV = 2"
| "flag_bit COP_FLAG_NO_ZC = 3"
| "flag_bit COP_FLAG_AEAD_TLS_TYPE = 4"
| "flag_bit COP_FLAG_AEAD_SRTP_TYPE = 5"
| "flag_bit COP_FLAG_RESET = 6"

definition flag_value :: "cop_flag \<Rightarrow> u16" where
  "flag_value f = push_bit (flag_bit f) 1"

text \<open>The test \<open>flags & COP_FLAG_x\<close> of the sources.\<close>

definition has_flag :: "u16 \<Rightarrow> cop_flag \<Rightarrow> bool" where
  "has_flag w f \<longleftrightarrow> w AND flag_value f \<noteq> 0"

lemma has_flag_bit: "has_flag w f \<longleftrightarrow> bit w (flag_bit f)"
  by (simp add: has_flag_def flag_value_def push_bit_of_1 and_exp_eq_0_iff_not_bit)

section \<open>Structures passed to the ioctls\<close>

text \<open>\<open>struct session_op\<close>: 48 bytes, padded after \<open>keylen\<close>, \<open>mackeylen\<close> and \<open>ses\<close>.\<close>

record session_op =
  sop_cipher :: u32
  sop_mac :: u32
  sop_keylen :: u32
  sop_pad1 :: u32
  sop_key :: u64
  sop_mackeylen :: u32
  sop_pad2 :: u32
  sop_mackey :: u64
  sop_ses :: u32
  sop_pad3 :: u32

definition session_op_of :: "byte list \<Rightarrow> session_op" where
  "session_op_of b =
     \<lparr>sop_cipher = get32 b 0, sop_mac = get32 b 4, sop_keylen = get32 b 8, sop_pad1 = get32 b 12,
      sop_key = get64 b 16, sop_mackeylen = get32 b 24, sop_pad2 = get32 b 28,
      sop_mackey = get64 b 32, sop_ses = get32 b 40, sop_pad3 = get32 b 44\<rparr>"

definition session_op_bytes :: "session_op \<Rightarrow> byte list" where
  "session_op_bytes x =
     put32 (sop_cipher x) @ put32 (sop_mac x) @ put32 (sop_keylen x) @ put32 (sop_pad1 x)
     @ put64 (sop_key x) @ put32 (sop_mackeylen x) @ put32 (sop_pad2 x)
     @ put64 (sop_mackey x) @ put32 (sop_ses x) @ put32 (sop_pad3 x)"

text \<open>\<open>struct crypt_op\<close>: 48 bytes, padded after \<open>len\<close>.\<close>

record crypt_op =
  cop_ses :: u32
  cop_op :: u16
  cop_flags :: u16
  cop_len :: u32
  cop_pad :: u32
  cop_src :: u64
  cop_dst :: u64
  cop_mac :: u64
  cop_iv :: u64

definition crypt_op_of :: "byte list \<Rightarrow> crypt_op" where
  "crypt_op_of b =
     \<lparr>cop_ses = get32 b 0, cop_op = get16 b 4, cop_flags = get16 b 6, cop_len = get32 b 8,
      cop_pad = get32 b 12, cop_src = get64 b 16, cop_dst = get64 b 24, cop_mac = get64 b 32,
      cop_iv = get64 b 40\<rparr>"

definition crypt_op_bytes :: "crypt_op \<Rightarrow> byte list" where
  "crypt_op_bytes x =
     put32 (cop_ses x) @ put16 (cop_op x) @ put16 (cop_flags x) @ put32 (cop_len x)
     @ put32 (cop_pad x) @ put64 (cop_src x) @ put64 (cop_dst x) @ put64 (cop_mac x)
     @ put64 (cop_iv x)"

text \<open>\<open>struct crypt_auth_op\<close>: 72 bytes, padded after \<open>tag_len\<close> and \<open>iv_len\<close>.\<close>

record crypt_auth_op =
  caop_ses :: u32
  caop_op :: u16
  caop_flags :: u16
  caop_len :: u32
  caop_auth_len :: u32
  caop_auth_src :: u64
  caop_src :: u64
  caop_dst :: u64
  caop_tag :: u64
  caop_tag_len :: u32
  caop_pad1 :: u32
  caop_iv :: u64
  caop_iv_len :: u32
  caop_pad2 :: u32

definition crypt_auth_op_of :: "byte list \<Rightarrow> crypt_auth_op" where
  "crypt_auth_op_of b =
     \<lparr>caop_ses = get32 b 0, caop_op = get16 b 4, caop_flags = get16 b 6, caop_len = get32 b 8,
      caop_auth_len = get32 b 12, caop_auth_src = get64 b 16, caop_src = get64 b 24,
      caop_dst = get64 b 32, caop_tag = get64 b 40, caop_tag_len = get32 b 48,
      caop_pad1 = get32 b 52, caop_iv = get64 b 56, caop_iv_len = get32 b 64,
      caop_pad2 = get32 b 68\<rparr>"

definition crypt_auth_op_bytes :: "crypt_auth_op \<Rightarrow> byte list" where
  "crypt_auth_op_bytes x =
     put32 (caop_ses x) @ put16 (caop_op x) @ put16 (caop_flags x) @ put32 (caop_len x)
     @ put32 (caop_auth_len x) @ put64 (caop_auth_src x) @ put64 (caop_src x)
     @ put64 (caop_dst x) @ put64 (caop_tag x) @ put32 (caop_tag_len x) @ put32 (caop_pad1 x)
     @ put64 (caop_iv x) @ put32 (caop_iv_len x) @ put32 (caop_pad2 x)"

text \<open>
  \<open>struct session_info_op\<close>: 268 bytes; the four names are arrays of 64 characters, the gap is
  after the 16-bit \<open>alignmask\<close>.
\<close>

record session_info_op =
  siop_ses :: u32
  siop_cipher_name :: "byte list"
  siop_cipher_driver :: "byte list"
  siop_hash_name :: "byte list"
  siop_hash_driver :: "byte list"
  siop_alignmask :: u16
  siop_pad :: u16
  siop_flags :: u32

definition session_info_op_of :: "byte list \<Rightarrow> session_info_op" where
  "session_info_op_of b =
     \<lparr>siop_ses = get32 b 0, siop_cipher_name = take 64 (drop 4 b),
      siop_cipher_driver = take 64 (drop 68 b), siop_hash_name = take 64 (drop 132 b),
      siop_hash_driver = take 64 (drop 196 b), siop_alignmask = get16 b 260,
      siop_pad = get16 b 262, siop_flags = get32 b 264\<rparr>"

definition session_info_op_bytes :: "session_info_op \<Rightarrow> byte list" where
  "session_info_op_bytes x =
     put32 (siop_ses x) @ siop_cipher_name x @ siop_cipher_driver x @ siop_hash_name x
     @ siop_hash_driver x @ put16 (siop_alignmask x) @ put16 (siop_pad x) @ put32 (siop_flags x)"

text \<open>The structures of 32-bit callers: no padding, 28 bytes each.\<close>

record compat_session_op =
  csop_cipher :: u32
  csop_mac :: u32
  csop_keylen :: u32
  csop_key :: u32
  csop_mackeylen :: u32
  csop_mackey :: u32
  csop_ses :: u32

definition compat_session_op_of :: "byte list \<Rightarrow> compat_session_op" where
  "compat_session_op_of b =
     \<lparr>csop_cipher = get32 b 0, csop_mac = get32 b 4, csop_keylen = get32 b 8,
      csop_key = get32 b 12, csop_mackeylen = get32 b 16, csop_mackey = get32 b 20,
      csop_ses = get32 b 24\<rparr>"

definition compat_session_op_bytes :: "compat_session_op \<Rightarrow> byte list" where
  "compat_session_op_bytes x =
     put32 (csop_cipher x) @ put32 (csop_mac x) @ put32 (csop_keylen x) @ put32 (csop_key x)
     @ put32 (csop_mackeylen x) @ put32 (csop_mackey x) @ put32 (csop_ses x)"

record compat_crypt_op =
  ccop_ses :: u32
  ccop_op :: u16
  ccop_flags :: u16
  ccop_len :: u32
  ccop_src :: u32
  ccop_dst :: u32
  ccop_mac :: u32
  ccop_iv :: u32

definition compat_crypt_op_of :: "byte list \<Rightarrow> compat_crypt_op" where
  "compat_crypt_op_of b =
     \<lparr>ccop_ses = get32 b 0, ccop_op = get16 b 4, ccop_flags = get16 b 6, ccop_len = get32 b 8,
      ccop_src = get32 b 12, ccop_dst = get32 b 16, ccop_mac = get32 b 20, ccop_iv = get32 b 24\<rparr>"

definition compat_crypt_op_bytes :: "compat_crypt_op \<Rightarrow> byte list" where
  "compat_crypt_op_bytes x =
     put32 (ccop_ses x) @ put16 (ccop_op x) @ put16 (ccop_flags x) @ put32 (ccop_len x)
     @ put32 (ccop_src x) @ put32 (ccop_dst x) @ put32 (ccop_mac x) @ put32 (ccop_iv x)"

section \<open>Round trips\<close>

text \<open>
  The contract of a structure layout: encoding has a fixed size and is the inverse of decoding.
  What the ioctl layer needs from it is that a structure copied out to the user is the one a later
  copy in reads.
\<close>

locale wire_format =
  fixes dec :: "byte list \<Rightarrow> 'a" and enc :: "'a \<Rightarrow> byte list" and sz :: nat
    and ok :: "'a \<Rightarrow> bool"
  assumes length_enc: "ok x \<Longrightarrow> length (enc x) = sz"
    and dec_enc: "ok x \<Longrightarrow> dec (enc x) = x"
    and enc_dec: "length bs = sz \<Longrightarrow> enc (dec bs) = bs"
    and ok_dec: "length bs = sz \<Longrightarrow> ok (dec bs)"
    and sz_small: "sz \<le> 2 ^ 64"
begin

lemma read_back:
  assumes "copy_to_user m a (enc x) = (0, m')" "ok x"
  shows "map_option dec (copy_from_user m' a sz) = Some x"
  using user.load_after_store [OF assms(1)] assms(2) sz_small
  by (simp add: length_enc dec_enc)

lemma read_then_write:
  assumes "copy_from_user m a sz = Some bs"
  shows "enc (dec bs) = bs"
  using assms by (intro enc_dec) (rule length_load_bytes)

end

lemma get_append [simp]:
  "get16 (put16 a @ r) 0 = a" "get32 (put32 b @ r) 0 = b" "get64 (put64 c @ r) 0 = c"
  by (simp_all add: get16_def get32_def get64_def field_def)

lemma get_skip [layout_simps]:
  "length p \<le> off \<Longrightarrow> get16 (p @ r) off = get16 r (off - length p)"
  "length p \<le> off \<Longrightarrow> get32 (p @ r) off = get32 r (off - length p)"
  "length p \<le> off \<Longrightarrow> get64 (p @ r) off = get64 r (off - length p)"
  by (simp_all add: get16_def get32_def get64_def field_def)

lemma get_last [simp]: "get32 (put32 b) 0 = b" "get64 (put64 c) 0 = c"
  using get_append(2) [of b "[]"] get_append(3) [of c "[]"] by simp_all

lemma put_get [layout_simps]:
  "off + 2 \<le> length bs \<Longrightarrow> put16 (get16 bs off) = take 2 (drop off bs)"
  "off + 4 \<le> length bs \<Longrightarrow> put32 (get32 bs off) = take 4 (drop off bs)"
  "off + 8 \<le> length bs \<Longrightarrow> put64 (get64 bs off) = take 8 (drop off bs)"
  by (simp_all add: get16_def get32_def get64_def field_def put_of_le_nat)

lemma take_drop_join [layout_simps]: "j = i + n \<Longrightarrow> take n (drop i bs) @ drop j bs = drop i bs"
  by (metis add.commute append_take_drop_id drop_drop)

interpretation session_op: wire_format session_op_of session_op_bytes 48 "\<lambda>_. True"
  by unfold_locales (simp_all add: session_op_of_def session_op_bytes_def layout_simps)

interpretation crypt_op: wire_format crypt_op_of crypt_op_bytes 48 "\<lambda>_. True"
  by unfold_locales (simp_all add: crypt_op_of_def crypt_op_bytes_def layout_simps)

interpretation crypt_auth_op: wire_format crypt_auth_op_of crypt_auth_op_bytes 72 "\<lambda>_. True"
  by unfold_locales (simp_all add: crypt_auth_op_of_def crypt_auth_op_bytes_def layout_simps)

interpretation compat_session_op:
  wire_format compat_session_op_of compat_session_op_bytes 28 "\<lambda>_. True"
  by unfold_locales (simp_all add: compat_session_op_of_def compat_session_op_bytes_def layout_simps)

interpretation compat_crypt_op:
  wire_format compat_crypt_op_of compat_crypt_op_bytes 28 "\<lambda>_. True"
  by unfold_locales (simp_all add: compat_crypt_op_of_def compat_crypt_op_bytes_def layout_simps)

definition siop_ok :: "session_info_op \<Rightarrow> bool" where
  "siop_ok x \<longleftrightarrow> length (siop_cipher_name x) = 64 \<and> length (siop_cipher_driver x) = 64
     \<and> length (siop_hash_name x) = 64 \<and> length (siop_hash_driver x) = 64"

interpretation session_info_op:
  wire_format session_info_op_of session_info_op_bytes 268 siop_ok
  by unfold_locales
    (simp_all add: session_info_op_of_def session_info_op_bytes_def siop_ok_def layout_simps)

section \<open>Command numbers\<close>

text \<open>\<open>_IOC(dir, type, nr, size)\<close> of the kernel's ioctl header, with \<open>_IOW\<close>, \<open>_IOR\<close> and \<open>_IOWR\<close>.\<close>

definition IOC :: "nat \<Rightarrow> nat \<Rightarrow> nat \<Rightarrow> nat \<Rightarrow> u32" where
  "IOC dir typ nr sz =
     push_bit 30 (of_nat dir) OR push_bit 16 (of_nat sz) OR push_bit 8 (of_nat typ) OR of_nat nr"

datatype ioctl_cmd =
    CRIOGET | CIOCGSESSION | CIOCFSESSION | CIOCCRYPT | CIOCKEY | CIOCASYMFEAT | CIOCGSESSINFO
  | CIOCASYNCCRYPT | CIOCASYNCFETCH | CIOCAUTHCRYPT

fun cmd_code :: "ioctl_cmd \<Rightarrow> u32" where
  "cmd_code CRIOGET = IOC 3 99 101 4"
| "cmd_code CIOCGSESSION = IOC 3 99 102 48"
| "cmd_code CIOCFSESSION = IOC 1 99 103 4"
| "cmd_code CIOCCRYPT = IOC 3 99 104 48"
| "cmd_code CIOCKEY = IOC 3 99 105 144"
| "cmd_code CIOCASYMFEAT = IOC 2 99 106 4"
| "cmd_code CIOCGSESSINFO = IOC 3 99 107 268"
| "cmd_code CIOCASYNCCRYPT = IOC 1 99 107 48"
| "cmd_code CIOCASYNCFETCH = IOC 2 99 108 48"
| "cmd_code CIOCAUTHCRYPT = IOC 3 99 109 72"

datatype compat_cmd =
    COMPAT_CIOCGSESSION | COMPAT_CIOCCRYPT | COMPAT_CIOCASYNCCRYPT | COMPAT_CIOCASYNCFETCH

fun compat_code :: "compat_cmd \<Rightarrow> u32" where
  "compat_code COMPAT_CIOCGSESSION = IOC 3 99 102 28"
| "compat_code COMPAT_CIOCCRYPT = IOC 3 99 104 28"
| "compat_code COMPAT_CIOCASYNCCRYPT = IOC 1 99 107 28"
| "compat_code COMPAT_CIOCASYNCFETCH = IOC 2 99 108 28"

lemma cmd_code_inj: "cmd_code a = cmd_code b \<longleftrightarrow> a = b"
  by (cases a; cases b) (simp_all add: IOC_def)

lemma compat_code_inj: "compat_code a = compat_code b \<longleftrightarrow> a = b"
  by (cases a; cases b) (simp_all add: IOC_def)

lemma cmd_compat_distinct: "cmd_code a \<noteq> compat_code b"
  by (cases a; cases b) (simp_all add: IOC_def)

end
