(* ===== verification/Guest_Memory.thy ===== *)
theory Guest_Memory
  imports Cryptodev_Types
begin

text \<open>
  The physical memory of the guest as the emulator accesses it: little-endian loads and stores
  (\<open>lduw_phys\<close>, \<open>stl_phys\<close>, ...) and the transfers through mapped buffers.  Memory is a total
  function on addresses; which ranges can be mapped is an argument of the operations that map.
  The section on address lists has the reference definitions for scattered buffers: what is read
  through, and written through, a list of addresses.
\<close>

type_synonym gmem = "u64 \<Rightarrow> byte"

definition peek :: "gmem \<Rightarrow> u64 \<Rightarrow> nat \<Rightarrow> byte list" where
  "peek m a n = map (\<lambda>i. m (a + of_nat i)) [0..<n]"

definition poke :: "gmem \<Rightarrow> u64 \<Rightarrow> byte list \<Rightarrow> gmem" where
  "poke m a bs = (\<lambda>x. if in_range a (length bs) x then bs ! unat (x - a) else m x)"

definition lduw_phys :: "gmem \<Rightarrow> u64 \<Rightarrow> u16" where "lduw_phys m a = get16 (peek m a 2) 0"
definition ldl_phys :: "gmem \<Rightarrow> u64 \<Rightarrow> u32" where "ldl_phys m a = get32 (peek m a 4) 0"
definition ldq_phys :: "gmem \<Rightarrow> u64 \<Rightarrow> u64" where "ldq_phys m a = get64 (peek m a 8) 0"
definition stw_phys :: "gmem \<Rightarrow> u64 \<Rightarrow> u16 \<Rightarrow> gmem" where "stw_phys m a v = poke m a (put16 v)"
definition stl_phys :: "gmem \<Rightarrow> u64 \<Rightarrow> u32 \<Rightarrow> gmem" where "stl_phys m a v = poke m a (put32 v)"

lemma length_peek [simp]: "length (peek m a n) = n"
  by (simp add: peek_def)

lemma peek_cong: "(\<And>i. i < n \<Longrightarrow> m (a + of_nat i) = m' (a + of_nat i)) \<Longrightarrow> peek m a n = peek m' a n"
  by (simp add: peek_def)

lemma poke_other: "\<not> in_range a (length bs) x \<Longrightarrow> poke m a bs x = m x"
  by (simp add: poke_def)

lemma peek_poke_same: "length bs \<le> 2 ^ 64 \<Longrightarrow> peek (poke m a bs) a (length bs) = bs"
  by (rule nth_equalityI) (auto simp: peek_def poke_def in_range_def unat_of_nat_small)

lemma peek_poke_other: "disjoint_ranges c n a (length bs) \<Longrightarrow> peek (poke m a bs) c n = peek m c n"
  by (rule peek_cong) (auto simp: disjoint_ranges_def poke_other)

lemma peek_part: "i + n \<le> k \<Longrightarrow> peek g (a + of_nat i) n = take n (drop i (peek g a k))"
  by (rule nth_equalityI) (simp_all add: peek_def add.assoc)

lemma peek_poke_part:
  assumes "i + length bs \<le> k" "k < 2 ^ 64"
  shows "peek (poke g (a + of_nat i) bs) a k = splice_at i bs (peek g a k)"
proof (rule nth_equalityI)
  show "length (peek (poke g (a + of_nat i) bs) a k) = length (splice_at i bs (peek g a k))" using assms by simp
  fix j assume "j < length (peek (poke g (a + of_nat i) bs) a k)"
  then have j: "j < k" by simp
  have off: "a + of_nat j - (a + of_nat i) = (of_nat j - of_nat i :: u64)" by simp
  have "unat (of_nat j - of_nat i :: u64) = (if i \<le> j then j - i else 2 ^ 64 - (i - j))" 
    using j assms by (auto simp: unat_sub_if' unat_of_nat)
  then show "peek (poke g (a + of_nat i) bs) a k ! j = splice_at i bs (peek g a k) ! j"
    using j assms by (subst nth_splice_at) (auto simp: peek_def poke_def in_range_def off)
qed

lemma get16_put16 [simp]: "get16 (put16 v) 0 = v"
  using get_append(1) [of v "[]"] by simp

lemma ld_st_same [simp]: "lduw_phys (stw_phys m a v) a = v" "ldl_phys (stl_phys m a w) a = w"
  using peek_poke_same [of "put16 v" m a] peek_poke_same [of "put32 w" m a]
  by (simp_all add: lduw_phys_def stw_phys_def ldl_phys_def stl_phys_def)

lemma ld_poke_other:
  "disjoint_ranges c 2 a (length bs) \<Longrightarrow> lduw_phys (poke m a bs) c = lduw_phys m c"
  "disjoint_ranges c 4 a (length bs) \<Longrightarrow> ldl_phys (poke m a bs) c = ldl_phys m c"
  "disjoint_ranges c 8 a (length bs) \<Longrightarrow> ldq_phys (poke m a bs) c = ldq_phys m c"
  by (simp_all add: lduw_phys_def ldl_phys_def ldq_phys_def peek_poke_other)

section \<open>Address lists\<close>

definition addrs :: "u64 \<Rightarrow> nat \<Rightarrow> u64 list" where
  "addrs a n = map (\<lambda>i. a + of_nat i) [0..<n]"

fun scatter :: "gmem \<Rightarrow> u64 list \<Rightarrow> byte list \<Rightarrow> gmem" where
  "scatter m (a # as) (b # bs) = scatter (m(a := b)) as bs"
| "scatter m _ _ = m"

lemma length_addrs [simp]: "length (addrs a n) = n"
  by (simp add: addrs_def)

lemma peek_addrs: "peek m a n = map m (addrs a n)"
  by (simp add: peek_def addrs_def)

lemma addrs_Suc: "addrs a (Suc n) = a # addrs (a + 1) n"
  by (simp add: addrs_def map_upt_Suc add.assoc del: upt_Suc)

lemma set_addrs: "n \<le> 2 ^ 64 \<Longrightarrow> set (addrs a n) = {x. in_range a n x}"
proof -
  assume n: "n \<le> 2 ^ 64"
  have "x \<in> set (addrs a n)" if "in_range a n x" for x
  proof -
    have "a + of_nat (unat (x - a)) = x" by (simp only: of_nat_unat ucast_id) simp
    with that show ?thesis unfolding addrs_def in_range_def set_map by (intro image_eqI [of _ _ "unat (x - a)"]) auto
  qed
  then show ?thesis using n in_range_offset [of _ n a] by (auto simp: addrs_def)
qed

lemma distinct_addrs: "n \<le> 2 ^ 64 \<Longrightarrow> distinct (addrs a n)"
proof -
  assume n: "n \<le> 2 ^ 64"
  have "i = j" if "i < n" "j < n" "(of_nat i :: u64) = of_nat j" for i j
  proof -
    have "unat (of_nat i :: u64) = i" "unat (of_nat j :: u64) = j" using that(1,2) n by (auto intro: unat_of_nat_small)
    with that(3) show ?thesis by metis
  qed
  then show ?thesis by (auto simp: addrs_def distinct_map inj_on_def)
qed

lemma scatter_Nil2 [simp]: "scatter m as [] = m"
  by (cases as) simp_all

lemma scatter_append:
  "length as = length bs \<Longrightarrow> scatter m (as @ as') (bs @ bs') = scatter (scatter m as bs) as' bs'"
  by (induction m as bs rule: scatter.induct) simp_all

lemma scatter_take: "scatter m (take (length bs) as) bs = scatter m as bs"
proof (induction bs arbitrary: m as)
  case (Cons b bs)
  then show ?case by (cases as) (auto simp: fun_upd_def)
qed simp

lemma scatter_other: "x \<notin> set (take (length bs) as) \<Longrightarrow> scatter m as bs x = m x"
  by (induction m as bs rule: scatter.induct) auto

lemma map_scatter: "distinct as \<Longrightarrow> length as = length bs \<Longrightarrow> map (scatter m as bs) as = bs"
proof (induction m as bs rule: scatter.induct)
  case (1 m a as b bs)
  then have "scatter (m(a := b)) as bs a = b" using scatter_other [of a bs as "m(a := b)"] by (auto dest: in_set_takeD)
  with 1 show ?case by (simp add: fun_upd_def)
qed simp_all

lemma poke_Cons: "length bs < 2 ^ 64 \<Longrightarrow> poke m a (b # bs) = poke (m(a := b)) (a + 1) bs"
proof
  fix x assume n: "length bs < 2 ^ 64"
  have a: "\<not> in_range (a + 1) (length bs) a"
    using n by (simp add: in_range_def unsigned_minus_1_eq_mask mask_eq_exp_minus_1)
  show "poke m a (b # bs) x = poke (m(a := b)) (a + 1) bs x"
  proof (cases "x = a")
    case True
    with a show ?thesis by (simp add: poke_def in_range_def)
  next
    case False
    then have "unat (x - (a + 1)) = unat (x - a) - 1" "0 < unat (x - a)"
      using unat_minus_one [of "x - a"] by (simp_all add: diff_diff_eq unat_gt_0)
    with False in_range_Suc [OF n, of a x] show ?thesis by (auto simp: poke_def nth_Cons')
  qed
qed

lemma poke_scatter: "length bs \<le> 2 ^ 64 \<Longrightarrow> poke m a bs = scatter m (addrs a (length bs)) bs"
proof (induction bs arbitrary: m a)
  case Nil
  then show ?case by (simp add: poke_def)
next
  case (Cons b bs)
  then show ?case by (simp add: poke_Cons addrs_Suc)
qed

end
