(* ===== verification/Iov.thy ===== *)
theory Iov
  imports Guest_Memory
begin

text \<open>
  Scatter/gather vectors (\<open>qemu-1.2.0/iov.c\<close>).  Lengths and offsets are \<open>size_t\<close>, so they are 64-bit
  words; a failing assertion is \<open>None\<close>.  The theorems compare the routines, which walk the vector,
  with reading and writing through the flat list of the addresses it covers.
\<close>

record iovec =
  iov_base :: u64
  iov_len :: u64

fun from_buf_loop :: "iovec list \<Rightarrow> u64 \<Rightarrow> byte list \<Rightarrow> u64 \<Rightarrow> u64 \<Rightarrow> gmem \<Rightarrow> u64 \<times> u64 \<times> gmem" where
  "from_buf_loop [] offset buf bytes done m = (offset, done, m)"
| "from_buf_loop (v # vs) offset buf bytes done m =
     (if offset \<noteq> 0 \<or> done < bytes then
        (if offset < iov_len v then
           (let len = min (iov_len v - offset) (bytes - done)
            in from_buf_loop vs 0 buf bytes (done + len)
                 (poke m (iov_base v + offset) (take (unat len) (drop (unat done) buf))))
         else from_buf_loop vs (offset - iov_len v) buf bytes done m)
      else (offset, done, m))"

definition iov_from_buf :: "iovec list \<Rightarrow> u64 \<Rightarrow> byte list \<Rightarrow> u64 \<Rightarrow> gmem \<Rightarrow> (u64 \<times> gmem) option" where
  "iov_from_buf iov offset buf bytes m =
     (case from_buf_loop iov offset buf bytes 0 m of
        (offset', done, m') \<Rightarrow> if offset' = 0 then Some (done, m') else None)"

text \<open>The buffer that is filled is given by the bytes it ends up with.\<close>

fun to_buf_loop :: "iovec list \<Rightarrow> u64 \<Rightarrow> u64 \<Rightarrow> u64 \<Rightarrow> gmem \<Rightarrow> byte list \<Rightarrow> u64 \<times> u64 \<times> byte list" where
  "to_buf_loop [] offset bytes done m buf = (offset, done, buf)"
| "to_buf_loop (v # vs) offset bytes done m buf =
     (if offset \<noteq> 0 \<or> done < bytes then
        (if offset < iov_len v then
           (let len = min (iov_len v - offset) (bytes - done)
            in to_buf_loop vs 0 bytes (done + len) m (buf @ peek m (iov_base v + offset) (unat len)))
         else to_buf_loop vs (offset - iov_len v) bytes done m buf)
      else (offset, done, buf))"

definition iov_to_buf :: "iovec list \<Rightarrow> u64 \<Rightarrow> u64 \<Rightarrow> gmem \<Rightarrow> (u64 \<times> byte list) option" where
  "iov_to_buf iov offset bytes m =
     (case to_buf_loop iov offset bytes 0 m [] of
        (offset', done, buf) \<Rightarrow> if offset' = 0 then Some (done, buf) else None)"

fun memset_loop :: "iovec list \<Rightarrow> u64 \<Rightarrow> byte \<Rightarrow> u64 \<Rightarrow> u64 \<Rightarrow> gmem \<Rightarrow> u64 \<times> u64 \<times> gmem" where
  "memset_loop [] offset fillc bytes done m = (offset, done, m)"
| "memset_loop (v # vs) offset fillc bytes done m =
     (if offset \<noteq> 0 \<or> done < bytes then
        (if offset < iov_len v then
           (let len = min (iov_len v - offset) (bytes - done)
            in memset_loop vs 0 fillc bytes (done + len) (poke m (iov_base v + offset) (replicate (unat len) fillc)))
         else memset_loop vs (offset - iov_len v) fillc bytes done m)
      else (offset, done, m))"

definition iov_memset :: "iovec list \<Rightarrow> u64 \<Rightarrow> int \<Rightarrow> u64 \<Rightarrow> gmem \<Rightarrow> (u64 \<times> gmem) option" where
  "iov_memset iov offset fillc bytes m =
     (case memset_loop iov offset (word_of_int fillc) bytes 0 m of
        (offset', done, m') \<Rightarrow> if offset' = 0 then Some (done, m') else None)"

definition iov_size :: "iovec list \<Rightarrow> u64" where
  "iov_size iov = foldl (\<lambda>len v. len + iov_len v) 0 iov"

section \<open>Sending and receiving\<close>

text \<open>
  The system call is an argument: given the vector and the state of the world it returns its
  result, whether it failed with \<open>EINTR\<close>, and the new state.  The retry loop need not end.
\<close>

partial_function (option) do_send_recv ::
  "(iovec list \<Rightarrow> 'w \<Rightarrow> int \<times> bool \<times> 'w) \<Rightarrow> iovec list \<Rightarrow> 'w \<Rightarrow> (int \<times> 'w) option" where
  "do_send_recv sys iov w =
     (case sys iov w of (ret, eintr, w') \<Rightarrow> if ret < 0 \<and> eintr then do_send_recv sys iov w' else Some (ret, w'))"

declare do_send_recv.simps [code]

text \<open>Skipping the elements that lie completely within the first \<open>n\<close> bytes.\<close>

fun iov_skip :: "iovec list \<Rightarrow> u64 \<Rightarrow> nat \<times> u64" where
  "iov_skip [] n = (0, n)"
| "iov_skip (v # vs) n =
     (if iov_len v \<le> n then (case iov_skip vs (n - iov_len v) of (k, r) \<Rightarrow> (Suc k, r)) else (0, n))"

definition iov_send_recv ::
  "(iovec list \<Rightarrow> 'w \<Rightarrow> int \<times> bool \<times> 'w) \<Rightarrow> iovec list \<Rightarrow> u64 \<Rightarrow> u64 \<Rightarrow> 'w \<Rightarrow> (int \<times> iovec list \<times> 'w) option" where
  "iov_send_recv sys iov offset0 bytes0 w =
     (if bytes0 = 0 then Some (0, iov, w)
      else
        (case iov_skip iov offset0 of
           (si, offset) \<Rightarrow>
             if offset \<noteq> 0 \<and> \<not> si < length iov then None
             else
               (let iov1 = (if offset \<noteq> 0
                            then iov[si := (iov ! si)\<lparr>iov_base := iov_base (iov ! si) + offset, iov_len := iov_len (iov ! si) - offset\<rparr>]
                            else iov)
                in case iov_skip (drop si iov1) bytes0 of
                     (k, bytes1) \<Rightarrow>
                       (let ei = si + k
                        in if bytes1 \<noteq> 0 \<and> (\<not> ei < length iov1 \<or> \<not> bytes1 < iov_len (iov1 ! ei)) then None
                           else
                             (let tail = iov_len (iov1 ! ei) - bytes1;
                                  iov2 = (if bytes1 \<noteq> 0 then iov1[ei := (iov1 ! ei)\<lparr>iov_len := bytes1\<rparr>] else iov1);
                                  bytes = (if bytes1 \<noteq> 0 then tail else bytes1);
                                  ei' = (if bytes1 \<noteq> 0 then Suc ei else ei)
                              in do {
                                   (ret, w') \<leftarrow> do_send_recv sys (take (ei' - si) (drop si iov2)) w;
                                   let iov3 = (if offset \<noteq> 0
                                               then iov2[si := (iov2 ! si)\<lparr>iov_base := iov_base (iov2 ! si) - offset,
                                                                           iov_len := iov_len (iov2 ! si) + offset\<rparr>]
                                               else iov2);
                                   let iov4 = (if bytes \<noteq> 0
                                               then iov3[ei' - 1 := (iov3 ! (ei' - 1))\<lparr>iov_len := iov_len (iov3 ! (ei' - 1)) + bytes\<rparr>]
                                               else iov3);
                                   Some (ret, iov4, w')
                                 })))))"

section \<open>The flat view\<close>

definition iov_addrs :: "iovec list \<Rightarrow> u64 list" where
  "iov_addrs iov = concat (map (\<lambda>v. addrs (iov_base v) (unat (iov_len v))) iov)"

lemma iov_addrs_simps [simp]: "iov_addrs [] = []"
  "iov_addrs (v # vs) = addrs (iov_base v) (unat (iov_len v)) @ iov_addrs vs"
  by (simp_all add: iov_addrs_def)

lemma iov_addrs_append [simp]: "iov_addrs (vs @ ws) = iov_addrs vs @ iov_addrs ws"
  by (simp add: iov_addrs_def)

lemma unat_minus: "b \<le> a \<Longrightarrow> unat (a - b) = unat a - unat (b :: u64)"
  by (rule unat_sub)

lemma drop_addrs: "k \<le> n \<Longrightarrow> drop k (addrs a n) = addrs (a + of_nat k) (n - k)"
  by (rule nth_equalityI) (auto simp: addrs_def add.assoc)

lemma take_addrs: "k \<le> n \<Longrightarrow> take k (addrs a n) = addrs a k"
  by (rule nth_equalityI) (auto simp: addrs_def)


lemma min_word: "unat (min a (b :: u64)) = min (unat a) (unat b)"
  by (auto simp: min_def word_le_nat_alt)

lemma step_len:
  fixes off l b d :: u64
  assumes "off < l" "d \<le> b"
  shows "unat (min (l - off) (b - d)) = min (unat l - unat off) (unat b - unat d)"
    "unat (d + min (l - off) (b - d)) = unat d + min (unat l - unat off) (unat b - unat d)"
proof -
  have "unat (l - off) = unat l - unat off" "unat (b - d) = unat b - unat d"
    using assms by (simp_all add: unat_minus less_imp_le)
  then show 1: "unat (min (l - off) (b - d)) = min (unat l - unat off) (unat b - unat d)" by (simp only: min_word)
  have "unat d + min (unat l - unat off) (unat b - unat d) \<le> unat b" using assms(2) by (simp add: word_le_nat_alt)
  also have "unat b < 2 ^ 64" using unat_bound [of b] by simp
  finally have "unat d + unat (min (l - off) (b - d)) < 2 ^ 64" by (simp only: 1)
  then show "unat (d + min (l - off) (b - d)) = unat d + min (unat l - unat off) (unat b - unat d)"
    using 1 by (simp add: unat_word_ariths(1))
qed

text \<open>The step shared by the loops: the part of the first element that is used, and the rest.\<close>

lemma drop_first:
  assumes "unat off \<le> unat l"
  shows "drop (unat off) (addrs a (unat l) @ R) = addrs (a + off) (unat l - unat off) @ R"
proof -
  have "(of_nat (unat off) :: u64) = off" by (simp only: of_nat_unat ucast_id)
  with drop_addrs [OF assms, of a] show ?thesis using assms by simp
qed

lemma from_buf_loop_flat:
  assumes "done \<le> bytes" "unat bytes \<le> length buf"
  shows "if unat offset \<le> length (iov_addrs iov)
    then from_buf_loop iov offset buf bytes done m
      = (0, done + of_nat (min (length (iov_addrs iov) - unat offset) (unat bytes - unat done)),
         scatter m (drop (unat offset) (iov_addrs iov)) (take (unat bytes - unat done) (drop (unat done) buf)))
    else fst (from_buf_loop iov offset buf bytes done m) \<noteq> 0"
  using assms
proof (induction iov arbitrary: offset "done" m)
  case Nil
  then show ?case by (auto simp: unat_eq_zero)
next
  case (Cons v vs)
  note db = Cons.prems(1) and bb = Cons.prems(2)
  show ?case
  proof (cases "offset < iov_len v")
    case off: True
    then have o: "unat offset < unat (iov_len v)" by (simp add: word_less_nat_alt)
    define len where "len = min (iov_len v - offset) (bytes - done)"
    define k where "k = min (unat (iov_len v) - unat offset) (unat bytes - unat done)"
    have l: "unat len = k" "unat (done + len) = unat done + k" using step_len [OF off db] by (simp_all add: len_def k_def)
    define X where "X = take (unat bytes - unat done) (drop (unat done) buf)"
    have lX: "length X = unat bytes - unat done" using db bb by (simp add: X_def word_le_nat_alt)
    define A where "A = addrs (iov_base v + offset) (unat (iov_len v) - unat offset)"
    define R where "R = iov_addrs vs"
    have D: "drop (unat offset) (iov_addrs (v # vs)) = A @ R" using drop_first [of offset "iov_len v"] o by (simp add: A_def R_def)
    have lA: "length A = unat (iov_len v) - unat offset" by (simp add: A_def)
    have LA: "length (iov_addrs (v # vs)) - unat offset = length A + length R" using arg_cong [OF D, of length] by simp
    define m1 where "m1 = poke m (iov_base v + offset) (take k X)"
    have X2: "take k (drop (unat done) buf) = take k X" by (simp add: X_def k_def min_def)
    have k64: "k \<le> 2 ^ 64" using unat_bound [of len] l(1) by simp
    have m1: "m1 = scatter m (take k A) (take k X)"
      using poke_scatter [of "take k X" m "iov_base v + offset"] k64 lX
      by (simp add: m1_def k_def A_def take_addrs min_def)
    have dl: "done + len \<le> bytes" using l(2) db by (simp add: word_le_nat_alt k_def)
    have top: "from_buf_loop (v # vs) offset buf bytes done m
        = (if offset \<noteq> 0 \<or> done < bytes then from_buf_loop vs 0 buf bytes (done + len) m1 else (offset, done, m))"
      using off by (simp add: Let_def len_def [symmetric] l(1) m1_def X2)
    have IH: "from_buf_loop vs 0 buf bytes (done + len) m1
      = (0, done + len + of_nat (min (length R) (unat bytes - unat done - k)), scatter m1 R (drop k X))"
      using Cons.IH [OF dl bb, of 0 m1] by (simp add: R_def l(2) X_def drop_take add.commute)
    have ofk: "(of_nat k :: u64) = len" unfolding l(1) [symmetric] by (simp only: of_nat_unat ucast_id)
    have cnt: "len + of_nat (min (length R) (unat bytes - unat done - k)) = of_nat (min (length A + length R) (unat bytes - unat done))"
    proof -
      have "k + min r (b - k) = min (n + r) b" if "k = min n b" for n r b using that by (auto simp: min_def)
      from this [of "length A" "unat bytes - unat done" "length R"] show ?thesis
        unfolding ofk [symmetric] of_nat_add [symmetric] by (simp add: k_def lA)
    qed
    have sc: "scatter m1 R (drop k X) = scatter m (A @ R) X"
    proof (cases "k = length A")
      case True
      then show ?thesis using scatter_append [of A "take k X" m R "drop k X"] lX m1 by (simp add: k_def lA)
    next
      case False
      then have "k = length X" "k < length A" by (auto simp: k_def lA lX)
      then show ?thesis using scatter_take [of m X "A @ R"] m1 by simp
    qed
    show ?thesis
    proof (cases "offset \<noteq> 0 \<or> done < bytes")
      case True
      then have "from_buf_loop (v # vs) offset buf bytes done m
          = (0, done + of_nat (min (length A + length R) (unat bytes - unat done)), scatter m (A @ R) X)"
        using top IH cnt sc by (simp only: if_True add.assoc)
      then show ?thesis using o by (simp only: D X_def LA) simp
    next
      case False
      then have "X = []" "unat bytes - unat done = 0" using db lX by auto
      then show ?thesis using False top D o by (simp add: X_def)
    qed
  next
    case False
    then have ge: "iov_len v \<le> offset" by simp
    then have u: "unat (offset - iov_len v) = unat offset - unat (iov_len v)" "unat (iov_len v) \<le> unat offset"
      by (simp_all add: unat_minus word_le_nat_alt)
    show ?thesis
    proof (cases "offset \<noteq> 0 \<or> done < bytes")
      case True
      then show ?thesis using Cons.IH [OF db bb, of "offset - iov_len v" m] False u
        by (auto simp: le_diff_conv add.commute)
    next
      case z: False
      then show ?thesis using db by simp
    qed
  qed
qed


lemma to_buf_loop_flat:
  assumes "done \<le> bytes"
  shows "if unat offset \<le> length (iov_addrs iov)
    then to_buf_loop iov offset bytes done m buf
      = (0, done + of_nat (min (length (iov_addrs iov) - unat offset) (unat bytes - unat done)),
         buf @ map m (take (unat bytes - unat done) (drop (unat offset) (iov_addrs iov))))
    else fst (to_buf_loop iov offset bytes done m buf) \<noteq> 0"
  using assms
proof (induction iov arbitrary: offset "done" buf)
  case Nil
  then show ?case by (auto simp: unat_eq_zero)
next
  case (Cons v vs)
  note db = Cons.prems(1)
  show ?case
  proof (cases "offset < iov_len v")
    case off: True
    then have o: "unat offset < unat (iov_len v)" by (simp add: word_less_nat_alt)
    define len where "len = min (iov_len v - offset) (bytes - done)"
    define A where "A = addrs (iov_base v + offset) (unat (iov_len v) - unat offset)"
    define R where "R = iov_addrs vs"
    define b where "b = unat bytes - unat done"
    define k where "k = min (length A) b"
    have l: "unat len = k" "unat (done + len) = unat done + k"
      using step_len [OF off db] by (simp_all add: len_def k_def A_def b_def)
    have D: "drop (unat offset) (iov_addrs (v # vs)) = A @ R" using drop_first [of offset "iov_len v"] o by (simp add: A_def R_def)
    have LA: "length (iov_addrs (v # vs)) - unat offset = length A + length R" using arg_cong [OF D, of length] by simp
    have pk: "peek m (iov_base v + offset) k = map m (take k A)" by (simp add: peek_addrs A_def take_addrs k_def)
    have dl: "done + len \<le> bytes" using l(2) db by (simp add: word_le_nat_alt k_def b_def)
    have rest: "unat bytes - unat (done + len) = b - k" by (simp add: l(2) b_def)
    have ofk: "(of_nat k :: u64) = len" unfolding l(1) [symmetric] by (simp only: of_nat_unat ucast_id)
    have cnt: "len + of_nat (min (length R) (b - k)) = of_nat (min (length A + length R) b)"
      unfolding ofk [symmetric] of_nat_add [symmetric] by (rule arg_cong [where f = of_nat]) (auto simp: k_def min_def)
    have tk: "take k A @ take (b - k) R = take b (A @ R)" by (auto simp: k_def min_def)
    have top: "to_buf_loop (v # vs) offset bytes done m buf
        = (if offset \<noteq> 0 \<or> done < bytes then to_buf_loop vs 0 bytes (done + len) m (buf @ map m (take k A)) else (offset, done, buf))"
      using off by (simp add: Let_def len_def [symmetric] l(1) pk)
    have IH: "to_buf_loop vs 0 bytes (done + len) m (buf @ map m (take k A))
      = (0, done + (len + of_nat (min (length R) (b - k))), buf @ map m (take k A @ take (b - k) R))"
      using Cons.IH [OF dl, of 0 "buf @ map m (take k A)"] by (simp add: R_def rest add.assoc)
    show ?thesis
    proof (cases "offset \<noteq> 0 \<or> done < bytes")
      case True
      then have "to_buf_loop (v # vs) offset bytes done m buf
          = (0, done + of_nat (min (length A + length R) b), buf @ map m (take b (A @ R)))"
        using top IH by (simp only: cnt tk if_True)
      then show ?thesis using o by (simp only: D LA b_def) simp
    next
      case False
      then have "b = 0" using db by (simp add: b_def)
      then show ?thesis using False top D o by (simp add: b_def)
    qed
  next
    case False
    then have u: "unat (offset - iov_len v) = unat offset - unat (iov_len v)" "unat (iov_len v) \<le> unat offset"
      by (simp_all add: unat_minus word_le_nat_alt not_less)
    show ?thesis
    proof (cases "offset \<noteq> 0 \<or> done < bytes")
      case True
      then show ?thesis using Cons.IH [OF db, of "offset - iov_len v" buf] False u
        by (auto simp: le_diff_conv add.commute)
    next
      case z: False
      then show ?thesis using db by simp
    qed
  qed
qed

lemma memset_is_from_buf:
  "done \<le> bytes \<Longrightarrow> memset_loop iov offset c bytes done m = from_buf_loop iov offset (replicate (unat bytes) c) bytes done m"
proof (induction iov arbitrary: offset "done" m)
  case (Cons v vs)
  show ?case
  proof (cases "offset < iov_len v")
    case True
    define len where "len = min (iov_len v - offset) (bytes - done)"
    note s = step_len [OF True Cons.prems, folded len_def]
    have "done + len \<le> bytes" using s(2) Cons.prems by (simp add: word_le_nat_alt)
    moreover have "min (unat bytes - unat done) (unat len) = unat len" using s(1) by simp
    ultimately show ?thesis using Cons.IH True by (simp add: Let_def flip: len_def)
  next
    case False
    with Cons show ?thesis by simp
  qed
qed simp

lemma iov_size_foldl: "foldl (\<lambda>len v. len + iov_len v) n iov = n + of_nat (length (iov_addrs iov))"
proof (induction iov arbitrary: n)
  case (Cons v vs)
  have "(of_nat (unat (iov_len v)) :: u64) = iov_len v" by (simp only: of_nat_unat ucast_id)
  with Cons show ?case by (simp add: add.assoc)
qed simp

text \<open>C39: The vector routines of iov.c agree with flat memory.  \<open>iov_from_buf\<close> writes the bytes of the
  buffer to consecutive addresses of the vector from \<open>offset\<close> on, \<open>iov_to_buf\<close> reads them from there,
  \<open>iov_memset\<close> fills them; each returns how many bytes it handled, which is fewer than asked exactly
  when the vector ends, and fails its assertion exactly when \<open>offset\<close> lies behind the end of the
  vector; \<open>iov_size\<close> is the number of addresses modulo \<open>2 ^ 64\<close>.\<close>

theorem iov_routines_flat:
  assumes "unat bytes \<le> length buf"
  shows "iov_from_buf iov offset buf bytes m
      = (if length (iov_addrs iov) < unat offset then None
         else Some (of_nat (min (length (iov_addrs iov) - unat offset) (unat bytes)),
                    scatter m (drop (unat offset) (iov_addrs iov)) (take (unat bytes) buf)))
    \<and> iov_to_buf iov offset bytes m
      = (if length (iov_addrs iov) < unat offset then None
         else Some (of_nat (min (length (iov_addrs iov) - unat offset) (unat bytes)),
                    map m (take (unat bytes) (drop (unat offset) (iov_addrs iov)))))
    \<and> iov_memset iov offset c bytes m
      = (if length (iov_addrs iov) < unat offset then None
         else Some (of_nat (min (length (iov_addrs iov) - unat offset) (unat bytes)),
                    scatter m (drop (unat offset) (iov_addrs iov)) (replicate (unat bytes) (word_of_int c))))
    \<and> iov_size iov = of_nat (length (iov_addrs iov))"
  using from_buf_loop_flat [of 0 bytes buf offset iov m] to_buf_loop_flat [of 0 bytes offset iov m "[]"]
    from_buf_loop_flat [of 0 bytes "replicate (unat bytes) (word_of_int c)" offset iov m] assms
  by (auto simp: iov_from_buf_def iov_to_buf_def iov_memset_def memset_is_from_buf iov_size_def iov_size_foldl
      split: prod.splits if_splits)

definition iov_demo :: "iovec list" where
  "iov_demo = [\<lparr>iov_base = 100, iov_len = 3\<rparr>, \<lparr>iov_base = 200, iov_len = 0\<rparr>, \<lparr>iov_base = 300, iov_len = 4\<rparr>]"

theorem iov_routines_flat_witness:
  "iov_from_buf iov_demo 2 [1, 2, 3] 3 (\<lambda>_. 0) = Some (3, scatter (\<lambda>_. 0) (drop 2 (iov_addrs iov_demo)) [1, 2, 3])
    \<and> iov_to_buf iov_demo 2 3 (\<lambda>a. ucast a) = Some (3, [102, 44, 45]) \<and> iov_to_buf iov_demo 8 3 (\<lambda>a. ucast a) = None"
proof -
  have n: "length (iov_addrs iov_demo) = 7" "map (\<lambda>a. ucast a) (take 3 (drop 2 (iov_addrs iov_demo))) = [102, 44, 45 :: byte]"
    by code_simp+
  show ?thesis
    using iov_routines_flat [of 3 "[1, 2, 3]" iov_demo 2 "\<lambda>_. 0" 0] iov_routines_flat [of 3 "[1, 2, 3]" iov_demo 2 "\<lambda>a. ucast a" 0]
      iov_routines_flat [of 3 "[1, 2, 3]" iov_demo 8 "\<lambda>a. ucast a" 0]
    by (simp add: n)
qed


lemma iov_skip_spec:
  "iov_skip iov n = (k, r) \<Longrightarrow> k \<le> length iov \<and> unat n = length (iov_addrs (take k iov)) + unat r
    \<and> (k < length iov \<longrightarrow> r < iov_len (iov ! k))"
proof (induction iov arbitrary: n k)
  case (Cons v vs)
  show ?case
  proof (cases "iov_len v \<le> n")
    case True
    with Cons.prems obtain j where j: "iov_skip vs (n - iov_len v) = (j, r)" "k = Suc j" by (auto split: prod.splits)
    have "unat n = unat (iov_len v) + unat (n - iov_len v)" using True by (simp add: unat_minus word_le_nat_alt)
    with Cons.IH [OF j(1)] j(2) show ?thesis by simp
  next
    case False
    with Cons.prems show ?thesis by auto
  qed
qed simp

text \<open>Cutting the vector behind \<open>n\<close> bytes, and in front of \<open>n\<close> bytes.\<close>

lemma iov_cut_end:
  assumes k: "iov_skip ws n = (k, b)" and n: "unat n \<le> length (iov_addrs ws)"
  shows "b = 0 \<Longrightarrow> iov_addrs (take k ws) = take (unat n) (iov_addrs ws)"
    "b \<noteq> 0 \<Longrightarrow> k < length ws \<and> b < iov_len (ws ! k) \<and> iov_addrs (take k ws @ [(ws ! k)\<lparr>iov_len := b\<rparr>]) = take (unat n) (iov_addrs ws)"
proof -
  note kp = iov_skip_spec [OF k]
  have ad: "iov_addrs ws = iov_addrs (take k ws) @ iov_addrs (drop k ws)"
    unfolding iov_addrs_append [symmetric] by (simp only: append_take_drop_id)
  show "iov_addrs (take k ws) = take (unat n) (iov_addrs ws)" if "b = 0" using kp that arg_cong [OF ad, of "take (unat n)"] by simp
  show "k < length ws \<and> b < iov_len (ws ! k) \<and> iov_addrs (take k ws @ [(ws ! k)\<lparr>iov_len := b\<rparr>]) = take (unat n) (iov_addrs ws)" if "b \<noteq> 0"
  proof -
    have "0 < unat b" using that by (simp add: unat_gt_0)
    then have l: "k < length ws" using kp n by (cases "k = length ws") auto
    then have b: "unat b \<le> unat (iov_len (ws ! k))" using kp by (simp add: word_less_nat_alt)
    have "iov_addrs ws = iov_addrs (take k ws) @ addrs (iov_base (ws ! k)) (unat (iov_len (ws ! k))) @ iov_addrs (drop (Suc k) ws)"
      by (subst id_take_nth_drop [OF l]) simp
    then show ?thesis using kp l b by (simp add: take_addrs)
  qed
qed

lemma iov_cut_start:
  assumes s: "iov_skip iov n = (si, off)" and n: "unat n < length (iov_addrs iov)"
  shows "si < length iov \<and> iov_addrs (drop si (iov[si := (iov ! si)\<lparr>iov_base := iov_base (iov ! si) + off, iov_len := iov_len (iov ! si) - off\<rparr>]))
    = drop (unat n) (iov_addrs iov)"
proof -
  note sp = iov_skip_spec [OF s]
  have si: "si < length iov" using sp n by (cases "si = length iov") auto
  then have off: "off < iov_len (iov ! si)" using sp by simp
  have "drop (unat n) (iov_addrs iov)
      = drop (unat off) (addrs (iov_base (iov ! si)) (unat (iov_len (iov ! si))) @ iov_addrs (drop (Suc si) iov))"
    using sp by (subst id_take_nth_drop [OF si]) simp
  also have "\<dots> = addrs (iov_base (iov ! si) + off) (unat (iov_len (iov ! si) - off)) @ iov_addrs (drop (Suc si) iov)"
    using drop_first [of off "iov_len (iov ! si)"] off by (simp add: unat_minus word_less_nat_alt less_imp_le)
  finally show ?thesis using si by (simp add: drop_update_swap Cons_nth_drop_Suc [symmetric])
qed

text \<open>C40: \<open>iov_send_recv\<close> (iov.c) hands the system call a vector that covers exactly the \<open>bytes\<close> bytes at
  \<open>offset\<close>, returns what the call returns, and leaves the caller's vector as it was, for every range
  inside the vector.\<close>

theorem iov_send_recv_window:
  assumes b: "bytes \<noteq> 0" "unat offset + unat bytes \<le> length (iov_addrs iov)"
  shows "\<exists>win. iov_addrs win = take (unat bytes) (drop (unat offset) (iov_addrs iov))
    \<and> iov_send_recv sys iov offset bytes w = map_option (\<lambda>(ret, w'). (ret, iov, w')) (do_send_recv sys win w)"
proof -
  obtain si off where s: "iov_skip iov offset = (si, off)" by fastforce
  define v1 where "v1 = (iov ! si)\<lparr>iov_base := iov_base (iov ! si) + off, iov_len := iov_len (iov ! si) - off\<rparr>"
  define iov1 where "iov1 = iov[si := v1]"
  have "0 < unat bytes" using b(1) by (simp add: unat_gt_0)
  with b(2) have "unat offset < length (iov_addrs iov)" by linarith
  from iov_cut_start [OF s this] have si: "si < length iov" and A: "iov_addrs (drop si iov1) = drop (unat offset) (iov_addrs iov)"
    by (simp_all add: iov1_def v1_def)
  have l1: "length iov1 = length iov" by (simp add: iov1_def)
  have i1: "(if off \<noteq> 0 then iov[si := v1] else iov) = iov1" using si by (auto simp: iov1_def v1_def)
  obtain k b1 where k: "iov_skip (drop si iov1) bytes = (k, b1)" by fastforce
  have "unat bytes \<le> length (iov_addrs (drop si iov1))" using A b(2) by simp
  note cut = iov_cut_end [OF k this]
  define ei where "ei = si + k"
  define iov2 where "iov2 = (if b1 \<noteq> 0 then iov1[ei := (iov1 ! ei)\<lparr>iov_len := b1\<rparr>] else iov1)"
  define ei' where "ei' = (if b1 \<noteq> 0 then Suc ei else ei)"
  define win where "win = take (ei' - si) (drop si iov2)"
  have ok: "b1 \<noteq> 0 \<Longrightarrow> ei < length iov1 \<and> b1 < iov_len (iov1 ! ei)"
    using cut(2) si l1 by (simp add: ei_def add.commute less_diff_conv)
  have "iov_addrs win = take (unat bytes) (drop (unat offset) (iov_addrs iov))"
  proof (cases "b1 = 0")
    case True
    then show ?thesis using cut(1) A by (simp add: win_def ei'_def ei_def iov2_def)
  next
    case False
    then have "win = take k (drop si iov1) @ [(drop si iov1 ! k)\<lparr>iov_len := b1\<rparr>]"
      using cut(2) si l1 by (simp add: win_def iov2_def ei'_def ei_def drop_update_swap take_Suc_conv_app_nth)
    then show ?thesis using cut(2) [OF False] A by (simp only:)
  qed
  moreover define iov3 where "iov3 = (if off \<noteq> 0
      then iov2[si := (iov2 ! si)\<lparr>iov_base := iov_base (iov2 ! si) - off, iov_len := iov_len (iov2 ! si) + off\<rparr>] else iov2)"
  have undo: "(if b1 \<noteq> 0 then iov3[ei := (iov3 ! ei)\<lparr>iov_len := iov_len (iov3 ! ei) + (iov_len (iov1 ! ei) - b1)\<rparr>] else iov3) = iov"
    using si ok by (intro nth_equalityI) (auto simp: iov3_def iov2_def iov1_def v1_def nth_list_update)
  have tl: "b1 \<noteq> 0 \<Longrightarrow> iov_len (iov1 ! ei) - b1 \<noteq> 0" using ok by auto
  have "iov_send_recv sys iov offset bytes w
      = do { (ret, w') \<leftarrow> do_send_recv sys win w; Some (ret, iov, w') }"
    unfolding iov_send_recv_def s prod.case Let_def i1 [unfolded v1_def] k ei_def [symmetric] iov2_def [symmetric]
      ei'_def [symmetric] win_def [symmetric] iov3_def [symmetric]
    using b(1) si ok tl undo by (cases "b1 = 0") (simp_all add: ei'_def)
  ultimately show ?thesis by (intro exI [of _ win]) (simp add: map_conv_bind_option case_prod_unfold comp_def)
qed

theorem iov_send_recv_window_witness:
  "\<exists>win. iov_addrs win = take 4 (drop 2 (iov_addrs iov_demo))
    \<and> iov_send_recv (\<lambda>v w. (int (length v), False, v # w)) iov_demo 2 4 []
      = map_option (\<lambda>(ret, w'). (ret, iov_demo, w')) (do_send_recv (\<lambda>v w. (int (length v), False, v # w)) win [])"
proof -
  have "length (iov_addrs iov_demo) = 7" by code_simp
  then show ?thesis using iov_send_recv_window [of 4 2 iov_demo "\<lambda>v w. (int (length v), False, v # w)" "[]"] by simp
qed

end
