(* ===== verification/Fifo.thy ===== *)
theory Fifo
  imports Prelude
begin

text \<open>
  First-in first-out components as labelled step relations: a step takes an entry in, hands one out,
  or does neither.  The locale \<open>fifo\<close> is the contract a component fulfils with an abstraction to a
  list of the entries it holds; its client lemma says that the entries come out in the order they
  went in.  The rings of the asynchronous crypto interface and of virtio are instances.
\<close>

datatype 'k label = In 'k | Out 'k | Tau

fun ins :: "'k label list \<Rightarrow> 'k list" where
  "ins [] = []"
| "ins (In k # ls) = k # ins ls"
| "ins (_ # ls) = ins ls"

fun outs :: "'k label list \<Rightarrow> 'k list" where
  "outs [] = []"
| "outs (Out k # ls) = k # outs ls"
| "outs (_ # ls) = outs ls"

inductive run_of :: "('s \<Rightarrow> 'k label \<Rightarrow> 's \<Rightarrow> bool) \<Rightarrow> 's \<Rightarrow> 'k label list \<Rightarrow> 's \<Rightarrow> bool"
  for step :: "'s \<Rightarrow> 'k label \<Rightarrow> 's \<Rightarrow> bool" where
  run_nil: "run_of step s [] s"
| run_cons: "step s l t \<Longrightarrow> run_of step t ls u \<Longrightarrow> run_of step s (l # ls) u"

inductive_simps run_of_Nil [simp]: "run_of step s [] u"
inductive_simps run_of_Cons: "run_of step s (l # ls) u"

lemma run_of_append: "run_of step s (xs @ ys) u \<longleftrightarrow> (\<exists>t. run_of step s xs t \<and> run_of step t ys u)"
proof (induction xs arbitrary: s)
  case (Cons l xs)
  then show ?case by (auto simp: run_of_Cons)
qed simp

lemma run_of_invariant:
  assumes "run_of step s ls u" "ok s" "\<And>x l y. ok x \<Longrightarrow> step x l y \<Longrightarrow> ok y"
  shows "ok u"
  using assms(1,2) by induction (auto intro: assms(3))

locale fifo =
  fixes queue :: "'s \<Rightarrow> 'k list" and ok :: "'s \<Rightarrow> bool" and step :: "'s \<Rightarrow> 'k label \<Rightarrow> 's \<Rightarrow> bool"
  assumes ok_step: "ok s \<Longrightarrow> step s l t \<Longrightarrow> ok t"
    and queue_in: "ok s \<Longrightarrow> step s (In k) t \<Longrightarrow> queue t = queue s @ [k]"
    and queue_out: "ok s \<Longrightarrow> step s (Out k) t \<Longrightarrow> queue s = k # queue t"
    and queue_tau: "ok s \<Longrightarrow> step s Tau t \<Longrightarrow> queue t = queue s"
begin

lemma ok_run: "run_of step s ls t \<Longrightarrow> ok s \<Longrightarrow> ok t"
  by (erule run_of_invariant) (auto intro: ok_step)

text \<open>What was there and what went in is what came out followed by what is still there.\<close>

lemma balance:
  assumes "run_of step s ls t" "ok s"
  shows "queue s @ ins ls = outs ls @ queue t"
  using assms
proof induction
  case (run_cons s l t ls u)
  from run_cons.hyps(1) run_cons.prems have "ok t" by (rule ok_step [rotated])
  with run_cons.IH have IH: "queue t @ ins ls = outs ls @ queue u" .
  show ?case
  proof (cases l)
    case (In k)
    with queue_in [OF run_cons.prems] run_cons.hyps(1) IH show ?thesis by simp
  next
    case (Out k)
    with queue_out [OF run_cons.prems] run_cons.hyps(1) IH show ?thesis by simp
  next
    case Tau
    with queue_tau [OF run_cons.prems] run_cons.hyps(1) IH show ?thesis by simp
  qed
qed simp

lemma in_order:
  assumes "run_of step s ls t" "ok s" "queue s = []"
  shows "ins ls = outs ls @ queue t" "length (outs ls) \<le> length (ins ls)"
  using balance [OF assms(1,2)] assms(3) by simp_all

end

end
