(* ===== verification/Virtqueue.thy ===== *)
theory Virtqueue
  imports Iov Fifo "HOL-Library.Monad_Syntax"
begin

text \<open>
  The device side of a virtqueue (\<open>qemu-1.2.0/hw/virtio.c\<close>, lines 21 to 487 and 695 to 729): the
  rings in guest memory, taking buffers the guest made available, giving them back, and deciding on
  interrupts.  The emulator ending itself (\<open>exit(1)\<close> on a malformed ring, a failed assertion, a
  division by zero) is \<open>None\<close>.  Buffers are mapped by \<open>cpu_physical_memory_map\<close>; the argument \<open>ram\<close>
  says for which ranges that gives the whole range, which is then guest memory itself.
\<close>

section \<open>Data\<close>

abbreviation (input) VIRTIO_PCI_VRING_ALIGN :: u64 where "VIRTIO_PCI_VRING_ALIGN \<equiv> 4096"
abbreviation (input) VIRTQUEUE_MAX_SIZE :: nat where "VIRTQUEUE_MAX_SIZE \<equiv> 1024"
abbreviation (input) VRING_DESC_F_NEXT :: u16 where "VRING_DESC_F_NEXT \<equiv> 1"
abbreviation (input) VRING_DESC_F_WRITE :: u16 where "VRING_DESC_F_WRITE \<equiv> 2"
abbreviation (input) VRING_DESC_F_INDIRECT :: u16 where "VRING_DESC_F_INDIRECT \<equiv> 4"
abbreviation (input) VRING_USED_F_NO_NOTIFY :: u16 where "VRING_USED_F_NO_NOTIFY \<equiv> 1"
abbreviation (input) VRING_AVAIL_F_NO_INTERRUPT :: u16 where "VRING_AVAIL_F_NO_INTERRUPT \<equiv> 1"
abbreviation (input) VIRTIO_F_NOTIFY_ON_EMPTY :: nat where "VIRTIO_F_NOTIFY_ON_EMPTY \<equiv> 24"
abbreviation (input) VIRTIO_RING_F_EVENT_IDX :: nat where "VIRTIO_RING_F_EVENT_IDX \<equiv> 29"

record vring =
  vr_num :: u32
  vr_desc :: u64
  vr_avail :: u64
  vr_used :: u64

text \<open>The handler of a queue is a function pointer in the source, here a value of its own type.\<close>

record 'f virtqueue =
  vring :: vring
  vq_pa :: u64
  last_avail_idx :: u16
  signalled_used :: u16
  signalled_used_valid :: bool
  notification :: bool
  inuse :: int
  vq_vector :: u16
  handle_output :: 'f

text \<open>The counts \<open>in_num\<close> and \<open>out_num\<close> are the lengths of the lists.\<close>

record vq_element =
  el_index :: u32
  in_addr :: "u64 list"
  out_addr :: "u64 list"
  in_sg :: "iovec list"
  out_sg :: "iovec list"

text \<open>Guest memory, and the ranges reported as written when buffers were unmapped.\<close>

record gst =
  mem :: gmem
  dirty :: "(u64 \<times> u64) list"

definition vring_align :: "u64 \<Rightarrow> u64 \<Rightarrow> u64" where
  "vring_align addr align = (addr + align - 1) AND NOT (align - 1)"

definition virtqueue_init :: "'f virtqueue \<Rightarrow> 'f virtqueue" where
  "virtqueue_init vq =
     (let pa = vq_pa vq; n = ucast (vr_num (vring vq)); av = pa + n * 16
      in vq\<lparr>vring := (vring vq)\<lparr>vr_desc := pa, vr_avail := av, vr_used := vring_align (av + (4 + 2 * n)) VIRTIO_PCI_VRING_ALIGN\<rparr>\<rparr>)"

section \<open>Ring accesses\<close>

definition vring_desc_addr :: "gmem \<Rightarrow> u64 \<Rightarrow> u32 \<Rightarrow> u64" where
  "vring_desc_addr m desc_pa i = ldq_phys m (desc_pa + 16 * ucast i)"

definition vring_desc_len :: "gmem \<Rightarrow> u64 \<Rightarrow> u32 \<Rightarrow> u32" where
  "vring_desc_len m desc_pa i = ldl_phys m (desc_pa + 16 * ucast i + 8)"

definition vring_desc_flags :: "gmem \<Rightarrow> u64 \<Rightarrow> u32 \<Rightarrow> u16" where
  "vring_desc_flags m desc_pa i = lduw_phys m (desc_pa + 16 * ucast i + 12)"

definition vring_desc_next :: "gmem \<Rightarrow> u64 \<Rightarrow> u32 \<Rightarrow> u16" where
  "vring_desc_next m desc_pa i = lduw_phys m (desc_pa + 16 * ucast i + 14)"

definition vring_avail_flags :: "gmem \<Rightarrow> 'f virtqueue \<Rightarrow> u16" where
  "vring_avail_flags m vq = lduw_phys m (vr_avail (vring vq))"

definition vring_avail_idx :: "gmem \<Rightarrow> 'f virtqueue \<Rightarrow> u16" where
  "vring_avail_idx m vq = lduw_phys m (vr_avail (vring vq) + 2)"

definition vring_avail_ring :: "gmem \<Rightarrow> 'f virtqueue \<Rightarrow> u32 \<Rightarrow> u16" where
  "vring_avail_ring m vq i = lduw_phys m (vr_avail (vring vq) + 4 + 2 * ucast i)"

definition vring_used_event :: "gmem \<Rightarrow> 'f virtqueue \<Rightarrow> u16" where
  "vring_used_event m vq = vring_avail_ring m vq (vr_num (vring vq))"

definition vring_used_ring_id :: "gmem \<Rightarrow> 'f virtqueue \<Rightarrow> u32 \<Rightarrow> u32 \<Rightarrow> gmem" where
  "vring_used_ring_id m vq i val = stl_phys m (vr_used (vring vq) + 4 + 8 * ucast i) val"

definition vring_used_ring_len :: "gmem \<Rightarrow> 'f virtqueue \<Rightarrow> u32 \<Rightarrow> u32 \<Rightarrow> gmem" where
  "vring_used_ring_len m vq i val = stl_phys m (vr_used (vring vq) + 4 + 8 * ucast i + 4) val"

definition vring_used_idx :: "gmem \<Rightarrow> 'f virtqueue \<Rightarrow> u16" where
  "vring_used_idx m vq = lduw_phys m (vr_used (vring vq) + 2)"

definition vring_used_idx_set :: "gmem \<Rightarrow> 'f virtqueue \<Rightarrow> u16 \<Rightarrow> gmem" where
  "vring_used_idx_set m vq val = stw_phys m (vr_used (vring vq) + 2) val"

definition vring_used_flags_set_bit :: "gmem \<Rightarrow> 'f virtqueue \<Rightarrow> u16 \<Rightarrow> gmem" where
  "vring_used_flags_set_bit m vq msk =
     (let pa = vr_used (vring vq) in stw_phys m pa (lduw_phys m pa OR msk))"

definition vring_used_flags_unset_bit :: "gmem \<Rightarrow> 'f virtqueue \<Rightarrow> u16 \<Rightarrow> gmem" where
  "vring_used_flags_unset_bit m vq msk =
     (let pa = vr_used (vring vq) in stw_phys m pa (lduw_phys m pa AND NOT msk))"

definition vring_avail_event :: "gmem \<Rightarrow> 'f virtqueue \<Rightarrow> u16 \<Rightarrow> gmem" where
  "vring_avail_event m vq val =
     (if \<not> notification vq then m else stw_phys m (vr_used (vring vq) + 4 + 8 * ucast (vr_num (vring vq))) val)"

definition virtio_queue_set_notification :: "u32 \<Rightarrow> 'f virtqueue \<Rightarrow> bool \<Rightarrow> gmem \<Rightarrow> 'f virtqueue \<times> gmem" where
  "virtio_queue_set_notification features vq enable m =
     (let vq1 = vq\<lparr>notification := enable\<rparr>
      in (vq1, if bit features VIRTIO_RING_F_EVENT_IDX then vring_avail_event m vq1 (vring_avail_idx m vq1)
               else if enable then vring_used_flags_unset_bit m vq1 VRING_USED_F_NO_NOTIFY
               else vring_used_flags_set_bit m vq1 VRING_USED_F_NO_NOTIFY))"

definition virtio_queue_ready :: "'f virtqueue \<Rightarrow> bool" where
  "virtio_queue_ready vq \<longleftrightarrow> vr_avail (vring vq) \<noteq> 0"

definition virtio_queue_empty :: "gmem \<Rightarrow> 'f virtqueue \<Rightarrow> bool" where
  "virtio_queue_empty m vq \<longleftrightarrow> vring_avail_idx m vq = last_avail_idx vq"

section \<open>Giving buffers back\<close>

text \<open>
  \<open>len - offset\<close> is unsigned and wraps when the buffers in front are longer than \<open>len\<close>.
\<close>

fun fill_unmap :: "iovec list \<Rightarrow> u32 \<Rightarrow> u32 \<Rightarrow> (u64 \<times> u64) list" where
  "fill_unmap [] len offset = []"
| "fill_unmap (v # vs) len offset =
     (iov_base v, min (ucast (len - offset)) (iov_len v)) # fill_unmap vs len (offset + ucast (iov_len v))"

definition virtqueue_fill :: "'f virtqueue \<Rightarrow> vq_element \<Rightarrow> u32 \<Rightarrow> u32 \<Rightarrow> gst \<Rightarrow> gst option" where
  "virtqueue_fill vq elem len idx0 s =
     (let d = fill_unmap (in_sg elem) len 0; num = vr_num (vring vq)
      in if num = 0 then None
         else
           (let idx = (idx0 + ucast (vring_used_idx (mem s) vq)) mod num;
                m1 = vring_used_ring_id (mem s) vq idx (el_index elem)
            in Some (s\<lparr>mem := vring_used_ring_len m1 vq idx len, dirty := dirty s @ d\<rparr>)))"

definition virtqueue_flush :: "'f virtqueue \<Rightarrow> u32 \<Rightarrow> gst \<Rightarrow> 'f virtqueue \<times> gst" where
  "virtqueue_flush vq count s =
     (let old = vring_used_idx (mem s) vq; new = old + ucast count
      in (vq\<lparr>inuse := inuse vq - sint count,
             signalled_used_valid := (if sint (new - signalled_used vq) < int (unat (new - old)) then False
                                      else signalled_used_valid vq)\<rparr>,
          s\<lparr>mem := vring_used_idx_set (mem s) vq new\<rparr>))"

definition virtqueue_push :: "'f virtqueue \<Rightarrow> vq_element \<Rightarrow> u32 \<Rightarrow> gst \<Rightarrow> ('f virtqueue \<times> gst) option" where
  "virtqueue_push vq elem len s =
     do { s1 \<leftarrow> virtqueue_fill vq elem len 0 s; Some (virtqueue_flush vq 1 s1) }"

section \<open>Taking buffers\<close>

definition virtqueue_num_heads :: "gmem \<Rightarrow> 'f virtqueue \<Rightarrow> u32 \<Rightarrow> u16 option" where
  "virtqueue_num_heads m vq idx =
     (let num_heads = vring_avail_idx m vq - ucast idx
      in if vr_num (vring vq) < ucast num_heads then None else Some num_heads)"

definition virtqueue_get_head :: "gmem \<Rightarrow> 'f virtqueue \<Rightarrow> u32 \<Rightarrow> u32 option" where
  "virtqueue_get_head m vq idx =
     (let num = vr_num (vring vq)
      in if num = 0 then None
         else (let head = ucast (vring_avail_ring m vq (idx mod num)) in if num \<le> head then None else Some head))"

text \<open>The value \<open>mx\<close> (\<open>max\<close> in the source) stands for the end of the chain.\<close>

definition virtqueue_next_desc :: "gmem \<Rightarrow> u64 \<Rightarrow> u32 \<Rightarrow> u32 \<Rightarrow> u32 option" where
  "virtqueue_next_desc m desc_pa i mx =
     (if vring_desc_flags m desc_pa i AND VRING_DESC_F_NEXT = 0 then Some mx
      else (let nxt = ucast (vring_desc_next m desc_pa i) in if mx \<le> nxt then None else Some nxt))"

text \<open>
  The inner loop of \<open>virtqueue_avail_bytes\<close>: \<open>Inl ()\<close> when enough bytes were found.  The totals are
  \<open>int\<close> variables to which unsigned lengths are added.
\<close>

function avail_chain ::
  "gmem \<Rightarrow> u64 \<Rightarrow> u32 \<Rightarrow> int \<Rightarrow> int \<Rightarrow> u32 \<Rightarrow> nat \<Rightarrow> u32 \<Rightarrow> u32 \<Rightarrow> (unit + nat \<times> u32 \<times> u32) option" where
  "avail_chain m desc_pa mx in_bytes out_bytes i num_bufs in_total out_total =
     (if unat mx < Suc num_bufs then None
      else
        (let wr = vring_desc_flags m desc_pa i AND VRING_DESC_F_WRITE \<noteq> 0; len = vring_desc_len m desc_pa i;
             in_total' = (if wr \<and> 0 < in_bytes then in_total + len else in_total);
             out_total' = (if \<not> wr \<and> 0 < out_bytes then out_total + len else out_total)
         in if wr \<and> 0 < in_bytes \<and> in_bytes \<le> sint in_total' \<or> \<not> wr \<and> 0 < out_bytes \<and> out_bytes \<le> sint out_total'
            then Some (Inl ())
            else do {
              nxt \<leftarrow> virtqueue_next_desc m desc_pa i mx;
              if nxt = mx then Some (Inr (Suc num_bufs, in_total', out_total'))
              else avail_chain m desc_pa mx in_bytes out_bytes nxt (Suc num_bufs) in_total' out_total'
            }))"
  by pat_completeness auto
termination
  by (relation "measure (\<lambda>(m, desc_pa, mx, ib, ob, i, n, it, ot). Suc (unat mx) - n)") auto

text \<open>The outer loop: every round looks at one more head, so the number of heads ahead goes down.\<close>

lemma ucast16_add: "(ucast (a + b :: u32) :: u16) = ucast a + ucast b"
  by (rule unsigned_word_eqI [where 'a = nat])
    (simp add: unsigned_ucast_eq take_bit_eq_mod unat_word_ariths mod_mod_cancel mod_simps)

lemma heads_ahead_less:
  fixes a :: u16 and idx :: u32
  assumes "a - ucast idx \<noteq> 0"
  shows "unat (a - ucast (idx + 1)) < unat (a - ucast idx)"
proof -
  have e: "a - ucast (idx + 1) = (a - ucast idx) - 1" by (simp add: ucast16_add)
  have "0 < unat (a - ucast idx)" using assms by (simp add: unat_gt_0)
  then show ?thesis unfolding e unat_minus_one [OF assms] by simp
qed

function avail_loop :: "gmem \<Rightarrow> 'f virtqueue \<Rightarrow> int \<Rightarrow> int \<Rightarrow> u32 \<Rightarrow> nat \<Rightarrow> u32 \<Rightarrow> u32 \<Rightarrow> bool option" where
  "avail_loop m vq in_bytes out_bytes idx total_bufs in_total out_total =
     do {
       heads \<leftarrow> virtqueue_num_heads m vq idx;
       if heads = 0 then Some False
       else do {
         let num = vr_num (vring vq);
         head \<leftarrow> virtqueue_get_head m vq idx;
         let pa = vr_desc (vring vq);
         (indirect, mx, num_bufs, i, desc_pa) \<leftarrow>
           (if vring_desc_flags m pa head AND VRING_DESC_F_INDIRECT \<noteq> 0 then
              (if vring_desc_len m pa head mod 16 \<noteq> 0 then None
               else if unat num \<le> total_bufs then None
               else Some (True, vring_desc_len m pa head div 16, 0, 0, vring_desc_addr m pa 0))
            else Some (False, num, total_bufs, head, pa));
         r \<leftarrow> avail_chain m desc_pa mx in_bytes out_bytes i num_bufs in_total out_total;
         case r of
           Inl u \<Rightarrow> Some True
         | Inr (nb, it, ot) \<Rightarrow>
             avail_loop m vq in_bytes out_bytes (idx + 1) (if indirect then Suc total_bufs else nb) it ot
       }
     }"
  by pat_completeness auto
termination
  by (relation "measure (\<lambda>(m, vq, ib, ob, idx, tb, it, ot). unat (vring_avail_idx m vq - ucast idx))")
    (auto simp: virtqueue_num_heads_def Let_def heads_ahead_less split: if_splits)

definition virtqueue_avail_bytes :: "gmem \<Rightarrow> 'f virtqueue \<Rightarrow> int \<Rightarrow> int \<Rightarrow> bool option" where
  "virtqueue_avail_bytes m vq in_bytes out_bytes =
     avail_loop m vq in_bytes out_bytes (ucast (last_avail_idx vq)) 0 0 0"

fun virtqueue_map_sg :: "(u64 \<Rightarrow> u64 \<Rightarrow> bool \<Rightarrow> bool) \<Rightarrow> iovec list \<Rightarrow> u64 list \<Rightarrow> bool \<Rightarrow> iovec list option" where
  "virtqueue_map_sg ram (v # vs) (a # as) is_write =
     (if ram a (iov_len v) is_write
      then do { r \<leftarrow> virtqueue_map_sg ram vs as is_write; Some (v\<lparr>iov_base := a\<rparr> # r) } else None)"
| "virtqueue_map_sg ram _ _ is_write = Some []"

text \<open>Collecting the descriptors of a chain; the new element's base addresses are set when it is mapped.\<close>

function collect :: "gmem \<Rightarrow> u64 \<Rightarrow> u32 \<Rightarrow> u32 \<Rightarrow> vq_element \<Rightarrow> vq_element option" where
  "collect m desc_pa mx i elem =
     (let a = vring_desc_addr m desc_pa i; v = \<lparr>iov_base = 0, iov_len = ucast (vring_desc_len m desc_pa i)\<rparr>
      in if vring_desc_flags m desc_pa i AND VRING_DESC_F_WRITE \<noteq> 0 then
           (if VIRTQUEUE_MAX_SIZE \<le> length (in_sg elem) then None
            else
              (let e = elem\<lparr>in_addr := in_addr elem @ [a], in_sg := in_sg elem @ [v]\<rparr>
               in if unat mx < length (in_sg e) + length (out_sg e) then None
                  else do {
                    nxt \<leftarrow> virtqueue_next_desc m desc_pa i mx;
                    if nxt = mx then Some e else collect m desc_pa mx nxt e
                  }))
         else
           (if VIRTQUEUE_MAX_SIZE \<le> length (out_sg elem) then None
            else
              (let e = elem\<lparr>out_addr := out_addr elem @ [a], out_sg := out_sg elem @ [v]\<rparr>
               in if unat mx < length (in_sg e) + length (out_sg e) then None
                  else do {
                    nxt \<leftarrow> virtqueue_next_desc m desc_pa i mx;
                    if nxt = mx then Some e else collect m desc_pa mx nxt e
                  })))"
  by pat_completeness auto
termination
  by (relation "measure (\<lambda>(m, desc_pa, mx, i, e). (1024 - length (in_sg e)) + (1024 - length (out_sg e)))") auto

definition elem_empty :: vq_element where
  "elem_empty = \<lparr>el_index = 0, in_addr = [], out_addr = [], in_sg = [], out_sg = []\<rparr>"

text \<open>\<open>None\<close> as element: the guest has made nothing available, and 0 is returned.\<close>

definition virtqueue_pop ::
  "(u64 \<Rightarrow> u64 \<Rightarrow> bool \<Rightarrow> bool) \<Rightarrow> u32 \<Rightarrow> 'f virtqueue \<Rightarrow> gst \<Rightarrow> (vq_element option \<times> 'f virtqueue \<times> gst) option" where
  "virtqueue_pop ram features vq s =
     do {
       heads \<leftarrow> virtqueue_num_heads (mem s) vq (ucast (last_avail_idx vq));
       if heads = 0 then Some (None, vq, s)
       else do {
         head \<leftarrow> virtqueue_get_head (mem s) vq (ucast (last_avail_idx vq));
         let vq1 = vq\<lparr>last_avail_idx := last_avail_idx vq + 1\<rparr>;
         let m = (if bit features VIRTIO_RING_F_EVENT_IDX then vring_avail_event (mem s) vq1 (vring_avail_idx (mem s) vq1) else mem s);
         let pa = vr_desc (vring vq);
         (mx, desc_pa, i) \<leftarrow>
           (if vring_desc_flags m pa head AND VRING_DESC_F_INDIRECT \<noteq> 0 then
              (if vring_desc_len m pa head mod 16 \<noteq> 0 then None
               else Some (vring_desc_len m pa head div 16, vring_desc_addr m pa head, 0))
            else Some (vr_num (vring vq), pa, head));
         e \<leftarrow> collect m desc_pa mx i elem_empty;
         isg \<leftarrow> virtqueue_map_sg ram (in_sg e) (in_addr e) True;
         osg \<leftarrow> virtqueue_map_sg ram (out_sg e) (out_addr e) False;
         Some (Some (e\<lparr>el_index := head, in_sg := isg, out_sg := osg\<rparr>), vq1\<lparr>inuse := inuse vq1 + 1\<rparr>, s\<lparr>mem := m\<rparr>)
       }
     }"

section \<open>Interrupts\<close>

definition vring_need_event :: "u16 \<Rightarrow> u16 \<Rightarrow> u16 \<Rightarrow> bool" where
  "vring_need_event event new old \<longleftrightarrow> new - event - 1 < new - old"

definition vring_notify :: "u32 \<Rightarrow> 'f virtqueue \<Rightarrow> gmem \<Rightarrow> bool \<times> 'f virtqueue" where
  "vring_notify features vq m =
     (if bit features VIRTIO_F_NOTIFY_ON_EMPTY \<and> inuse vq = 0 \<and> vring_avail_idx m vq = last_avail_idx vq then (True, vq)
      else if \<not> bit features VIRTIO_RING_F_EVENT_IDX then
        (vring_avail_flags m vq AND VRING_AVAIL_F_NO_INTERRUPT = 0, vq)
      else
        (let v = signalled_used_valid vq; old = signalled_used vq; new = vring_used_idx m vq
         in (\<not> v \<or> vring_need_event (vring_used_event m vq) new old,
             vq\<lparr>signalled_used_valid := True, signalled_used := new\<rparr>)))"


section \<open>Chains\<close>

text \<open>The descriptors of a chain, as the guest links them.\<close>

inductive is_chain :: "gmem \<Rightarrow> u64 \<Rightarrow> u32 \<Rightarrow> u32 \<Rightarrow> u32 list \<Rightarrow> bool"
  for m :: gmem and pa :: u64 and mx :: u32 where
  last: "vring_desc_flags m pa i AND VRING_DESC_F_NEXT = 0 \<Longrightarrow> is_chain m pa mx i [i]"
| more: "vring_desc_flags m pa i AND VRING_DESC_F_NEXT \<noteq> 0 \<Longrightarrow> nxt = ucast (vring_desc_next m pa i) \<Longrightarrow> nxt < mx
    \<Longrightarrow> is_chain m pa mx nxt is \<Longrightarrow> is_chain m pa mx i (i # is)"

inductive_cases is_chain_E: "is_chain m pa mx i l"

definition writable :: "gmem \<Rightarrow> u64 \<Rightarrow> u32 \<Rightarrow> bool" where
  "writable m pa i \<longleftrightarrow> vring_desc_flags m pa i AND VRING_DESC_F_WRITE \<noteq> 0"

definition desc_iov :: "gmem \<Rightarrow> u64 \<Rightarrow> u32 \<Rightarrow> iovec" where
  "desc_iov m pa i = \<lparr>iov_base = 0, iov_len = ucast (vring_desc_len m pa i)\<rparr>"

definition add_descs :: "gmem \<Rightarrow> u64 \<Rightarrow> u32 list \<Rightarrow> vq_element \<Rightarrow> vq_element" where
  "add_descs m pa l e = e\<lparr>in_addr := in_addr e @ map (vring_desc_addr m pa) (filter (writable m pa) l),
     in_sg := in_sg e @ map (desc_iov m pa) (filter (writable m pa) l),
     out_addr := out_addr e @ map (vring_desc_addr m pa) (filter (\<lambda>i. \<not> writable m pa i) l),
     out_sg := out_sg e @ map (desc_iov m pa) (filter (\<lambda>i. \<not> writable m pa i) l)\<rparr>"

definition chain_fits :: "gmem \<Rightarrow> u64 \<Rightarrow> u32 \<Rightarrow> u32 list \<Rightarrow> vq_element \<Rightarrow> bool" where
  "chain_fits m pa mx l e \<longleftrightarrow> length (in_sg e) + length (filter (writable m pa) l) \<le> 1024
     \<and> length (out_sg e) + length (filter (\<lambda>i. \<not> writable m pa i) l) \<le> 1024
     \<and> length (in_sg e) + length (out_sg e) + length l \<le> unat mx"

declare collect.simps [simp del]

definition el_ok :: "vq_element \<Rightarrow> bool" where
  "el_ok e \<longleftrightarrow> length (in_sg e) \<le> 1024 \<and> length (out_sg e) \<le> 1024"

lemma add_desc:
  "writable m pa i \<Longrightarrow> add_descs m pa [i] e = e\<lparr>in_addr := in_addr e @ [vring_desc_addr m pa i], in_sg := in_sg e @ [desc_iov m pa i]\<rparr>"
  "\<not> writable m pa i \<Longrightarrow> add_descs m pa [i] e = e\<lparr>out_addr := out_addr e @ [vring_desc_addr m pa i], out_sg := out_sg e @ [desc_iov m pa i]\<rparr>"
  by (simp_all add: add_descs_def)

lemma collect_step:
  assumes "el_ok e"
  shows "collect m pa mx i e =
     (if \<not> chain_fits m pa mx [i] e then None
      else do {
        nxt \<leftarrow> virtqueue_next_desc m pa i mx;
        if nxt = mx then Some (add_descs m pa [i] e) else collect m pa mx nxt (add_descs m pa [i] e)
      })"
proof (cases "writable m pa i")
  case True
  with assms show ?thesis
    by (subst collect.simps, unfold add_desc(1) [OF True] desc_iov_def)
      (auto simp: chain_fits_def el_ok_def writable_def desc_iov_def Let_def)
next
  case False
  with assms show ?thesis
    by (subst collect.simps, unfold add_desc(2) [OF False] desc_iov_def)
      (auto simp: chain_fits_def el_ok_def writable_def desc_iov_def Let_def)
qed

lemma el_ok_add: "el_ok e \<Longrightarrow> chain_fits m pa mx [i] e \<Longrightarrow> el_ok (add_descs m pa [i] e)"
  by (auto simp: el_ok_def chain_fits_def add_descs_def)

lemma add_descs_Cons: "add_descs m pa (i # l) e = add_descs m pa l (add_descs m pa [i] e)"
  by (simp add: add_descs_def)

lemma chain_fits_Cons: "l \<noteq> [] \<Longrightarrow> chain_fits m pa mx (i # l) e \<longleftrightarrow> chain_fits m pa mx [i] e \<and> chain_fits m pa mx l (add_descs m pa [i] e)"
  by (auto simp: chain_fits_def add_descs_def)

lemma is_chain_not_Nil: "is_chain m pa mx i l \<Longrightarrow> l \<noteq> []"
  by (induction rule: is_chain.induct) simp_all

lemma collect_chain:
  "is_chain m pa mx i l \<Longrightarrow> el_ok e \<Longrightarrow> chain_fits m pa mx l e \<Longrightarrow> collect m pa mx i e = Some (add_descs m pa l e)"
proof (induction arbitrary: e rule: is_chain.induct)
  case (last i)
  then show ?case by (simp add: collect_step virtqueue_next_desc_def)
next
  case (more i nxt l)
  then have f: "chain_fits m pa mx [i] e" "chain_fits m pa mx l (add_descs m pa [i] e)"
    using chain_fits_Cons is_chain_not_Nil by blast+
  with more show ?case
    by (subst collect_step, simp, subst add_descs_Cons) (auto simp: virtqueue_next_desc_def Let_def not_le el_ok_add)
qed

lemma collect_only_chain:
  "collect m pa mx i e = Some e' \<Longrightarrow> el_ok e \<Longrightarrow> \<exists>l. is_chain m pa mx i l \<and> chain_fits m pa mx l e \<and> e' = add_descs m pa l e"
proof (induction "(1024 - length (in_sg e)) + (1024 - length (out_sg e))" arbitrary: i e rule: less_induct)
  case less
  define e1 where "e1 = add_descs m pa [i] e"
  from less.prems obtain nxt where f: "chain_fits m pa mx [i] e" "virtqueue_next_desc m pa i mx = Some nxt"
    "if nxt = mx then e' = e1 else collect m pa mx nxt e1 = Some e'"
    by (auto simp: collect_step e1_def split: if_splits elim!: bind_SomeE)
  show ?case
  proof (cases "vring_desc_flags m pa i AND VRING_DESC_F_NEXT = 0")
    case True
    with f show ?thesis by (intro exI [of _ "[i]"]) (auto simp: virtqueue_next_desc_def e1_def intro: is_chain.last)
  next
    case False
    with f(2) have n: "nxt = ucast (vring_desc_next m pa i)" "nxt < mx" "nxt \<noteq> mx"
      by (auto simp: virtqueue_next_desc_def Let_def split: if_splits)
    have "(1024 - length (in_sg e1)) + (1024 - length (out_sg e1)) < (1024 - length (in_sg e)) + (1024 - length (out_sg e))"
      using f(1) by (cases "writable m pa i") (auto simp: e1_def add_desc chain_fits_def)
    from less.hyps [OF this _ el_ok_add [OF less.prems(2) f(1), folded e1_def]] f(3) n(3) obtain l where
      l: "is_chain m pa mx nxt l" "chain_fits m pa mx l e1" "e' = add_descs m pa l e1" by auto
    with f(1) False n show ?thesis
      by (intro exI [of _ "i # l"]) (simp add: e1_def chain_fits_Cons is_chain_not_Nil is_chain.more flip: add_descs_Cons)
  qed
qed


section \<open>The rings as memory regions\<close>

text \<open>The part of guest memory the device only reads, and the part it writes.\<close>

definition avail_range :: "'f virtqueue \<Rightarrow> u64 \<Rightarrow> bool" where
  "avail_range vq x \<longleftrightarrow> in_range (vr_avail (vring vq)) (4 + 2 * unat (vr_num (vring vq))) x"

definition used_range :: "'f virtqueue \<Rightarrow> u64 \<Rightarrow> bool" where
  "used_range vq x \<longleftrightarrow> in_range (vr_used (vring vq)) (6 + 8 * unat (vr_num (vring vq))) x"

lemma sub_range:
  assumes "in_range (a + of_nat off) len x" "off + len \<le> N" "N \<le> 2 ^ 64"
  shows "in_range a N x"
proof -
  define d where "d = unat (x - (a + of_nat off))"
  have "of_nat d = x - (a + of_nat off)" unfolding d_def by (simp only: of_nat_unat ucast_id)
  then have "x - a = of_nat (off + d)" by (simp add: algebra_simps)
  moreover have "off + d < 2 ^ 64" using assms by (simp add: in_range_def d_def)
  ultimately have "unat (x - a) = off + d" by (simp add: unat_of_nat_small del: of_nat_add)
  then show ?thesis using assms by (simp add: in_range_def d_def)
qed

lemma ucast_offset: "(2 :: u64) * ucast (i :: u32) = of_nat (2 * unat i)" "(8 :: u64) * ucast i = of_nat (8 * unat i)"
  by (simp_all only: of_nat_mult of_nat_unat of_nat_numeral)

lemma ring_small: "4 + 2 * unat (n :: u32) \<le> 2 ^ 64" "6 + 8 * unat n \<le> 2 ^ 64"
  using unat_bound [of n] by simp_all

text \<open>What the device reads of the available ring depends on that region only.\<close>

lemma lduw_cong: "m' a = m a \<Longrightarrow> m' (a + 1) = m (a + 1) \<Longrightarrow> lduw_phys m' a = lduw_phys m a"
  by (simp add: lduw_phys_def peek_def numeral_2_eq_2)

lemma avail_offset:
  assumes "j < 4 + 2 * unat (vr_num (vring vq))"
  shows "avail_range vq (vr_avail (vring vq) + of_nat j)"
  using assms in_range_offset [of j _ "vr_avail (vring vq)"] ring_small(1) by (simp add: avail_range_def)

lemma avail_frame:
  assumes "\<And>x. avail_range vq x \<Longrightarrow> m' x = m x"
  shows "vring_avail_idx m' vq = vring_avail_idx m vq" "vring_avail_flags m' vq = vring_avail_flags m vq"
    "i < vr_num (vring vq) \<Longrightarrow> vring_avail_ring m' vq i = vring_avail_ring m vq i"
proof -
  note f = assms [OF avail_offset]
  show "vring_avail_idx m' vq = vring_avail_idx m vq"
    unfolding vring_avail_idx_def using f [of 2] f [of 3] by (intro lduw_cong) (simp_all add: add.assoc)
  show "vring_avail_flags m' vq = vring_avail_flags m vq"
    unfolding vring_avail_flags_def using f [of 0] f [of 1] by (intro lduw_cong) simp_all
  assume "i < vr_num (vring vq)"
  then have i: "unat i < unat (vr_num (vring vq))" by (simp add: word_less_nat_alt)
  show "vring_avail_ring m' vq i = vring_avail_ring m vq i"
    unfolding vring_avail_ring_def ucast_offset using f [of "4 + 2 * unat i"] f [of "5 + 2 * unat i"] i
    by (intro lduw_cong) (simp_all add: ac_simps)
qed

text \<open>What the device writes stays in the region of the used ring.\<close>

lemma poke_used:
  assumes "\<not> used_range vq x" "off + length bs \<le> 6 + 8 * unat (vr_num (vring vq))"
  shows "poke m (vr_used (vring vq) + of_nat off) bs x = m x"
  using assms sub_range [OF _ assms(2) ring_small(2)] by (intro poke_other) (auto simp: used_range_def)

lemma device_writes:
  assumes "\<not> used_range vq x"
  shows "vring_used_idx_set m vq v x = m x" "vring_avail_event m vq v x = m x"
    "i < vr_num (vring vq) \<Longrightarrow> vring_used_ring_id m vq i w x = m x" "i < vr_num (vring vq) \<Longrightarrow> vring_used_ring_len m vq i w x = m x"
    "vring_used_flags_set_bit m vq v x = m x" "vring_used_flags_unset_bit m vq v x = m x"
proof -
  note p = poke_used [OF assms]
  show "vring_used_idx_set m vq v x = m x" using p [of 2 "put16 v" m] by (simp add: vring_used_idx_set_def stw_phys_def)
  show "vring_avail_event m vq v x = m x"
    using p [of "4 + 8 * unat (vr_num (vring vq))" "put16 v" m]
    by (simp add: vring_avail_event_def stw_phys_def add.assoc)
  show "vring_used_flags_set_bit m vq v x = m x" "vring_used_flags_unset_bit m vq v x = m x"
    using p [of 0 "put16 (lduw_phys m (vr_used (vring vq)) OR v)" m] p [of 0 "put16 (lduw_phys m (vr_used (vring vq)) AND NOT v)" m]
    by (simp_all add: vring_used_flags_set_bit_def vring_used_flags_unset_bit_def stw_phys_def Let_def)
  assume "i < vr_num (vring vq)"
  then have i: "unat i < unat (vr_num (vring vq))" by (simp add: word_less_nat_alt)
  show "vring_used_ring_id m vq i w x = m x"
    using p [of "4 + 8 * unat i" "put32 w" m] i by (simp add: vring_used_ring_id_def stl_phys_def add.assoc)
  show "vring_used_ring_len m vq i w x = m x"
    using p [of "8 + 8 * unat i" "put32 w" m] i by (simp add: vring_used_ring_len_def stl_phys_def ac_simps)
qed


section \<open>The available ring as a queue\<close>

definition pending :: "'f virtqueue \<Rightarrow> gmem \<Rightarrow> nat" where
  "pending vq m = unat (vring_avail_idx m vq - last_avail_idx vq)"

definition slot :: "'f virtqueue \<Rightarrow> u16 \<Rightarrow> u32" where
  "slot vq j = ucast j mod vr_num (vring vq)"

definition vq_heads :: "'f virtqueue \<times> gst \<Rightarrow> u16 list" where
  "vq_heads = (\<lambda>(vq, s). map (\<lambda>k. vring_avail_ring (mem s) vq (slot vq (last_avail_idx vq + of_nat k))) [0..<pending vq (mem s)])"

text \<open>A ring whose size is a power of two, whose regions do not overlap and whose guest is not ahead by more than the ring.\<close>

definition vq_ok :: "'f virtqueue \<times> gst \<Rightarrow> bool" where
  "vq_ok = (\<lambda>(vq, s). unat (vr_num (vring vq)) dvd 32768 \<and> (\<forall>x. avail_range vq x \<longrightarrow> \<not> used_range vq x)
     \<and> pending vq (mem s) \<le> unat (vr_num (vring vq)))"

text \<open>
  The guest publishes a head (the order of its stores is the guest's business), or writes elsewhere;
  the device takes and returns buffers and decides about notifications.
\<close>

inductive vq_step :: "(u64 \<Rightarrow> u64 \<Rightarrow> bool \<Rightarrow> bool) \<Rightarrow> u32 \<Rightarrow> 'f virtqueue \<times> gst \<Rightarrow> u16 label \<Rightarrow> 'f virtqueue \<times> gst \<Rightarrow> bool"
  for ram :: "u64 \<Rightarrow> u64 \<Rightarrow> bool \<Rightarrow> bool" and features :: u32 where
  publish: "pending vq (mem s) < unat (vr_num (vring vq)) \<Longrightarrow> vring_avail_idx m vq = vring_avail_idx (mem s) vq + 1
    \<Longrightarrow> vring_avail_ring m vq (slot vq (vring_avail_idx (mem s) vq)) = h
    \<Longrightarrow> (\<And>i. i < vr_num (vring vq) \<Longrightarrow> i \<noteq> slot vq (vring_avail_idx (mem s) vq) \<Longrightarrow> vring_avail_ring m vq i = vring_avail_ring (mem s) vq i)
    \<Longrightarrow> vq_step ram features (vq, s) (In h) (vq, s\<lparr>mem := m\<rparr>)"
| guest_write: "(\<And>x. avail_range vq x \<Longrightarrow> m x = mem s x) \<Longrightarrow> vq_step ram features (vq, s) Tau (vq, s\<lparr>mem := m\<rparr>)"
| pop: "virtqueue_pop ram features vq s = Some (Some e, vq', s') \<Longrightarrow> h = ucast (el_index e)
    \<Longrightarrow> vq_step ram features (vq, s) (Out h) (vq', s')"
| pop_none: "virtqueue_pop ram features vq s = Some (None, vq', s') \<Longrightarrow> vq_step ram features (vq, s) Tau (vq', s')"
| push: "virtqueue_push vq e len s = Some (vq', s') \<Longrightarrow> vq_step ram features (vq, s) Tau (vq', s')"
| notify: "vring_notify features vq (mem s) = (b, vq') \<Longrightarrow> vq_step ram features (vq, s) Tau (vq', s)"
| set_notification: "virtio_queue_set_notification features vq b (mem s) = (vq', m) \<Longrightarrow>
    vq_step ram features (vq, s) Tau (vq', s\<lparr>mem := m\<rparr>)"

lemma num_small:
  assumes "unat n dvd 32768"
  shows "0 < unat n" "unat n \<le> 32768" "unat n dvd 65536"
proof -
  show "0 < unat n" using assms by (cases "unat n = 0") auto
  show "unat n \<le> 32768" using assms by (rule dvd_imp_le) simp
  have "(65536 :: nat) = 32768 * 2" by simp
  then show "unat n dvd 65536" using assms dvd_mult2 by metis
qed

lemma slot_nat:
  assumes "unat (vr_num (vring vq)) dvd 32768"
  shows "unat (slot vq (j + of_nat k)) = (unat j + k) mod unat (vr_num (vring vq))"
    "unat (slot vq j) = unat j mod unat (vr_num (vring vq))" "slot vq j < vr_num (vring vq)"
proof -
  note n = num_small [OF assms]
  have s: "unat (slot vq i) = unat i mod unat (vr_num (vring vq))" for i
    by (simp add: slot_def unat_mod unsigned_ucast_eq take_bit_nat_eq_self less_trans [OF unat_bound [of i]])
  have "unat (j + of_nat k) = (unat j + k) mod 65536" by (simp add: unat_word_ariths unat_of_nat mod_simps)
  then show "unat (slot vq (j + of_nat k)) = (unat j + k) mod unat (vr_num (vring vq))"
    using n(3) by (simp add: s mod_mod_cancel)
  show "unat (slot vq j) = unat j mod unat (vr_num (vring vq))" by (rule s)
  show "slot vq j < vr_num (vring vq)" using n(1) by (simp add: word_less_nat_alt s)
qed

lemma heads_cong:
  assumes "unat (vr_num (vring vq)) dvd 32768" "vring vq' = vring vq" "last_avail_idx vq' = last_avail_idx vq"
    "\<And>x. avail_range vq x \<Longrightarrow> mem s' x = mem s x"
  shows "vq_heads (vq', s') = vq_heads (vq, s)" "pending vq' (mem s') = pending vq (mem s)"
proof -
  note f = avail_frame [OF assms(4)]
  have r: "vring_avail_ring m vq' i = vring_avail_ring m vq i" "vring_avail_idx m vq' = vring_avail_idx m vq" "slot vq' j = slot vq j" for m i j
    using assms(2) by (simp_all add: vring_avail_ring_def vring_avail_idx_def slot_def)
  show p: "pending vq' (mem s') = pending vq (mem s)" by (simp add: pending_def r f(1) assms(3))
  show "vq_heads (vq', s') = vq_heads (vq, s)"
    by (simp add: vq_heads_def p r assms(3) f(3) slot_nat(3) [OF assms(1)])
qed


lemma ucast16_32: "(ucast (ucast (w :: u16) :: u32) :: u16) = w"
  by (rule ucast_up_ucast_id) (simp add: is_up)

lemma event_frame: "\<not> used_range vq x \<Longrightarrow> vring_avail_event m (vq\<lparr>last_avail_idx := k\<rparr>) v x = m x"
  using device_writes(2) [of "vq\<lparr>last_avail_idx := k\<rparr>" x m v] by (simp add: used_range_def)

lemma pop_facts:
  assumes "virtqueue_pop ram features vq s = Some (r, vq', s')"
  shows "vring vq' = vring vq" "\<not> used_range vq x \<Longrightarrow> mem s' x = mem s x"
    "r = None \<Longrightarrow> vq' = vq \<and> s' = s \<and> pending vq (mem s) = 0"
    "r = Some e \<Longrightarrow> last_avail_idx vq' = last_avail_idx vq + 1 \<and> inuse vq' = inuse vq + 1 \<and> 0 < pending vq (mem s) \<and> dirty s' = dirty s
      \<and> el_index e = ucast (vring_avail_ring (mem s) vq (slot vq (last_avail_idx vq))) \<and> el_index e < vr_num (vring vq)"
proof -
  show "vring vq' = vring vq" "\<not> used_range vq x \<Longrightarrow> mem s' x = mem s x"
    "r = None \<Longrightarrow> vq' = vq \<and> s' = s \<and> pending vq (mem s) = 0"
    "r = Some e \<Longrightarrow> last_avail_idx vq' = last_avail_idx vq + 1 \<and> inuse vq' = inuse vq + 1 \<and> 0 < pending vq (mem s) \<and> dirty s' = dirty s
      \<and> el_index e = ucast (vring_avail_ring (mem s) vq (slot vq (last_avail_idx vq))) \<and> el_index e < vr_num (vring vq)"
    using assms
    by (auto simp: virtqueue_pop_def virtqueue_num_heads_def virtqueue_get_head_def Let_def pending_def slot_def unat_gt_0 not_le event_frame ucast16_32
        split: if_splits elim!: bind_SomeE)
qed

lemma push_facts:
  assumes "virtqueue_push vq e len s = Some (vq', s')"
  shows "vring vq' = vring vq" "last_avail_idx vq' = last_avail_idx vq" "\<not> used_range vq x \<Longrightarrow> mem s' x = mem s x"
proof -
  have lt: "i mod vr_num (vring vq) < vr_num (vring vq)" if "vr_num (vring vq) \<noteq> 0" for i
    using that by (simp add: word_less_nat_alt unat_mod unat_gt_0)
  show "vring vq' = vring vq" "last_avail_idx vq' = last_avail_idx vq" "\<not> used_range vq x \<Longrightarrow> mem s' x = mem s x"
    using assms lt device_writes [of vq x]
    by (auto simp: virtqueue_push_def virtqueue_fill_def virtqueue_flush_def Let_def split: if_splits elim!: bind_SomeE)
qed

lemma pending_pop:
  assumes "vring vq' = vring vq" "last_avail_idx vq' = last_avail_idx vq + 1" "0 < pending vq m" "vring_avail_idx m' vq = vring_avail_idx m vq"
  shows "pending vq m = Suc (pending vq' m')"
proof -
  have "vring_avail_idx m' vq' = vring_avail_idx m vq" using assms(1,4) by (simp add: vring_avail_idx_def)
  then have "vring_avail_idx m' vq' - last_avail_idx vq' = (vring_avail_idx m vq - last_avail_idx vq) - 1" using assms(2) by simp
  then show ?thesis using assms(3) unat_minus_one [of "vring_avail_idx m vq - last_avail_idx vq"] by (simp add: pending_def unat_gt_0)
qed

lemma pending_publish:
  assumes "vring_avail_idx m' vq = vring_avail_idx m vq + 1" "pending vq m < 32768"
  shows "pending vq m' = Suc (pending vq m)" "vring_avail_idx m vq = last_avail_idx vq + of_nat (pending vq m)"
proof -
  have e: "vring_avail_idx m' vq - last_avail_idx vq = (vring_avail_idx m vq - last_avail_idx vq) + 1" using assms(1) by simp
  show "pending vq m' = Suc (pending vq m)"
    using assms(2) unfolding pending_def e by (subst unat_word_ariths(1)) simp
  show "vring_avail_idx m vq = last_avail_idx vq + of_nat (pending vq m)" unfolding pending_def by (simp only: of_nat_unat ucast_id) simp
qed

lemma vq_pop_queue:
  assumes p: "virtqueue_pop ram features vq s = Some (Some e, vq', s')" and ok: "vq_ok (vq, s)"
  shows "vq_ok (vq', s') \<and> vq_heads (vq, s) = ucast (el_index e) # vq_heads (vq', s')"
proof -
  note f = pop_facts [OF p]
  have n: "unat (vr_num (vring vq)) dvd 32768" and ap: "\<And>x. avail_range vq x \<Longrightarrow> \<not> used_range vq x"
    and le: "pending vq (mem s) \<le> unat (vr_num (vring vq))" using ok by (auto simp: vq_ok_def)
  note fr = avail_frame [OF f(2) [OF ap]]
  have P: "pending vq (mem s) = Suc (pending vq' (mem s'))" using f(1,4) fr(1) by (intro pending_pop) auto
  have r: "vring_avail_ring m vq' i = vring_avail_ring m vq i" "slot vq' j = slot vq j" for m i j
    using f(1) by (simp_all add: vring_avail_ring_def slot_def)
  have e: "(ucast (el_index e) :: u16) = vring_avail_ring (mem s) vq (slot vq (last_avail_idx vq))"
    using f(4) [OF refl] by (simp add: ucast16_32)
  have "vq_ok (vq', s')" using f(1) n ap le P by (auto simp: vq_ok_def avail_range_def used_range_def)
  moreover have "vq_heads (vq, s) = ucast (el_index e) # vq_heads (vq', s')"
    using f(4) [OF refl] by (simp add: vq_heads_def P ucast16_32 r fr(3) slot_nat(3) [OF n] map_upt_Suc add.assoc del: upt_Suc)
  ultimately show ?thesis ..
qed

lemma vq_publish_queue:
  assumes ok: "vq_ok (vq, s)" and lt: "pending vq (mem s) < unat (vr_num (vring vq))"
    and m: "vring_avail_idx m vq = vring_avail_idx (mem s) vq + 1"
      "vring_avail_ring m vq (slot vq (vring_avail_idx (mem s) vq)) = h"
      "\<And>i. i < vr_num (vring vq) \<Longrightarrow> i \<noteq> slot vq (vring_avail_idx (mem s) vq) \<Longrightarrow> vring_avail_ring m vq i = vring_avail_ring (mem s) vq i"
  shows "vq_ok (vq, s\<lparr>mem := m\<rparr>) \<and> vq_heads (vq, s\<lparr>mem := m\<rparr>) = vq_heads (vq, s) @ [h]"
proof -
  define N where "N = unat (vr_num (vring vq))"
  define p where "p = pending vq (mem s)"
  have n: "unat (vr_num (vring vq)) dvd 32768" using ok by (simp add: vq_ok_def)
  note small = num_small [OF n]
  have "pending vq (mem s) < 32768" using lt small(2) by linarith
  note P = pending_publish [OF m(1) this]
  have ne: "slot vq (last_avail_idx vq + of_nat k) \<noteq> slot vq (vring_avail_idx (mem s) vq)" if k: "k < p" for k
  proof
    assume "slot vq (last_avail_idx vq + of_nat k) = slot vq (vring_avail_idx (mem s) vq)"
    then have "(unat (last_avail_idx vq) + k) mod N = (unat (last_avail_idx vq) + p) mod N"
      unfolding P(2) N_def p_def slot_nat(1) [OF n, symmetric] by (rule arg_cong)
    then have "N dvd (unat (last_avail_idx vq) + p) - (unat (last_avail_idx vq) + k)"
      using k by (intro mod_eq_dvd_iff_nat [THEN iffD1]) auto
    then have "N dvd p - k" by simp
    moreover have "0 < p - k" "p - k < N" using k lt by (simp_all add: p_def N_def)
    ultimately show False by (simp add: nat_dvd_not_less)
  qed
  have "vring_avail_ring m vq (slot vq (last_avail_idx vq + of_nat k)) = vring_avail_ring (mem s) vq (slot vq (last_avail_idx vq + of_nat k))"
    if "k < p" for k
    using ne [OF that] by (intro m(3)) (simp_all add: slot_nat(3) [OF n])
  moreover have "vring_avail_ring m vq (slot vq (last_avail_idx vq + of_nat p)) = h" using m(2) P(2) by (simp only: p_def)
  ultimately have "vq_heads (vq, s\<lparr>mem := m\<rparr>) = vq_heads (vq, s) @ [h]"
    by (simp add: vq_heads_def P(1) flip: p_def)
  moreover have "vq_ok (vq, s\<lparr>mem := m\<rparr>)" using ok lt P(1) by (auto simp: vq_ok_def)
  ultimately show ?thesis by simp
qed

lemma vq_tau_queue:
  assumes "vq_ok (vq, s)" "vring vq' = vring vq" "last_avail_idx vq' = last_avail_idx vq"
    "\<And>x. \<not> used_range vq x \<Longrightarrow> mem s' x = mem s x"
  shows "vq_ok (vq', s') \<and> vq_heads (vq', s') = vq_heads (vq, s)"
proof -
  have n: "unat (vr_num (vring vq)) dvd 32768" and ap: "\<And>x. avail_range vq x \<Longrightarrow> \<not> used_range vq x"
    using assms(1) by (auto simp: vq_ok_def)
  note h = heads_cong [OF n assms(2,3) assms(4) [OF ap]]
  with assms(1,2) show ?thesis by (auto simp: vq_ok_def avail_range_def used_range_def)
qed

lemma vq_step_queue:
  assumes "vq_step ram features x l y" "vq_ok x"
  shows "vq_ok y \<and> (case l of In h \<Rightarrow> vq_heads y = vq_heads x @ [h] | Out h \<Rightarrow> vq_heads x = h # vq_heads y | Tau \<Rightarrow> vq_heads y = vq_heads x)"
  using assms
proof cases
  case (publish vq s m h)
  with assms(2) show ?thesis using vq_publish_queue [of vq s m h] by simp
next
  case (guest_write vq m s)
  have n: "unat (vr_num (vring vq)) dvd 32768" using assms(2) guest_write by (simp add: vq_ok_def)
  from heads_cong [OF n, of vq "s\<lparr>mem := m\<rparr>" s] assms(2) guest_write show ?thesis by (simp add: vq_ok_def)
next
  case (pop vq s e vq' s' h)
  with assms(2) show ?thesis using vq_pop_queue [of ram features vq s e vq' s'] by simp
next
  case (pop_none vq s vq' s')
  with assms(2) pop_facts(3) [OF pop_none(4) refl] show ?thesis by simp
next
  case (push vq e len s vq' s')
  with assms(2) show ?thesis using vq_tau_queue [of vq s vq' s'] push_facts [OF push(4)] by simp
next
  case (notify vq s b vq')
  with assms(2) show ?thesis
    using vq_tau_queue [of vq s vq' s] by (auto simp: vring_notify_def Let_def split: if_splits)
next
  case (set_notification vq b s vq' m)
  then have "vring vq' = vring vq" "last_avail_idx vq' = last_avail_idx vq" "\<not> used_range vq x \<Longrightarrow> m x = mem s x" for x
    using device_writes(2,5,6) [of "vq\<lparr>notification := b\<rparr>" x "mem s"]
    by (auto simp: virtio_queue_set_notification_def Let_def used_range_def)
  with assms(2) set_notification show ?thesis using vq_tau_queue [of vq s vq' "s\<lparr>mem := m\<rparr>"] by simp
qed

interpretation vqueue: fifo vq_heads vq_ok "vq_step ram features" for ram features
  by unfold_locales (auto dest: vq_step_queue)


section \<open>Theorems\<close>

lemma in_range_unat:
  assumes "in_range a n x" "unat a + n \<le> 2 ^ 64"
  shows "unat x = unat a + unat (x - a)"
proof -
  have "unat a + unat (x - a) < 2 ^ 64" using assms by (simp add: in_range_def)
  moreover have "x = a + (x - a)" by simp
  ultimately show ?thesis using unat_word_ariths(1) [of a "x - a"] by simp
qed

lemma ranges_apart:
  assumes "unat a + n \<le> unat b" "unat b + k \<le> 2 ^ 64" "in_range a n x"
  shows "\<not> in_range b k x"
proof
  assume b: "in_range b k x"
  have "unat x = unat a + unat (x - a)" using assms by (intro in_range_unat) auto
  moreover have "unat x = unat b + unat (x - b)" using assms(2) b by (intro in_range_unat) auto
  ultimately show False using assms(1,3) by (simp add: in_range_def)
qed

lemma small4: "unat (i :: u32) < 4 \<Longrightarrow> i = 0 \<or> i = 1 \<or> i = 2 \<or> i = 3"
proof -
  assume "unat i < 4"
  then have "unat i = unat (0 :: u32) \<or> unat i = unat (1 :: u32) \<or> unat i = unat (2 :: u32) \<or> unat i = unat (3 :: u32)"
    by simp linarith
  then show ?thesis unfolding word_unat_eq_iff .
qed

definition vq_demo :: "unit virtqueue" where
  "vq_demo = \<lparr>vring = \<lparr>vr_num = 4, vr_desc = 0x1000, vr_avail = 0x1040, vr_used = 0x2000\<rparr>, vq_pa = 0x1000, last_avail_idx = 0,
     signalled_used = 0, signalled_used_valid = False, notification = True, inuse = 0, vq_vector = 0, handle_output = ()\<rparr>"

definition gst_zero :: gst where
  "gst_zero = \<lparr>mem = (\<lambda>_. 0), dirty = []\<rparr>"

definition gst_one :: gst where
  "gst_one = gst_zero\<lparr>mem := stw_phys (mem gst_zero) 0x1042 1\<rparr>"

lemma vq_demo_ok: "vq_ok (vq_demo, gst_zero)"
proof -
  have "\<not> used_range vq_demo x" if "avail_range vq_demo x" for x
    using that ranges_apart [of "0x1040" 12 "0x2000" 38 x] by (simp add: avail_range_def used_range_def vq_demo_def)
  moreover have "pending vq_demo (mem gst_zero) = 0" by code_simp
  ultimately show ?thesis by (simp add: vq_ok_def vq_demo_def)
qed

lemma demo_publish: "vq_step ram f (vq_demo, gst_zero) (In 0) (vq_demo, gst_one)"
proof -
  have z: "vring_avail_ring (mem gst_one) vq_demo i = vring_avail_ring (mem gst_zero) vq_demo i" if "i < vr_num (vring vq_demo)" for i
  proof -
    have "unat i < 4" using that by (simp add: vq_demo_def word_less_nat_alt)
    then have "i = 0 \<or> i = 1 \<or> i = 2 \<or> i = 3" by (rule small4)
    then show ?thesis by (elim disjE; hypsubst; code_simp)
  qed
  have e: "gst_one = gst_zero\<lparr>mem := mem gst_one\<rparr>" by (simp add: gst_one_def)
  have p: "pending vq_demo (mem gst_zero) < unat (vr_num (vring vq_demo))"
    "vring_avail_idx (mem gst_one) vq_demo = vring_avail_idx (mem gst_zero) vq_demo + 1"
    "vring_avail_ring (mem gst_one) vq_demo (slot vq_demo (vring_avail_idx (mem gst_zero) vq_demo)) = 0" by code_simp+
  show ?thesis by (subst e, rule vq_step.publish [OF p z])
qed

lemma map_sg_all:
  "length vs = length as \<Longrightarrow> virtqueue_map_sg ram vs as w =
     (if \<forall>(v, a) \<in> set (zip vs as). ram a (iov_len v) w then Some (map2 (\<lambda>v a. v\<lparr>iov_base := a\<rparr>) vs as) else None)"
  by (induction vs as rule: list_induct2) (auto split: if_splits)

lemma map_sg_descs:
  "virtqueue_map_sg ram (map (desc_iov m pa) l) (map (vring_desc_addr m pa) l) w =
     (if \<forall>i \<in> set l. ram (vring_desc_addr m pa i) (ucast (vring_desc_len m pa i)) w
      then Some (map (\<lambda>i. \<lparr>iov_base = vring_desc_addr m pa i, iov_len = ucast (vring_desc_len m pa i)\<rparr>) l) else None)"
  by (simp add: map_sg_all zip_map_map zip_same_conv_map desc_iov_def)

text \<open>Where the chain of a head begins: in the ring's table, or in the indirect table the head points to.\<close>

definition chain_table :: "gmem \<Rightarrow> 'f virtqueue \<Rightarrow> u32 \<Rightarrow> u32 \<times> u64 \<times> u32 \<Rightarrow> bool" where
  "chain_table m vq head = (\<lambda>(mx, pa, i).
     if vring_desc_flags m (vr_desc (vring vq)) head AND VRING_DESC_F_INDIRECT = 0
     then mx = vr_num (vring vq) \<and> pa = vr_desc (vring vq) \<and> i = head
     else vring_desc_len m (vr_desc (vring vq)) head = mx * 16 \<and> unat mx * 16 < 2 ^ 32
          \<and> pa = vring_desc_addr m (vr_desc (vring vq)) head \<and> i = 0)"

definition chain_elem :: "gmem \<Rightarrow> u64 \<Rightarrow> u32 \<Rightarrow> u32 list \<Rightarrow> vq_element" where
  "chain_elem m pa head l =
     (let buf = (\<lambda>i. \<lparr>iov_base = vring_desc_addr m pa i, iov_len = ucast (vring_desc_len m pa i)\<rparr>);
          rd = filter (\<lambda>i. \<not> writable m pa i) l; wr = filter (writable m pa) l
      in \<lparr>el_index = head, in_addr = map (vring_desc_addr m pa) wr, out_addr = map (vring_desc_addr m pa) rd,
          in_sg = map buf wr, out_sg = map buf rd\<rparr>)"

definition chain_mapped :: "(u64 \<Rightarrow> u64 \<Rightarrow> bool \<Rightarrow> bool) \<Rightarrow> gmem \<Rightarrow> u64 \<Rightarrow> u32 list \<Rightarrow> bool" where
  "chain_mapped ram m pa l \<longleftrightarrow> (\<forall>i \<in> set l. ram (vring_desc_addr m pa i) (ucast (vring_desc_len m pa i)) (writable m pa i))"

lemma table_div:
  assumes "len = mx * (16 :: u32)" "unat mx * 16 < 2 ^ 32"
  shows "len mod 16 = 0" "len div 16 = mx"
proof -
  have u: "unat len = unat mx * 16" using assms by (simp add: unat_word_ariths)
  show "len mod 16 = 0" by (simp add: word_unat_eq_iff unat_mod u)
  show "len div 16 = mx" by (simp add: word_unat_eq_iff unat_div u)
qed

lemma pop_collects:
  assumes "0 < pending vq (mem s)" "pending vq (mem s) \<le> unat (vr_num (vring vq))"
    and h: "head = ucast (vring_avail_ring (mem s) vq (slot vq (last_avail_idx vq)))" "head < vr_num (vring vq)"
    and m: "m = (if bit features VIRTIO_RING_F_EVENT_IDX then vring_avail_event (mem s) vq (vring_avail_idx (mem s) vq) else mem s)"
    and t: "chain_table m vq head (mx, pa, i)"
  shows "virtqueue_pop ram features vq s =
    do {
      e \<leftarrow> collect m pa mx i elem_empty;
      isg \<leftarrow> virtqueue_map_sg ram (in_sg e) (in_addr e) True;
      osg \<leftarrow> virtqueue_map_sg ram (out_sg e) (out_addr e) False;
      Some (Some (e\<lparr>el_index := head, in_sg := isg, out_sg := osg\<rparr>),
            vq\<lparr>last_avail_idx := last_avail_idx vq + 1, inuse := inuse vq + 1\<rparr>, s\<lparr>mem := m\<rparr>)
    }"
proof -
  have nh: "virtqueue_num_heads (mem s) vq (ucast (last_avail_idx vq)) = Some (vring_avail_idx (mem s) vq - last_avail_idx vq)"
    using assms(2) by (auto simp: virtqueue_num_heads_def pending_def ucast16_32 word_less_nat_alt unsigned_ucast_eq take_bit_nat_eq_self less_trans [OF unat_bound])
  have nz: "vring_avail_idx (mem s) vq - last_avail_idx vq \<noteq> 0" using assms(1) by (auto simp: pending_def)
  have gh: "virtqueue_get_head (mem s) vq (ucast (last_avail_idx vq)) = Some head"
    using h by (auto simp: virtqueue_get_head_def slot_def Let_def not_le)
  have ev: "vring_avail_event m' (vq\<lparr>last_avail_idx := k\<rparr>) v = vring_avail_event m' vq v" "vring_avail_idx m' (vq\<lparr>last_avail_idx := k\<rparr>) = vring_avail_idx m' vq" for m' k v
    by (simp_all add: vring_avail_event_def vring_avail_idx_def)
  show ?thesis
    unfolding virtqueue_pop_def nh gh bind.bind_lunit ev Let_def m [symmetric]
    using t nz table_div [of "vring_desc_len m (vr_desc (vring vq)) head" mx] by (auto simp: chain_table_def split: if_splits)
qed

lemma mapped_split:
  "chain_mapped ram m pa l \<longleftrightarrow>
     (\<forall>i \<in> set (filter (writable m pa) l). ram (vring_desc_addr m pa i) (ucast (vring_desc_len m pa i)) True)
     \<and> (\<forall>i \<in> set (filter (\<lambda>i. \<not> writable m pa i) l). ram (vring_desc_addr m pa i) (ucast (vring_desc_len m pa i)) False)"
  unfolding chain_mapped_def set_filter by (auto; metis (full_types))

lemma add_descs_mapped:
  "do {
     isg \<leftarrow> virtqueue_map_sg ram (in_sg (add_descs m pa l elem_empty)) (in_addr (add_descs m pa l elem_empty)) True;
     osg \<leftarrow> virtqueue_map_sg ram (out_sg (add_descs m pa l elem_empty)) (out_addr (add_descs m pa l elem_empty)) False;
     Some (f ((add_descs m pa l elem_empty)\<lparr>el_index := head, in_sg := isg, out_sg := osg\<rparr>))
   } = (if chain_mapped ram m pa l then Some (f (chain_elem m pa head l)) else None)"
  by (auto simp: add_descs_def elem_empty_def map_sg_descs chain_elem_def mapped_split Let_def split: if_splits)


lemma el_ok_empty: "el_ok elem_empty"
  by (simp add: el_ok_def elem_empty_def)

lemma chain_unique: "is_chain m pa mx i l \<Longrightarrow> is_chain m pa mx i l' \<Longrightarrow> l' = l"
proof (induction arbitrary: l' rule: is_chain.induct)
  case (last i)
  from last.prems show ?case using last.hyps by cases auto
next
  case (more i nxt l)
  from more.prems obtain l2 where "l' = i # l2" "is_chain m pa mx nxt l2" using more.hyps(1,2) by cases auto
  with more.IH show ?case by blast
qed

text \<open>C13: Taking a buffer (\<open>virtqueue_pop\<close> of hw/virtio.c) collects its chain of descriptors, from
  the ring's table or from an indirect table: with a head available the call returns exactly when
  the chain ends, fits the element and the table, and all its buffers can be mapped for the access
  their direction needs (otherwise the emulator ends); the element then has the readable and the
  writable buffers in chain order with the guest's addresses and lengths, and the queue has moved
  on by one.\<close>

theorem pop_takes_chain:
  assumes "0 < pending vq (mem s)" "pending vq (mem s) \<le> unat (vr_num (vring vq))"
    and "head = ucast (vring_avail_ring (mem s) vq (slot vq (last_avail_idx vq)))" "head < vr_num (vring vq)"
    and "m = (if bit features VIRTIO_RING_F_EVENT_IDX then vring_avail_event (mem s) vq (vring_avail_idx (mem s) vq) else mem s)"
    and "chain_table m vq head (mx, pa, i)"
  shows "virtqueue_pop ram features vq s = Some r \<longleftrightarrow>
    (\<exists>l. is_chain m pa mx i l \<and> chain_fits m pa mx l elem_empty \<and> chain_mapped ram m pa l
       \<and> r = (Some (chain_elem m pa head l), vq\<lparr>last_avail_idx := last_avail_idx vq + 1, inuse := inuse vq + 1\<rparr>, s\<lparr>mem := m\<rparr>))"
proof (cases "collect m pa mx i elem_empty")
  case None
  then have "\<not> (is_chain m pa mx i l \<and> chain_fits m pa mx l elem_empty)" for l
    using collect_chain [OF _ el_ok_empty, of m pa mx i l] by auto
  with None show ?thesis unfolding pop_collects [OF assms] by auto
next
  case (Some e)
  from collect_only_chain [OF this el_ok_empty] obtain l where
    l: "is_chain m pa mx i l" "chain_fits m pa mx l elem_empty" "e = add_descs m pa l elem_empty" by auto
  let ?v = "\<lambda>e. (Some e, vq\<lparr>last_avail_idx := last_avail_idx vq + 1, inuse := inuse vq + 1\<rparr>, s\<lparr>mem := m\<rparr>)"
  have p: "virtqueue_pop ram features vq s = (if chain_mapped ram m pa l then Some (?v (chain_elem m pa head l)) else None)"
    unfolding pop_collects [OF assms] Some bind.bind_lunit l(3) by (rule add_descs_mapped [where f = ?v])
  have q: "(\<exists>l'. is_chain m pa mx i l' \<and> R l') \<longleftrightarrow> R l" for R using l(1) chain_unique by blast
  show ?thesis unfolding p q using l(2) by auto
qed

lemma demo_flags: "vring_desc_flags (mem gst_one) 0x1000 0 = 0"
  by (simp add: vring_desc_flags_def lduw_phys_def gst_one_def gst_zero_def stw_phys_def poke_def peek_def in_range_def put16_def upt_rec get16_def field_def)

lemma demo_chain: "is_chain (mem gst_one) 0x1000 4 0 [0]" "chain_fits (mem gst_one) 0x1000 4 [0] elem_empty"
  "chain_table (mem gst_one) vq_demo 0 (4, 0x1000, 0)"
  by (simp_all add: is_chain.last demo_flags chain_fits_def elem_empty_def chain_table_def vq_demo_def)

lemma demo_head: "0 < pending vq_demo (mem gst_one)" "pending vq_demo (mem gst_one) \<le> unat (vr_num (vring vq_demo))"
  "0 = ucast (vring_avail_ring (mem gst_one) vq_demo (slot vq_demo (last_avail_idx vq_demo)))" "0 < vr_num (vring vq_demo)"
  "mem gst_one = (if bit (0 :: u32) VIRTIO_RING_F_EVENT_IDX then vring_avail_event (mem gst_one) vq_demo (vring_avail_idx (mem gst_one) vq_demo) else mem gst_one)"
  by (code_simp, code_simp, code_simp, code_simp, simp)

theorem pop_takes_chain_witness:
  "\<exists>l. virtqueue_pop (\<lambda>a n w. True) 0 vq_demo gst_one =
     Some (Some (chain_elem (mem gst_one) 0x1000 0 l), vq_demo\<lparr>last_avail_idx := 1, inuse := 1\<rparr>, gst_one)"
  using pop_takes_chain [OF demo_head demo_chain(3), of "\<lambda>a n w. True"] demo_chain(1,2)
  by (auto simp: chain_mapped_def vq_demo_def)

lemma demo_pop: "\<exists>e vq s. virtqueue_pop (\<lambda>a n w. True) 0 vq_demo gst_one = Some (Some e, vq, s) \<and> el_index e = 0"
  unfolding pop_collects [OF demo_head demo_chain(3)] collect_chain [OF demo_chain(1) el_ok_empty demo_chain(2)] bind.bind_lunit
  by (simp add: add_descs_mapped [where f = "\<lambda>e. (Some e, x, y)" for x y] chain_mapped_def chain_elem_def)

text \<open>C12: Buffers are taken from a virtqueue in the order the guest made them available (\<open>virtqueue_pop\<close>
  of hw/virtio.c), for every interleaving of the guest publishing heads and writing elsewhere with
  the device taking buffers, returning them and switching notifications, across the wrap-around of
  the 16-bit indices: the heads published are those taken followed by those still in the ring.\<close>

theorem virtqueue_in_order:
  assumes "run_of (vq_step ram features) (vq, s) ls y" "vq_ok (vq, s)" "pending vq (mem s) = 0"
  shows "ins ls = outs ls @ vq_heads y"
proof -
  have "vq_heads (vq, s) = []" using assms(3) by (simp add: vq_heads_def)
  then show ?thesis by (rule vqueue.in_order(1) [OF assms(1,2)])
qed

theorem virtqueue_in_order_witness:
  "\<exists>ls y. run_of (vq_step (\<lambda>a n w. True) 0) (vq_demo, gst_zero) ls y \<and> outs ls = [0] \<and> ins ls = outs ls @ vq_heads y"
proof -
  from demo_pop obtain e vq s where p: "virtqueue_pop (\<lambda>a n w. True) 0 vq_demo gst_one = Some (Some e, vq, s)" "el_index e = 0" by blast
  then have "vq_step (\<lambda>a n w. True) 0 (vq_demo, gst_one) (Out 0) (vq, s)" by (intro vq_step.pop) auto
  then have r: "run_of (vq_step (\<lambda>a n w. True) 0) (vq_demo, gst_zero) [In 0, Out 0] (vq, s)"
    using demo_publish by (blast intro: run_cons run_nil)
  have "pending vq_demo (mem gst_zero) = 0" by code_simp
  from virtqueue_in_order [OF r vq_demo_ok this] r show ?thesis
    by (intro exI [of _ "[In 0, Out 0]"] exI [of _ "(vq, s)"]) simp
qed





section \<open>The used ring\<close>

text \<open>What the guest reads of an entry of the used ring.\<close>

definition used_entry :: "gmem \<Rightarrow> 'f virtqueue \<Rightarrow> u32 \<Rightarrow> u32 \<times> u32" where
  "used_entry m vq i = (ldl_phys m (vr_used (vring vq) + of_nat (4 + 8 * unat i)), ldl_phys m (vr_used (vring vq) + of_nat (8 + 8 * unat i)))"

fun push_all :: "'f virtqueue \<Rightarrow> (vq_element \<times> u32) list \<Rightarrow> gst \<Rightarrow> ('f virtqueue \<times> gst) option" where
  "push_all vq [] s = Some (vq, s)"
| "push_all vq ((e, len) # es) s = do { (vq1, s1) \<leftarrow> virtqueue_push vq e len s; push_all vq1 es s1 }"

lemma offsets_disjoint:
  assumes "p + n \<le> q \<or> q + k \<le> p" "p + n \<le> 2 ^ 63" "q + k \<le> 2 ^ 63"
  shows "disjoint_ranges (a + of_nat p) n (a + of_nat q) k"
proof -
  have "\<not> unat ((a + of_nat p) + of_nat i - (a + of_nat q)) < k" if i: "i < n" for i
  proof (cases "p + n \<le> q")
    case True
    define d where "d = q - (p + i)"
    have d: "0 < d" "d \<le> 2 ^ 63" "q = (p + i) + d" using True i assms(3) by (auto simp: d_def)
    have "(a + of_nat p) + of_nat i - (a + of_nat q) = - (of_nat d :: u64)" unfolding d(3) by simp
    moreover have "unat (- (of_nat d :: u64)) = 2 ^ 64 - d"
      unfolding diff_0 [symmetric] using d(1,2) by (subst unat_sub_if') (simp add: unat_of_nat_small)
    ultimately show ?thesis using d(1,2) assms(1,3) True by simp
  next
    case False
    with assms(1) have q: "q + k \<le> p" by simp
    have e: "(a + of_nat p) + of_nat i - (a + of_nat q) = (of_nat (p + i - q) :: u64)"
      using q by (simp add: of_nat_diff)
    have "unat (of_nat (p + i - q) :: u64) = p + i - q" using i assms(2) by (intro unat_of_nat_small) simp
    then show ?thesis unfolding e using q by simp
  qed
  then show ?thesis by (simp add: disjoint_ranges_def in_range_def)
qed

text \<open>The fields of the used ring do not overlap.\<close>

lemma ld_poke_offset:
  assumes "p + n \<le> q \<or> q + length bs \<le> p" "p + n \<le> 2 ^ 63" "q + length bs \<le> 2 ^ 63"
  shows "n = 2 \<Longrightarrow> lduw_phys (poke m (a + of_nat q) bs) (a + of_nat p) = lduw_phys m (a + of_nat p)"
    "n = 4 \<Longrightarrow> ldl_phys (poke m (a + of_nat q) bs) (a + of_nat p) = ldl_phys m (a + of_nat p)"
  using ld_poke_other(1,2) offsets_disjoint [OF assms, of a] by auto

lemma used_fields:
  "vring_used_idx (vring_used_ring_id m vq i w) vq = vring_used_idx m vq"
  "vring_used_idx (vring_used_ring_len m vq i w) vq = vring_used_idx m vq"
  "vring_used_idx (vring_used_idx_set m vq v) vq = v"
  "used_entry (vring_used_idx_set m vq v) vq j = used_entry m vq j"
  "used_entry (vring_used_ring_len (vring_used_ring_id m vq i w) vq i l) vq j = (if j = i then (w, l) else used_entry m vq j)"
proof -
  have off: "vring_used_idx m vq = lduw_phys m (vr_used (vring vq) + of_nat 2)"
    "vring_used_idx_set m vq v = poke m (vr_used (vring vq) + of_nat 2) (put16 v)"
    "vring_used_ring_id m vq i w = poke m (vr_used (vring vq) + of_nat (4 + 8 * unat i)) (put32 w)"
    "vring_used_ring_len m vq i w = poke m (vr_used (vring vq) + of_nat (8 + 8 * unat i)) (put32 w)" for m i w v
    by (simp_all add: vring_used_idx_def vring_used_idx_set_def vring_used_ring_id_def vring_used_ring_len_def stw_phys_def stl_phys_def ac_simps)
  note b = unat_bound [of i] unat_bound [of j]
  show "vring_used_idx (vring_used_ring_id m vq i w) vq = vring_used_idx m vq"
    unfolding off using b by (intro ld_poke_offset(1)) auto
  show "vring_used_idx (vring_used_ring_len m vq i w) vq = vring_used_idx m vq"
    unfolding off using b by (intro ld_poke_offset(1)) auto
  show "vring_used_idx (vring_used_idx_set m vq v) vq = v"
    unfolding off using ld_st_same(1) [of m "vr_used (vring vq) + of_nat 2" v] by (simp only: stw_phys_def)
  have r4: "ldl_phys (poke m (vr_used (vring vq) + of_nat q) bs) (vr_used (vring vq) + of_nat p) = ldl_phys m (vr_used (vring vq) + of_nat p)"
    if "p + 4 \<le> q \<or> q + length bs \<le> p" "p + 4 \<le> 2 ^ 63" "q + length bs \<le> 2 ^ 63" for m q bs p
    using ld_poke_offset(2) [OF that refl] .
  show "used_entry (vring_used_idx_set m vq v) vq j = used_entry m vq j"
    unfolding off used_entry_def using b by (subst r4, simp, simp, simp)+ simp
  have s4: "ldl_phys (poke m a (put32 w)) a = w" for m a w using ld_st_same(2) [of m a w] by (simp only: stl_phys_def)
  show "used_entry (vring_used_ring_len (vring_used_ring_id m vq i w) vq i l) vq j = (if j = i then (w, l) else used_entry m vq j)"
  proof (cases "j = i")
    case True
    show ?thesis unfolding off used_entry_def True s4 using b by (subst r4) (simp_all add: s4 del: of_nat_add of_nat_mult)
  next
    case False
    then have "unat j < unat i \<or> unat i < unat j" by (auto simp: word_unat_eq_iff)
    then have d: "4 + 8 * unat j + 4 \<le> 4 + 8 * unat i \<or> 4 + 8 * unat i + 8 \<le> 4 + 8 * unat j" by linarith
    show ?thesis unfolding off used_entry_def using d b by (subst r4, force, simp, simp)+ (simp add: False)
  qed
qed


lemma push_returns:
  assumes "vr_num (vring vq) \<noteq> 0"
  obtains vq' s' where "virtqueue_push vq e len s = Some (vq', s')" "inuse vq' = inuse vq - 1"
    "vring_used_idx (mem s') vq = vring_used_idx (mem s) vq + 1"
    "\<And>j. used_entry (mem s') vq j = (if j = slot vq (vring_used_idx (mem s) vq) then (el_index e, len) else used_entry (mem s) vq j)"
  using assms that by (simp add: virtqueue_push_def virtqueue_fill_def virtqueue_flush_def slot_def Let_def used_fields)

lemma used_entry_cong: "vring vq' = vring vq \<Longrightarrow> used_entry m vq' i = used_entry m vq i" "vring vq' = vring vq \<Longrightarrow> vring_used_idx m vq' = vring_used_idx m vq"
  "vring vq' = vring vq \<Longrightarrow> slot vq' j = slot vq j" "vring vq' = vring vq \<Longrightarrow> used_range vq' x = used_range vq x"
  by (simp_all add: used_entry_def vring_used_idx_def slot_def used_range_def)

lemma slot_inj:
  assumes "unat (vr_num (vring vq)) dvd 32768" "slot vq (u + of_nat i) = slot vq (u + of_nat j)" "i < j"
  shows "unat (vr_num (vring vq)) \<le> j - i"
proof -
  have "(unat u + i) mod unat (vr_num (vring vq)) = (unat u + j) mod unat (vr_num (vring vq))"
    using assms(2) slot_nat(1) [OF assms(1)] by metis
  then have "unat (vr_num (vring vq)) dvd (unat u + j) - (unat u + i)"
    using assms(3) by (intro mod_eq_dvd_iff_nat [THEN iffD1]) auto
  then show ?thesis using assms(3) by (simp add: dvd_imp_le)
qed

lemma push_all_entries:
  assumes "unat (vr_num (vring vq)) dvd 32768" "length es \<le> unat (vr_num (vring vq))"
  shows "\<exists>vq' s'. push_all vq es s = Some (vq', s') \<and> vring vq' = vring vq
    \<and> vring_used_idx (mem s') vq = vring_used_idx (mem s) vq + of_nat (length es)
    \<and> (\<forall>k < length es. used_entry (mem s') vq (slot vq (vring_used_idx (mem s) vq + of_nat k)) = (el_index (fst (es ! k)), snd (es ! k)))
    \<and> (\<forall>j. (\<forall>k < length es. j \<noteq> slot vq (vring_used_idx (mem s) vq + of_nat k)) \<longrightarrow> used_entry (mem s') vq j = used_entry (mem s) vq j)
    \<and> inuse vq' = inuse vq - int (length es) \<and> (\<forall>x. \<not> used_range vq x \<longrightarrow> mem s' x = mem s x)"
  using assms
proof (induction es arbitrary: vq s)
  case Nil
  then show ?case by simp
next
  case (Cons p es)
  obtain e len where p: "p = (e, len)" by (cases p)
  have "vr_num (vring vq) \<noteq> 0" using num_small(1) [OF Cons.prems(1)] by auto
  then obtain vq1 s1 where 1: "virtqueue_push vq e len s = Some (vq1, s1)" "inuse vq1 = inuse vq - 1"
    "vring_used_idx (mem s1) vq = vring_used_idx (mem s) vq + 1"
    "\<And>j. used_entry (mem s1) vq j = (if j = slot vq (vring_used_idx (mem s) vq) then (el_index e, len) else used_entry (mem s) vq j)"
    using push_returns by blast
  note f = push_facts [OF 1(1)]
  note c = used_entry_cong [OF f(1)]
  define u where "u = vring_used_idx (mem s) vq"
  from Cons.IH [of vq1 s1] Cons.prems f(1) obtain vq' s' where IH: "push_all vq1 es s1 = Some (vq', s')" "vring vq' = vring vq"
    "vring_used_idx (mem s') vq = u + 1 + of_nat (length es)"
    "\<And>k. k < length es \<Longrightarrow> used_entry (mem s') vq (slot vq (u + 1 + of_nat k)) = (el_index (fst (es ! k)), snd (es ! k))"
    "\<And>j. (\<And>k. k < length es \<Longrightarrow> j \<noteq> slot vq (u + 1 + of_nat k)) \<Longrightarrow> used_entry (mem s') vq j = used_entry (mem s1) vq j"
    "inuse vq' = inuse vq1 - int (length es)" "\<And>x. \<not> used_range vq x \<Longrightarrow> mem s' x = mem s1 x"
    by (auto simp: c 1(3) u_def)
  have plus: "u + of_nat (Suc k) = u + 1 + of_nat k" for k by simp
  have "slot vq u \<noteq> slot vq (u + 1 + of_nat k)" if "k < length es" for k
    using slot_inj [OF Cons.prems(1), of u 0 "Suc k"] that Cons.prems(2) by (auto simp: add.assoc)
  from IH(5) [OF this] have "used_entry (mem s') vq (slot vq u) = (el_index e, len)" by (simp add: 1(4) u_def)
  then have ent: "used_entry (mem s') vq (slot vq (u + of_nat k)) = (el_index (fst ((p # es) ! k)), snd ((p # es) ! k))"
    if "k < length (p # es)" for k
    using that IH(4) by (cases k) (simp_all add: p add.assoc)
  have oth: "used_entry (mem s') vq j = used_entry (mem s) vq j" if j: "\<forall>k < length (p # es). j \<noteq> slot vq (u + of_nat k)" for j
  proof -
    have "j \<noteq> slot vq u" using j [rule_format, of 0] by simp
    moreover have "j \<noteq> slot vq (u + 1 + of_nat k)" if "k < length es" for k
      using j [rule_format, of "Suc k"] that unfolding plus by simp
    ultimately show ?thesis using IH(5) [of j] 1(4) [of j] by (simp add: u_def)
  qed
  show ?case
    using IH(2,3,6,7) ent oth f(3) 1(2) unfolding u_def [symmetric]
    by (intro exI [of _ vq'] exI [of _ s']) (simp add: p 1(1) IH(1))
qed


text \<open>C14: Buffers are given back in order (\<open>virtqueue_push\<close> of hw/virtio.c): after any number of
  pushes that fits the ring, the guest finds the heads and lengths in the used ring in the order
  they were pushed, from the old used index on and across its wrap-around, the used index has
  advanced by that number, and nothing outside the used ring was written.\<close>

theorem push_in_order:
  assumes "unat (vr_num (vring vq)) dvd 32768" "length es \<le> unat (vr_num (vring vq))"
  shows "\<exists>vq' s'. push_all vq es s = Some (vq', s')
    \<and> vring_used_idx (mem s') vq = vring_used_idx (mem s) vq + of_nat (length es)
    \<and> map (\<lambda>k. used_entry (mem s') vq (slot vq (vring_used_idx (mem s) vq + of_nat k))) [0..<length es] = map (\<lambda>(e, len). (el_index e, len)) es
    \<and> inuse vq' = inuse vq - int (length es) \<and> (\<forall>x. \<not> used_range vq x \<longrightarrow> mem s' x = mem s x)"
proof -
  from push_all_entries [OF assms, of s] obtain vq' s' where f: "push_all vq es s = Some (vq', s')"
    "vring_used_idx (mem s') vq = vring_used_idx (mem s) vq + of_nat (length es)"
    "\<And>k. k < length es \<Longrightarrow> used_entry (mem s') vq (slot vq (vring_used_idx (mem s) vq + of_nat k)) = (el_index (fst (es ! k)), snd (es ! k))"
    "inuse vq' = inuse vq - int (length es)" "\<And>x. \<not> used_range vq x \<Longrightarrow> mem s' x = mem s x"
    by blast
  have "map (\<lambda>k. used_entry (mem s') vq (slot vq (vring_used_idx (mem s) vq + of_nat k))) [0..<length es] = map (\<lambda>(e, len). (el_index e, len)) es"
    by (rule nth_equalityI) (simp_all add: f(3) case_prod_beta)
  with f show ?thesis by (intro exI [of _ vq'] exI [of _ s']) simp
qed

theorem push_in_order_witness:
  "\<exists>vq' s'. push_all vq_demo [(elem_empty\<lparr>el_index := 3\<rparr>, 7), (elem_empty\<lparr>el_index := 1\<rparr>, 5)] gst_one = Some (vq', s')
    \<and> [used_entry (mem s') vq_demo (slot vq_demo (vring_used_idx (mem gst_one) vq_demo)),
       used_entry (mem s') vq_demo (slot vq_demo (vring_used_idx (mem gst_one) vq_demo + 1))] = [(3, 7), (1, 5)]"
proof -
  have a: "unat (vr_num (vring vq_demo)) dvd 32768" "length [(elem_empty\<lparr>el_index := 3\<rparr>, 7 :: u32), (elem_empty\<lparr>el_index := 1\<rparr>, 5)] \<le> unat (vr_num (vring vq_demo))"
    by (simp_all add: vq_demo_def)
  from push_in_order [OF a, of gst_one] show ?thesis by (elim ex_forward) (simp add: upt_rec)
qed

end
