(* ===== verification/Qemu_File.thy ===== *)
theory Qemu_File
  imports Guest_Memory
begin

text \<open>
  The stream a device is saved to and loaded from (\<open>QEMUFile\<close> of qemu-1.2.0/savevm.c), as the
  sequence of bytes still to be read or written so far.  Integers are big-endian; reading past the
  end of the stream gives zero bytes, and \<open>qemu_get_buffer\<close> then stores what there is.  The window
  buffer between the stream and its file descriptor is not modelled.
\<close>

type_synonym qfile = "byte list"

definition qemu_put_byte :: "qfile \<Rightarrow> byte \<Rightarrow> qfile" where
  "qemu_put_byte f v = f @ [v]"

definition qemu_put_buffer :: "qfile \<Rightarrow> byte list \<Rightarrow> qfile" where
  "qemu_put_buffer f bs = f @ bs"

fun qemu_get_byte :: "qfile \<Rightarrow> byte \<times> qfile" where
  "qemu_get_byte [] = (0, [])"
| "qemu_get_byte (b # f) = (b, f)"

text \<open>A negative \<open>int\<close> size reads nothing; the result is the bytes stored at the start of the target.\<close>

definition qemu_get_buffer :: "qfile \<Rightarrow> u64 \<Rightarrow> byte list \<times> qfile" where
  "qemu_get_buffer f n0 = (let n = nat (sint (ucast n0 :: u32)) in (take n f, drop n f))"

definition qemu_put_be16 :: "qfile \<Rightarrow> u16 \<Rightarrow> qfile" where
  "qemu_put_be16 f v = qemu_put_byte (qemu_put_byte f (ucast (drop_bit 8 v))) (ucast v)"

definition qemu_put_be32 :: "qfile \<Rightarrow> u32 \<Rightarrow> qfile" where
  "qemu_put_be32 f v = qemu_put_byte (qemu_put_byte (qemu_put_byte (qemu_put_byte f
     (ucast (drop_bit 24 v))) (ucast (drop_bit 16 v))) (ucast (drop_bit 8 v))) (ucast v)"

definition qemu_put_be64 :: "qfile \<Rightarrow> u64 \<Rightarrow> qfile" where
  "qemu_put_be64 f v = qemu_put_be32 (qemu_put_be32 f (ucast (drop_bit 32 v))) (ucast v)"

definition qemu_get_be16 :: "qfile \<Rightarrow> u16 \<times> qfile" where
  "qemu_get_be16 f =
     (let (a, f1) = qemu_get_byte f; (b, f2) = qemu_get_byte f1
      in (push_bit 8 (ucast a) OR ucast b, f2))"

definition qemu_get_be32 :: "qfile \<Rightarrow> u32 \<times> qfile" where
  "qemu_get_be32 f =
     (let (a, f1) = qemu_get_byte f; (b, f2) = qemu_get_byte f1; (c, f3) = qemu_get_byte f2; (d, f4) = qemu_get_byte f3
      in (push_bit 24 (ucast a) OR push_bit 16 (ucast b) OR push_bit 8 (ucast c) OR ucast d, f4))"

definition qemu_get_be64 :: "qfile \<Rightarrow> u64 \<times> qfile" where
  "qemu_get_be64 f =
     (let (a, f1) = qemu_get_be32 f; (b, f2) = qemu_get_be32 f1
      in (push_bit 32 (ucast a) OR ucast b, f2))"

section \<open>Reading back what was written\<close>

text \<open>The bytes an integer takes in a stream.\<close>

definition be16 :: "u16 \<Rightarrow> byte list" where "be16 v = [ucast (drop_bit 8 v), ucast v]"
definition be32 :: "u32 \<Rightarrow> byte list" where
  "be32 v = [ucast (drop_bit 24 v), ucast (drop_bit 16 v), ucast (drop_bit 8 v), ucast v]"
definition be64 :: "u64 \<Rightarrow> byte list" where "be64 v = be32 (ucast (drop_bit 32 v)) @ be32 (ucast v)"

lemma put_be [simp]:
  "qemu_put_byte f b = f @ [b]" "qemu_put_buffer f bs = f @ bs"
  "qemu_put_be16 f v = f @ be16 v" "qemu_put_be32 f w = f @ be32 w" "qemu_put_be64 f x = f @ be64 x"
  by (simp_all add: qemu_put_byte_def qemu_put_buffer_def qemu_put_be16_def qemu_put_be32_def qemu_put_be64_def be16_def be32_def be64_def)

lemma get_be [simp]:
  "qemu_get_be16 (be16 v @ f) = (v, f)" "qemu_get_be32 (be32 w @ f) = (w, f)" "qemu_get_be64 (be64 x @ f) = (x, f)"
proof -
  show "qemu_get_be16 (be16 v @ f) = (v, f)"
    unfolding qemu_get_be16_def be16_def
    by (simp, intro bit_word_eqI) (auto simp: bit_or_iff bit_push_bit_iff bit_ucast_iff bit_drop_bit_eq)
  have w: "push_bit 24 (ucast (ucast (drop_bit 24 w) :: byte)) OR push_bit 16 (ucast (ucast (drop_bit 16 w) :: byte))
      OR push_bit 8 (ucast (ucast (drop_bit 8 w) :: byte)) OR ucast (ucast w :: byte) = w" for w :: u32
  proof (rule bit_word_eqI, goal_cases)
    case (1 n)
    then show ?case by (cases "n < 8"; cases "n < 16"; cases "n < 24")
        (auto simp: bit_or_iff bit_push_bit_iff bit_ucast_iff bit_drop_bit_eq)
  qed
  then show b: "qemu_get_be32 (be32 w @ f) = (w, f)" for w f
    by (simp add: qemu_get_be32_def be32_def)
  have x: "push_bit 32 (ucast (ucast (drop_bit 32 x) :: u32)) OR ucast (ucast x :: u32) = x" for x :: u64
    by (intro bit_word_eqI) (auto simp: bit_or_iff bit_push_bit_iff bit_ucast_iff bit_drop_bit_eq)
  show "qemu_get_be64 (be64 x @ f) = (x, f)"
    by (simp add: qemu_get_be64_def be64_def b x)
qed

lemma get_byte_append [simp]: "qemu_get_byte ([b] @ f) = (b, f)"
  by simp

lemma length_be [simp]: "length (be16 v) = 2" "length (be32 w) = 4" "length (be64 x) = 8"
  by (simp_all add: be16_def be32_def be64_def)

lemma get_buffer_append [simp]:
  "length bs < 2 ^ 31 \<Longrightarrow> qemu_get_buffer (bs @ f) (of_nat (length bs)) = (bs, f)"
  by (simp add: qemu_get_buffer_def unsigned_of_nat signed_of_nat take_bit_nat_eq_self signed_take_bit_int_eq_self)

end
