(* ===== verification/Virtio_Device.thy ===== *)
theory Virtio_Device
  imports Virtqueue Qemu_File
begin

text \<open>
  The transport-independent part of a virtio device (\<open>qemu-1.2.0/hw/virtio.c\<close>, lines 488 to 693 and
  731 to 985): status, reset, configuration space, queue registers, interrupts, and saving and
  loading the device.  A device is embedded in a larger structure and calls back into it through the
  hooks of \<open>VirtIODevice\<close> and of its transport (\<open>VirtIOBindings\<close>); a machine state is therefore the
  device, guest memory, the transport and the rest, and the hooks are functions on machine states.  A memory access
  outside an array and a call of a null pointer are \<open>None\<close>.
\<close>

section \<open>Data\<close>

abbreviation (input) VIRTIO_PCI_QUEUE_MAX :: nat where "VIRTIO_PCI_QUEUE_MAX \<equiv> 64"
abbreviation (input) VIRTIO_NO_VECTOR :: u16 where "VIRTIO_NO_VECTOR \<equiv> 0xffff"
abbreviation (input) VIRTIO_CONFIG_S_DRIVER_OK :: byte where "VIRTIO_CONFIG_S_DRIVER_OK \<equiv> 4"

text \<open>The allocated configuration space is the list \<open>vd_config\<close>; \<open>vd_config_len\<close> is the length the device believes.\<close>

record 'h vdev =
  vd_device_id :: u16
  vd_status :: byte
  vd_isr :: byte
  vd_queue_sel :: u16
  vd_features :: u32
  vd_config_len :: u64
  vd_config :: "byte list"
  vd_config_vector :: u16
  vd_vm_running :: bool
  vd_vq :: "'h option virtqueue list"

record ('h, 't, 'x) machine =
  vdev :: "'h vdev"
  guest :: gst
  trans :: 't
  rest :: 'x

record ('h, 't, 'x) virtio_ops =
  op_set_features :: "(u32 \<Rightarrow> ('h, 't, 'x) machine \<Rightarrow> ('h, 't, 'x) machine option) option"
  op_get_config :: "('h, 't, 'x) machine \<Rightarrow> ('h, 't, 'x) machine option"
  op_set_config :: "(('h, 't, 'x) machine \<Rightarrow> ('h, 't, 'x) machine option) option"
  op_reset :: "(('h, 't, 'x) machine \<Rightarrow> ('h, 't, 'x) machine option) option"
  op_set_status :: "(byte \<Rightarrow> ('h, 't, 'x) machine \<Rightarrow> ('h, 't, 'x) machine option) option"

record ('h, 't, 'x) virtio_bindings =
  b_notify :: "(u16 \<Rightarrow> 'h vdev \<Rightarrow> 't \<Rightarrow> 't) option"
  b_save_config :: "(('h, 't, 'x) machine \<Rightarrow> qfile \<Rightarrow> qfile) option"
  b_save_queue :: "(nat \<Rightarrow> ('h, 't, 'x) machine \<Rightarrow> qfile \<Rightarrow> qfile) option"
  b_load_config :: "(qfile \<Rightarrow> ('h, 't, 'x) machine \<Rightarrow> (int \<times> qfile \<times> ('h, 't, 'x) machine) option) option"
  b_load_queue :: "(nat \<Rightarrow> qfile \<Rightarrow> ('h, 't, 'x) machine \<Rightarrow> (int \<times> qfile \<times> ('h, 't, 'x) machine) option) option"
  b_get_features :: "'t \<Rightarrow> u32"
  b_vmstate_change :: "(('h \<Rightarrow> nat \<Rightarrow> ('h, 't, 'x) machine \<Rightarrow> ('h, 't, 'x) machine option) \<Rightarrow> bool \<Rightarrow> ('h, 't, 'x) machine \<Rightarrow> ('h, 't, 'x) machine option) option"

definition get_vq :: "('h, 't, 'x) machine \<Rightarrow> nat \<Rightarrow> 'h option virtqueue option" where
  "get_vq m n = (if n < length (vd_vq (vdev m)) then Some (vd_vq (vdev m) ! n) else None)"

definition set_vq :: "('h, 't, 'x) machine \<Rightarrow> nat \<Rightarrow> 'h option virtqueue \<Rightarrow> ('h, 't, 'x) machine" where
  "set_vq m n vq = m\<lparr>vdev := (vdev m)\<lparr>vd_vq := (vd_vq (vdev m))[n := vq]\<rparr>\<rparr>"

text \<open>The transport's part of the saved state; a transport without these hooks saves nothing.\<close>

definition save_config :: "('h, 't, 'x) virtio_bindings \<Rightarrow> ('h, 't, 'x) machine \<Rightarrow> qfile \<Rightarrow> qfile" where
  "save_config b = (case b_save_config b of None \<Rightarrow> (\<lambda>m f. f) | Some h \<Rightarrow> h)"

definition save_queue :: "('h, 't, 'x) virtio_bindings \<Rightarrow> nat \<Rightarrow> ('h, 't, 'x) machine \<Rightarrow> qfile \<Rightarrow> qfile" where
  "save_queue b = (case b_save_queue b of None \<Rightarrow> (\<lambda>i m f. f) | Some h \<Rightarrow> h)"

definition load_config :: "('h, 't, 'x) virtio_bindings \<Rightarrow> qfile \<Rightarrow> ('h, 't, 'x) machine \<Rightarrow> (int \<times> qfile \<times> ('h, 't, 'x) machine) option" where
  "load_config b = (case b_load_config b of None \<Rightarrow> (\<lambda>f m. Some (0, f, m)) | Some h \<Rightarrow> h)"

definition load_queue :: "('h, 't, 'x) virtio_bindings \<Rightarrow> nat \<Rightarrow> qfile \<Rightarrow> ('h, 't, 'x) machine \<Rightarrow> (int \<times> qfile \<times> ('h, 't, 'x) machine) option" where
  "load_queue b = (case b_load_queue b of None \<Rightarrow> (\<lambda>i f m. Some (0, f, m)) | Some h \<Rightarrow> h)"

definition call :: "('a \<Rightarrow> 'a option) option \<Rightarrow> 'a \<Rightarrow> 'a option" where
  "call hook m = (case hook of None \<Rightarrow> Some m | Some h \<Rightarrow> h m)"

section \<open>Status and interrupts\<close>

definition virtio_notify_vector :: "('h, 't, 'x) virtio_bindings \<Rightarrow> u16 \<Rightarrow> ('h, 't, 'x) machine \<Rightarrow> ('h, 't, 'x) machine" where
  "virtio_notify_vector b vector m = (case b_notify b of None \<Rightarrow> m | Some h \<Rightarrow> m\<lparr>trans := h vector (vdev m) (trans m)\<rparr>)"

definition virtio_update_irq :: "('h, 't, 'x) virtio_bindings \<Rightarrow> ('h, 't, 'x) machine \<Rightarrow> ('h, 't, 'x) machine" where
  "virtio_update_irq b m = virtio_notify_vector b VIRTIO_NO_VECTOR m"

definition virtio_set_status :: "('h, 't, 'x) virtio_ops \<Rightarrow> byte \<Rightarrow> ('h, 't, 'x) machine \<Rightarrow> ('h, 't, 'x) machine option" where
  "virtio_set_status ops val m =
     do {
       m1 \<leftarrow> call (map_option (\<lambda>h. h val) (op_set_status ops)) m;
       Some (m1\<lparr>vdev := (vdev m1)\<lparr>vd_status := val\<rparr>\<rparr>)
     }"

definition reset_queue :: "'f virtqueue \<Rightarrow> 'f virtqueue" where
  "reset_queue vq = vq\<lparr>vring := (vring vq)\<lparr>vr_desc := 0, vr_avail := 0, vr_used := 0\<rparr>, last_avail_idx := 0, vq_pa := 0,
     vq_vector := VIRTIO_NO_VECTOR, signalled_used := 0, signalled_used_valid := False, notification := True\<rparr>"

definition virtio_reset :: "('h, 't, 'x) virtio_ops \<Rightarrow> ('h, 't, 'x) virtio_bindings \<Rightarrow> ('h, 't, 'x) machine \<Rightarrow> ('h, 't, 'x) machine option" where
  "virtio_reset ops b m =
     do {
       m1 \<leftarrow> virtio_set_status ops 0 m;
       m2 \<leftarrow> call (op_reset ops) m1;
       let m3 = m2\<lparr>vdev := (vdev m2)\<lparr>vd_features := 0, vd_queue_sel := 0, vd_status := 0, vd_isr := 0, vd_config_vector := VIRTIO_NO_VECTOR\<rparr>\<rparr>;
       let m4 = virtio_notify_vector b (vd_config_vector (vdev m3)) m3;
       Some (m4\<lparr>vdev := (vdev m4)\<lparr>vd_vq := map reset_queue (vd_vq (vdev m4))\<rparr>\<rparr>)
     }"

definition virtio_irq :: "('h, 't, 'x) virtio_bindings \<Rightarrow> nat \<Rightarrow> ('h, 't, 'x) machine \<Rightarrow> ('h, 't, 'x) machine option" where
  "virtio_irq b n m =
     do {
       vq \<leftarrow> get_vq m n;
       Some (virtio_notify_vector b (vq_vector vq) (m\<lparr>vdev := (vdev m)\<lparr>vd_isr := vd_isr (vdev m) OR 1\<rparr>\<rparr>))
     }"

definition virtio_notify :: "('h, 't, 'x) virtio_bindings \<Rightarrow> nat \<Rightarrow> ('h, 't, 'x) machine \<Rightarrow> ('h, 't, 'x) machine option" where
  "virtio_notify b n m =
     do {
       vq \<leftarrow> get_vq m n;
       let (yes, vq') = vring_notify (vd_features (vdev m)) vq (mem (guest m));
       let m1 = set_vq m n vq';
       if \<not> yes then Some m1
       else Some (virtio_notify_vector b (vq_vector vq') (m1\<lparr>vdev := (vdev m1)\<lparr>vd_isr := vd_isr (vdev m1) OR 1\<rparr>\<rparr>))
     }"

definition virtio_notify_config :: "('h, 't, 'x) virtio_bindings \<Rightarrow> ('h, 't, 'x) machine \<Rightarrow> ('h, 't, 'x) machine" where
  "virtio_notify_config b m =
     (if vd_status (vdev m) AND VIRTIO_CONFIG_S_DRIVER_OK = 0 then m
      else virtio_notify_vector b (vd_config_vector (vdev m)) (m\<lparr>vdev := (vdev m)\<lparr>vd_isr := vd_isr (vdev m) OR 3\<rparr>\<rparr>))"

section \<open>Configuration space\<close>

text \<open>\<open>config_len - sizeof(val)\<close> is computed in \<open>size_t\<close>.\<close>

definition config_read :: "nat \<Rightarrow> (byte list \<Rightarrow> nat \<Rightarrow> u32) \<Rightarrow> ('h, 't, 'x) virtio_ops \<Rightarrow> u32 \<Rightarrow> ('h, 't, 'x) machine \<Rightarrow> (u32 \<times> ('h, 't, 'x) machine) option" where
  "config_read w ld ops addr m =
     do {
       m1 \<leftarrow> op_get_config ops m;
       if vd_config_len (vdev m1) - of_nat w < ucast addr then Some (- 1, m1)
       else if unat addr + w \<le> length (vd_config (vdev m1)) then Some (ld (vd_config (vdev m1)) (unat addr), m1)
       else None
     }"

definition virtio_config_readb :: "('h, 't, 'x) virtio_ops \<Rightarrow> u32 \<Rightarrow> ('h, 't, 'x) machine \<Rightarrow> (u32 \<times> ('h, 't, 'x) machine) option" where
  "virtio_config_readb = config_read 1 (\<lambda>c a. ucast (c ! a))"

definition virtio_config_readw :: "('h, 't, 'x) virtio_ops \<Rightarrow> u32 \<Rightarrow> ('h, 't, 'x) machine \<Rightarrow> (u32 \<times> ('h, 't, 'x) machine) option" where
  "virtio_config_readw = config_read 2 (\<lambda>c a. ucast (get16 c a))"

definition virtio_config_readl :: "('h, 't, 'x) virtio_ops \<Rightarrow> u32 \<Rightarrow> ('h, 't, 'x) machine \<Rightarrow> (u32 \<times> ('h, 't, 'x) machine) option" where
  "virtio_config_readl = config_read 4 get32"

definition config_write :: "byte list \<Rightarrow> ('h, 't, 'x) virtio_ops \<Rightarrow> u32 \<Rightarrow> ('h, 't, 'x) machine \<Rightarrow> ('h, 't, 'x) machine option" where
  "config_write val ops addr m =
     (if vd_config_len (vdev m) - of_nat (length val) < ucast addr then Some m
      else if unat addr + length val \<le> length (vd_config (vdev m))
      then call (op_set_config ops) (m\<lparr>vdev := (vdev m)\<lparr>vd_config := splice_at (unat addr) val (vd_config (vdev m))\<rparr>\<rparr>)
      else None)"

definition virtio_config_writeb :: "('h, 't, 'x) virtio_ops \<Rightarrow> u32 \<Rightarrow> u32 \<Rightarrow> ('h, 't, 'x) machine \<Rightarrow> ('h, 't, 'x) machine option" where
  "virtio_config_writeb ops addr data m = config_write [ucast data] ops addr m"

definition virtio_config_writew :: "('h, 't, 'x) virtio_ops \<Rightarrow> u32 \<Rightarrow> u32 \<Rightarrow> ('h, 't, 'x) machine \<Rightarrow> ('h, 't, 'x) machine option" where
  "virtio_config_writew ops addr data m = config_write (put16 (ucast data)) ops addr m"

definition virtio_config_writel :: "('h, 't, 'x) virtio_ops \<Rightarrow> u32 \<Rightarrow> u32 \<Rightarrow> ('h, 't, 'x) machine \<Rightarrow> ('h, 't, 'x) machine option" where
  "virtio_config_writel ops addr data m = config_write (put32 data) ops addr m"


section \<open>Queue registers\<close>

definition virtio_queue_set_addr :: "nat \<Rightarrow> u64 \<Rightarrow> ('h, 't, 'x) machine \<Rightarrow> ('h, 't, 'x) machine option" where
  "virtio_queue_set_addr n addr m = do { vq \<leftarrow> get_vq m n; Some (set_vq m n (virtqueue_init (vq\<lparr>vq_pa := addr\<rparr>))) }"

definition virtio_queue_get_addr :: "('h, 't, 'x) machine \<Rightarrow> nat \<Rightarrow> u64 option" where
  "virtio_queue_get_addr m n = map_option vq_pa (get_vq m n)"

definition virtio_queue_get_num :: "('h, 't, 'x) machine \<Rightarrow> nat \<Rightarrow> u32 option" where
  "virtio_queue_get_num m n = map_option (\<lambda>vq. vr_num (vring vq)) (get_vq m n)"

text \<open>The handlers are interpreted by \<open>run\<close>, which gets the queue's number.\<close>

definition virtio_queue_notify_vq :: "('h \<Rightarrow> nat \<Rightarrow> ('h, 't, 'x) machine \<Rightarrow> ('h, 't, 'x) machine option) \<Rightarrow> nat \<Rightarrow> ('h, 't, 'x) machine \<Rightarrow> ('h, 't, 'x) machine option" where
  "virtio_queue_notify_vq run n m =
     do {
       vq \<leftarrow> get_vq m n;
       if vr_desc (vring vq) = 0 then Some m
       else do { h \<leftarrow> handle_output vq; run h n m }
     }"

definition virtio_queue_notify :: "('h \<Rightarrow> nat \<Rightarrow> ('h, 't, 'x) machine \<Rightarrow> ('h, 't, 'x) machine option) \<Rightarrow> nat \<Rightarrow> ('h, 't, 'x) machine \<Rightarrow> ('h, 't, 'x) machine option" where
  "virtio_queue_notify run n m = virtio_queue_notify_vq run n m"

definition virtio_queue_vector :: "('h, 't, 'x) machine \<Rightarrow> nat \<Rightarrow> u16 option" where
  "virtio_queue_vector m n = (if n < VIRTIO_PCI_QUEUE_MAX then map_option vq_vector (get_vq m n) else Some VIRTIO_NO_VECTOR)"

definition virtio_queue_set_vector :: "nat \<Rightarrow> u16 \<Rightarrow> ('h, 't, 'x) machine \<Rightarrow> ('h, 't, 'x) machine option" where
  "virtio_queue_set_vector n vector m =
     (if n < VIRTIO_PCI_QUEUE_MAX then do { vq \<leftarrow> get_vq m n; Some (set_vq m n (vq\<lparr>vq_vector := vector\<rparr>)) } else Some m)"

text \<open>The first queue that is not in use, and the number of queues when there is none.\<close>

fun free_queue :: "'f virtqueue list \<Rightarrow> nat" where
  "free_queue [] = 0"
| "free_queue (vq # vqs) = (if vr_num (vring vq) = 0 then 0 else Suc (free_queue vqs))"

definition virtio_add_queue :: "u32 \<Rightarrow> 'h \<Rightarrow> ('h, 't, 'x) machine \<Rightarrow> (nat \<times> ('h, 't, 'x) machine) option" where
  "virtio_add_queue queue_size handler m =
     (let i = free_queue (vd_vq (vdev m))
      in if VIRTIO_PCI_QUEUE_MAX \<le> i \<or> int VIRTQUEUE_MAX_SIZE < sint queue_size then None
         else do {
           vq \<leftarrow> get_vq m i;
           Some (i, set_vq m i (vq\<lparr>vring := (vring vq)\<lparr>vr_num := queue_size\<rparr>, handle_output := Some handler\<rparr>))
         })"

definition virtio_queue_get_desc_size :: "('h, 't, 'x) machine \<Rightarrow> nat \<Rightarrow> u64 option" where
  "virtio_queue_get_desc_size m n = map_option (\<lambda>vq. 16 * ucast (vr_num (vring vq))) (get_vq m n)"

definition virtio_queue_get_avail_size :: "('h, 't, 'x) machine \<Rightarrow> nat \<Rightarrow> u64 option" where
  "virtio_queue_get_avail_size m n = map_option (\<lambda>vq. 4 + 8 * ucast (vr_num (vring vq))) (get_vq m n)"

definition virtio_queue_get_used_size :: "('h, 't, 'x) machine \<Rightarrow> nat \<Rightarrow> u64 option" where
  "virtio_queue_get_used_size m n = map_option (\<lambda>vq. 4 + 8 * ucast (vr_num (vring vq))) (get_vq m n)"

definition virtio_queue_get_ring_size :: "('h, 't, 'x) machine \<Rightarrow> nat \<Rightarrow> u64 option" where
  "virtio_queue_get_ring_size m n =
     do {
       vq \<leftarrow> get_vq m n;
       used \<leftarrow> virtio_queue_get_used_size m n;
       Some (vr_used (vring vq) - vr_desc (vring vq) + used)
     }"

definition virtio_queue_get_last_avail_idx :: "('h, 't, 'x) machine \<Rightarrow> nat \<Rightarrow> u16 option" where
  "virtio_queue_get_last_avail_idx m n = map_option last_avail_idx (get_vq m n)"

definition virtio_queue_set_last_avail_idx :: "nat \<Rightarrow> u16 \<Rightarrow> ('h, 't, 'x) machine \<Rightarrow> ('h, 't, 'x) machine option" where
  "virtio_queue_set_last_avail_idx n idx m = do { vq \<leftarrow> get_vq m n; Some (set_vq m n (vq\<lparr>last_avail_idx := idx\<rparr>)) }"

section \<open>Features, saving and loading\<close>

definition virtio_set_features :: "('h, 't, 'x) virtio_ops \<Rightarrow> ('h, 't, 'x) virtio_bindings \<Rightarrow> u32 \<Rightarrow> ('h, 't, 'x) machine \<Rightarrow> (int \<times> ('h, 't, 'x) machine) option" where
  "virtio_set_features ops b val m =
     (let supported = b_get_features b (trans m); bad = val AND NOT supported \<noteq> 0; val' = val AND supported
      in do {
           m1 \<leftarrow> call (map_option (\<lambda>h. h val') (op_set_features ops)) m;
           Some (if bad then - 1 else 0, m1\<lparr>vdev := (vdev m1)\<lparr>vd_features := val'\<rparr>\<rparr>)
         })"

fun save_queues :: "('h, 't, 'x) virtio_bindings \<Rightarrow> ('h, 't, 'x) machine \<Rightarrow> nat \<Rightarrow> 'f virtqueue list \<Rightarrow> qfile \<Rightarrow> qfile" where
  "save_queues b m i [] f = f"
| "save_queues b m i (vq # vqs) f =
     (if vr_num (vring vq) = 0 then f
      else
        (let f1 = qemu_put_be32 f (vr_num (vring vq)); f2 = qemu_put_be64 f1 (vq_pa vq); f3 = qemu_put_be16 f2 (last_avail_idx vq);
             f4 = save_queue b i m f3
         in save_queues b m (Suc i) vqs f4))"

definition virtio_save :: "('h, 't, 'x) virtio_bindings \<Rightarrow> ('h, 't, 'x) machine \<Rightarrow> qfile \<Rightarrow> qfile" where
  "virtio_save b m f =
     (let d = vdev m;
          f0 = save_config b m f;
          f1 = qemu_put_byte f0 (vd_status d); f2 = qemu_put_byte f1 (vd_isr d); f3 = qemu_put_be16 f2 (vd_queue_sel d);
          f4 = qemu_put_be32 f3 (vd_features d); f5 = qemu_put_be32 f4 (ucast (vd_config_len d));
          f6 = qemu_put_buffer f5 (take (unat (vd_config_len d)) (vd_config d));
          f7 = qemu_put_be32 f6 (of_nat (free_queue (vd_vq d)))
      in save_queues b m 0 (vd_vq d) f7)"

text \<open>What is loaded for one queue, and the checks on it.\<close>

definition load_queue_regs :: "qfile \<Rightarrow> 'f virtqueue \<Rightarrow> 'f virtqueue \<times> qfile" where
  "load_queue_regs f vq =
     (let (num, f1) = qemu_get_be32 f; (pa, f2) = qemu_get_be64 f1; (idx, f3) = qemu_get_be16 f2
      in (vq\<lparr>vring := (vring vq)\<lparr>vr_num := num\<rparr>, vq_pa := pa, last_avail_idx := idx, signalled_used_valid := False, notification := True\<rparr>, f3))"

definition load_queue_check :: "gmem \<Rightarrow> 'f virtqueue \<Rightarrow> bool \<times> 'f virtqueue" where
  "load_queue_check g vq =
     (if vq_pa vq \<noteq> 0 then
        (let vq1 = virtqueue_init vq; nheads = vring_avail_idx g vq1 - last_avail_idx vq1
         in (\<not> vr_num (vring vq1) < ucast nheads, vq1))
      else (last_avail_idx vq = 0, vq))"

fun load_queues :: "('h, 't, 'x) virtio_bindings \<Rightarrow> nat \<Rightarrow> nat \<Rightarrow> qfile \<Rightarrow> ('h, 't, 'x) machine \<Rightarrow> (int \<times> qfile \<times> ('h, 't, 'x) machine) option" where
  "load_queues b 0 i f m = Some (0, f, m)"
| "load_queues b (Suc k) i f m =
     do {
       vq \<leftarrow> get_vq m i;
       let (vq1, f1) = load_queue_regs f vq;
       let (good, vq2) = load_queue_check (mem (guest m)) vq1;
       let m1 = set_vq m i vq2;
       if \<not> good then Some (- 1, f1, m1)
       else do {
         (ret, f2, m2) \<leftarrow> load_queue b i f1 m1;
         if ret \<noteq> 0 then Some (ret, f2, m2) else load_queues b k (Suc i) f2 m2
       }
     }"

definition virtio_load_regs :: "('h, 't, 'x) virtio_ops \<Rightarrow> ('h, 't, 'x) virtio_bindings \<Rightarrow> qfile \<Rightarrow> ('h, 't, 'x) machine \<Rightarrow> (int \<times> qfile \<times> ('h, 't, 'x) machine) option" where
  "virtio_load_regs ops b f m =
     (let (status, f1) = qemu_get_byte f; (isr, f2) = qemu_get_byte f1; (sel, f3) = qemu_get_be16 f2; (features, f4) = qemu_get_be32 f3
      in do {
           (ret, m1) \<leftarrow> virtio_set_features ops b features (m\<lparr>vdev := (vdev m)\<lparr>vd_status := status, vd_isr := isr, vd_queue_sel := sel\<rparr>\<rparr>);
           Some (ret, f4, m1)
         })"

definition virtio_load :: "('h, 't, 'x) virtio_ops \<Rightarrow> ('h, 't, 'x) virtio_bindings \<Rightarrow> qfile \<Rightarrow> ('h, 't, 'x) machine \<Rightarrow> (int \<times> qfile \<times> ('h, 't, 'x) machine) option" where
  "virtio_load ops b f m =
     do {
       (ret0, f0, m0) \<leftarrow> load_config b f m;
       if ret0 \<noteq> 0 then Some (ret0, f0, m0)
       else do {
         (ret1, f1, m1) \<leftarrow> virtio_load_regs ops b f0 m0;
         if ret1 < 0 then Some (- 1, f1, m1)
         else do {
           let (len, f2) = qemu_get_be32 f1;
           let (bs, f3) = qemu_get_buffer f2 (ucast len);
           if length (vd_config (vdev m1)) < length bs then None
           else do {
             let m2 = m1\<lparr>vdev := (vdev m1)\<lparr>vd_config_len := ucast len, vd_config := splice_at 0 bs (vd_config (vdev m1))\<rparr>\<rparr>;
             let (num, f4) = qemu_get_be32 f3;
             (ret2, f5, m3) \<leftarrow> load_queues b (nat (sint num)) 0 f4 m2;
             if ret2 \<noteq> 0 then Some (ret2, f5, m3) else Some (0, f5, virtio_notify_vector b VIRTIO_NO_VECTOR m3)
           }
         }
       }
     }"

definition virtio_vmstate_change :: "('h \<Rightarrow> nat \<Rightarrow> ('h, 't, 'x) machine \<Rightarrow> ('h, 't, 'x) machine option) \<Rightarrow> ('h, 't, 'x) virtio_ops \<Rightarrow> ('h, 't, 'x) virtio_bindings \<Rightarrow> bool \<Rightarrow> ('h, 't, 'x) machine \<Rightarrow> ('h, 't, 'x) machine option" where
  "virtio_vmstate_change run ops b running m =
     (let backend_run = (running \<and> vd_status (vdev m) AND VIRTIO_CONFIG_S_DRIVER_OK \<noteq> 0);
          m1 = m\<lparr>vdev := (vdev m)\<lparr>vd_vm_running := running\<rparr>\<rparr>
      in do {
           m2 \<leftarrow> (if backend_run then virtio_set_status ops (vd_status (vdev m1)) m1 else Some m1);
           m3 \<leftarrow> (case b_vmstate_change b of None \<Rightarrow> Some m2 | Some h \<Rightarrow> h run backend_run m2);
           if \<not> backend_run then virtio_set_status ops (vd_status (vdev m3)) m3 else Some m3
         })"

definition virtio_common_init :: "u16 \<Rightarrow> u64 \<Rightarrow> bool \<Rightarrow> 'h vdev" where
  "virtio_common_init device_id config_size running =
     \<lparr>vd_device_id = device_id, vd_status = 0, vd_isr = 0, vd_queue_sel = 0, vd_features = 0, vd_config_len = config_size,
      vd_config = replicate (unat config_size) 0, vd_config_vector = VIRTIO_NO_VECTOR, vd_vm_running = running,
      vd_vq = replicate VIRTIO_PCI_QUEUE_MAX
        \<lparr>vring = \<lparr>vr_num = 0, vr_desc = 0, vr_avail = 0, vr_used = 0\<rparr>, vq_pa = 0, last_avail_idx = 0, signalled_used = 0,
         signalled_used_valid = False, notification = False, inuse = 0, vq_vector = VIRTIO_NO_VECTOR, handle_output = None\<rparr>\<rparr>"


section \<open>Saving and loading\<close>

text \<open>
  The registers a transport does not own, and what a transport promises: what it saves it reads back
  without failing when its state is one of \<open>I\<close>, it is then in a state of \<open>J\<close> and stays there, and it
  changes interrupt vectors only.
\<close>

definition regs :: "'h vdev \<Rightarrow> 'h vdev" where
  "regs d = d\<lparr>vd_config_vector := 0, vd_vq := map (\<lambda>q. q\<lparr>vq_vector := 0\<rparr>) (vd_vq d)\<rparr>"

definition same_regs :: "('h, 't, 'x) virtio_bindings \<Rightarrow> ('h, 't, 'x) machine \<Rightarrow> ('h, 't, 'x) machine \<Rightarrow> bool" where
  "same_regs b m m' \<longleftrightarrow> regs (vdev m) = regs (vdev m') \<and> guest m = guest m' \<and> b_get_features b (trans m) = b_get_features b (trans m')"

definition transport_ok :: "('h, 't, 'x) virtio_bindings \<Rightarrow> ('t \<Rightarrow> bool) \<Rightarrow> ('t \<Rightarrow> bool) \<Rightarrow> ('h, 't, 'x) machine \<Rightarrow> byte list \<Rightarrow> (nat \<Rightarrow> byte list) \<Rightarrow> bool" where
  "transport_ok b I J m sc sq \<longleftrightarrow>
     (\<forall>f. save_config b m f = f @ sc) \<and> (\<forall>i < length (vd_vq (vdev m)). \<forall>f. save_queue b i m f = f @ sq i)
     \<and> (\<forall>f m'. I (trans m') \<longrightarrow> (\<exists>m''. load_config b (sc @ f) m' = Some (0, f, m'') \<and> same_regs b m'' m' \<and> J (trans m'')))
     \<and> (\<forall>i f m'. J (trans m') \<and> i < length (vd_vq (vdev m)) \<and> i < length (vd_vq (vdev m'))
          \<longrightarrow> (\<exists>m''. load_queue b i (sq i @ f) m' = Some (0, f, m'') \<and> same_regs b m'' m' \<and> J (trans m'')))
     \<and> (\<forall>v m'. J (trans m') \<longrightarrow> same_regs b (virtio_notify_vector b v m') m' \<and> J (trans (virtio_notify_vector b v m')))"

text \<open>A queue whose registers are consistent with guest memory, and a queue that has them again.\<close>

definition queue_saved :: "gmem \<Rightarrow> 'f virtqueue \<Rightarrow> bool" where
  "queue_saved g q \<longleftrightarrow> (if vq_pa q \<noteq> 0 then vring (virtqueue_init q) = vring q \<and> pending q g \<le> unat (vr_num (vring q)) else last_avail_idx q = 0)"

definition queue_restored :: "'f virtqueue \<Rightarrow> 'f virtqueue \<Rightarrow> bool" where
  "queue_restored q q' \<longleftrightarrow> vr_num (vring q') = vr_num (vring q) \<and> vq_pa q' = vq_pa q \<and> last_avail_idx q' = last_avail_idx q
     \<and> (vq_pa q \<noteq> 0 \<longrightarrow> vring q' = vring q)"

lemma regs_fields:
  assumes "regs d = regs d'"
  shows "vd_status d = vd_status d'" "vd_isr d = vd_isr d'" "vd_queue_sel d = vd_queue_sel d'" "vd_features d = vd_features d'"
    "vd_config_len d = vd_config_len d'" "vd_config d = vd_config d'" "length (vd_vq d) = length (vd_vq d')"
    "i < length (vd_vq d') \<Longrightarrow> (vd_vq d ! i)\<lparr>vq_vector := 0\<rparr> = (vd_vq d' ! i)\<lparr>vq_vector := 0\<rparr>"
proof -
  have q: "map (\<lambda>q. q\<lparr>vq_vector := 0\<rparr>) (vd_vq d) = map (\<lambda>q. q\<lparr>vq_vector := 0\<rparr>) (vd_vq d')"
    using arg_cong [OF assms, of vd_vq] by (simp add: regs_def)
  show "vd_status d = vd_status d'" "vd_isr d = vd_isr d'" "vd_queue_sel d = vd_queue_sel d'" "vd_features d = vd_features d'"
    "vd_config_len d = vd_config_len d'" "vd_config d = vd_config d'"
    using arg_cong [OF assms, of vd_status] arg_cong [OF assms, of vd_isr] arg_cong [OF assms, of vd_queue_sel] arg_cong [OF assms, of vd_features]
      arg_cong [OF assms, of vd_config_len] arg_cong [OF assms, of vd_config] by (simp_all add: regs_def)
  show l: "length (vd_vq d) = length (vd_vq d')" using arg_cong [OF q, of length] by simp
  assume "i < length (vd_vq d')"
  then show "(vd_vq d ! i)\<lparr>vq_vector := 0\<rparr> = (vd_vq d' ! i)\<lparr>vq_vector := 0\<rparr>"
    using arg_cong [OF q, of "\<lambda>l. l ! i"] l by simp
qed

lemma restored_vector:
  assumes "q'\<lparr>vq_vector := 0\<rparr> = q''\<lparr>vq_vector := 0\<rparr>"
  shows "queue_restored q q' \<longleftrightarrow> queue_restored q q''"
proof -
  have "vring q' = vring q''" "vq_pa q' = vq_pa q''" "last_avail_idx q' = last_avail_idx q''"
    using arg_cong [OF assms, of vring] arg_cong [OF assms, of vq_pa] arg_cong [OF assms, of last_avail_idx] by simp_all
  then show ?thesis by (simp add: queue_restored_def)
qed

lemma load_queue_restores:
  assumes "queue_saved g q"
  shows "\<exists>q2. load_queue_regs (be32 (vr_num (vring q)) @ be64 (vq_pa q) @ be16 (last_avail_idx q) @ f) q0
      = (q2, f) \<and> (\<exists>q3. load_queue_check g q2 = (True, q3) \<and> queue_restored q q3)"
proof -
  define q2 where "q2 = q0\<lparr>vring := (vring q0)\<lparr>vr_num := vr_num (vring q)\<rparr>, vq_pa := vq_pa q, last_avail_idx := last_avail_idx q,
    signalled_used_valid := False, notification := True\<rparr>"
  have i: "vring (virtqueue_init q2) = vring (virtqueue_init q)" by (simp add: virtqueue_init_def q2_def Let_def)
  have "load_queue_regs (be32 (vr_num (vring q)) @ be64 (vq_pa q) @ be16 (last_avail_idx q) @ f) q0 = (q2, f)"
    by (simp add: load_queue_regs_def q2_def)
  moreover have "\<exists>q3. load_queue_check g q2 = (True, q3) \<and> queue_restored q q3"
  proof (cases "vq_pa q = 0")
    case True
    then show ?thesis using assms by (simp add: load_queue_check_def queue_saved_def queue_restored_def q2_def)
  next
    case False
    with assms have v: "vring (virtqueue_init q2) = vring q" "pending q g \<le> unat (vr_num (vring q))" by (simp_all add: queue_saved_def i)
    have l: "last_avail_idx (virtqueue_init q2) = last_avail_idx q" "vq_pa (virtqueue_init q2) = vq_pa q"
      by (simp_all add: virtqueue_init_def q2_def Let_def)
    have "unat (ucast (vring_avail_idx g q - last_avail_idx q) :: u32) = pending q g"
      by (simp add: pending_def unsigned_ucast_eq take_bit_nat_eq_self less_trans [OF unat_bound])
    with v l False show ?thesis
      by (simp add: load_queue_check_def queue_restored_def q2_def [THEN arg_cong [where f = vq_pa]] word_less_nat_alt not_less vring_avail_idx_def Let_def)
  qed
  ultimately show ?thesis by blast
qed

lemma save_queues_append:
  assumes "transport_ok b I J m sc sq" "i + length vqs \<le> length (vd_vq (vdev m))"
  shows "save_queues b m i vqs f = f @ save_queues b m i vqs []"
  using assms(2)
proof (induction vqs arbitrary: i f)
  case Nil
  then show ?case by simp
next
  case (Cons q vqs)
  have q: "save_queue b i m f = f @ sq i" for f using assms(1) Cons.prems by (simp add: transport_ok_def)
  show ?case
    using Cons.prems Cons.IH [of "Suc i" "f @ be32 (vr_num (vring q)) @ be64 (vq_pa q) @ be16 (last_avail_idx q) @ sq i"]
      Cons.IH [of "Suc i" "be32 (vr_num (vring q)) @ be64 (vq_pa q) @ be16 (last_avail_idx q) @ sq i"]
    by (simp add: q)
qed

definition same_device :: "('h, 't, 'x) machine \<Rightarrow> ('h, 't, 'x) machine \<Rightarrow> bool" where
  "same_device m m' \<longleftrightarrow> (regs (vdev m))\<lparr>vd_vq := []\<rparr> = (regs (vdev m'))\<lparr>vd_vq := []\<rparr> \<and> length (vd_vq (vdev m)) = length (vd_vq (vdev m'))
     \<and> guest m = guest m'"

lemma same_device_trans: "same_device a b \<Longrightarrow> same_device b c \<Longrightarrow> same_device a c"
  by (simp add: same_device_def)

lemma same_device_regs: "same_regs b m m' \<Longrightarrow> same_device m m'"
  using regs_fields(7) [of "vdev m" "vdev m'"] by (auto simp: same_regs_def same_device_def)

lemma same_device_set_vq: "same_device (set_vq m i q) m"
  by (simp add: same_device_def set_vq_def regs_def)

lemma load_queues_saved:
  assumes T: "transport_ok b I J m sc sq"
  shows "i + length vqs = length (vd_vq (vdev m')) \<Longrightarrow> i + length vqs \<le> length (vd_vq (vdev m)) \<Longrightarrow> J (trans m') \<Longrightarrow> (\<And>k. k < free_queue vqs \<Longrightarrow> queue_saved (mem (guest m')) (vqs ! k))
    \<Longrightarrow> \<exists>m''. load_queues b (free_queue vqs) i (save_queues b m i vqs [] @ f) m' = Some (0, f, m'') \<and> same_device m'' m' \<and> J (trans m'')
      \<and> (\<forall>j < i. (vd_vq (vdev m'') ! j)\<lparr>vq_vector := 0\<rparr> = (vd_vq (vdev m') ! j)\<lparr>vq_vector := 0\<rparr>)
      \<and> (\<forall>k < free_queue vqs. queue_restored (vqs ! k) (vd_vq (vdev m'') ! (i + k)))"
proof (induction vqs arbitrary: i m')
  case Nil
  then show ?case by (simp add: same_device_def)
next
  case (Cons q vqs)
  show ?case
  proof (cases "vr_num (vring q) = 0")
    case True
    then show ?thesis using Cons.prems(3) by (simp add: same_device_def)
  next
    case False
    have sq: "save_queue b i m g = g @ sq i" for g using T Cons.prems(2) by (simp add: transport_ok_def)
    have i: "i < length (vd_vq (vdev m'))" using Cons.prems(1) by simp
    have "queue_saved (mem (guest m')) q" using Cons.prems(4) [of 0] False by simp
    from load_queue_restores [OF this] obtain q2 q3 where
      q: "load_queue_regs (be32 (vr_num (vring q)) @ be64 (vq_pa q) @ be16 (last_avail_idx q) @ (sq i @ save_queues b m (Suc i) vqs [] @ f)) (vd_vq (vdev m') ! i)
        = (q2, sq i @ save_queues b m (Suc i) vqs [] @ f)" "load_queue_check (mem (guest m')) q2 = (True, q3)" "queue_restored q q3" by blast
    have "J (trans (set_vq m' i q3))" "i < length (vd_vq (vdev m))" "i < length (vd_vq (vdev (set_vq m' i q3)))" using Cons.prems(1-3) by (simp_all add: set_vq_def)
    with T obtain m2 where l: "load_queue b i (sq i @ save_queues b m (Suc i) vqs [] @ f) (set_vq m' i q3)
        = Some (0, save_queues b m (Suc i) vqs [] @ f, m2)" "same_regs b m2 (set_vq m' i q3)" "J (trans m2)"
      unfolding transport_ok_def by blast
    have d2: "same_device m2 m'" using l(2) same_device_regs same_device_set_vq same_device_trans by blast
    then have "Suc i + length vqs = length (vd_vq (vdev m2))" "guest m2 = guest m'" using Cons.prems(1) by (simp_all add: same_device_def)
    from Cons.IH [OF this(1) _ l(3)] Cons.prems(2) Cons.prems(4) [of "Suc k" for k] False this(2) obtain m'' where
      IH: "load_queues b (free_queue vqs) (Suc i) (save_queues b m (Suc i) vqs [] @ f) m2 = Some (0, f, m'')" "same_device m'' m2" "J (trans m'')"
        "\<And>j. j < Suc i \<Longrightarrow> (vd_vq (vdev m'') ! j)\<lparr>vq_vector := 0\<rparr> = (vd_vq (vdev m2) ! j)\<lparr>vq_vector := 0\<rparr>"
        "\<And>k. k < free_queue vqs \<Longrightarrow> queue_restored (vqs ! k) (vd_vq (vdev m'') ! (Suc i + k))" by auto
    have v2: "(vd_vq (vdev m2) ! j)\<lparr>vq_vector := 0\<rparr> = ((vd_vq (vdev m'))[i := q3] ! j)\<lparr>vq_vector := 0\<rparr>" if "j \<le> i" for j
      using l(2) regs_fields(8) [of "vdev m2" "vdev (set_vq m' i q3)" j] that i by (simp add: same_regs_def set_vq_def)
    have lo: "(vd_vq (vdev m'') ! j)\<lparr>vq_vector := 0\<rparr> = (vd_vq (vdev m') ! j)\<lparr>vq_vector := 0\<rparr>" if "j < i" for j
      using IH(4) [of j] v2 [of j] that by simp
    have "(vd_vq (vdev m'') ! i)\<lparr>vq_vector := 0\<rparr> = q3\<lparr>vq_vector := 0\<rparr>" using IH(4) [of i] v2 [of i] i by simp
    from restored_vector [OF this] q(3) have "queue_restored q (vd_vq (vdev m'') ! i)" by blast
    then have hi: "queue_restored ((q # vqs) ! k) (vd_vq (vdev m'') ! (i + k))" if "k < Suc (free_queue vqs)" for k
      using IH(5) [of "k - 1"] that by (cases k) auto
    have s: "save_queues b m i (q # vqs) [] = be32 (vr_num (vring q)) @ be64 (vq_pa q) @ be16 (last_avail_idx q) @ sq i @ save_queues b m (Suc i) vqs []"
      using False Cons.prems(2) by (simp add: sq) (subst save_queues_append [OF T], simp_all)
    have "load_queues b (free_queue (q # vqs)) i (save_queues b m i (q # vqs) [] @ f) m' = Some (0, f, m'')"
      using False i q(1,2) l(1) IH(1) unfolding s by (simp add: get_vq_def)
    then show ?thesis using False lo hi IH(3) same_device_trans [OF IH(2) d2] by (intro exI [of _ m'']) simp
  qed
qed


lemma free_queue_le: "free_queue vqs \<le> length vqs"
  by (induction vqs) auto

lemma same_device_fields:
  assumes "same_device m m'"
  shows "vd_status (vdev m) = vd_status (vdev m')" "vd_isr (vdev m) = vd_isr (vdev m')" "vd_queue_sel (vdev m) = vd_queue_sel (vdev m')"
    "vd_features (vdev m) = vd_features (vdev m')" "vd_config_len (vdev m) = vd_config_len (vdev m')" "vd_config (vdev m) = vd_config (vdev m')"
    "guest m = guest m'" "length (vd_vq (vdev m)) = length (vd_vq (vdev m'))"
proof -
  have e: "(regs (vdev m))\<lparr>vd_vq := []\<rparr> = (regs (vdev m'))\<lparr>vd_vq := []\<rparr>" using assms by (simp add: same_device_def)
  show "vd_status (vdev m) = vd_status (vdev m')" "vd_isr (vdev m) = vd_isr (vdev m')" "vd_queue_sel (vdev m) = vd_queue_sel (vdev m')"
    "vd_features (vdev m) = vd_features (vdev m')" "vd_config_len (vdev m) = vd_config_len (vdev m')" "vd_config (vdev m) = vd_config (vdev m')"
    using arg_cong [OF e, of vd_status] arg_cong [OF e, of vd_isr] arg_cong [OF e, of vd_queue_sel] arg_cong [OF e, of vd_features]
      arg_cong [OF e, of vd_config_len] arg_cong [OF e, of vd_config] by (simp_all add: regs_def)
  show "guest m = guest m'" "length (vd_vq (vdev m)) = length (vd_vq (vdev m'))" using assms by (simp_all add: same_device_def)
qed

text \<open>The parts of the saved stream.\<close>

definition saved_regs :: "'h vdev \<Rightarrow> byte list" where
  "saved_regs d = [vd_status d] @ [vd_isr d] @ be16 (vd_queue_sel d) @ be32 (vd_features d)"

lemma saved_stream:
  assumes T: "transport_ok b I J m sc sq" and d: "d = vdev m" "unat (vd_config_len d) = length (vd_config d)"
  shows "virtio_save b m [] = sc @ saved_regs d @ be32 (ucast (vd_config_len d)) @ vd_config d @ be32 (of_nat (free_queue (vd_vq d)))
    @ save_queues b m 0 (vd_vq d) []"
  unfolding virtio_save_def Let_def d(1) [symmetric] put_be
  using T d by (subst save_queues_append [OF T]) (simp_all add: transport_ok_def saved_regs_def)

lemma saved_config_len:
  assumes "unat (vd_config_len d) = length (vd_config d)" "length (vd_config d) < 2 ^ 31"
  shows "(ucast (ucast (vd_config_len d) :: u32) :: u64) = vd_config_len d" "qemu_get_buffer (vd_config d @ f) (vd_config_len d) = (vd_config d, f)"
proof -
  show "(ucast (ucast (vd_config_len d) :: u32) :: u64) = vd_config_len d"
    using assms by (simp add: word_unat_eq_iff unsigned_ucast_eq unsigned_take_bit_eq take_bit_nat_eq_self)
  have "vd_config_len d = of_nat (length (vd_config d))" using assms by (simp add: word_unat_eq_iff unat_of_nat_small)
  then show "qemu_get_buffer (vd_config d @ f) (vd_config_len d) = (vd_config d, f)" using assms(2) by simp
qed

lemma load_saved_regs:
  assumes ops: "op_set_features ops = None" and feat: "vd_features d AND NOT (b_get_features b (trans m')) = 0"
  shows "virtio_load_regs ops b (saved_regs d @ f) m'
    = Some (0, f, m'\<lparr>vdev := (vdev m')\<lparr>vd_status := vd_status d, vd_isr := vd_isr d, vd_queue_sel := vd_queue_sel d, vd_features := vd_features d\<rparr>\<rparr>)"
proof -
  have "vd_features d AND (b_get_features b (trans m') OR NOT (b_get_features b (trans m'))) = vd_features d" by simp
  then have "vd_features d AND b_get_features b (trans m') = vd_features d" using feat by (simp only: bit.conj_disj_distrib or.right_neutral)
  with feat ops show ?thesis by (simp add: virtio_load_regs_def virtio_set_features_def call_def saved_regs_def)
qed

text \<open>C31: Saving a device and loading it on a machine with the same configuration (\<open>virtio_save\<close> and
  \<open>virtio_load\<close> of hw/virtio.c) succeeds and consumes exactly what was saved: status, interrupt
  status, queue selector, negotiated features and configuration space are those of the source, every
  queue in use has its size, address, position and ring addresses again, and guest memory is not
  touched; the transport keeps state of its own in the stream and has it again.\<close>

theorem virtio_save_load:
  assumes T: "transport_ok b I J m sc sq" "I (trans m')" and ops: "op_set_features ops = None"
    and src: "unat (vd_config_len (vdev m)) = length (vd_config (vdev m))" "length (vd_config (vdev m)) < 2 ^ 31" "length (vd_vq (vdev m)) = 64"
    and dst: "length (vd_config (vdev m')) = length (vd_config (vdev m))" "length (vd_vq (vdev m')) = 64"
      "vd_features (vdev m) AND NOT (b_get_features b (trans m')) = 0"
    and q: "\<forall>k < free_queue (vd_vq (vdev m)). queue_saved (mem (guest m')) (vd_vq (vdev m) ! k)"
  shows "\<exists>m''. virtio_load ops b (virtio_save b m [] @ f) m' = Some (0, f, m'') \<and> guest m'' = guest m'
    \<and> vd_status (vdev m'') = vd_status (vdev m) \<and> vd_isr (vdev m'') = vd_isr (vdev m) \<and> vd_queue_sel (vdev m'') = vd_queue_sel (vdev m)
    \<and> vd_features (vdev m'') = vd_features (vdev m) \<and> vd_config_len (vdev m'') = vd_config_len (vdev m) \<and> vd_config (vdev m'') = vd_config (vdev m) \<and> J (trans m'')
    \<and> (\<forall>k < free_queue (vd_vq (vdev m)). queue_restored (vd_vq (vdev m) ! k) (vd_vq (vdev m'') ! k))"
proof -
  define d where "d = vdev m"
  define n where "n = free_queue (vd_vq d)"
  define sqs where "sqs = save_queues b m 0 (vd_vq d) []"
  have n: "n \<le> 64" "sint (of_nat n :: u32) = int n"
    using free_queue_le [of "vd_vq d"] src(3) by (simp_all add: n_def d_def signed_of_nat signed_take_bit_int_eq_self)
  note sv = saved_stream [OF T(1) d_def src(1) [folded d_def], folded n_def sqs_def]
  note cl = saved_config_len [OF src(1,2), folded d_def]
  define f1 where "f1 = be32 (ucast (vd_config_len d)) @ vd_config d @ be32 (of_nat n) @ sqs @ f"
  from T obtain m0 where m0: "load_config b (sc @ saved_regs d @ f1) m' = Some (0, saved_regs d @ f1, m0)" "same_regs b m0 m'" "J (trans m0)"
    unfolding transport_ok_def by blast
  have "vd_features d AND NOT (b_get_features b (trans m0)) = 0" using dst(3) m0(2) by (simp add: d_def same_regs_def)
  note r = load_saved_regs [OF ops this, of f1]
  define m1 where "m1 = m0\<lparr>vdev := (vdev m0)\<lparr>vd_status := vd_status d, vd_isr := vd_isr d, vd_queue_sel := vd_queue_sel d, vd_features := vd_features d\<rparr>\<rparr>"
  define m2 where "m2 = m1\<lparr>vdev := (vdev m1)\<lparr>vd_config_len := vd_config_len d, vd_config := vd_config d\<rparr>\<rparr>"
  have len: "length (vd_config (vdev m1)) = length (vd_config d)" "length (vd_vq (vdev m2)) = length (vd_vq d)" "guest m2 = guest m'"
    using m0(2) regs_fields(6,7) [of "vdev m0" "vdev m'"] dst(1,2) src(3) by (simp_all add: m1_def m2_def same_regs_def d_def)
  then have sp: "splice_at 0 (vd_config d) (vd_config (vdev m1)) = vd_config d" by (simp add: splice_at_def)
  have "J (trans m2)" using m0(3) by (simp add: m2_def m1_def)
  with load_queues_saved [OF T(1), of 0 "vd_vq d" m2 f] len(2,3) q obtain m3 where
    m3: "load_queues b n 0 (sqs @ f) m2 = Some (0, f, m3)" "same_device m3 m2" "J (trans m3)" "\<And>k. k < n \<Longrightarrow> queue_restored (vd_vq d ! k) (vd_vq (vdev m3) ! k)"
    by (auto simp: n_def sqs_def d_def)
  define m4 where "m4 = virtio_notify_vector b VIRTIO_NO_VECTOR m3"
  have m4: "same_regs b m4 m3" "J (trans m4)" using T(1) m3(3) by (auto simp: m4_def transport_ok_def)
  have "virtio_load ops b (virtio_save b m [] @ f) m' = Some (0, f, m4)"
    unfolding virtio_load_def sv append_assoc f1_def [symmetric] m0(1)
    using r len(1) m3(1) n(2) by (simp add: f1_def cl sp m4_def flip: m1_def m2_def)
  moreover note same_device_fields [OF same_device_trans [OF same_device_regs [OF m4(1)] m3(2)]]
  moreover have "queue_restored (vd_vq d ! k) (vd_vq (vdev m4) ! k)" if "k < n" for k
  proof -
    have "k < length (vd_vq (vdev m3))" using that n(1) m3(2) len(2) src(3) by (simp add: same_device_def d_def)
    then show ?thesis using m3(4) [OF that] restored_vector regs_fields(8) [of "vdev m4" "vdev m3" k] m4(1) by (auto simp: same_regs_def)
  qed
  ultimately show ?thesis using len(3) m4(2) unfolding d_def n_def by (intro exI [of _ m4]) (simp add: m2_def m1_def d_def)
qed


definition bindings_none :: "('h, 't, 'x) virtio_bindings" where
  "bindings_none = \<lparr>b_notify = None, b_save_config = None, b_save_queue = None, b_load_config = None, b_load_queue = None,
     b_get_features = (\<lambda>_. 0), b_vmstate_change = None\<rparr>"

definition ops_none :: "('h, 't, 'x) virtio_ops" where
  "ops_none = \<lparr>op_set_features = None, op_get_config = Some, op_set_config = None, op_reset = None, op_set_status = None\<rparr>"

definition machine_demo :: "(unit, unit, unit) machine" where
  "machine_demo = \<lparr>vdev = virtio_common_init 3 8 True, guest = gst_zero, trans = (), rest = ()\<rparr>"

definition machine_demo_running :: "(unit, unit, unit) machine" where
  "machine_demo_running =
     (let d = vdev machine_demo; q = vd_vq d ! 0
      in set_vq (machine_demo\<lparr>vdev := d\<lparr>vd_status := 7, vd_config := [1, 2, 3, 4, 5, 6, 7, 8]\<rparr>\<rparr>) 0
           (virtqueue_init (q\<lparr>vring := (vring q)\<lparr>vr_num := 4\<rparr>, vq_pa := 0x1000\<rparr>)))"

theorem virtio_save_load_witness:
  "\<exists>m''. virtio_load ops_none bindings_none (virtio_save bindings_none machine_demo_running [] @ [9]) machine_demo = Some (0, [9], m'')
    \<and> vd_status (vdev m'') = 7 \<and> vd_config (vdev m'') = [1, 2, 3, 4, 5, 6, 7, 8]"
proof -
  let ?d = "vdev machine_demo_running"
  have T: "transport_ok bindings_none (\<lambda>_. True) (\<lambda>_. True) machine_demo_running [] (\<lambda>i. [])"
    by (simp add: transport_ok_def bindings_none_def save_config_def save_queue_def load_config_def load_queue_def virtio_notify_vector_def same_regs_def)
  have o: "op_set_features ops_none = None" by (simp add: ops_none_def)
  have c: "unat (vd_config_len ?d) = length (vd_config ?d)" "length (vd_config ?d) < 2 ^ 31" "length (vd_vq ?d) = 64"
    "length (vd_config (vdev machine_demo)) = length (vd_config ?d)" "length (vd_vq (vdev machine_demo)) = 64"
    "vd_features ?d AND NOT (b_get_features bindings_none (trans machine_demo)) = 0"
    by (simp_all add: machine_demo_running_def machine_demo_def virtio_common_init_def set_vq_def Let_def)
  have n: "free_queue (vd_vq ?d) = 1" by code_simp
  have q: "queue_saved (mem (guest machine_demo)) (vd_vq ?d ! k)" if "k < free_queue (vd_vq ?d)" for k
  proof -
    have "k = 0" using that n by simp
    moreover have "queue_saved (mem (guest machine_demo)) (vd_vq ?d ! 0)" by code_simp
    ultimately show ?thesis by simp
  qed
  then have "\<forall>k < free_queue (vd_vq ?d). queue_saved (mem (guest machine_demo)) (vd_vq ?d ! k)" by blast
  from virtio_save_load [OF T TrueI o c this, of "[9]"] show ?thesis
    by (elim ex_forward) (simp add: machine_demo_running_def set_vq_def Let_def)
qed

section \<open>Bounds\<close>

text \<open>The comparison in \<open>size_t\<close> is the bounds check when the space is not smaller than the access.\<close>

lemma config_fits:
  assumes "unat (len :: u64) = n" "w \<le> n" "n < 2 ^ 64"
  shows "len - of_nat w < ucast (addr :: u32) \<longleftrightarrow> \<not> unat addr + w \<le> n"
proof -
  have "unat (len - of_nat w) = n - w" using assms by (subst unat_sub) (simp_all add: word_le_nat_alt unat_of_nat_small)
  moreover have "unat (ucast addr :: u64) = unat addr"
    by (simp add: unsigned_ucast_eq take_bit_nat_eq_self less_trans [OF unat_bound])
  ultimately show ?thesis using assms(2) by (auto simp: word_less_nat_alt)
qed

lemma get32_splice: "a + 4 \<le> length c \<Longrightarrow> get32 (splice_at a (put32 v) c) a = v"
  using take_drop_splice_at [of a "put32 v" c] by (simp add: get32_def field_def)



text \<open>A device without configuration space is not protected: \<open>config_len - sizeof(val)\<close> wraps around, and
  the write goes to address 0 of a null pointer.\<close>

lemma config_space_empty_unprotected:
  "virtio_config_writel ops 0 data (m\<lparr>vdev := (vdev m)\<lparr>vd_config_len := 0, vd_config := []\<rparr>\<rparr>) = None"
  by (simp add: virtio_config_writel_def config_write_def)


section \<open>The layout of a ring\<close>

lemma vring_align_nat:
  assumes "unat addr + 4095 < 2 ^ 64"
  shows "unat (vring_align addr 4096) = (unat addr + 4095) div 4096 * 4096"
proof -
  have m: "(4096 - 1 :: u64) = mask 12" by (simp add: mask_eq_exp_minus_1)
  have "vring_align addr 4096 = push_bit 12 (drop_bit 12 (addr + 4096 - 1))"
    unfolding vring_align_def m
  proof (rule bit_word_eqI, goal_cases)
    case (1 n)
    show ?case by (cases "12 \<le> n") (simp_all add: bit_and_iff bit_not_iff bit_mask_iff bit_push_bit_iff bit_drop_bit_eq 1 [simplified])
  qed
  moreover have "unat (addr + 4096 - 1) = unat addr + 4095"
  proof -
    have "addr + 4096 - 1 = addr + 4095" by simp
    then show ?thesis using assms by (simp only: unat_word_ariths(1)) simp
  qed
  moreover have "unat (push_bit 12 (drop_bit 12 x)) = unat x div 4096 * 4096" for x :: u64
  proof -
    have "unat x div 4096 * 4096 < 2 ^ 64" "unat x < 2 ^ 64"
      using div_times_less_eq_dividend [of "unat x" 4096] unat_bound [of x] by (simp_all add: less_le_trans)
    then show ?thesis
      by (simp only: unsigned_push_bit_eq unsigned_drop_bit_eq) (simp add: take_bit_nat_eq_self drop_bit_eq_div push_bit_eq_mult)
  qed
  ultimately show ?thesis by simp
qed

text \<open>Setting the address of a queue (\<open>virtio_queue_set_addr\<close> and \<open>virtqueue_init\<close> of hw/virtio.c)
  lays the ring out correctly: for every queue size that is a power of two up to 32768 and every
  address at which the ring fits below \<open>2^64\<close>, the descriptor table, the available ring and the page
  aligned used ring follow each other without overlap, so that the layout the queue operations rely on
  holds as soon as the guest has made nothing available.\<close>

theorem set_addr_layout:
  assumes q: "get_vq m n = Some vq" "unat (vr_num (vring vq)) dvd 32768"
    and fit: "unat addr + 18 * unat (vr_num (vring vq)) + 4 + 4095 + 6 + 8 * unat (vr_num (vring vq)) \<le> 2 ^ 64"
  shows "\<exists>m' vq'. virtio_queue_set_addr n addr m = Some m' \<and> get_vq m' n = Some vq'
    \<and> unat (vr_desc (vring vq')) + 16 * unat (vr_num (vring vq)) = unat (vr_avail (vring vq'))
    \<and> unat (vr_avail (vring vq')) + 4 + 2 * unat (vr_num (vring vq)) \<le> unat (vr_used (vring vq'))
    \<and> unat (vr_used (vring vq')) mod 4096 = 0 \<and> unat (vr_used (vring vq')) + 6 + 8 * unat (vr_num (vring vq)) \<le> 2 ^ 64
    \<and> (\<forall>g. vring_avail_idx (mem g) vq' = last_avail_idx vq' \<longrightarrow> vq_ok (vq', g))"
proof -
  define N where "N = unat (vr_num (vring vq))"
  define vq' where "vq' = virtqueue_init (vq\<lparr>vq_pa := addr\<rparr>)"
  have n: "n < length (vd_vq (vdev m))" "vd_vq (vdev m) ! n = vq" using q(1) by (auto simp: get_vq_def split: if_splits)
  have d: "vr_desc (vring vq') = addr" "vr_num (vring vq') = vr_num (vring vq)" by (simp_all add: vq'_def virtqueue_init_def Let_def)
  have nn: "(ucast (vr_num (vring vq)) :: u64) = of_nat N" by (simp only: N_def of_nat_unat)
  have av: "vr_avail (vring vq') = addr + of_nat (16 * N)" by (simp add: vq'_def virtqueue_init_def Let_def nn)
  have uav: "unat (vr_avail (vring vq')) = unat addr + 16 * N"
    using fit by (simp add: av unat_word_ariths(1) unat_of_nat_small del: of_nat_mult flip: N_def)
  have e: "vr_avail (vring vq') + (4 + 2 * of_nat N) = addr + of_nat (18 * N + 4)" by (simp add: av algebra_simps)
  have ue: "unat (addr + of_nat (18 * N + 4)) = unat addr + 18 * N + 4"
    using fit by (simp add: unat_word_ariths(1) unat_of_nat_small del: of_nat_mult of_nat_add flip: N_def)
  have us: "unat (vr_used (vring vq')) = (unat addr + 18 * N + 4 + 4095) div 4096 * 4096"
  proof -
    have "vr_used (vring vq') = vring_align (addr + of_nat (18 * N + 4)) 4096"
      unfolding e [symmetric] by (simp add: vq'_def virtqueue_init_def Let_def nn)
    moreover have "unat (addr + of_nat (18 * N + 4)) + 4095 < 2 ^ 64" unfolding ue using fit by (simp add: N_def)
    ultimately show ?thesis using vring_align_nat [of "addr + of_nat (18 * N + 4)"] by (simp only: ue)
  qed
  define U where "U = unat addr + 18 * N + 4"
  have ab: "U \<le> unat (vr_used (vring vq'))" "unat (vr_used (vring vq')) \<le> U + 4095" "unat (vr_used (vring vq')) mod 4096 = 0"
    unfolding us U_def [symmetric] by (linarith, linarith, simp)
  have ap: "\<not> used_range vq' x" if "avail_range vq' x" for x
    using that ranges_apart [of "vr_avail (vring vq')" "4 + 2 * N" "vr_used (vring vq')" "6 + 8 * N" x] ab uav fit
    by (simp add: avail_range_def used_range_def d(2) U_def N_def)
  have "virtio_queue_set_addr n addr m = Some (set_vq m n vq')" using n by (simp add: virtio_queue_set_addr_def get_vq_def vq'_def)
  moreover have "get_vq (set_vq m n vq') n = Some vq'" using n by (simp add: get_vq_def set_vq_def)
  ultimately show ?thesis
    using ab uav fit q(2) ap
    by (intro exI [of _ "set_vq m n vq'"] exI [of _ vq']) (simp add: d U_def N_def vq_ok_def pending_def)
qed

theorem set_addr_layout_witness:
  "\<exists>m' vq'. virtio_queue_set_addr 0 0x10000 machine_demo_running = Some m' \<and> get_vq m' 0 = Some vq' \<and> vq_ok (vq', gst_zero)"
proof -
  define vq where "vq = vd_vq (vdev machine_demo_running) ! 0"
  have "get_vq machine_demo_running 0 = Some vq" by (simp add: get_vq_def vq_def machine_demo_running_def machine_demo_def virtio_common_init_def set_vq_def Let_def)
  moreover have "vr_num (vring vq) = 4" "last_avail_idx vq = 0"
    by (simp_all add: vq_def machine_demo_running_def machine_demo_def virtio_common_init_def set_vq_def Let_def virtqueue_init_def)
  ultimately have *: "get_vq machine_demo_running 0 = Some vq" "unat (vr_num (vring vq)) dvd 32768"
    "unat (0x10000 :: u64) + 18 * unat (vr_num (vring vq)) + 4 + 4095 + 6 + 8 * unat (vr_num (vring vq)) \<le> 2 ^ 64" "last_avail_idx vq = 0" by simp_all
  from set_addr_layout [OF *(1-3)] obtain m' vq' where r: "virtio_queue_set_addr 0 0x10000 machine_demo_running = Some m'" "get_vq m' 0 = Some vq'"
    "vring_avail_idx (mem gst_zero) vq' = last_avail_idx vq' \<longrightarrow> vq_ok (vq', gst_zero)" by blast
  have "last_avail_idx vq' = 0"
    using r(1,2) *(1,4) by (auto simp: virtio_queue_set_addr_def get_vq_def set_vq_def virtqueue_init_def Let_def split: if_splits)
  moreover have "vring_avail_idx (mem gst_zero) vq' = 0"
    by (simp add: vring_avail_idx_def gst_zero_def lduw_phys_def get16_def peek_def field_def upt_rec)
  ultimately show ?thesis using r by auto
qed

end
