(* ===== verification/Virtio_Serial.thy ===== *)
theory Virtio_Serial
  imports Virtio_Device
begin

text \<open>
  The virtio-serial bus of the emulator (\<open>sgerag_virtio_crypto/qemu/virtio-serial-bus.c\<close> and
  \<open>virtio-serial.h\<close>): ports that share one virtio device, the control protocol with the guest, the
  transfer of data in both directions, hot-plugging, and saving and loading.  The callbacks of a port
  class are functions on machine states, the path from a port to its queues is by queue number.  As
  in the theories below, \<open>None\<close> is the end of the emulator (\<open>abort\<close>, a failed assertion, an access
  outside a mapped buffer), or, for the loops that wait on the guest or on a callback, not returning.
\<close>

section \<open>Data\<close>

abbreviation (input) VIRTIO_ID_CONSOLE :: u16 where "VIRTIO_ID_CONSOLE \<equiv> 3"
abbreviation (input) VIRTIO_CONSOLE_F_MULTIPORT :: nat where "VIRTIO_CONSOLE_F_MULTIPORT \<equiv> 1"
abbreviation (input) VIRTIO_CONSOLE_BAD_ID :: u32 where "VIRTIO_CONSOLE_BAD_ID \<equiv> 0xffffffff"
abbreviation (input) VIRTIO_CONSOLE_DEVICE_READY :: u16 where "VIRTIO_CONSOLE_DEVICE_READY \<equiv> 0"
abbreviation (input) VIRTIO_CONSOLE_PORT_ADD :: u16 where "VIRTIO_CONSOLE_PORT_ADD \<equiv> 1"
abbreviation (input) VIRTIO_CONSOLE_PORT_REMOVE :: u16 where "VIRTIO_CONSOLE_PORT_REMOVE \<equiv> 2"
abbreviation (input) VIRTIO_CONSOLE_PORT_READY :: u16 where "VIRTIO_CONSOLE_PORT_READY \<equiv> 3"
abbreviation (input) VIRTIO_CONSOLE_CONSOLE_PORT :: u16 where "VIRTIO_CONSOLE_CONSOLE_PORT \<equiv> 4"
abbreviation (input) VIRTIO_CONSOLE_PORT_OPEN :: u16 where "VIRTIO_CONSOLE_PORT_OPEN \<equiv> 6"
abbreviation (input) VIRTIO_CONSOLE_PORT_NAME :: u16 where "VIRTIO_CONSOLE_PORT_NAME \<equiv> 7"

datatype handler = Handle_Input | Handle_Output | Control_In | Control_Out

text \<open>A port; an empty \<open>out_sg\<close> is \<open>elem.out_num = 0\<close>, and \<open>p_opaque\<close> is what the port's own class adds.\<close>

record 'p port =
  p_ivq :: nat
  p_ovq :: nat
  p_name :: "byte list option"
  p_id :: u32
  p_elem :: vq_element
  p_iov_idx :: nat
  p_iov_offset :: u64
  p_guest_connected :: bool
  p_host_connected :: bool
  p_throttled :: bool
  p_is_console :: bool
  p_opaque :: 'p

text \<open>The device, without its \<open>VirtIODevice\<close>; \<open>vs_bh\<close> are the ports whose bottom half is scheduled.\<close>

record ('p, 'w) vserial =
  vs_c_ivq :: nat
  vs_c_ovq :: nat
  vs_ivqs :: "nat list"
  vs_ovqs :: "nat list"
  vs_bus_max :: u32
  vs_ports :: "'p port list"
  vs_ports_map :: "u32 list"
  vs_cols :: u16
  vs_rows :: u16
  vs_max_nr_ports :: u32
  vs_bh :: "u32 list"
  vs_world :: 'w

type_synonym ('p, 't, 'w) vmach = "(handler, 't, ('p, 'w) vserial) machine"

record ('p, 't, 'w) port_class =
  pc_init :: "'p port \<Rightarrow> ('p, 't, 'w) vmach \<Rightarrow> (int \<times> 'p port \<times> ('p, 't, 'w) vmach) option"
  pc_exit :: "('p port \<Rightarrow> ('p, 't, 'w) vmach \<Rightarrow> ('p, 't, 'w) vmach option) option"
  pc_guest_open :: "(u32 \<Rightarrow> ('p, 't, 'w) vmach \<Rightarrow> ('p, 't, 'w) vmach option) option"
  pc_guest_close :: "(u32 \<Rightarrow> ('p, 't, 'w) vmach \<Rightarrow> ('p, 't, 'w) vmach option) option"
  pc_guest_ready :: "(u32 \<Rightarrow> ('p, 't, 'w) vmach \<Rightarrow> ('p, 't, 'w) vmach option) option"
  pc_have_data :: "u32 \<Rightarrow> u64 \<Rightarrow> u64 \<Rightarrow> ('p, 't, 'w) vmach \<Rightarrow> (int \<times> ('p, 't, 'w) vmach) option"

text \<open>What does not change: the mappable guest memory, the transport and the port class.\<close>

record ('p, 't, 'w) senv =
  se_ram :: "u64 \<Rightarrow> u64 \<Rightarrow> bool \<Rightarrow> bool"
  se_bind :: "(handler, 't, ('p, 'w) vserial) virtio_bindings"
  se_class :: "('p, 't, 'w) port_class"

definition find_port_by_id :: "('p, 't, 'w) vmach \<Rightarrow> u32 \<Rightarrow> 'p port option" where
  "find_port_by_id m pid = (if pid = VIRTIO_CONSOLE_BAD_ID then None else find (\<lambda>p. p_id p = pid) (vs_ports (rest m)))"

definition find_port_by_vq :: "('p, 't, 'w) vmach \<Rightarrow> nat \<Rightarrow> 'p port option" where
  "find_port_by_vq m n = find (\<lambda>p. p_ivq p = n \<or> p_ovq p = n) (vs_ports (rest m))"

definition use_multiport :: "('p, 't, 'w) vmach \<Rightarrow> bool" where
  "use_multiport m = bit (vd_features (vdev m)) VIRTIO_CONSOLE_F_MULTIPORT"

text \<open>Updating the port with a given identifier, and the queue operations on a machine.\<close>

definition upd_port :: "u32 \<Rightarrow> ('p port \<Rightarrow> 'p port) \<Rightarrow> ('p, 't, 'w) vmach \<Rightarrow> ('p, 't, 'w) vmach" where
  "upd_port pid f m = m\<lparr>rest := (rest m)\<lparr>vs_ports := map (\<lambda>p. if p_id p = pid then f p else p) (vs_ports (rest m))\<rparr>\<rparr>"

definition vq_pop :: "('p, 't, 'w) senv \<Rightarrow> nat \<Rightarrow> ('p, 't, 'w) vmach \<Rightarrow> (vq_element option \<times> ('p, 't, 'w) vmach) option" where
  "vq_pop E n m =
     do {
       vq \<leftarrow> get_vq m n;
       (e, vq', g) \<leftarrow> virtqueue_pop (se_ram E) (vd_features (vdev m)) vq (guest m);
       Some (e, (set_vq m n vq')\<lparr>guest := g\<rparr>)
     }"

definition vq_push :: "nat \<Rightarrow> vq_element \<Rightarrow> u32 \<Rightarrow> ('p, 't, 'w) vmach \<Rightarrow> ('p, 't, 'w) vmach option" where
  "vq_push n e len m =
     do {
       vq \<leftarrow> get_vq m n;
       (vq', g) \<leftarrow> virtqueue_push vq e len (guest m);
       Some ((set_vq m n vq')\<lparr>guest := g\<rparr>)
     }"

definition vq_ready :: "('p, 't, 'w) vmach \<Rightarrow> nat \<Rightarrow> bool option" where
  "vq_ready m n = map_option virtio_queue_ready (get_vq m n)"

section \<open>Data to the guest\<close>

partial_function (option) write_loop :: "('p, 't, 'w) senv \<Rightarrow> nat \<Rightarrow> byte list \<Rightarrow> u64 \<Rightarrow> ('p, 't, 'w) vmach \<Rightarrow> (u64 \<times> ('p, 't, 'w) vmach) option" where
  "write_loop E n buf offset m =
     (if unat offset < length buf then
        do {
          (e, m1) \<leftarrow> vq_pop E n m;
          (case e of
             None \<Rightarrow> Some (offset, m1)
           | Some elem \<Rightarrow>
               do {
                 (len, g) \<leftarrow> iov_from_buf (in_sg elem) 0 (drop (unat offset) buf) (of_nat (length buf) - offset) (mem (guest m1));
                 m2 \<leftarrow> vq_push n elem (ucast len) (m1\<lparr>guest := (guest m1)\<lparr>mem := g\<rparr>\<rparr>);
                 write_loop E n buf (offset + len) m2
               })
        }
      else Some (offset, m))"

definition write_to_port :: "('p, 't, 'w) senv \<Rightarrow> 'p port \<Rightarrow> byte list \<Rightarrow> ('p, 't, 'w) vmach \<Rightarrow> (u64 \<times> ('p, 't, 'w) vmach) option" where
  "write_to_port E port buf m =
     do {
       ready \<leftarrow> vq_ready m (p_ivq port);
       if \<not> ready then Some (0, m)
       else do {
         (offset, m1) \<leftarrow> write_loop E (p_ivq port) buf 0 m;
         m2 \<leftarrow> virtio_notify (se_bind E) (p_ivq port) m1;
         Some (offset, m2)
       }
     }"

partial_function (option) discard_loop :: "('p, 't, 'w) senv \<Rightarrow> nat \<Rightarrow> ('p, 't, 'w) vmach \<Rightarrow> ('p, 't, 'w) vmach option" where
  "discard_loop E n m =
     do {
       (e, m1) \<leftarrow> vq_pop E n m;
       (case e of None \<Rightarrow> Some m1 | Some elem \<Rightarrow> do { m2 \<leftarrow> vq_push n elem 0 m1; discard_loop E n m2 })
     }"

definition discard_vq_data :: "('p, 't, 'w) senv \<Rightarrow> nat \<Rightarrow> ('p, 't, 'w) vmach \<Rightarrow> ('p, 't, 'w) vmach option" where
  "discard_vq_data E n m =
     do {
       ready \<leftarrow> vq_ready m n;
       if \<not> ready then Some m
       else do { m1 \<leftarrow> discard_loop E n m; virtio_notify (se_bind E) n m1 }
     }"


section \<open>Data from the guest\<close>

text \<open>
  The loop over the buffers of the element at hand.  The source has the call that would throttle
  the port when the backend takes less than a whole buffer commented out.
\<close>

partial_function (option) flush_elem :: "('p, 't, 'w) senv \<Rightarrow> u32 \<Rightarrow> nat \<Rightarrow> ('p, 't, 'w) vmach \<Rightarrow> ('p, 't, 'w) vmach option" where
  "flush_elem E pid i m =
     do {
       port \<leftarrow> find_port_by_id m pid;
       if length (out_sg (p_elem port)) \<le> i then Some m
       else do {
         let v = out_sg (p_elem port) ! i;
         let buf_size = iov_len v - p_iov_offset port;
         (ret, m1) \<leftarrow> pc_have_data (se_class E) pid (iov_base v + p_iov_offset port) buf_size m;
         if ret < 0 \<and> ret \<noteq> - EAGAIN then None
         else if ret = - EAGAIN \<or> 0 \<le> ret \<and> nat ret < unat buf_size
         then Some (upd_port pid (\<lambda>p. p\<lparr>p_iov_idx := i, p_iov_offset := (if 0 < ret then p_iov_offset p + of_int ret else p_iov_offset p)\<rparr>) m1)
         else flush_elem E pid (Suc i) (upd_port pid (\<lambda>p. p\<lparr>p_iov_offset := 0\<rparr>) m1)
       }
     }"

partial_function (option) flush_loop :: "('p, 't, 'w) senv \<Rightarrow> u32 \<Rightarrow> nat \<Rightarrow> ('p, 't, 'w) vmach \<Rightarrow> ('p, 't, 'w) vmach option" where
  "flush_loop E pid n m =
     do {
       port \<leftarrow> find_port_by_id m pid;
       if p_throttled port then Some m
       else do {
         (go, m1) \<leftarrow>
           (if out_sg (p_elem port) = [] then
              do {
                (e, m1) \<leftarrow> vq_pop E n m;
                case e of
                  None \<Rightarrow> Some (False, m1)
                | Some elem \<Rightarrow> Some (True, upd_port pid (\<lambda>p. p\<lparr>p_elem := elem, p_iov_idx := 0, p_iov_offset := 0\<rparr>) m1)
              }
            else Some (True, m));
         if \<not> go then Some m1
         else do {
           port1 \<leftarrow> find_port_by_id m1 pid;
           m2 \<leftarrow> flush_elem E pid (p_iov_idx port1) m1;
           port2 \<leftarrow> find_port_by_id m2 pid;
           if p_throttled port2 then Some m2
           else do {
             m3 \<leftarrow> vq_push n (p_elem port2) 0 m2;
             flush_loop E pid n (upd_port pid (\<lambda>p. p\<lparr>p_elem := (p_elem p)\<lparr>out_sg := [], out_addr := []\<rparr>\<rparr>) m3)
           }
         }
       }
     }"

definition do_flush_queued_data :: "('p, 't, 'w) senv \<Rightarrow> u32 \<Rightarrow> nat \<Rightarrow> ('p, 't, 'w) vmach \<Rightarrow> ('p, 't, 'w) vmach option" where
  "do_flush_queued_data E pid n m =
     do {
       ready \<leftarrow> vq_ready m n;
       if \<not> ready then None
       else do { m1 \<leftarrow> flush_loop E pid n m; virtio_notify (se_bind E) n m1 }
     }"

definition flush_queued_data :: "('p, 't, 'w) senv \<Rightarrow> u32 \<Rightarrow> ('p, 't, 'w) vmach \<Rightarrow> ('p, 't, 'w) vmach option" where
  "flush_queued_data E pid m =
     do {
       port \<leftarrow> find_port_by_id m pid;
       ready \<leftarrow> vq_ready m (p_ovq port);
       if \<not> ready then Some m else do_flush_queued_data E pid (p_ovq port) m
     }"

section \<open>Control messages\<close>

text \<open>The message is copied to the first buffer the guest posted, whatever its length.\<close>

definition send_control_msg :: "('p, 't, 'w) senv \<Rightarrow> 'p port \<Rightarrow> byte list \<Rightarrow> ('p, 't, 'w) vmach \<Rightarrow> (u64 \<times> ('p, 't, 'w) vmach) option" where
  "send_control_msg E port buf m =
     do {
       let n = vs_c_ivq (rest m);
       ready \<leftarrow> vq_ready m n;
       if \<not> ready then Some (0, m)
       else do {
         (e, m1) \<leftarrow> vq_pop E n m;
         (case e of
            None \<Rightarrow> Some (0, m1)
          | Some elem \<Rightarrow>
              (let msg = splice_at 0 (put32 (p_id port)) buf
               in if in_sg elem = [] \<or> unat (iov_len (in_sg elem ! 0)) < length msg then None
                  else do {
                    m2 \<leftarrow> vq_push n elem (of_nat (length buf)) (m1\<lparr>guest := (guest m1)\<lparr>mem := poke (mem (guest m1)) (iov_base (in_sg elem ! 0)) msg\<rparr>\<rparr>);
                    m3 \<leftarrow> virtio_notify (se_bind E) n m2;
                    Some (of_nat (length buf), m3)
                  }))
       }
     }"

text \<open>The identifier of the packet is filled in when it is sent.\<close>

definition control_packet :: "u16 \<Rightarrow> u16 \<Rightarrow> byte list" where
  "control_packet event v = [0, 0, 0, 0] @ put16 event @ put16 v"

definition send_control_event :: "('p, 't, 'w) senv \<Rightarrow> 'p port \<Rightarrow> u16 \<Rightarrow> u16 \<Rightarrow> ('p, 't, 'w) vmach \<Rightarrow> (u64 \<times> ('p, 't, 'w) vmach) option" where
  "send_control_event E port event v m = send_control_msg E port (control_packet event v) m"

definition virtio_serial_open :: "('p, 't, 'w) senv \<Rightarrow> u32 \<Rightarrow> ('p, 't, 'w) vmach \<Rightarrow> ('p, 't, 'w) vmach option" where
  "virtio_serial_open E pid m =
     do {
       port \<leftarrow> find_port_by_id m pid;
       if p_host_connected port then Some m
       else do {
         (len, m1) \<leftarrow> send_control_event E port VIRTIO_CONSOLE_PORT_OPEN 1 (upd_port pid (\<lambda>p. p\<lparr>p_host_connected := True\<rparr>) m);
         Some m1
       }
     }"

definition virtio_serial_close :: "('p, 't, 'w) senv \<Rightarrow> u32 \<Rightarrow> ('p, 't, 'w) vmach \<Rightarrow> ('p, 't, 'w) vmach option" where
  "virtio_serial_close E pid m =
     do {
       port \<leftarrow> find_port_by_id m pid;
       m1 \<leftarrow> discard_vq_data E (p_ovq port) (upd_port pid (\<lambda>p. p\<lparr>p_host_connected := False, p_throttled := False\<rparr>) m);
       (len, m2) \<leftarrow> send_control_event E port VIRTIO_CONSOLE_PORT_OPEN 0 m1;
       Some m2
     }"

definition virtio_serial_write :: "('p, 't, 'w) senv \<Rightarrow> u32 \<Rightarrow> byte list \<Rightarrow> ('p, 't, 'w) vmach \<Rightarrow> (u64 \<times> ('p, 't, 'w) vmach) option" where
  "virtio_serial_write E pid buf m =
     (case find_port_by_id m pid of
        None \<Rightarrow> Some (0, m)
      | Some port \<Rightarrow>
          if \<not> p_host_connected port \<or> \<not> p_guest_connected port then Some (0, m) else write_to_port E port buf m)"

definition virtio_serial_guest_ready :: "u32 \<Rightarrow> ('p, 't, 'w) vmach \<Rightarrow> u64 option" where
  "virtio_serial_guest_ready pid m =
     do {
       port \<leftarrow> find_port_by_id m pid;
       vq \<leftarrow> get_vq m (p_ivq port);
       if \<not> virtio_queue_ready vq \<or> vd_status (vdev m) AND VIRTIO_CONFIG_S_DRIVER_OK = 0 \<or> virtio_queue_empty (mem (guest m)) vq then Some 0
       else if use_multiport m \<and> \<not> p_guest_connected port then Some 0
       else do {
         big \<leftarrow> virtqueue_avail_bytes (mem (guest m)) vq 4096 0;
         if big then Some 4096
         else do { some \<leftarrow> virtqueue_avail_bytes (mem (guest m)) vq 1 0; Some (if some then 1 else 0) }
       }
     }"

definition insert_bh :: "u32 \<Rightarrow> u32 list \<Rightarrow> u32 list" where
  "insert_bh pid l = (if pid \<in> set l then l else l @ [pid])"

definition virtio_serial_throttle_port :: "u32 \<Rightarrow> bool \<Rightarrow> ('p, 't, 'w) vmach \<Rightarrow> ('p, 't, 'w) vmach" where
  "virtio_serial_throttle_port pid throttle m =
     (case find_port_by_id m pid of
        None \<Rightarrow> m
      | Some port \<Rightarrow>
          (let m1 = upd_port pid (\<lambda>p. p\<lparr>p_throttled := throttle\<rparr>) m
           in if throttle then m1 else m1\<lparr>rest := (rest m1)\<lparr>vs_bh := insert_bh pid (vs_bh (rest m1))\<rparr>\<rparr>))"


text \<open>Running a step for every port of a list, in the order of the list.\<close>

fun for_ports :: "(u32 \<Rightarrow> ('p, 't, 'w) vmach \<Rightarrow> ('p, 't, 'w) vmach option) \<Rightarrow> u32 list \<Rightarrow> ('p, 't, 'w) vmach \<Rightarrow> ('p, 't, 'w) vmach option" where
  "for_ports step [] m = Some m"
| "for_ports step (pid # pids) m = do { m1 \<leftarrow> step pid m; for_ports step pids m1 }"

definition port_ids :: "('p, 't, 'w) vmach \<Rightarrow> u32 list" where
  "port_ids m = map p_id (vs_ports (rest m))"

definition call_port :: "(u32 \<Rightarrow> ('p, 't, 'w) vmach \<Rightarrow> ('p, 't, 'w) vmach option) option \<Rightarrow> u32 \<Rightarrow> ('p, 't, 'w) vmach \<Rightarrow> ('p, 't, 'w) vmach option" where
  "call_port hook pid m = call (map_option (\<lambda>h. h pid) hook) m"

definition announce_port :: "('p, 't, 'w) senv \<Rightarrow> u32 \<Rightarrow> ('p, 't, 'w) vmach \<Rightarrow> ('p, 't, 'w) vmach option" where
  "announce_port E pid m =
     do {
       port \<leftarrow> find_port_by_id m pid;
       (len, m1) \<leftarrow> send_control_event E port VIRTIO_CONSOLE_PORT_ADD 1 m;
       Some m1
     }"

definition port_ready :: "('p, 't, 'w) senv \<Rightarrow> u32 \<Rightarrow> ('p, 't, 'w) vmach \<Rightarrow> ('p, 't, 'w) vmach option" where
  "port_ready E pid m =
     do {
       port \<leftarrow> find_port_by_id m pid;
       m1 \<leftarrow> (if p_is_console port then map_option snd (send_control_event E port VIRTIO_CONSOLE_CONSOLE_PORT 1 m) else Some m);
       m2 \<leftarrow> (case p_name port of
                None \<Rightarrow> Some m1
              | Some name \<Rightarrow> map_option snd (send_control_msg E port (control_packet VIRTIO_CONSOLE_PORT_NAME 1 @ name @ [0]) m1));
       m3 \<leftarrow> (if p_host_connected port then map_option snd (send_control_event E port VIRTIO_CONSOLE_PORT_OPEN 1 m2) else Some m2);
       call_port (pc_guest_ready (se_class E)) pid m3
     }"

definition port_open :: "('p, 't, 'w) senv \<Rightarrow> u32 \<Rightarrow> u16 \<Rightarrow> ('p, 't, 'w) vmach \<Rightarrow> ('p, 't, 'w) vmach option" where
  "port_open E pid v m =
     (let m1 = upd_port pid (\<lambda>p. p\<lparr>p_guest_connected := v \<noteq> 0\<rparr>) m
      in do {
           m2 \<leftarrow> (if v \<noteq> 0 then call_port (pc_guest_open (se_class E)) pid m1 else Some m1);
           if v = 0 then call_port (pc_guest_close (se_class E)) pid m2 else Some m2
         })"

definition handle_control_message :: "('p, 't, 'w) senv \<Rightarrow> byte list \<Rightarrow> ('p, 't, 'w) vmach \<Rightarrow> ('p, 't, 'w) vmach option" where
  "handle_control_message E buf m =
     (if length buf < 8 then Some m
      else
        (let event = get16 buf 4; v = get16 buf 6
         in if event = VIRTIO_CONSOLE_DEVICE_READY then (if v = 0 then Some m else for_ports (announce_port E) (port_ids m) m)
            else
              (case find_port_by_id m (get32 buf 0) of
                 None \<Rightarrow> Some m
               | Some port \<Rightarrow>
                   if event = VIRTIO_CONSOLE_PORT_READY then (if v = 0 then Some m else port_ready E (p_id port) m)
                   else if event = VIRTIO_CONSOLE_PORT_OPEN then port_open E (p_id port) v m
                   else Some m)))"

partial_function (option) control_loop :: "('p, 't, 'w) senv \<Rightarrow> nat \<Rightarrow> ('p, 't, 'w) vmach \<Rightarrow> ('p, 't, 'w) vmach option" where
  "control_loop E n m =
     do {
       (e, m1) \<leftarrow> vq_pop E n m;
       (case e of
          None \<Rightarrow> Some m1
        | Some elem \<Rightarrow>
            do {
              (done, buf) \<leftarrow> iov_to_buf (out_sg elem) 0 (iov_size (out_sg elem)) (mem (guest m1));
              m2 \<leftarrow> handle_control_message E buf m1;
              m3 \<leftarrow> vq_push n elem 0 m2;
              control_loop E n m3
            })
     }"

definition control_out :: "('p, 't, 'w) senv \<Rightarrow> nat \<Rightarrow> ('p, 't, 'w) vmach \<Rightarrow> ('p, 't, 'w) vmach option" where
  "control_out E n m = do { m1 \<leftarrow> control_loop E n m; virtio_notify (se_bind E) n m1 }"

section \<open>Handlers\<close>

definition serial_handle_output :: "('p, 't, 'w) senv \<Rightarrow> nat \<Rightarrow> ('p, 't, 'w) vmach \<Rightarrow> ('p, 't, 'w) vmach option" where
  "serial_handle_output E n m =
     (case find_port_by_vq m n of
        None \<Rightarrow> discard_vq_data E n m
      | Some port \<Rightarrow>
          if \<not> p_host_connected port then discard_vq_data E n m
          else if \<not> p_throttled port then do_flush_queued_data E (p_id port) n m
          else do_flush_queued_data E (p_id port) n m)"

definition run_handler :: "('p, 't, 'w) senv \<Rightarrow> handler \<Rightarrow> nat \<Rightarrow> ('p, 't, 'w) vmach \<Rightarrow> ('p, 't, 'w) vmach option" where
  "run_handler E h n m =
     (case h of Handle_Input \<Rightarrow> Some m | Handle_Output \<Rightarrow> serial_handle_output E n m | Control_In \<Rightarrow> Some m | Control_Out \<Rightarrow> control_out E n m)"

definition get_features :: "('p, 't, 'w) vmach \<Rightarrow> u32 \<Rightarrow> u32" where
  "get_features m features = (if 1 < vs_bus_max (rest m) then features OR push_bit VIRTIO_CONSOLE_F_MULTIPORT 1 else features)"

definition get_config :: "('p, 't, 'w) vmach \<Rightarrow> ('p, 't, 'w) vmach option" where
  "get_config m =
     (let cfg = put16 (vs_cols (rest m)) @ put16 (vs_rows (rest m)) @ put32 (vs_max_nr_ports (rest m)); d = vdev m
      in if length (vd_config d) < 8 then None else Some (m\<lparr>vdev := d\<lparr>vd_config := splice_at 0 cfg (vd_config d)\<rparr>\<rparr>))"

definition reset_port :: "('p, 't, 'w) senv \<Rightarrow> u32 \<Rightarrow> ('p, 't, 'w) vmach \<Rightarrow> ('p, 't, 'w) vmach option" where
  "reset_port E pid m =
     do {
       port \<leftarrow> find_port_by_id m pid;
       if p_guest_connected port
       then call_port (pc_guest_close (se_class E)) pid (upd_port pid (\<lambda>p. p\<lparr>p_guest_connected := False\<rparr>) m)
       else Some m
     }"

definition guest_reset :: "('p, 't, 'w) senv \<Rightarrow> ('p, 't, 'w) vmach \<Rightarrow> ('p, 't, 'w) vmach option" where
  "guest_reset E m = for_ports (reset_port E) (port_ids m) m"

definition set_status :: "('p, 't, 'w) senv \<Rightarrow> byte \<Rightarrow> ('p, 't, 'w) vmach \<Rightarrow> ('p, 't, 'w) vmach option" where
  "set_status E status m =
     (let m1 = (if find_port_by_id m 0 \<noteq> None \<and> \<not> use_multiport m \<and> status AND VIRTIO_CONFIG_S_DRIVER_OK \<noteq> 0
                then upd_port 0 (\<lambda>p. p\<lparr>p_guest_connected := True\<rparr>) m else m)
      in if status AND VIRTIO_CONFIG_S_DRIVER_OK = 0 then guest_reset E m1 else Some m1)"

definition vser_reset :: "('p, 't, 'w) senv \<Rightarrow> ('p, 't, 'w) vmach \<Rightarrow> ('p, 't, 'w) vmach option" where
  "vser_reset E m = guest_reset E m"

text \<open>The hooks of the device; \<open>set_config\<close> copies the guest's value to a local variable only.\<close>

definition serial_ops :: "('p, 't, 'w) senv \<Rightarrow> (handler, 't, ('p, 'w) vserial) virtio_ops" where
  "serial_ops E = \<lparr>op_set_features = None, op_get_config = get_config, op_set_config = Some Some,
     op_reset = Some (vser_reset E), op_set_status = Some (set_status E)\<rparr>"


section \<open>Plugging ports\<close>

text \<open>\<open>ffs(~map)\<close>: one more than the position of the lowest clear bit, 0 when there is none.\<close>

definition ffs_not :: "u32 \<Rightarrow> nat" where
  "ffs_not w = (case find (\<lambda>i. \<not> bit w i) [0..<32] of None \<Rightarrow> 0 | Some i \<Rightarrow> Suc i)"

fun find_free_loop :: "u32 list \<Rightarrow> nat \<Rightarrow> nat \<Rightarrow> u32 option" where
  "find_free_loop maps 0 i = Some VIRTIO_CONSOLE_BAD_ID"
| "find_free_loop maps (Suc k) i =
     (if length maps \<le> i then None
      else (let b = ffs_not (maps ! i) in if b \<noteq> 0 then Some (of_nat (b - 1 + i * 32)) else find_free_loop maps k (Suc i)))"

definition find_free_port_id :: "('p, 't, 'w) vmach \<Rightarrow> u32 option" where
  "find_free_port_id m = find_free_loop (vs_ports_map (rest m)) (unat ((vs_max_nr_ports (rest m) + 31) div 32)) 0"

definition mark_port_added :: "u32 \<Rightarrow> ('p, 't, 'w) vmach \<Rightarrow> ('p, 't, 'w) vmach option" where
  "mark_port_added pid m =
     (let i = unat pid div 32; maps = vs_ports_map (rest m)
      in if length maps \<le> i then None
         else Some (m\<lparr>rest := (rest m)\<lparr>vs_ports_map := maps[i := maps ! i OR push_bit (unat pid mod 32) 1]\<rparr>\<rparr>))"

definition add_port :: "('p, 't, 'w) senv \<Rightarrow> u32 \<Rightarrow> ('p, 't, 'w) vmach \<Rightarrow> ('p, 't, 'w) vmach option" where
  "add_port E pid m = do { m1 \<leftarrow> mark_port_added pid m; announce_port E pid m1 }"

definition remove_port :: "('p, 't, 'w) senv \<Rightarrow> u32 \<Rightarrow> ('p, 't, 'w) vmach \<Rightarrow> ('p, 't, 'w) vmach option" where
  "remove_port E pid m =
     (let i = unat pid div 32; maps = vs_ports_map (rest m)
      in if length maps \<le> i then None
         else do {
           let m1 = m\<lparr>rest := (rest m)\<lparr>vs_ports_map := maps[i := maps ! i AND NOT (push_bit (unat pid mod 32) 1)]\<rparr>\<rparr>;
           port \<leftarrow> find_port_by_id m1 pid;
           m2 \<leftarrow> discard_vq_data E (p_ovq port) m1;
           (len, m3) \<leftarrow> send_control_event E port VIRTIO_CONSOLE_PORT_REMOVE 1 m2;
           Some m3
         })"

definition choose_port_id :: "'p port \<Rightarrow> ('p, 't, 'w) vmach \<Rightarrow> u32 option" where
  "choose_port_id port m =
     (if p_id port \<noteq> VIRTIO_CONSOLE_BAD_ID then Some (p_id port)
      else if p_is_console port \<and> find_port_by_id m 0 = None then Some 0
      else find_free_port_id m)"

definition insert_port :: "('p, 't, 'w) senv \<Rightarrow> 'p port \<Rightarrow> ('p, 't, 'w) vmach \<Rightarrow> ('p, 't, 'w) vmach option" where
  "insert_port E port m =
     (let pid = p_id port; s = rest m
      in if length (vs_ivqs s) \<le> unat pid \<or> length (vs_ovqs s) \<le> unat pid then None
         else do {
           let port1 = port\<lparr>p_elem := (p_elem port)\<lparr>out_sg := [], out_addr := []\<rparr>, p_ivq := vs_ivqs s ! unat pid, p_ovq := vs_ovqs s ! unat pid\<rparr>;
           m1 \<leftarrow> add_port E pid (m\<lparr>rest := s\<lparr>vs_ports := vs_ports s @ [port1]\<rparr>\<rparr>);
           Some (virtio_notify_config (se_bind E) m1)
         })"

text \<open>The port's identifier is unsigned and \<open>max_nr_ports\<close> an \<open>int\<close>: the comparison is unsigned.\<close>

definition virtser_port_qdev_init :: "('p, 't, 'w) senv \<Rightarrow> 'p port \<Rightarrow> ('p, 't, 'w) vmach \<Rightarrow> (int \<times> ('p, 't, 'w) vmach) option" where
  "virtser_port_qdev_init E port0 m =
     (if find_port_by_id m (p_id port0) \<noteq> None then Some (- 1, m)
      else do {
        pid \<leftarrow> choose_port_id port0 m;
        if pid = VIRTIO_CONSOLE_BAD_ID \<or> vs_max_nr_ports (rest m) \<le> pid then Some (- 1, m)
        else do {
          (ret, port, m1) \<leftarrow> pc_init (se_class E) (port0\<lparr>p_id := pid\<rparr>) m;
          if ret \<noteq> 0 then Some (ret, m1)
          else do { m2 \<leftarrow> insert_port E port m1; Some (ret, m2) }
        }
      })"

definition virtser_port_qdev_exit :: "('p, 't, 'w) senv \<Rightarrow> u32 \<Rightarrow> ('p, 't, 'w) vmach \<Rightarrow> (int \<times> ('p, 't, 'w) vmach) option" where
  "virtser_port_qdev_exit E pid m =
     do {
       m1 \<leftarrow> remove_port E pid (m\<lparr>rest := (rest m)\<lparr>vs_bh := removeAll pid (vs_bh (rest m))\<rparr>\<rparr>);
       port \<leftarrow> find_port_by_id m1 pid;
       let m2 = m1\<lparr>rest := (rest m1)\<lparr>vs_ports := filter (\<lambda>p. p_id p \<noteq> pid) (vs_ports (rest m1))\<rparr>\<rparr>;
       m3 \<leftarrow> call (map_option (\<lambda>h. h port) (pc_exit (se_class E))) m2;
       Some (0, m3)
     }"

section \<open>The device\<close>

fun add_port_queues :: "nat \<Rightarrow> ('p, 't, 'w) vmach \<Rightarrow> ('p, 't, 'w) vmach option" where
  "add_port_queues 0 m = Some m"
| "add_port_queues (Suc k) m =
     do {
       (iq, m1) \<leftarrow> virtio_add_queue 128 Handle_Input m;
       (oq, m2) \<leftarrow> virtio_add_queue 128 Handle_Output m1;
       add_port_queues k (m2\<lparr>rest := (rest m2)\<lparr>vs_ivqs := vs_ivqs (rest m2) @ [iq], vs_ovqs := vs_ovqs (rest m2) @ [oq]\<rparr>\<rparr>)
     }"

text \<open>\<open>None\<close> inside: the number of ports is refused and no device is made.\<close>

definition virtio_serial_init :: "u32 \<Rightarrow> bool \<Rightarrow> gst \<Rightarrow> 't \<Rightarrow> 'w \<Rightarrow> ('p, 't, 'w) vmach option option" where
  "virtio_serial_init max_ports running g t w =
     (if max_ports = 0 \<or> of_nat (VIRTIO_PCI_QUEUE_MAX div 2 - 1) < max_ports then Some None
      else do {
        let m0 = \<lparr>vdev = virtio_common_init VIRTIO_ID_CONSOLE 8 running, guest = g, trans = t,
             rest = \<lparr>vs_c_ivq = 0, vs_c_ovq = 0, vs_ivqs = [], vs_ovqs = [], vs_bus_max = max_ports, vs_ports = [],
               vs_ports_map = [], vs_cols = 0, vs_rows = 0, vs_max_nr_ports = 0, vs_bh = [], vs_world = w\<rparr>\<rparr>;
        m1 \<leftarrow> add_port_queues 1 m0;
        (ci, m2) \<leftarrow> virtio_add_queue 32 Control_In m1;
        (co, m3) \<leftarrow> virtio_add_queue 32 Control_Out m2;
        m4 \<leftarrow> add_port_queues (unat max_ports - 1) (m3\<lparr>rest := (rest m3)\<lparr>vs_c_ivq := ci, vs_c_ovq := co\<rparr>\<rparr>);
        m5 \<leftarrow> mark_port_added 0 (m4\<lparr>rest := (rest m4)\<lparr>vs_max_nr_ports := max_ports,
          vs_ports_map := replicate (unat ((max_ports + 31) div 32)) 0\<rparr>\<rparr>);
        Some (Some m5)
      })"


section \<open>Saving and loading\<close>

text \<open>
  An element is saved as the image of its C structure; \<open>img\<close> and \<open>unimg\<close> are the compiler's
  representation of that structure, 49168 bytes.
\<close>

definition save_port :: "(vq_element \<Rightarrow> byte list) \<Rightarrow> 'p port \<Rightarrow> qfile \<Rightarrow> qfile" where
  "save_port img port f =
     (let f1 = qemu_put_be32 f (p_id port); f2 = qemu_put_byte f1 (of_bool (p_guest_connected port));
          f3 = qemu_put_byte f2 (of_bool (p_host_connected port)); popped = out_sg (p_elem port) \<noteq> [];
          f4 = qemu_put_be32 f3 (of_bool popped)
      in if popped then qemu_put_buffer (qemu_put_be64 (qemu_put_be32 f4 (of_nat (p_iov_idx port))) (p_iov_offset port)) (img (p_elem port)) else f4)"

definition virtio_serial_save :: "(vq_element \<Rightarrow> byte list) \<Rightarrow> ('p, 't, 'w) senv \<Rightarrow> ('p, 't, 'w) vmach \<Rightarrow> qfile \<Rightarrow> qfile option" where
  "virtio_serial_save img E m f =
     (let s = rest m; words = unat ((vs_max_nr_ports s + 31) div 32);
          f1 = virtio_save (se_bind E) m f;
          f2 = qemu_put_be32 (qemu_put_be16 (qemu_put_be16 f1 (vs_cols s)) (vs_rows s)) (vs_max_nr_ports s)
      in if length (vs_ports_map s) < words then None
         else
           (let f3 = foldl qemu_put_be32 f2 (take words (vs_ports_map s));
                f4 = qemu_put_be32 f3 (of_nat (length (vs_ports s)))
            in Some (foldl (\<lambda>f p. save_port img p f) f4 (vs_ports s))))"

fun load_maps :: "u32 list \<Rightarrow> nat \<Rightarrow> nat \<Rightarrow> qfile \<Rightarrow> (bool \<times> qfile) option" where
  "load_maps maps 0 i f = Some (True, f)"
| "load_maps maps (Suc k) i f =
     (let (w, f1) = qemu_get_be32 f
      in if length maps \<le> i then None else if w \<noteq> maps ! i then Some (False, f1) else load_maps maps k (Suc i) f1)"

definition load_elem :: "(vq_element \<Rightarrow> byte list) \<Rightarrow> (byte list \<Rightarrow> vq_element) \<Rightarrow> ('p, 't, 'w) senv \<Rightarrow> u32 \<Rightarrow> qfile \<Rightarrow> ('p, 't, 'w) vmach \<Rightarrow> (qfile \<times> ('p, 't, 'w) vmach) option" where
  "load_elem img unimg E pid f m =
     (let (popped, f1) = qemu_get_be32 f
      in if popped = 0 then Some (f1, m)
         else do {
           port \<leftarrow> find_port_by_id m pid;
           let (idx, f2) = qemu_get_be32 f1;
           let (off, f3) = qemu_get_be64 f2;
           let (bs, f4) = qemu_get_buffer f3 49168;
           let elem = unimg (splice_at 0 bs (img (p_elem port)));
           isg \<leftarrow> virtqueue_map_sg (se_ram E) (in_sg elem) (in_addr elem) True;
           osg \<leftarrow> virtqueue_map_sg (se_ram E) (out_sg elem) (out_addr elem) True;
           Some (f4, virtio_serial_throttle_port pid False
             (upd_port pid (\<lambda>p. p\<lparr>p_iov_idx := unat idx, p_iov_offset := off, p_elem := elem\<lparr>in_sg := isg, out_sg := osg\<rparr>\<rparr>) m))
         })"

definition load_port :: "(vq_element \<Rightarrow> byte list) \<Rightarrow> (byte list \<Rightarrow> vq_element) \<Rightarrow> ('p, 't, 'w) senv \<Rightarrow> int \<Rightarrow> qfile \<Rightarrow> ('p, 't, 'w) vmach \<Rightarrow> (int \<times> qfile \<times> ('p, 't, 'w) vmach) option" where
  "load_port img unimg E version_id f m =
     (let (pid, f1) = qemu_get_be32 f
      in case find_port_by_id m pid of
           None \<Rightarrow> Some (- EINVAL, f1, m)
         | Some port \<Rightarrow>
             do {
               let (gc, f2) = qemu_get_byte f1;
               let (hc, f3) = qemu_get_byte f2;
               let m1 = upd_port pid (\<lambda>p. p\<lparr>p_guest_connected := gc \<noteq> 0\<rparr>) m;
               m2 \<leftarrow> (if (hc \<noteq> 0) \<noteq> p_host_connected port
                       then map_option snd (send_control_event E port VIRTIO_CONSOLE_PORT_OPEN (of_bool (p_host_connected port)) m1) else Some m1);
               (f4, m3) \<leftarrow> (if 2 < version_id then load_elem img unimg E pid f3 m2 else Some (f3, m2));
               Some (0, f4, m3)
             })"

fun load_ports :: "(vq_element \<Rightarrow> byte list) \<Rightarrow> (byte list \<Rightarrow> vq_element) \<Rightarrow> ('p, 't, 'w) senv \<Rightarrow> int \<Rightarrow> nat \<Rightarrow> qfile \<Rightarrow> ('p, 't, 'w) vmach \<Rightarrow> (int \<times> qfile \<times> ('p, 't, 'w) vmach) option" where
  "load_ports img unimg E version_id 0 f m = Some (0, f, m)"
| "load_ports img unimg E version_id (Suc k) f m =
     do {
       (ret, f1, m1) \<leftarrow> load_port img unimg E version_id f m;
       if ret \<noteq> 0 then Some (ret, f1, m1) else load_ports img unimg E version_id k f1 m1
     }"

definition virtio_serial_load :: "(vq_element \<Rightarrow> byte list) \<Rightarrow> (byte list \<Rightarrow> vq_element) \<Rightarrow> ('p, 't, 'w) senv \<Rightarrow> int \<Rightarrow> qfile \<Rightarrow> ('p, 't, 'w) vmach \<Rightarrow> (int \<times> qfile \<times> ('p, 't, 'w) vmach) option" where
  "virtio_serial_load img unimg E version_id f m =
     (if 3 < version_id then Some (- EINVAL, f, m)
      else do {
        (ret, f1, m1) \<leftarrow> virtio_load (serial_ops E) (se_bind E) f m;
        if ret \<noteq> 0 then Some (ret, f1, m1)
        else if version_id < 2 then Some (0, f1, m1)
        else do {
          let (cols, f2) = qemu_get_be16 f1;
          let (rows, f3) = qemu_get_be16 f2;
          let m2 = m1\<lparr>rest := (rest m1)\<lparr>vs_cols := cols, vs_rows := rows\<rparr>\<rparr>;
          let (mx, f4) = qemu_get_be32 f3;
          if vs_max_nr_ports (rest m2) < mx then Some (- EINVAL, f4, m2)
          else do {
            (same, f5) \<leftarrow> load_maps (vs_ports_map (rest m2)) (unat ((mx + 31) div 32)) 0 f4;
            if \<not> same then Some (- EINVAL, f5, m2)
            else do {
              let (active, f6) = qemu_get_be32 f5;
              load_ports img unimg E version_id (unat active) f6 m2
            }
          }
        }
      })"


section \<open>What the bus keeps\<close>

text \<open>
  The part of the state that only plugging and unplugging change: the queues of the device and of the
  ports, the identifiers of the ports and the bitmap of identifiers in use.
\<close>

definition port_key :: "'p port \<Rightarrow> u32 \<times> nat \<times> nat" where
  "port_key p = (p_id p, p_ivq p, p_ovq p)"

definition shape :: "('p, 't, 'w) vmach \<Rightarrow> nat \<times> nat \<times> nat \<times> nat list \<times> nat list \<times> u32 \<times> u32 list \<times> (u32 \<times> nat \<times> nat) list" where
  "shape m = (let s = rest m in (length (vd_vq (vdev m)), vs_c_ivq s, vs_c_ovq s, vs_ivqs s, vs_ovqs s, vs_max_nr_ports s, vs_ports_map s, map port_key (vs_ports s)))"

lemma shape_upd_port: "(\<And>p. port_key (f p) = port_key p) \<Longrightarrow> shape (upd_port pid f m) = shape m"
  by (simp add: shape_def upd_port_def Let_def comp_def if_distrib [of port_key])

lemma shape_simps [simp]:
  "shape (set_vq m n vq) = shape m" "shape (m\<lparr>guest := g\<rparr>) = shape m" "shape (m\<lparr>trans := t\<rparr>) = shape m"
  "shape (m\<lparr>rest := (rest m)\<lparr>vs_bh := l\<rparr>\<rparr>) = shape m" "shape (m\<lparr>rest := (rest m)\<lparr>vs_world := w\<rparr>\<rparr>) = shape m"
  "shape (m\<lparr>rest := (rest m)\<lparr>vs_cols := c, vs_rows := r\<rparr>\<rparr>) = shape m"
  by (simp_all add: shape_def set_vq_def Let_def)

lemma shape_notify: "virtio_notify b n m = Some m' \<Longrightarrow> shape m' = shape m"
  by (auto simp: virtio_notify_def virtio_notify_vector_def shape_def set_vq_def Let_def elim!: bind_SomeE split: prod.splits if_splits option.splits)

lemma shape_pop: "vq_pop E n m = Some (e, m') \<Longrightarrow> shape m' = shape m"
  by (auto simp: vq_pop_def elim!: bind_SomeE split: prod.splits)

lemma shape_push: "vq_push n e len m = Some m' \<Longrightarrow> shape m' = shape m"
  by (auto simp: vq_push_def elim!: bind_SomeE split: prod.splits)

lemmas shape_queue = shape_notify shape_pop shape_push

lemma shape_write_loop: 
  assumes "write_loop E n buf offset m = Some r"
  shows "shape (snd r) = shape m"
proof (rule write_loop.raw_induct [where P = "\<lambda>E n buf offset m r. shape (snd r) = shape m", OF _ assms], goal_cases)
  case (1 rec E n buf offset m r)
  from 1(2) show ?case
    by (auto simp: shape_queue elim!: bind_SomeE split: if_splits option.splits prod.splits dest!: 1(1) shape_pop shape_push)
qed

lemma shape_write: "virtio_serial_write E pid buf m = Some (k, m') \<Longrightarrow> shape m' = shape m"
  by (auto simp: virtio_serial_write_def write_to_port_def shape_queue elim!: bind_SomeE split: if_splits option.splits dest!: shape_write_loop shape_notify)

lemma shape_discard_loop: 
  assumes "discard_loop E n m = Some m'"
  shows "shape m' = shape m"
proof (rule discard_loop.raw_induct [where P = "\<lambda>E n m m'. shape m' = shape m", OF _ assms], goal_cases)
  case (1 rec E n m m')
  from 1(2) show ?case
    by (auto elim!: bind_SomeE split: if_splits option.splits prod.splits dest!: 1(1) shape_pop shape_push)
qed

lemma shape_discard: "discard_vq_data E n m = Some m' \<Longrightarrow> shape m' = shape m"
  by (auto simp: discard_vq_data_def elim!: bind_SomeE split: if_splits dest!: shape_discard_loop shape_notify)

lemma shape_send_control_msg: "send_control_msg E port buf m = Some (k, m') \<Longrightarrow> shape m' = shape m"
  by (auto simp: send_control_msg_def Let_def elim!: bind_SomeE split: if_splits option.splits dest!: shape_pop shape_push shape_notify)

lemma shape_send_control_event: "send_control_event E port event v m = Some (k, m') \<Longrightarrow> shape m' = shape m"
  by (simp add: send_control_event_def shape_send_control_msg)


text \<open>
  Well-formedness of the bus: every queue belongs to one direction of one port or of the control
  channel, identifiers are unique and in range, every port has the queues of its identifier, and the
  identifiers of the ports are marked in the bitmap.
\<close>

definition shape_ok :: "nat \<times> nat \<times> nat \<times> nat list \<times> nat list \<times> u32 \<times> u32 list \<times> (u32 \<times> nat \<times> nat) list \<Rightarrow> bool" where
  "shape_ok = (\<lambda>(len, ci, co, ivqs, ovqs, mx, maps, keys).
     0 < mx \<and> unat mx \<le> 31 \<and> len = 64 \<and> length ivqs = unat mx \<and> length ovqs = unat mx \<and> length maps = 1
     \<and> distinct (ci # co # ivqs @ ovqs) \<and> set (ci # co # ivqs @ ovqs) \<subseteq> {..<64} \<and> distinct (map fst keys)
     \<and> (\<forall>(i, iv, ov) \<in> set keys. i < mx \<and> iv = ivqs ! unat i \<and> ov = ovqs ! unat i \<and> bit (maps ! 0) (unat i)))"

definition serial_ok :: "('p, 't, 'w) vmach \<Rightarrow> bool" where
  "serial_ok m = shape_ok (shape m)"

text \<open>
  The contract of a port class: its callbacks leave the shape of the bus alone, and initialising a
  port does not change the identifier the bus gave it.
\<close>

locale port_hooks =
  fixes E :: "('p, 't, 'w) senv"
  assumes init_shape: "pc_init (se_class E) p m = Some (ret, p', m') \<Longrightarrow> shape m' = shape m \<and> p_id p' = p_id p"
    and exit_shape: "pc_exit (se_class E) = Some f \<Longrightarrow> f p m = Some m' \<Longrightarrow> shape m' = shape m"
    and open_shape: "pc_guest_open (se_class E) = Some h \<Longrightarrow> h pid m = Some m' \<Longrightarrow> shape m' = shape m"
    and close_shape: "pc_guest_close (se_class E) = Some h \<Longrightarrow> h pid m = Some m' \<Longrightarrow> shape m' = shape m"
    and ready_shape: "pc_guest_ready (se_class E) = Some h \<Longrightarrow> h pid m = Some m' \<Longrightarrow> shape m' = shape m"
    and data_shape: "pc_have_data (se_class E) pid buf len m = Some (ret, m') \<Longrightarrow> shape m' = shape m"
begin

lemma call_shape:
  "call_port (pc_guest_open (se_class E)) pid m = Some m' \<Longrightarrow> shape m' = shape m"
  "call_port (pc_guest_close (se_class E)) pid m = Some m' \<Longrightarrow> shape m' = shape m"
  "call_port (pc_guest_ready (se_class E)) pid m = Some m' \<Longrightarrow> shape m' = shape m"
  by (auto simp: call_port_def call_def split: option.splits dest: open_shape close_shape ready_shape)

lemma flush_elem_shape:
  assumes "flush_elem E pid i m = Some m'"
  shows "shape m' = shape m"
proof -
  have "F = E \<longrightarrow> shape m' = shape m" if "flush_elem F pid i m = Some m'" for F pid i m m'
  proof (rule flush_elem.raw_induct [where P = "\<lambda>F pid i m m'. F = E \<longrightarrow> shape m' = shape m", OF _ that], goal_cases)
    case (1 rec F pid i m m')
    show ?case
    proof
      assume "F = E"
      with 1(2) show "shape m' = shape m"
        by (auto simp: Let_def shape_upd_port port_key_def elim!: bind_SomeE split: if_splits prod.splits dest!: 1(1) data_shape)
    qed
  qed
  with assms show ?thesis by blast
qed

lemma flush_loop_shape:
  assumes "flush_loop E pid n m = Some m'"
  shows "shape m' = shape m"
proof -
  have "F = E \<longrightarrow> shape m' = shape m" if "flush_loop F pid n m = Some m'" for F pid n m m'
  proof (rule flush_loop.raw_induct [where P = "\<lambda>F pid n m m'. F = E \<longrightarrow> shape m' = shape m", OF _ that], goal_cases)
    case (1 rec F pid n m m')
    show ?case
    proof
      assume "F = E"
      with 1(2) show "shape m' = shape m"
        by (auto simp: Let_def shape_upd_port port_key_def elim!: bind_SomeE split: if_splits prod.splits option.splits
            dest!: 1(1) flush_elem_shape shape_pop shape_push)
    qed
  qed
  with assms show ?thesis by blast
qed

lemma do_flush_shape: "do_flush_queued_data E pid n m = Some m' \<Longrightarrow> shape m' = shape m"
  by (auto simp: do_flush_queued_data_def elim!: bind_SomeE split: if_splits dest!: flush_loop_shape shape_notify)

lemma for_ports_shape:
  assumes "\<And>pid m m'. step pid m = Some m' \<Longrightarrow> shape m' = shape m"
  shows "for_ports step pids m = Some m' \<Longrightarrow> shape m' = shape m"
  by (induction pids arbitrary: m) (auto elim!: bind_SomeE dest!: assms)

lemma announce_shape: "announce_port E pid m = Some m' \<Longrightarrow> shape m' = shape m"
  by (auto simp: announce_port_def elim!: bind_SomeE dest!: shape_send_control_event)

lemma announce_all_shape: "for_ports (announce_port E) pids m = Some m' \<Longrightarrow> shape m' = shape m"
  by (rule for_ports_shape [of "announce_port E"]) (rule announce_shape)

lemma port_ready_shape: "port_ready E pid m = Some m' \<Longrightarrow> shape m' = shape m"
  by (auto simp: port_ready_def elim!: bind_SomeE split: if_splits option.splits
      dest!: shape_send_control_event shape_send_control_msg call_shape(3))

lemma port_open_shape: "port_open E pid v m = Some m' \<Longrightarrow> shape m' = shape m"
  by (auto simp: port_open_def Let_def shape_upd_port port_key_def elim!: bind_SomeE split: if_splits dest!: call_shape(1,2))

lemma control_message_shape: "handle_control_message E buf m = Some m' \<Longrightarrow> shape m' = shape m"
  by (auto simp: handle_control_message_def Let_def split: if_splits option.splits
      dest!: announce_all_shape port_ready_shape port_open_shape)

lemma control_loop_shape:
  assumes "control_loop E n m = Some m'"
  shows "shape m' = shape m"
proof -
  have "F = E \<longrightarrow> shape m' = shape m" if "control_loop F n m = Some m'" for F n m m'
  proof (rule control_loop.raw_induct [where P = "\<lambda>F n m m'. F = E \<longrightarrow> shape m' = shape m", OF _ that], goal_cases)
    case (1 rec F n m m')
    show ?case
    proof
      assume "F = E"
      with 1(2) show "shape m' = shape m"
        by (auto elim!: bind_SomeE split: prod.splits option.splits dest!: 1(1) control_message_shape shape_pop shape_push)
    qed
  qed
  with assms show ?thesis by blast
qed

lemma reset_shape: "guest_reset E m = Some m' \<Longrightarrow> shape m' = shape m"
proof -
  have "shape m' = shape m" if "reset_port E pid m = Some m'" for pid m m'
    using that by (auto simp: reset_port_def shape_upd_port port_key_def elim!: bind_SomeE split: if_splits dest!: call_shape(2))
  then show "guest_reset E m = Some m' \<Longrightarrow> shape m' = shape m" unfolding guest_reset_def by (rule for_ports_shape)
qed

lemma status_shape: "set_status E status m = Some m' \<Longrightarrow> shape m' = shape m"
  by (auto simp: set_status_def Let_def shape_upd_port port_key_def split: if_splits dest!: reset_shape)

text \<open>Everything the guest or the host can make the bus do without plugging.\<close>

lemma handler_shape: "run_handler E h n m = Some m' \<Longrightarrow> shape m' = shape m"
  by (auto simp: run_handler_def control_out_def serial_handle_output_def elim!: bind_SomeE split: handler.splits option.splits if_splits
      dest!: shape_discard do_flush_shape control_loop_shape shape_notify)

lemma host_side_shape:
  "virtio_serial_open E pid m = Some m' \<Longrightarrow> shape m' = shape m"
  "virtio_serial_close E pid m = Some m' \<Longrightarrow> shape m' = shape m"
  "flush_queued_data E pid m = Some m' \<Longrightarrow> shape m' = shape m"
  "shape (virtio_serial_throttle_port pid b m) = shape m"
  by (auto simp: virtio_serial_open_def virtio_serial_close_def flush_queued_data_def virtio_serial_throttle_port_def Let_def shape_upd_port port_key_def
      elim!: bind_SomeE split: if_splits option.splits dest!: shape_discard shape_send_control_event do_flush_shape)

end


section \<open>Identifiers of ports\<close>

lemma ffs_not_cases:
  "ffs_not w = 0 \<and> (\<forall>i < 32. bit w i) \<or> (\<exists>i. ffs_not w = Suc i \<and> i < 32 \<and> \<not> bit w i \<and> (\<forall>j < i. bit w j))"
proof (cases "find (\<lambda>i. \<not> bit w i) [0..<32]")
  case None
  then have "\<forall>i < 32. bit w i" by (auto simp: find_None_iff)
  with None show ?thesis by (simp add: ffs_not_def)
next
  case (Some i)
  then have "i < 32 \<and> \<not> bit w i \<and> (\<forall>j < i. bit w j)" by (auto simp: find_Some_iff)
  with Some show ?thesis by (simp add: ffs_not_def)
qed

lemma fst_port_key [simp]: "fst \<circ> port_key = p_id"
  by (simp add: fun_eq_iff port_key_def)

lemma serial_ok_def2:
  "serial_ok m \<longleftrightarrow> (let s = rest m in
     0 < vs_max_nr_ports s \<and> unat (vs_max_nr_ports s) \<le> 31 \<and> length (vd_vq (vdev m)) = 64
     \<and> length (vs_ivqs s) = unat (vs_max_nr_ports s) \<and> length (vs_ovqs s) = unat (vs_max_nr_ports s) \<and> length (vs_ports_map s) = 1
     \<and> distinct (vs_c_ivq s # vs_c_ovq s # vs_ivqs s @ vs_ovqs s) \<and> set (vs_c_ivq s # vs_c_ovq s # vs_ivqs s @ vs_ovqs s) \<subseteq> {..<64}
     \<and> distinct (port_ids m)
     \<and> (\<forall>p \<in> set (vs_ports s). p_id p < vs_max_nr_ports s \<and> p_ivq p = vs_ivqs s ! unat (p_id p) \<and> p_ovq p = vs_ovqs s ! unat (p_id p)
          \<and> bit (vs_ports_map s ! 0) (unat (p_id p))))"
  unfolding serial_ok_def shape_ok_def shape_def port_ids_def Let_def by (auto simp: port_key_def)

lemma serial_ok_shape: "shape m' = shape m \<Longrightarrow> serial_ok m' \<longleftrightarrow> serial_ok m"
  by (simp add: serial_ok_def)

lemma map_words: "0 < mx \<Longrightarrow> unat mx \<le> 31 \<Longrightarrow> unat (((mx :: u32) + 31) div 32) = 1"
proof -
  assume a: "0 < mx" "unat mx \<le> 31"
  have "unat (mx + 31) = unat mx + 31" using a(2) by (simp add: unat_word_ariths)
  moreover have "0 < unat mx" using a(1) by (simp add: word_less_nat_alt)
  ultimately show "unat ((mx + 31) div 32) = 1" using a(2) by (simp add: unat_div)
qed

text \<open>A free identifier is the lowest one that is not marked.\<close>

lemma find_free_ok:
  assumes "serial_ok m" "find_free_port_id m = Some pid" "pid \<noteq> VIRTIO_CONSOLE_BAD_ID"
  shows "unat pid < 32" "\<not> bit (vs_ports_map (rest m) ! 0) (unat pid)" "\<And>j. j < unat pid \<Longrightarrow> bit (vs_ports_map (rest m) ! 0) j"
proof -
  let ?w = "vs_ports_map (rest m) ! 0"
  have "length (vs_ports_map (rest m)) = 1" "unat ((vs_max_nr_ports (rest m) + 31) div 32) = 1"
    using assms(1) map_words by (auto simp: serial_ok_def2 Let_def)
  then have p: "ffs_not ?w \<noteq> 0" "pid = of_nat (ffs_not ?w - 1)"
    using assms(2,3) by (auto simp: find_free_port_id_def Let_def split: if_splits)
  with ffs_not_cases [of ?w] obtain i where i: "ffs_not ?w = Suc i" "i < 32" "\<not> bit ?w i" "\<forall>j < i. bit ?w j" by auto
  with p(2) have "unat pid = i" by (simp add: unat_of_nat_small)
  with i show "unat pid < 32" "\<not> bit ?w (unat pid)" "\<And>j. j < unat pid \<Longrightarrow> bit ?w j" by auto
qed

lemma find_port_None:
  "find_port_by_id m pid = None \<Longrightarrow> pid \<noteq> VIRTIO_CONSOLE_BAD_ID \<Longrightarrow> pid \<notin> set (port_ids m)"
  by (auto simp: find_port_by_id_def find_None_iff port_ids_def)

lemma choose_new:
  assumes ok: "serial_ok m" and c: "choose_port_id port m = Some pid" "pid \<noteq> VIRTIO_CONSOLE_BAD_ID" and n: "find_port_by_id m (p_id port) = None"
  shows "pid \<notin> set (port_ids m)"
proof (cases "p_id port = VIRTIO_CONSOLE_BAD_ID \<and> \<not> (p_is_console port \<and> find_port_by_id m 0 = None)")
  case True
  then have "find_free_port_id m = Some pid" using c(1) by (auto simp: choose_port_id_def split: if_splits)
  from find_free_ok(2) [OF ok this c(2)] ok show ?thesis by (auto simp: serial_ok_def2 Let_def port_ids_def)
next
  case False
  then have "find_port_by_id m pid = None" using c n by (auto simp: choose_port_id_def split: if_splits)
  then show ?thesis using find_port_None c(2) by blast
qed

lemma mark_ok:
  assumes "mark_port_added pid m = Some m'" "unat pid < 32" "length (vs_ports_map (rest m)) = 1"
  shows "m' = m\<lparr>rest := (rest m)\<lparr>vs_ports_map := [vs_ports_map (rest m) ! 0 OR push_bit (unat pid) 1]\<rparr>\<rparr>"
  using assms by (cases "vs_ports_map (rest m)") (auto simp: mark_port_added_def Let_def)

lemma shape_notify_config: "shape (virtio_notify_config b m) = shape m"
  by (simp add: virtio_notify_config_def virtio_notify_vector_def shape_def Let_def split: option.splits)

lemma shape_ids:
  assumes "shape m' = shape m"
  shows "port_ids m' = port_ids m" "vs_max_nr_ports (rest m') = vs_max_nr_ports (rest m)"
proof -
  have e: "map port_key (vs_ports (rest m')) = map port_key (vs_ports (rest m))" using assms by (simp add: shape_def Let_def)
  have "map fst (map port_key (vs_ports (rest m'))) = map fst (map port_key (vs_ports (rest m)))" by (simp only: e)
  then show "port_ids m' = port_ids m" by (simp add: port_ids_def)
  show "vs_max_nr_ports (rest m') = vs_max_nr_ports (rest m)" using assms by (simp add: shape_def Let_def)
qed

context port_hooks
begin

lemma insert_port_ok:
  assumes i: "insert_port E port m = Some m'" and ok: "serial_ok m" and new: "p_id port \<notin> set (port_ids m)" "p_id port < vs_max_nr_ports (rest m)"
  shows "serial_ok m' \<and> port_ids m' = port_ids m @ [p_id port]"
proof -
  define s where "s = rest m"
  define port1 where "port1 = port\<lparr>p_elem := (p_elem port)\<lparr>out_sg := [], out_addr := []\<rparr>, p_ivq := vs_ivqs s ! unat (p_id port), p_ovq := vs_ovqs s ! unat (p_id port)\<rparr>"
  define m0 where "m0 = m\<lparr>rest := s\<lparr>vs_ports := vs_ports s @ [port1]\<rparr>\<rparr>"
  from i obtain m1 m2 where m1: "mark_port_added (p_id port) m0 = Some m1" "announce_port E (p_id port) m1 = Some m2" "m' = virtio_notify_config (se_bind E) m2"
    by (auto simp: insert_port_def Let_def add_port_def s_def port1_def m0_def elim!: bind_SomeE split: if_splits)
  have lt: "unat (p_id port) < 32" "length (vs_ports_map (rest m0)) = 1"
    using ok new(2) by (simp_all add: serial_ok_def2 Let_def word_less_nat_alt m0_def s_def)
  have sh: "shape m' = shape m1" using announce_shape [OF m1(2)] by (simp add: m1(3) shape_notify_config)
  note mark = mark_ok [OF m1(1) lt]
  have b: "bit (2 ^ unat (p_id port) :: u32) (unat (p_id port))" using lt(1) by (simp add: bit_exp_iff)
  have "serial_ok m1"
    using ok new b unfolding mark serial_ok_def2 Let_def
    by (auto simp: m0_def s_def port_ids_def port1_def bit_or_iff bit_push_bit_iff)
  moreover have "port_ids m1 = port_ids m @ [p_id port]" by (simp add: mark m0_def s_def port_ids_def port1_def)
  ultimately show ?thesis using serial_ok_shape [OF sh] shape_ids [OF sh] by simp
qed

lemma plug_ok:
  assumes p: "virtser_port_qdev_init E port0 m = Some (ret, m')" and ok: "serial_ok m"
  shows "serial_ok m' \<and> (ret = 0 \<longrightarrow> (\<exists>pid. pid \<notin> set (port_ids m) \<and> port_ids m' = port_ids m @ [pid]))"
proof (cases "find_port_by_id m (p_id port0) \<noteq> None")
  case True
  with p ok show ?thesis by (auto simp: virtser_port_qdev_init_def)
next
  case False
  with p obtain pid where c: "choose_port_id port0 m = Some pid" by (auto simp: virtser_port_qdev_init_def elim!: bind_SomeE)
  show ?thesis
  proof (cases "pid = VIRTIO_CONSOLE_BAD_ID \<or> vs_max_nr_ports (rest m) \<le> pid")
    case True
    with p ok c False show ?thesis by (auto simp: virtser_port_qdev_init_def)
  next
    case in_range: False
    with p c False obtain r port m1 where i: "pc_init (se_class E) (port0\<lparr>p_id := pid\<rparr>) m = Some (r, port, m1)"
      "if r \<noteq> 0 then ret = r \<and> m' = m1 else ret = 0 \<and> insert_port E port m1 = Some m'"
      by (auto simp: virtser_port_qdev_init_def elim!: bind_SomeE split: if_splits)
    from init_shape [OF i(1)] have sh: "shape m1 = shape m" "p_id port = pid" by simp_all
    have new: "pid \<notin> set (port_ids m)" using choose_new [OF ok c] in_range False by simp
    show ?thesis
      using i(2) insert_port_ok [of port m1 m'] serial_ok_shape [OF sh(1)] shape_ids [OF sh(1)] ok new in_range sh(2) by (auto split: if_splits)
  qed
qed

lemma unplug_ok:
  assumes u: "virtser_port_qdev_exit E pid m = Some (ret, m')" and ok: "serial_ok m"
  shows "ret = 0 \<and> serial_ok m' \<and> port_ids m' = filter (\<lambda>i. i \<noteq> pid) (port_ids m) \<and> pid \<in> set (port_ids m)"
proof -
  define m0 where "m0 = m\<lparr>rest := (rest m)\<lparr>vs_bh := removeAll pid (vs_bh (rest m))\<rparr>\<rparr>"
  from u obtain m1 port where m1: "remove_port E pid m0 = Some m1" "find_port_by_id m1 pid = Some port" "ret = 0"
    and e: "call (map_option (\<lambda>h. h port) (pc_exit (se_class E))) (m1\<lparr>rest := (rest m1)\<lparr>vs_ports := filter (\<lambda>p. p_id p \<noteq> pid) (vs_ports (rest m1))\<rparr>\<rparr>) = Some m'"
    by (auto simp: virtser_port_qdev_exit_def m0_def Let_def elim!: bind_SomeE)
  define m2 where "m2 = m1\<lparr>rest := (rest m1)\<lparr>vs_ports := filter (\<lambda>p. p_id p \<noteq> pid) (vs_ports (rest m1))\<rparr>\<rparr>"
  have s2: "shape m' = shape m2" using e exit_shape by (auto simp: call_def m2_def split: option.splits)
  let ?maps = "vs_ports_map (rest m)"
  define ma where "ma = m0\<lparr>rest := (rest m0)\<lparr>vs_ports_map := ?maps[unat pid div 32 := ?maps ! (unat pid div 32) AND NOT (push_bit (unat pid mod 32) 1)]\<rparr>\<rparr>"
  from m1(1) obtain pa where f: "find_port_by_id ma pid = Some pa" "unat pid div 32 < length ?maps" and s1: "shape m1 = shape ma"
    by (auto simp: remove_port_def Let_def ma_def m0_def elim!: bind_SomeE split: if_splits dest!: shape_discard shape_send_control_event)
  have pid: "pid \<in> set (port_ids m)" using f(1) by (auto simp: find_port_by_id_def find_Some_iff port_ids_def ma_def m0_def split: if_splits)
  have lt: "unat pid < 32" "length ?maps = 1" using f(2) ok by (auto simp: serial_ok_def2 Let_def)
  have sh: "shape m2 = shape (ma\<lparr>rest := (rest ma)\<lparr>vs_ports := filter (\<lambda>p. p_id p \<noteq> pid) (vs_ports (rest ma))\<rparr>\<rparr>)" (is "_ = shape ?mb")
  proof -
    have flt: "map port_key (filter (\<lambda>p. p_id p \<noteq> pid) l) = filter (\<lambda>k. fst k \<noteq> pid) (map port_key l)" for l :: "'p port list"
      by (simp add: filter_map comp_def port_key_def)
    show ?thesis using s1 by (simp add: shape_def Let_def m2_def flt)
  qed
  have idlt: "unat (p_id p) < 32" if "p \<in> set (vs_ports (rest m))" for p
  proof -
    have "p_id p < vs_max_nr_ports (rest m)" "unat (vs_max_nr_ports (rest m)) \<le> 31" using ok that by (auto simp: serial_ok_def2 Let_def)
    then show ?thesis by (simp add: word_less_nat_alt)
  qed
  have "serial_ok ?mb"
    using ok lt idlt unfolding serial_ok_def2 Let_def
    by (auto simp: ma_def m0_def port_ids_def distinct_map_filter bit_and_iff bit_not_iff bit_push_bit_iff bit_exp_iff unat_bound nth_list_update word_unat_eq_iff)
  moreover have "port_ids ?mb = filter (\<lambda>i. i \<noteq> pid) (port_ids m)" by (simp add: ma_def m0_def port_ids_def filter_map comp_def)
  ultimately show ?thesis
    using serial_ok_shape [OF s2] serial_ok_shape [OF sh] shape_ids(1) [OF s2] shape_ids(1) [OF sh] m1(3) pid by simp
qed

end

lemma find_unique: "x \<in> set xs \<Longrightarrow> P x \<Longrightarrow> (\<And>y. y \<in> set xs \<Longrightarrow> P y \<Longrightarrow> y = x) \<Longrightarrow> find P xs = Some x"
proof (induction xs)
  case (Cons a xs)
  show ?case
  proof (cases "P a")
    case True
    with Cons.prems(3) [of a] show ?thesis by simp
  next
    case False
    with Cons.prems(1,2) have "x \<in> set xs" by auto
    then have "find P xs = Some x" using Cons.prems(2) by (rule Cons.IH) (rule Cons.prems(3), auto)
    with False show ?thesis by simp
  qed
qed simp

lemma find_by_vq:
  assumes "serial_ok m" "p \<in> set (vs_ports (rest m))"
  shows "find_port_by_vq m (p_ovq p) = Some p"
proof -
  let ?s = "rest m"
  have k: "p_id q < vs_max_nr_ports ?s \<and> p_ivq q = vs_ivqs ?s ! unat (p_id q) \<and> p_ovq q = vs_ovqs ?s ! unat (p_id q)" if "q \<in> set (vs_ports ?s)" for q
    using assms(1) that by (auto simp: serial_ok_def2 Let_def)
  have d: "length (vs_ivqs ?s) = unat (vs_max_nr_ports ?s)" "length (vs_ovqs ?s) = unat (vs_max_nr_ports ?s)" "distinct (vs_ovqs ?s)"
    "set (vs_ivqs ?s) \<inter> set (vs_ovqs ?s) = {}" "distinct (map p_id (vs_ports ?s))"
    using assms(1) by (auto simp: serial_ok_def2 Let_def port_ids_def)
  have "q = p" if q: "q \<in> set (vs_ports ?s)" "p_ivq q = p_ovq p \<or> p_ovq q = p_ovq p" for q
  proof -
    have i: "unat (p_id q) < unat (vs_max_nr_ports ?s)" "unat (p_id p) < unat (vs_max_nr_ports ?s)"
      using k [OF q(1)] k [OF assms(2)] by (simp_all add: word_less_nat_alt)
    have "vs_ivqs ?s ! unat (p_id q) \<noteq> vs_ovqs ?s ! unat (p_id p)" using d(1,2,4) i by (metis disjoint_iff nth_mem)
    then have "vs_ovqs ?s ! unat (p_id q) = vs_ovqs ?s ! unat (p_id p)" using q(2) k [OF q(1)] k [OF assms(2)] by simp
    then have "p_id q = p_id p" using d(2,3) i by (simp add: nth_eq_iff_index_eq word_unat_eq_iff)
    then show ?thesis using d(5) q(1) assms(2) by (simp add: distinct_map inj_on_def)
  qed
  then show ?thesis unfolding find_port_by_vq_def using assms(2) by (intro find_unique) auto
qed


lemma find_by_id:
  assumes "serial_ok m" "p \<in> set (vs_ports (rest m))"
  shows "find_port_by_id m (p_id p) = Some p"
proof -
  have "p_id p < vs_max_nr_ports (rest m)" "unat (vs_max_nr_ports (rest m)) \<le> 31" "distinct (map p_id (vs_ports (rest m)))"
    using assms by (auto simp: serial_ok_def2 Let_def port_ids_def)
  moreover from this have "p_id p \<noteq> VIRTIO_CONSOLE_BAD_ID" by (auto simp: word_less_nat_alt)
  ultimately show ?thesis unfolding find_port_by_id_def using assms(2)
    by (auto simp: distinct_map inj_on_def intro!: find_unique)
qed

section \<open>Setting up the device\<close>

text \<open>The first \<open>k\<close> queues are in use.\<close>

definition queues_used :: "nat \<Rightarrow> ('h, 't, 'x) machine \<Rightarrow> bool" where
  "queues_used k m \<longleftrightarrow> length (vd_vq (vdev m)) = 64 \<and> k \<le> 64 \<and> (\<forall>j < 64. vr_num (vring (vd_vq (vdev m) ! j)) = 0 \<longleftrightarrow> k \<le> j)"

lemma free_queue_iff:
  "(\<And>j. j < length vqs \<Longrightarrow> vr_num (vring (vqs ! j)) = 0 \<longleftrightarrow> k \<le> j) \<Longrightarrow> k \<le> length vqs \<Longrightarrow> free_queue vqs = k"
proof (induction vqs arbitrary: k)
  case (Cons q vqs)
  have 0: "vr_num (vring q) = 0 \<longleftrightarrow> k = 0" using Cons.prems(1) [of 0] by simp
  show ?case
  proof (cases k)
    case (Suc k')
    have "free_queue vqs = k'"
    proof (rule Cons.IH)
      fix j assume "j < length vqs"
      then show "vr_num (vring (vqs ! j)) = 0 \<longleftrightarrow> k' \<le> j" using Cons.prems(1) [of "Suc j"] Suc by simp
    qed (use Cons.prems(2) Suc in simp)
    with 0 Suc show ?thesis by simp
  qed (use 0 in simp)
qed simp

definition queue_is :: "('h, 't, 'x) machine \<Rightarrow> nat \<Rightarrow> u32 \<Rightarrow> 'h \<Rightarrow> bool" where
  "queue_is m j n h \<longleftrightarrow> vr_num (vring (vd_vq (vdev m) ! j)) = n \<and> handle_output (vd_vq (vdev m) ! j) = Some h"

lemma add_queue_ok:
  assumes u: "queues_used k m" "k < 64" and n: "n \<noteq> 0" "sint n \<le> 1024"
  shows "\<exists>m'. virtio_add_queue n h m = Some (k, m') \<and> queues_used (Suc k) m' \<and> queue_is m' k n h
    \<and> (\<forall>j a b. j < k \<longrightarrow> queue_is m' j a b = queue_is m j a b) \<and> rest m' = rest m \<and> guest m' = guest m \<and> trans m' = trans m"
proof -
  have f: "free_queue (vd_vq (vdev m)) = k" using u by (intro free_queue_iff) (auto simp: queues_used_def)
  define vq where "vq = vd_vq (vdev m) ! k"
  define m' where "m' = set_vq m k (vq\<lparr>vring := (vring vq)\<lparr>vr_num := n\<rparr>, handle_output := Some h\<rparr>)"
  have a: "virtio_add_queue n h m = Some (k, m')"
    using u n f by (simp add: virtio_add_queue_def get_vq_def m'_def vq_def queues_used_def)
  have q: "queues_used (Suc k) m'" using u n by (auto simp: queues_used_def m'_def set_vq_def nth_list_update)
  have "queue_is m' k n h" "\<forall>j a b. j < k \<longrightarrow> queue_is m' j a b = queue_is m j a b" "rest m' = rest m" "guest m' = guest m" "trans m' = trans m"
    using u by (auto simp: queue_is_def m'_def set_vq_def queues_used_def)
  with a q show ?thesis by blast
qed

lemma add_port_queues_ok:
  assumes "queues_used k m" "k + 2 * n \<le> 64"
  shows "\<exists>m'. add_port_queues n m = Some m' \<and> queues_used (k + 2 * n) m'
    \<and> rest m' = (rest m)\<lparr>vs_ivqs := vs_ivqs (rest m) @ map (\<lambda>i. k + 2 * i) [0..<n], vs_ovqs := vs_ovqs (rest m) @ map (\<lambda>i. k + 2 * i + 1) [0..<n]\<rparr>
    \<and> (\<forall>i < n. queue_is m' (k + 2 * i) 128 Handle_Input \<and> queue_is m' (k + 2 * i + 1) 128 Handle_Output)
    \<and> (\<forall>j a b. j < k \<longrightarrow> queue_is m' j a b = queue_is m j a b) \<and> guest m' = guest m \<and> trans m' = trans m"
  using assms
proof (induction n arbitrary: k m)
  case 0
  then show ?case by simp
next
  case (Suc n)
  from add_queue_ok [OF Suc.prems(1), of 128 Handle_Input] Suc.prems(2) obtain m1 where
    1: "virtio_add_queue 128 Handle_Input m = Some (k, m1)" "queues_used (Suc k) m1" "queue_is m1 k 128 Handle_Input"
      "\<And>j a b. j < k \<Longrightarrow> queue_is m1 j a b = queue_is m j a b" "rest m1 = rest m" "guest m1 = guest m" "trans m1 = trans m" by auto
  from add_queue_ok [OF 1(2), of 128 Handle_Output] Suc.prems(2) obtain m2 where
    2: "virtio_add_queue 128 Handle_Output m1 = Some (Suc k, m2)" "queues_used (Suc (Suc k)) m2" "queue_is m2 (Suc k) 128 Handle_Output"
      "\<And>j a b. j < Suc k \<Longrightarrow> queue_is m2 j a b = queue_is m1 j a b" "rest m2 = rest m1" "guest m2 = guest m1" "trans m2 = trans m1" by auto
  define m3 where "m3 = m2\<lparr>rest := (rest m2)\<lparr>vs_ivqs := vs_ivqs (rest m2) @ [k], vs_ovqs := vs_ovqs (rest m2) @ [Suc k]\<rparr>\<rparr>"
  have qi: "queue_is m3 j a b = queue_is m2 j a b" for j a b by (simp add: queue_is_def m3_def)
  have "queues_used (Suc (Suc k)) m3" using 2(2) by (simp add: queues_used_def m3_def)
  from Suc.IH [OF this] Suc.prems(2) obtain m' where
    IH: "add_port_queues n m3 = Some m'" "queues_used (Suc (Suc k) + 2 * n) m'"
      "rest m' = (rest m3)\<lparr>vs_ivqs := vs_ivqs (rest m3) @ map (\<lambda>i. Suc (Suc k) + 2 * i) [0..<n], vs_ovqs := vs_ovqs (rest m3) @ map (\<lambda>i. Suc (Suc k) + 2 * i + 1) [0..<n]\<rparr>"
      "\<And>i. i < n \<Longrightarrow> queue_is m' (Suc (Suc k) + 2 * i) 128 Handle_Input \<and> queue_is m' (Suc (Suc k) + 2 * i + 1) 128 Handle_Output"
      "\<And>j a b. j < Suc (Suc k) \<Longrightarrow> queue_is m' j a b = queue_is m3 j a b" "guest m' = guest m3" "trans m' = trans m3" by auto
  have up: "map f [0..<Suc n] = f 0 # map (\<lambda>i. f (Suc i)) [0..<n]" for f :: "nat \<Rightarrow> nat" by (simp add: map_upt_Suc del: upt_Suc)
  have "queue_is m' (k + 2 * i) 128 Handle_Input \<and> queue_is m' (k + 2 * i + 1) 128 Handle_Output" if "i < Suc n" for i
    using that IH(4) [of "i - 1"] IH(5) [of k] IH(5) [of "Suc k"] 1(3) 2(3) 2(4) [of k] by (cases i) (simp_all add: qi)
  moreover have "queue_is m' j a b = queue_is m j a b" if "j < k" for j a b using that IH(5) 2(4) 1(4) by (simp add: qi)
  moreover have "rest m' = (rest m)\<lparr>vs_ivqs := vs_ivqs (rest m) @ map (\<lambda>i. k + 2 * i) [0..<Suc n], vs_ovqs := vs_ovqs (rest m) @ map (\<lambda>i. k + 2 * i + 1) [0..<Suc n]\<rparr>"
    unfolding up IH(3) by (simp add: m3_def 2(5) 1(5))
  moreover have "add_port_queues (Suc n) m = Some m'" using 1(1) 2(1) IH(1) by (simp add: m3_def)
  ultimately show ?case using IH(2,6,7) 1(6,7) 2(6,7) by (intro exI [of _ m']) (auto simp: m3_def)
qed


text \<open>What the queues of the ports and of control messages are, once they are all added.\<close>

lemma init_queues:
  fixes m0 :: "('p, 't, 'w) vmach"
  assumes mx: "0 < n" "n \<le> 31" and q0: "queues_used 0 m0" "vs_ivqs (rest m0) = []" "vs_ovqs (rest m0) = []"
  obtains m1 m2 m3 m4 where "add_port_queues 1 m0 = Some m1" "virtio_add_queue 32 Control_In m1 = Some (2, m2)"
    "virtio_add_queue 32 Control_Out m2 = Some (3, m3)"
    "add_port_queues (n - 1) (m3\<lparr>rest := (rest m3)\<lparr>vs_c_ivq := 2, vs_c_ovq := 3\<rparr>\<rparr>) = Some m4"
    "rest m4 = (rest m0)\<lparr>vs_c_ivq := 2, vs_c_ovq := 3, vs_ivqs := 0 # map (\<lambda>i. 2 * i + 2) [1..<n], vs_ovqs := 1 # map (\<lambda>i. 2 * i + 3) [1..<n]\<rparr>"
    "length (vd_vq (vdev m4)) = 64" "queue_is m4 2 32 Control_In" "queue_is m4 3 32 Control_Out"
    "\<forall>i < n. queue_is m4 (vs_ivqs (rest m4) ! i) 128 Handle_Input \<and> queue_is m4 (vs_ovqs (rest m4) ! i) 128 Handle_Output"
proof -
  from add_port_queues_ok [OF q0(1), of 1] q0(2,3) obtain m1 where 1: "add_port_queues 1 m0 = Some m1" "queues_used 2 m1"
    "rest m1 = (rest m0)\<lparr>vs_ivqs := [0], vs_ovqs := [1]\<rparr>" "queue_is m1 0 128 Handle_Input" "queue_is m1 1 128 Handle_Output" by (auto simp: numeral_2_eq_2)
  from add_queue_ok [OF 1(2), of 32 Control_In] obtain m2 where 2: "virtio_add_queue 32 Control_In m1 = Some (2, m2)" "queues_used 3 m2"
    "queue_is m2 2 32 Control_In" "\<And>j a b. j < 2 \<Longrightarrow> queue_is m2 j a b = queue_is m1 j a b" "rest m2 = rest m1" by auto
  from add_queue_ok [OF 2(2), of 32 Control_Out] obtain m3 where 3: "virtio_add_queue 32 Control_Out m2 = Some (3, m3)" "queues_used 4 m3"
    "queue_is m3 3 32 Control_Out" "\<And>j a b. j < 3 \<Longrightarrow> queue_is m3 j a b = queue_is m2 j a b" "rest m3 = rest m2" by auto
  define m3' where "m3' = m3\<lparr>rest := (rest m3)\<lparr>vs_c_ivq := 2, vs_c_ovq := 3\<rparr>\<rparr>"
  have q3: "queue_is m3' j a b = queue_is m3 j a b" for j a b by (simp add: queue_is_def m3'_def)
  have "queues_used 4 m3'" "4 + 2 * (n - 1) \<le> 64" using 3(2) mx by (simp_all add: queues_used_def m3'_def)
  from add_port_queues_ok [OF this] obtain m4 where 4: "add_port_queues (n - 1) m3' = Some m4" "queues_used (4 + 2 * (n - 1)) m4"
    "rest m4 = (rest m3')\<lparr>vs_ivqs := vs_ivqs (rest m3') @ map (\<lambda>i. 4 + 2 * i) [0..<n - 1], vs_ovqs := vs_ovqs (rest m3') @ map (\<lambda>i. 4 + 2 * i + 1) [0..<n - 1]\<rparr>"
    "\<And>i. i < n - 1 \<Longrightarrow> queue_is m4 (4 + 2 * i) 128 Handle_Input \<and> queue_is m4 (4 + 2 * i + 1) 128 Handle_Output"
    "\<And>j a b. j < 4 \<Longrightarrow> queue_is m4 j a b = queue_is m3' j a b" by auto
  have sh: "map f [1..<n] = map (\<lambda>i. f (Suc i)) [0..<n - 1]" for f :: "nat \<Rightarrow> nat" using mx by (intro nth_equalityI) auto
  have r4: "rest m4 = (rest m0)\<lparr>vs_c_ivq := 2, vs_c_ovq := 3, vs_ivqs := 0 # map (\<lambda>i. 2 * i + 2) [1..<n], vs_ovqs := 1 # map (\<lambda>i. 2 * i + 3) [1..<n]\<rparr>"
    unfolding sh by (simp add: 4(3) m3'_def 3(5) 2(5) 1(3) add.commute)
  have "queue_is m4 (vs_ivqs (rest m4) ! i) 128 Handle_Input \<and> queue_is m4 (vs_ovqs (rest m4) ! i) 128 Handle_Output" if "i < n" for i
    using that 4(4) [of "i - 1"] 4(5) [of 0] 4(5) [of 1] 3(4) [of 0] 3(4) [of 1] 2(4) [of 0] 2(4) [of 1] 1(4,5)
    by (cases i) (simp_all add: r4 q3 less_diff_conv nth_upt add.commute eval_nat_numeral)
  moreover have "queue_is m4 2 32 Control_In" "queue_is m4 3 32 Control_Out" using 4(5) 3(3,4) 2(3) by (simp_all add: q3)
  moreover have "length (vd_vq (vdev m4)) = 64" using 4(2) by (simp add: queues_used_def)
  ultimately show thesis using 1(1) 2(1) 3(1) 4(1) r4 unfolding m3'_def by (intro that) auto
qed

lemma serial_init_result:
  assumes ports: "\<not> (max_ports = 0 \<or> 31 < max_ports)"
  shows "\<exists>m :: ('p, 't, 'w) vmach. virtio_serial_init max_ports running g t w = Some (Some m) \<and> serial_ok m \<and> port_ids m = []
     \<and> vs_c_ivq (rest m) = 2 \<and> vs_c_ovq (rest m) = 3 \<and> queue_is m 2 32 Control_In \<and> queue_is m 3 32 Control_Out
     \<and> vs_ivqs (rest m) = 0 # map (\<lambda>i. 2 * i + 2) [1..<unat max_ports]
     \<and> vs_ovqs (rest m) = 1 # map (\<lambda>i. 2 * i + 3) [1..<unat max_ports]
     \<and> (\<forall>i < unat max_ports. queue_is m (vs_ivqs (rest m) ! i) 128 Handle_Input \<and> queue_is m (vs_ovqs (rest m) ! i) 128 Handle_Output)"
proof -
  from ports have mx: "0 < unat max_ports" "unat max_ports \<le> 31" by (auto simp: word_less_nat_alt unat_gt_0)
  define m0 :: "('p, 't, 'w) vmach" where "m0 = \<lparr>vdev = virtio_common_init VIRTIO_ID_CONSOLE 8 running, guest = g, trans = t,
    rest = \<lparr>vs_c_ivq = 0, vs_c_ovq = 0, vs_ivqs = [], vs_ovqs = [], vs_bus_max = max_ports, vs_ports = [],
      vs_ports_map = [], vs_cols = 0, vs_rows = 0, vs_max_nr_ports = 0, vs_bh = [], vs_world = w\<rparr>\<rparr>"
  have "queues_used 0 m0" "vs_ivqs (rest m0) = []" "vs_ovqs (rest m0) = []" by (simp_all add: queues_used_def m0_def virtio_common_init_def)
  from init_queues [OF mx this] obtain m1 m2 m3 m4 where s: "add_port_queues 1 m0 = Some m1" "virtio_add_queue 32 Control_In m1 = Some (2, m2)"
    "virtio_add_queue 32 Control_Out m2 = Some (3, m3)" "add_port_queues (unat max_ports - 1) (m3\<lparr>rest := (rest m3)\<lparr>vs_c_ivq := 2, vs_c_ovq := 3\<rparr>\<rparr>) = Some m4"
    and r: "rest m4 = (rest m0)\<lparr>vs_c_ivq := 2, vs_c_ovq := 3, vs_ivqs := 0 # map (\<lambda>i. 2 * i + 2) [1..<unat max_ports], vs_ovqs := 1 # map (\<lambda>i. 2 * i + 3) [1..<unat max_ports]\<rparr>"
    and q: "length (vd_vq (vdev m4)) = 64" "queue_is m4 2 32 Control_In" "queue_is m4 3 32 Control_Out"
    "\<forall>i < unat max_ports. queue_is m4 (vs_ivqs (rest m4) ! i) 128 Handle_Input \<and> queue_is m4 (vs_ovqs (rest m4) ! i) 128 Handle_Output" by metis
  define m5 where "m5 = m4\<lparr>rest := (rest m4)\<lparr>vs_max_nr_ports := max_ports, vs_ports_map := [1]\<rparr>\<rparr>"
  have q5: "queue_is m5 j a b = queue_is m4 j a b" for j a b by (simp add: queue_is_def m5_def)
  have mw: "unat ((max_ports + 31) div 32) = 1" using mx by (intro map_words) (auto simp: word_less_nat_alt)
  have init: "virtio_serial_init max_ports running g t w = Some (Some m5)"
    using ports s mw unfolding virtio_serial_init_def m0_def [symmetric] by (simp add: mark_port_added_def m5_def replicate_Suc [of 0, folded One_nat_def] del: add_port_queues.simps One_nat_def)
  have ok: "serial_ok m5"
    using mx q(1) unfolding serial_ok_def2 Let_def
    by (auto simp: m0_def m5_def r port_ids_def distinct_map inj_on_def word_less_nat_alt) presburger+
  have r5: "rest m5 = (rest m4)\<lparr>vs_max_nr_ports := max_ports, vs_ports_map := [1]\<rparr>" by (simp add: m5_def)
  have p5: "port_ids m5 = []" by (simp add: r5 r port_ids_def m0_def)
  show ?thesis by (rule exI [of _ m5]) (use init ok q p5 in \<open>simp add: q5 r5 r\<close>)
qed

lemma serial_init_ok:
  fixes m :: "('p, 't, 'w) vmach"
  assumes "virtio_serial_init max_ports running g t w = Some (Some m)"
  shows "serial_ok m"
proof -
  have "\<not> (max_ports = 0 \<or> 31 < max_ports)" using assms by (auto simp: virtio_serial_init_def)
  from serial_init_result [OF this, of running g t w, where 'p = 'p] assms show ?thesis by auto
qed

text \<open>C34: Setting up the serial device gives a well-formed bus for every number of ports the transport has
  queues for, 1 to 31, and no device for any other: port 0 has the queues 0 and 1, the control queues
  are 2 and 3, port \<open>i\<close> has the queues \<open>2 * i + 2\<close> and \<open>2 * i + 3\<close>, all of 128 entries (32 for control),
  with the handlers that belong to them.
\<close>

theorem serial_init_layout:
  "if max_ports = 0 \<or> 31 < max_ports then virtio_serial_init max_ports running g t w = Some (None :: ('p, 't, 'w) vmach option)
   else \<exists>m :: ('p, 't, 'w) vmach. virtio_serial_init max_ports running g t w = Some (Some m) \<and> serial_ok m \<and> port_ids m = []
     \<and> vs_c_ivq (rest m) = 2 \<and> vs_c_ovq (rest m) = 3 \<and> queue_is m 2 32 Control_In \<and> queue_is m 3 32 Control_Out
     \<and> vs_ivqs (rest m) = 0 # map (\<lambda>i. 2 * i + 2) [1..<unat max_ports]
     \<and> vs_ovqs (rest m) = 1 # map (\<lambda>i. 2 * i + 3) [1..<unat max_ports]
     \<and> (\<forall>i < unat max_ports. queue_is m (vs_ivqs (rest m) ! i) 128 Handle_Input \<and> queue_is m (vs_ovqs (rest m) ! i) 128 Handle_Output)"
proof (cases "max_ports = 0 \<or> 31 < max_ports")
  case True
  then show ?thesis by (auto simp: virtio_serial_init_def)
next
  case False
  show ?thesis unfolding if_not_P [OF False] by (rule serial_init_result [OF False])
qed

theorem serial_init_layout_witness:
  "\<exists>m :: (nat, nat, nat) vmach. virtio_serial_init 3 True gst_zero 0 0 = Some (Some m) \<and> serial_ok m \<and> vs_ivqs (rest m) = [0, 4, 6] \<and> vs_ovqs (rest m) = [1, 5, 7]"
proof -
  have u: "[Suc 0..<3] = [1, 2]" by code_simp
  show ?thesis
    using serial_init_layout [of 3 True gst_zero "0 :: nat" "0 :: nat", where 'p = nat] by (auto simp: u)
qed


section \<open>Runs of the bus\<close>

text \<open>
  Everything that happens to the device between its set-up and its end: what the guest does through
  the transport (writing its memory, the queue and status registers, the configuration space,
  kicking a queue), what the host side of a port does, bottom halves, plugging and unplugging, and
  changes of the transport's own state.
\<close>

inductive bus_step :: "('p, 't, 'w) senv \<Rightarrow> ('p, 't, 'w) vmach \<Rightarrow> ('p, 't, 'w) vmach \<Rightarrow> bool" for E where
  guest_memory: "bus_step E m (m\<lparr>guest := g\<rparr>)"
| transport: "bus_step E m (m\<lparr>trans := t\<rparr>)"
| kick: "virtio_queue_notify (run_handler E) n m = Some m' \<Longrightarrow> bus_step E m m'"
| status: "virtio_set_status (serial_ops E) val m = Some m' \<Longrightarrow> bus_step E m m'"
| reset: "virtio_reset (serial_ops E) (se_bind E) m = Some m' \<Longrightarrow> bus_step E m m'"
| features: "virtio_set_features (serial_ops E) (se_bind E) val m = Some (ret, m') \<Longrightarrow> bus_step E m m'"
| queue_addr: "virtio_queue_set_addr n addr m = Some m' \<Longrightarrow> bus_step E m m'"
| queue_vector: "virtio_queue_set_vector n vector m = Some m' \<Longrightarrow> bus_step E m m'"
| queue_select: "bus_step E m (m\<lparr>vdev := (vdev m)\<lparr>vd_queue_sel := sel\<rparr>\<rparr>)"
| ack: "bus_step E m (m\<lparr>vdev := (vdev m)\<lparr>vd_isr := 0\<rparr>\<rparr>)"
| config_vector: "bus_step E m (m\<lparr>vdev := (vdev m)\<lparr>vd_config_vector := vector\<rparr>\<rparr>)"
| vm_running: "bus_step E m (m\<lparr>vdev := (vdev m)\<lparr>vd_vm_running := running\<rparr>\<rparr>)"
| read_config: "config_read w ld (serial_ops E) a m = Some (val, m') \<Longrightarrow> bus_step E m m'"
| write_config: "config_write bs (serial_ops E) a m = Some m' \<Longrightarrow> bus_step E m m'"
| host_open: "virtio_serial_open E pid m = Some m' \<Longrightarrow> bus_step E m m'"
| host_close: "virtio_serial_close E pid m = Some m' \<Longrightarrow> bus_step E m m'"
| host_write: "virtio_serial_write E pid buf m = Some (k, m') \<Longrightarrow> bus_step E m m'"
| throttle: "bus_step E m (virtio_serial_throttle_port pid b m)"
| bottom_half: "flush_queued_data E pid m = Some m' \<Longrightarrow> bus_step E m m'"
| plug: "virtser_port_qdev_init E port m = Some (ret, m') \<Longrightarrow> bus_step E m m'"
| unplug: "virtser_port_qdev_exit E pid m = Some (ret, m') \<Longrightarrow> bus_step E m m'"

inductive bus_run :: "('p, 't, 'w) senv \<Rightarrow> ('p, 't, 'w) vmach \<Rightarrow> ('p, 't, 'w) vmach \<Rightarrow> bool" for E where
  start: "bus_run E m m"
| step: "bus_run E m m' \<Longrightarrow> bus_step E m' m'' \<Longrightarrow> bus_run E m m''"

lemma shape_vdev: "length (vd_vq (f (vdev m))) = length (vd_vq (vdev m)) \<Longrightarrow> shape (m\<lparr>vdev := f (vdev m)\<rparr>) = shape m"
  by (simp add: shape_def Let_def)

lemma shape_registers:
  "virtio_queue_set_addr n addr m = Some m' \<Longrightarrow> shape m' = shape m"
  "virtio_queue_set_vector n vector m = Some m' \<Longrightarrow> shape m' = shape m"
  "virtio_set_features (serial_ops E) b val m = Some (ret, m') \<Longrightarrow> shape m' = shape m"
  "config_read w ld (serial_ops E) a m = Some (val', m') \<Longrightarrow> shape m' = shape m"
  "config_write bs (serial_ops E) a m = Some m' \<Longrightarrow> shape m' = shape m"
  by (auto simp: virtio_queue_set_addr_def virtio_queue_set_vector_def virtio_set_features_def serial_ops_def call_def config_read_def get_config_def
      config_write_def set_vq_def shape_def Let_def elim!: bind_SomeE split: if_splits)

context port_hooks
begin

lemma set_status_shape: "virtio_set_status (serial_ops E) val m = Some m' \<Longrightarrow> shape m' = shape m"
  by (auto simp: virtio_set_status_def serial_ops_def call_def shape_vdev elim!: bind_SomeE dest!: status_shape)

lemma virtio_reset_shape:
  assumes "virtio_reset (serial_ops E) b m = Some m'"
  shows "shape m' = shape m"
proof -
  from assms obtain m1 m2 where "virtio_set_status (serial_ops E) 0 m = Some m1" "vser_reset E m1 = Some m2" and "shape m' = shape m2"
    by (auto simp: virtio_reset_def serial_ops_def call_def Let_def virtio_notify_vector_def shape_def elim!: bind_SomeE split: option.splits)
  then show ?thesis using set_status_shape reset_shape by (simp add: vser_reset_def)
qed

lemma kick_shape: "virtio_queue_notify (run_handler E) n m = Some m' \<Longrightarrow> shape m' = shape m"
  by (auto simp: virtio_queue_notify_def virtio_queue_notify_vq_def elim!: bind_SomeE split: if_splits dest!: handler_shape)

text \<open>A step keeps the bus well-formed, and only plugging and unplugging change which ports there are.\<close>

lemma step_ok: "bus_step E m m' \<Longrightarrow> serial_ok m \<Longrightarrow> serial_ok m'"
proof (induction rule: bus_step.induct)
  case (plug port m ret m')
  then show ?case using plug_ok by blast
next
  case (unplug pid m ret m')
  then show ?case using unplug_ok by blast
qed (auto simp: serial_ok_def shape_vdev dest!: kick_shape set_status_shape virtio_reset_shape shape_registers host_side_shape(1-3) shape_write
    simp: host_side_shape(4))

lemma run_ok: "bus_run E m m' \<Longrightarrow> serial_ok m \<Longrightarrow> serial_ok m'"
  by (induction rule: bus_run.induct) (auto dest: step_ok)

end

lemma run_trans: "bus_run E m' m'' \<Longrightarrow> bus_run E m m' \<Longrightarrow> bus_run E m m''"
  by (induction rule: bus_run.induct) (auto intro: bus_run.step)


section \<open>What the callbacks keep of the world outside\<close>

abbreviation world :: "('p, 't, 'w) vmach \<Rightarrow> 'w" where
  "world m \<equiv> vs_world (rest m)"

lemma world_upd_port [simp]: "world (upd_port pid f m) = world m"
  by (simp add: upd_port_def)

lemma rest_set_vq [simp]: "rest (set_vq m n vq) = rest m"
  by (simp add: set_vq_def)

lemma world_notify: "virtio_notify b n m = Some m' \<Longrightarrow> rest m' = rest m"
  by (auto simp: virtio_notify_def virtio_notify_vector_def Let_def elim!: bind_SomeE split: prod.splits if_splits option.splits)

lemma world_pop: "vq_pop E n m = Some (e, m') \<Longrightarrow> rest m' = rest m"
  by (auto simp: vq_pop_def elim!: bind_SomeE split: prod.splits)

lemma world_push: "vq_push n e len m = Some m' \<Longrightarrow> rest m' = rest m"
  by (auto simp: vq_push_def elim!: bind_SomeE split: prod.splits)

lemma world_write_loop:
  assumes "write_loop E n buf offset m = Some r"
  shows "rest (snd r) = rest m"
proof (rule write_loop.raw_induct [where P = "\<lambda>E n buf offset m r. rest (snd r) = rest m", OF _ assms], goal_cases)
  case (1 rec E n buf offset m r)
  from 1(2) show ?case by (auto elim!: bind_SomeE split: if_splits option.splits prod.splits dest!: 1(1) world_pop world_push)
qed

lemma world_write: "virtio_serial_write E pid buf m = Some (k, m') \<Longrightarrow> rest m' = rest m"
  by (auto simp: virtio_serial_write_def write_to_port_def elim!: bind_SomeE split: if_splits option.splits dest!: world_write_loop world_notify)

lemma world_discard_loop:
  assumes "discard_loop E n m = Some m'"
  shows "rest m' = rest m"
proof (rule discard_loop.raw_induct [where P = "\<lambda>E n m m'. rest m' = rest m", OF _ assms], goal_cases)
  case (1 rec E n m m')
  from 1(2) show ?case by (auto elim!: bind_SomeE split: if_splits option.splits prod.splits dest!: 1(1) world_pop world_push)
qed

lemma world_discard: "discard_vq_data E n m = Some m' \<Longrightarrow> rest m' = rest m"
  by (auto simp: discard_vq_data_def elim!: bind_SomeE split: if_splits dest!: world_discard_loop world_notify)

lemma world_send_control_msg: "send_control_msg E port buf m = Some (k, m') \<Longrightarrow> rest m' = rest m"
  by (auto simp: send_control_msg_def Let_def elim!: bind_SomeE split: if_splits option.splits dest!: world_pop world_push world_notify)

lemma world_send_control_event: "send_control_event E port event v m = Some (k, m') \<Longrightarrow> rest m' = rest m"
  by (simp add: send_control_event_def world_send_control_msg)

lemmas world_keep = world_notify world_pop world_push world_write world_discard world_send_control_msg world_send_control_event

text \<open>An invariant of the world that every callback of the port class keeps.\<close>

locale port_world = port_hooks E for E :: "('p, 't, 'w) senv" +
  fixes I :: "'w \<Rightarrow> bool"
  assumes init_keeps: "pc_init (se_class E) p m = Some (ret, p', m') \<Longrightarrow> I (world m) \<Longrightarrow> I (world m')"
    and exit_keeps: "pc_exit (se_class E) = Some f \<Longrightarrow> f p m = Some m' \<Longrightarrow> I (world m) \<Longrightarrow> I (world m')"
    and open_keeps: "pc_guest_open (se_class E) = Some h \<Longrightarrow> h pid m = Some m' \<Longrightarrow> I (world m) \<Longrightarrow> I (world m')"
    and close_keeps: "pc_guest_close (se_class E) = Some h \<Longrightarrow> h pid m = Some m' \<Longrightarrow> I (world m) \<Longrightarrow> I (world m')"
    and ready_keeps: "pc_guest_ready (se_class E) = Some h \<Longrightarrow> h pid m = Some m' \<Longrightarrow> I (world m) \<Longrightarrow> I (world m')"
    and data_keeps: "pc_have_data (se_class E) pid buf len m = Some (ret, m') \<Longrightarrow> I (world m) \<Longrightarrow> I (world m')"
begin

lemma call_keeps:
  "call_port (pc_guest_open (se_class E)) pid m = Some m' \<Longrightarrow> I (world m) \<Longrightarrow> I (world m')"
  "call_port (pc_guest_close (se_class E)) pid m = Some m' \<Longrightarrow> I (world m) \<Longrightarrow> I (world m')"
  "call_port (pc_guest_ready (se_class E)) pid m = Some m' \<Longrightarrow> I (world m) \<Longrightarrow> I (world m')"
  by (auto simp: call_port_def call_def split: option.splits dest: open_keeps close_keeps ready_keeps)

lemma flush_elem_keeps:
  assumes "flush_elem E pid i m = Some m'" "I (world m)"
  shows "I (world m')"
proof -
  have "F = E \<longrightarrow> I (world m) \<longrightarrow> I (world m')" if "flush_elem F pid i m = Some m'" for F pid i m m'
  proof (rule flush_elem.raw_induct [where P = "\<lambda>F pid i m m'. F = E \<longrightarrow> I (world m) \<longrightarrow> I (world m')", OF _ that], goal_cases)
    case (1 rec F pid i m m')
    show ?case
    proof (intro impI)
      assume "F = E" "I (world m)"
      with 1(2) show "I (world m')"
        by (auto simp: Let_def elim!: bind_SomeE split: if_splits prod.splits dest!: 1(1) data_keeps)
    qed
  qed
  with assms show ?thesis by blast
qed

lemma flush_loop_keeps:
  assumes "flush_loop E pid n m = Some m'" "I (world m)"
  shows "I (world m')"
proof -
  have "F = E \<longrightarrow> I (world m) \<longrightarrow> I (world m')" if "flush_loop F pid n m = Some m'" for F pid n m m'
  proof (rule flush_loop.raw_induct [where P = "\<lambda>F pid n m m'. F = E \<longrightarrow> I (world m) \<longrightarrow> I (world m')", OF _ that], goal_cases)
    case (1 rec F pid n m m')
    show ?case
    proof (intro impI)
      assume a: "F = E" "I (world m)"
      have e: "\<And>pid i m m'. flush_elem F pid i m = Some m' \<Longrightarrow> I (world m) \<Longrightarrow> I (world m')" using flush_elem_keeps a(1) by blast
      have r: "\<And>pid n m m'. rec F pid n m = Some m' \<Longrightarrow> I (world m) \<Longrightarrow> I (world m')" using 1(1) a(1) by blast
      from 1(2) a(2) show "I (world m')"
        by (auto simp: Let_def world_pop world_push elim!: bind_SomeE split: if_splits prod.splits option.splits dest!: r e world_pop world_push)
    qed
  qed
  with assms show ?thesis by blast
qed

lemma do_flush_keeps: "do_flush_queued_data E pid n m = Some m' \<Longrightarrow> I (world m) \<Longrightarrow> I (world m')"
  by (auto simp: do_flush_queued_data_def world_notify elim!: bind_SomeE split: if_splits dest!: flush_loop_keeps)

lemma for_ports_keeps:
  assumes "\<And>pid m m'. step pid m = Some m' \<Longrightarrow> I (world m) \<Longrightarrow> I (world m')"
  shows "for_ports step pids m = Some m' \<Longrightarrow> I (world m) \<Longrightarrow> I (world m')"
  by (induction pids arbitrary: m) (auto elim!: bind_SomeE dest!: assms)

lemma announce_keeps: "announce_port E pid m = Some m' \<Longrightarrow> I (world m) \<Longrightarrow> I (world m')"
  by (auto simp: announce_port_def elim!: bind_SomeE dest!: world_keep)

lemma announce_all_keeps: "for_ports (announce_port E) pids m = Some m' \<Longrightarrow> I (world m) \<Longrightarrow> I (world m')"
  by (rule for_ports_keeps [of "announce_port E"]) (rule announce_keeps)

lemma port_ready_keeps: "port_ready E pid m = Some m' \<Longrightarrow> I (world m) \<Longrightarrow> I (world m')"
  by (auto simp: port_ready_def world_keep elim!: bind_SomeE split: if_splits option.splits dest!: call_keeps(3))

lemma port_open_keeps: "port_open E pid v m = Some m' \<Longrightarrow> I (world m) \<Longrightarrow> I (world m')"
  by (auto simp: port_open_def Let_def elim!: bind_SomeE split: if_splits dest!: call_keeps(1,2))

lemma control_message_keeps: "handle_control_message E buf m = Some m' \<Longrightarrow> I (world m) \<Longrightarrow> I (world m')"
  by (auto simp: handle_control_message_def Let_def split: if_splits option.splits dest!: announce_all_keeps port_ready_keeps port_open_keeps)

lemma control_loop_keeps:
  assumes "control_loop E n m = Some m'" "I (world m)"
  shows "I (world m')"
proof -
  have "F = E \<longrightarrow> I (world m) \<longrightarrow> I (world m')" if "control_loop F n m = Some m'" for F n m m'
  proof (rule control_loop.raw_induct [where P = "\<lambda>F n m m'. F = E \<longrightarrow> I (world m) \<longrightarrow> I (world m')", OF _ that], goal_cases)
    case (1 rec F n m m')
    show ?case
    proof (intro impI)
      assume a: "F = E" "I (world m)"
      have e: "\<And>buf m m'. handle_control_message F buf m = Some m' \<Longrightarrow> I (world m) \<Longrightarrow> I (world m')" using control_message_keeps a(1) by blast
      have r: "\<And>n m m'. rec F n m = Some m' \<Longrightarrow> I (world m) \<Longrightarrow> I (world m')" using 1(1) a(1) by blast
      from 1(2) a(2) show "I (world m')"
        by (auto simp: world_pop world_push elim!: bind_SomeE split: prod.splits option.splits dest!: r e)
    qed
  qed
  with assms show ?thesis by blast
qed

lemma reset_keeps: "guest_reset E m = Some m' \<Longrightarrow> I (world m) \<Longrightarrow> I (world m')"
proof -
  have "I (world m')" if "reset_port E pid m = Some m'" "I (world m)" for pid m m'
    using that by (auto simp: reset_port_def elim!: bind_SomeE split: if_splits dest!: call_keeps(2))
  then show "guest_reset E m = Some m' \<Longrightarrow> I (world m) \<Longrightarrow> I (world m')" unfolding guest_reset_def by (rule for_ports_keeps)
qed

lemma status_keeps: "virtio_set_status (serial_ops E) val m = Some m' \<Longrightarrow> I (world m) \<Longrightarrow> I (world m')"
  by (auto simp: virtio_set_status_def serial_ops_def call_def set_status_def Let_def elim!: bind_SomeE split: if_splits dest!: reset_keeps)

lemma virtio_reset_keeps:
  assumes "virtio_reset (serial_ops E) b m = Some m'" "I (world m)"
  shows "I (world m')"
proof -
  from assms(1) obtain m1 m2 where "virtio_set_status (serial_ops E) 0 m = Some m1" "vser_reset E m1 = Some m2" and "world m' = world m2"
    by (auto simp: virtio_reset_def serial_ops_def call_def Let_def virtio_notify_vector_def elim!: bind_SomeE split: option.splits)
  then show ?thesis using assms(2) status_keeps reset_keeps by (simp add: vser_reset_def)
qed

lemma kick_keeps: "virtio_queue_notify (run_handler E) n m = Some m' \<Longrightarrow> I (world m) \<Longrightarrow> I (world m')"
  by (auto simp: virtio_queue_notify_def virtio_queue_notify_vq_def run_handler_def control_out_def serial_handle_output_def world_discard world_notify
      elim!: bind_SomeE split: if_splits handler.splits option.splits dest!: do_flush_keeps control_loop_keeps)

lemma host_side_keeps:
  "virtio_serial_open E pid m = Some m' \<Longrightarrow> I (world m) \<Longrightarrow> I (world m')"
  "virtio_serial_close E pid m = Some m' \<Longrightarrow> I (world m) \<Longrightarrow> I (world m')"
  "flush_queued_data E pid m = Some m' \<Longrightarrow> I (world m) \<Longrightarrow> I (world m')"
  "I (world m) \<Longrightarrow> I (world (virtio_serial_throttle_port pid b m))"
  by (auto simp: virtio_serial_open_def virtio_serial_close_def flush_queued_data_def virtio_serial_throttle_port_def Let_def world_keep
      elim!: bind_SomeE split: if_splits option.splits dest!: do_flush_keeps)

lemma plug_keeps: "virtser_port_qdev_init E port m = Some (ret, m') \<Longrightarrow> I (world m) \<Longrightarrow> I (world m')"
  by (auto simp: virtser_port_qdev_init_def insert_port_def add_port_def mark_port_added_def Let_def virtio_notify_config_def virtio_notify_vector_def
      elim!: bind_SomeE split: if_splits option.splits dest!: announce_keeps init_keeps)

lemma unplug_keeps:
  assumes "virtser_port_qdev_exit E pid m = Some (ret, m')" "I (world m)"
  shows "I (world m')"
proof -
  from assms(1) obtain m1 port where m1: "remove_port E pid (m\<lparr>rest := (rest m)\<lparr>vs_bh := removeAll pid (vs_bh (rest m))\<rparr>\<rparr>) = Some m1"
    and c: "call (map_option (\<lambda>h. h port) (pc_exit (se_class E))) (m1\<lparr>rest := (rest m1)\<lparr>vs_ports := filter (\<lambda>p. p_id p \<noteq> pid) (vs_ports (rest m1))\<rparr>\<rparr>) = Some m'"
    by (auto simp: virtser_port_qdev_exit_def Let_def elim!: bind_SomeE)
  have "world m1 = world m" using m1 by (auto simp: remove_port_def Let_def world_keep elim!: bind_SomeE split: if_splits)
  then have w: "I (world (m1\<lparr>rest := (rest m1)\<lparr>vs_ports := filter (\<lambda>p. p_id p \<noteq> pid) (vs_ports (rest m1))\<rparr>\<rparr>))" using assms(2) by simp
  show ?thesis
  proof (cases "pc_exit (se_class E)")
    case None
    with c w show ?thesis by (simp add: call_def)
  next
    case (Some f)
    with c have "f port (m1\<lparr>rest := (rest m1)\<lparr>vs_ports := filter (\<lambda>p. p_id p \<noteq> pid) (vs_ports (rest m1))\<rparr>\<rparr>) = Some m'" by (simp add: call_def)
    from exit_keeps [OF Some this w] show ?thesis .
  qed
qed

lemma registers_keep:
  "virtio_queue_set_addr n addr m = Some m' \<Longrightarrow> world m' = world m"
  "virtio_queue_set_vector n vector m = Some m' \<Longrightarrow> world m' = world m"
  "virtio_set_features (serial_ops E) b val m = Some (ret, m') \<Longrightarrow> world m' = world m"
  "config_read w ld (serial_ops E) a m = Some (val', m') \<Longrightarrow> world m' = world m"
  "config_write bs (serial_ops E) a m = Some m' \<Longrightarrow> world m' = world m"
  by (auto simp: virtio_queue_set_addr_def virtio_queue_set_vector_def virtio_set_features_def serial_ops_def call_def config_read_def get_config_def
      config_write_def Let_def elim!: bind_SomeE split: if_splits)

lemma step_keeps: "bus_step E m m' \<Longrightarrow> I (world m) \<Longrightarrow> I (world m')"
  by (induction rule: bus_step.induct)
    (auto dest: kick_keeps status_keeps virtio_reset_keeps host_side_keeps(1-3) plug_keeps unplug_keeps registers_keep world_write simp: host_side_keeps(4))

lemma run_keeps: "bus_run E m m' \<Longrightarrow> I (world m) \<Longrightarrow> I (world m')"
  by (induction rule: bus_run.induct) (auto dest: step_keeps)

end


lemma add_queue_rest: "virtio_add_queue n h m = Some (i, m') \<Longrightarrow> rest m' = rest m"
  by (auto simp: virtio_add_queue_def Let_def elim!: bind_SomeE split: if_splits)

lemma add_port_queues_world: "add_port_queues k m = Some m' \<Longrightarrow> world m' = world m"
  by (induction k arbitrary: m) (auto elim!: bind_SomeE dest!: add_queue_rest)

lemma init_world: "virtio_serial_init n running g t w = Some (Some m) \<Longrightarrow> world m = w"
  by (auto simp: virtio_serial_init_def mark_port_added_def Let_def elim!: bind_SomeE split: if_splits dest!: add_port_queues_world add_queue_rest
      simp del: add_port_queues.simps)

end
