(* ===== verification/Scatterlist.thy ===== *)
theory Scatterlist
  imports Kernel_Env
begin

text \<open>
  Scatterlists: \<open>cryptodev-linux/util.c\<close> (\<open>sg_advance\<close>, \<open>sg_copy\<close>) over the kernel's scatterlist tables.
  A table is a list of entries, a \<open>struct scatterlist *\<close> an index into it.  What a scatterlist stands
  for is the sequence of memory cells it covers; the theorems say which cells those are.  The page
  size is a parameter (\<open>sh\<close> is \<open>PAGE_SHIFT\<close>).
\<close>

section \<open>Tables of entries\<close>

record sgent =
  sg_page :: "page option"
  sg_off :: nat
  sg_len :: nat
  sg_end :: bool

type_synonym sgtab = "sgent list"

definition sg_zero :: sgent where
  "sg_zero = \<lparr>sg_page = None, sg_off = 0, sg_len = 0, sg_end = False\<rparr>"

text \<open>
  The kernel's operations on a table: \<open>sg_set_page\<close> keeps the end mark, \<open>sg_init_table\<close> clears
  \<open>n\<close> entries and marks the last one, \<open>sg_next\<close> is null after the end mark.  Writing outside
  the table is \<open>None\<close>.
\<close>

definition sg_put :: "nat \<Rightarrow> (sgent \<Rightarrow> sgent) \<Rightarrow> sgtab \<Rightarrow> sgtab option" where
  "sg_put i f t = (if i < length t then Some (t[i := f (t ! i)]) else None)"

definition sg_set_page :: "page option \<Rightarrow> nat \<Rightarrow> nat \<Rightarrow> sgent \<Rightarrow> sgent" where
  "sg_set_page p l off e = e\<lparr>sg_page := p, sg_len := l, sg_off := off\<rparr>"

definition sg_mark_end :: "nat \<Rightarrow> sgtab \<Rightarrow> sgtab option" where
  "sg_mark_end i t = sg_put i (\<lambda>e. e\<lparr>sg_end := True\<rparr>) t"

definition sg_init_table :: "nat \<Rightarrow> nat \<Rightarrow> sgtab \<Rightarrow> sgtab option" where
  "sg_init_table i n t =
     (if i + n \<le> length t then sg_mark_end (i + n - 1) (splice_at i (replicate n sg_zero) t) else None)"

definition sg_next :: "sgtab \<Rightarrow> nat \<Rightarrow> nat option" where
  "sg_next t i = (if sg_end (t ! i) then None else Some (Suc i))"

section \<open>The cells a scatterlist covers\<close>

datatype cell = UCell u64 | KCell nat

definition sg_cells :: "nat \<Rightarrow> sgent \<Rightarrow> cell list" where
  "sg_cells sh e =
     (case sg_page e of
        None \<Rightarrow> []
      | Some (UPage p) \<Rightarrow> map (\<lambda>j. UCell (push_bit sh p + of_nat (sg_off e + j))) [0..<sg_len e]
      | Some KPage \<Rightarrow> map (\<lambda>j. KCell (sg_off e + j)) [0..<sg_len e])"

fun upto_end :: "sgtab \<Rightarrow> sgtab" where
  "upto_end [] = []"
| "upto_end (e # es) = e # (if sg_end e then [] else upto_end es)"

definition sg_span :: "nat \<Rightarrow> sgtab \<Rightarrow> nat \<Rightarrow> cell list" where
  "sg_span sh t i = concat (map (sg_cells sh) (upto_end (drop i t)))"

text \<open>An entry lies inside its page, or is empty; a list of such entries has an end mark.\<close>

definition ent_ok :: "nat \<Rightarrow> sgent \<Rightarrow> bool" where
  "ent_ok sh e \<longleftrightarrow> (sg_page e = None \<longrightarrow> sg_len e = 0) \<and> sg_off e + sg_len e \<le> 2 ^ sh"

definition sg_ok :: "nat \<Rightarrow> sgtab \<Rightarrow> nat \<Rightarrow> bool" where
  "sg_ok sh t i \<longleftrightarrow> list_all (ent_ok sh) (upto_end (drop i t)) \<and> list_ex sg_end (drop i t)"

lemma length_sg_cells: "ent_ok sh e \<Longrightarrow> length (sg_cells sh' e) = sg_len e"
  by (auto simp: ent_ok_def sg_cells_def split: option.splits page.splits)

lemma sg_span_Cons:
  "i < length t \<Longrightarrow>
    sg_span sh t i = sg_cells sh (t ! i) @ (if sg_end (t ! i) then [] else sg_span sh t (Suc i))"
  by (simp add: sg_span_def flip: Cons_nth_drop_Suc)

lemma sg_ok_Cons:
  "sg_ok sh t i \<Longrightarrow> i < length t \<and> ent_ok sh (t ! i) \<and> (\<not> sg_end (t ! i) \<longrightarrow> sg_ok sh t (Suc i))"
proof -
  assume ok: "sg_ok sh t i"
  then have i: "i < length t" by (rule_tac ccontr) (simp add: sg_ok_def)
  with ok show ?thesis by (auto simp: sg_ok_def simp flip: Cons_nth_drop_Suc)
qed

section \<open>\<open>sg_advance\<close> and \<open>sg_copy\<close>\<close>

function sg_advance_loop :: "sgtab \<Rightarrow> nat \<Rightarrow> nat \<Rightarrow> (nat option \<times> nat) option" where
  "sg_advance_loop t i consumed =
     (if i < length t then
        (if sg_len (t ! i) \<le> consumed then
           (case sg_next t i of
              None \<Rightarrow> Some (None, consumed - sg_len (t ! i))
            | Some j \<Rightarrow> sg_advance_loop t j (consumed - sg_len (t ! i)))
         else Some (Some i, consumed))
      else None)"
  by pat_completeness auto
termination
  by (relation "measure (\<lambda>(t, i, c). length t - i)") (auto simp: sg_next_def split: if_splits)

declare sg_advance_loop.simps [simp del]

definition sg_advance ::
  "(page \<Rightarrow> nat \<Rightarrow> page) \<Rightarrow> nat \<Rightarrow> sgtab \<Rightarrow> nat \<Rightarrow> nat \<Rightarrow> (nat option \<times> sgtab) option" where
  "sg_advance nth_page sh t i consumed =
     (case sg_advance_loop t i consumed of
        None \<Rightarrow> None
      | Some (None, c) \<Rightarrow> Some (None, t)
      | Some (Some j, c) \<Rightarrow>
          (let e = (t ! j)\<lparr>sg_off := sg_off (t ! j) + c, sg_len := sg_len (t ! j) - c\<rparr>;
               e' = (if 2 ^ sh \<le> sg_off e
                     then sg_set_page (map_option (\<lambda>p. nth_page p (sg_off e div 2 ^ sh)) (sg_page e))
                            (sg_len e) (sg_off e mod 2 ^ sh) e
                     else e)
           in Some (Some j, t[j := e'])))"

function sg_copy :: "sgtab \<Rightarrow> nat \<Rightarrow> nat \<Rightarrow> nat \<Rightarrow> (int \<times> sgtab) option" where
  "sg_copy t sg_from sg_to len =
     (if sg_from < length t \<and> sg_to < length t then
        (if sg_len (t ! sg_from) < len then
           (let f = t ! sg_from;
                t' = t[sg_to := sg_set_page (sg_page f) (sg_len f) (sg_off f) (t ! sg_to)];
                len' = len - sg_len f
            in case (sg_next t' sg_from, sg_next t' sg_to) of
                 (Some a, Some b) \<Rightarrow> sg_copy t' a b len'
               | _ \<Rightarrow> Some (- ENOMEM, t'))
         else
           (let f = t ! sg_from;
                t' = (if len \<noteq> 0
                      then t[sg_to := sg_set_page (sg_page f) len (sg_off f) (t ! sg_to)] else t)
            in map_option (\<lambda>u. (0, u)) (sg_mark_end sg_to t')))
      else None)"
  by pat_completeness auto
termination
  by (relation "measure (\<lambda>(t, i, j, n). length t - i)") (auto simp: sg_next_def split: if_splits)

declare sg_copy.simps [simp del]

lemma sg_advance_loop_span:
  assumes "sg_ok sh t i"
  shows "case sg_advance_loop t i c of
      None \<Rightarrow> False
    | Some (None, _) \<Rightarrow> length (sg_span sh t i) \<le> c
    | Some (Some j, r) \<Rightarrow> c < length (sg_span sh t i) \<and> sg_ok sh t j \<and> r < sg_len (t ! j)
        \<and> drop c (sg_span sh t i) = drop r (sg_span sh t j)"
  using assms
proof (induction t i c rule: sg_advance_loop.induct)
  case (1 t i c)
  from sg_ok_Cons [OF "1.prems"] have i: "i < length t" and e: "ent_ok sh (t ! i)"
    and nxt: "\<not> sg_end (t ! i) \<Longrightarrow> sg_ok sh t (Suc i)" by auto
  from e have len: "length (sg_cells sh (t ! i)) = sg_len (t ! i)"
    by (rule length_sg_cells)
  show ?case
  proof (cases "sg_len (t ! i) \<le> c")
    case False
    with i "1.prems" len show ?thesis
      by (simp add: sg_advance_loop.simps [of t i c] sg_span_Cons)
  next
    case True
    show ?thesis
    proof (cases "sg_end (t ! i)")
      case True
      with \<open>sg_len (t ! i) \<le> c\<close> i len show ?thesis
        by (simp add: sg_advance_loop.simps [of t i c] sg_next_def sg_span_Cons)
    next
      case False
      with nxt have ok: "sg_ok sh t (Suc i)" by blast
      have "sg_next t i = Some (Suc i)" using False by (simp add: sg_next_def)
      note IH = "1.IH" [OF i \<open>sg_len (t ! i) \<le> c\<close> this ok]
      with False \<open>sg_len (t ! i) \<le> c\<close> i len show ?thesis
        by (auto simp: sg_advance_loop.simps [of t i c] sg_next_def sg_span_Cons [OF i]
            split: option.splits prod.splits)
    qed
  qed
qed


lemma sg_cells_mark [simp]: "sg_cells sh (e\<lparr>sg_end := b\<rparr>) = sg_cells sh e"
  by (auto simp: sg_cells_def split: option.splits page.splits)

lemma sg_cells_drop:
  "sg_page e \<noteq> None \<Longrightarrow> c \<le> sg_len e \<Longrightarrow>
    sg_cells sh (e\<lparr>sg_off := sg_off e + c, sg_len := sg_len e - c\<rparr>) = drop c (sg_cells sh e)"
  by (auto simp: sg_cells_def drop_map add.assoc intro!: nth_equalityI split: option.splits page.splits)

lemma sg_cells_take:
  "l \<le> sg_len f \<Longrightarrow> sg_cells sh (sg_set_page (sg_page f) l (sg_off f) e) = take l (sg_cells sh f)"
  by (auto simp: sg_cells_def sg_set_page_def take_map split: option.splits page.splits)

lemma sg_span_update:
  "j < length t \<Longrightarrow> sg_end e = sg_end (t ! j) \<Longrightarrow>
    sg_span sh (t[j := e]) j = sg_cells sh e @ (if sg_end e then [] else sg_span sh t (Suc j))"
  by (simp add: sg_span_Cons) (simp add: sg_span_def)

lemma sg_ok_update:
  "sg_ok sh t j \<Longrightarrow> sg_end e = sg_end (t ! j) \<Longrightarrow> ent_ok sh e \<Longrightarrow> sg_ok sh (t[j := e]) j"
proof -
  assume *: "sg_ok sh t j" "sg_end e = sg_end (t ! j)" "ent_ok sh e"
  from sg_ok_Cons [OF *(1)] have j: "j < length t" by simp
  then have "drop j (t[j := e]) = e # drop (Suc j) t"
    by (simp flip: Cons_nth_drop_Suc)
  with * j show ?thesis by (auto simp: sg_ok_def simp flip: Cons_nth_drop_Suc)
qed

text \<open>
  \<open>sg_advance\<close> drops the first \<open>consumed\<close> cells of what a scatterlist covers, and is null when
  there are no more.
\<close>

lemma sg_advance_drop:
  assumes "sg_ok sh t i" "c < length (sg_span sh t i)"
  shows "\<exists>j t'. sg_advance nth_page sh t i c = Some (Some j, t') \<and> length t' = length t
    \<and> sg_span sh t' j = drop c (sg_span sh t i) \<and> sg_ok sh t' j"
proof -
  from sg_advance_loop_span [OF assms(1), of c] assms(2)
  obtain j r where l: "sg_advance_loop t i c = Some (Some j, r)" and ok: "sg_ok sh t j"
    and r: "r < sg_len (t ! j)" and d: "drop c (sg_span sh t i) = drop r (sg_span sh t j)"
    by (auto split: option.splits)
  let ?e = "(t ! j)\<lparr>sg_off := sg_off (t ! j) + r, sg_len := sg_len (t ! j) - r\<rparr>"
  from sg_ok_Cons [OF ok] have j: "j < length t" and e: "ent_ok sh (t ! j)" by auto
  with r have pg: "sg_page (t ! j) \<noteq> None" and fit: "sg_off (t ! j) + sg_len (t ! j) \<le> 2 ^ sh"
    by (auto simp: ent_ok_def)
  with l r have "sg_advance nth_page sh t i c = Some (Some j, t[j := ?e])"
    by (simp add: sg_advance_def)
  moreover have "sg_span sh (t[j := ?e]) j = drop r (sg_span sh t j)"
    using pg r j length_sg_cells [OF e] by (simp add: sg_span_update sg_cells_drop sg_span_Cons [of j t])
  moreover have "sg_ok sh (t[j := ?e]) j"
    using ok pg fit r by (intro sg_ok_update) (auto simp: ent_ok_def)
  ultimately show ?thesis using d by simp
qed

lemma sg_advance_past:
  assumes "sg_ok sh t i" "length (sg_span sh t i) \<le> c"
  shows "sg_advance nth_page sh t i c = Some (None, t)"
  using sg_advance_loop_span [OF assms(1), of c] assms(2)
  by (auto simp: sg_advance_def split: option.splits)

lemma upto_end_update: "length (upto_end xs) \<le> k \<Longrightarrow> upto_end (xs[k := e]) = upto_end xs"
  by (induction xs arbitrary: k rule: upto_end.induct) (auto split: nat.splits if_splits)

lemma ex_end_update:
  "length (upto_end xs) \<le> k \<Longrightarrow> list_ex sg_end xs \<Longrightarrow> list_ex sg_end (xs[k := e])"
  by (induction xs arbitrary: k rule: upto_end.induct) (auto split: nat.splits if_splits)

lemma from_update:
  assumes "i + length (upto_end (drop i t)) \<le> j"
  shows "upto_end (drop i (t[j := e])) = upto_end (drop i t)"
    and "sg_ok sh t i \<Longrightarrow> sg_ok sh (t[j := e]) i"
    and "sg_span sh (t[j := e]) i = sg_span sh t i"
  using assms by (auto simp: drop_update_swap upto_end_update ex_end_update sg_ok_def sg_span_def)

lemma upto_end_length_Suc:
  "i < length t \<Longrightarrow>
    length (upto_end (drop i t)) = Suc (if sg_end (t ! i) then 0 else length (upto_end (drop (Suc i) t)))"
  by (simp flip: Cons_nth_drop_Suc)

text \<open>\<open>sg_copy\<close> makes its target cover the first \<open>len\<close> cells of its source.\<close>

lemma sg_copy_take:
  assumes "sg_ok sh t i" "i + length (upto_end (drop i t)) \<le> j" "j < length t"
    "length (upto_end (drop i t)) \<le> length (upto_end (drop j t))"
    "0 < len" "len \<le> length (sg_span sh t i)"
  shows "\<exists>t'. sg_copy t i j len = Some (0, t') \<and> length t' = length t
    \<and> (\<forall>k < j. t' ! k = t ! k) \<and> sg_span sh t' j = take len (sg_span sh t i) \<and> sg_ok sh t' j"
  using assms
proof (induction t i j len rule: sg_copy.induct)
  case (1 t i j len)
  from sg_ok_Cons [OF "1.prems"(1)] have i: "i < length t" and e: "ent_ok sh (t ! i)"
    and nxt: "\<not> sg_end (t ! i) \<Longrightarrow> sg_ok sh t (Suc i)" by auto
  note j = \<open>j < length t\<close>
  note lc = length_sg_cells [OF e]
  show ?case
  proof (cases "sg_len (t ! i) < len")
    case False
    let ?e = "(sg_set_page (sg_page (t ! i)) len (sg_off (t ! i)) (t ! j))\<lparr>sg_end := True\<rparr>"
    have "sg_copy t i j len = Some (0, t[j := ?e])"
      using False i j "1.prems"(5)
      by (simp add: sg_copy.simps [of t i j len] sg_mark_end_def sg_put_def Let_def)
    moreover have "sg_span sh (t[j := ?e]) j = sg_cells sh ?e"
      using j by (simp add: sg_span_Cons)
    moreover have "sg_ok sh (t[j := ?e]) j"
      using j e False by (auto simp: sg_ok_def sg_set_page_def ent_ok_def simp flip: Cons_nth_drop_Suc)
    moreover have "take len (sg_span sh t i) = take len (sg_cells sh (t ! i))"
      using False lc i by (simp add: sg_span_Cons)
    ultimately show ?thesis using False by (simp add: sg_cells_take)
  next
    case True
    let ?f = "t ! i" and ?t = "t[j := sg_set_page (sg_page (t ! i)) (sg_len (t ! i)) (sg_off (t ! i)) (t ! j)]"
    have ne: "\<not> sg_end ?f"
      using True "1.prems"(6) i lc by (auto simp: sg_span_Cons)
    have nj: "\<not> sg_end (t ! j)"
      using "1.prems"(4) ne nxt [OF ne] sg_ok_Cons [OF nxt [OF ne]] i j
      by (auto simp: upto_end_length_Suc split: if_splits)
    have ij: "i < j" using "1.prems"(2) i by (simp add: upto_end_length_Suc)
    have fr: "Suc i + length (upto_end (drop (Suc i) t)) \<le> j"
      using "1.prems"(2) i ne by (simp add: upto_end_length_Suc)
    have nx: "sg_next ?t i = Some (Suc i)" "sg_next ?t j = Some (Suc j)"
      using ne nj ij j by (auto simp: sg_next_def sg_set_page_def)
    have bnd: "length (upto_end (drop (Suc i) t)) \<le> length (upto_end (drop (Suc j) t))"
      using "1.prems"(4) ne nj i j by (simp add: upto_end_length_Suc)
    have sj: "Suc j < length t"
    proof (rule ccontr)
      assume "\<not> ?thesis"
      then have "length (upto_end (drop (Suc j) t)) = 0" by simp
      with bnd nxt [OF ne] show False
        using sg_ok_Cons [OF nxt [OF ne]] by (simp add: upto_end_length_Suc)
    qed
    have "\<exists>t'. sg_copy ?t (Suc i) (Suc j) (len - sg_len ?f) = Some (0, t') \<and> length t' = length ?t
        \<and> (\<forall>k < Suc j. t' ! k = ?t ! k)
        \<and> sg_span sh t' (Suc j) = take (len - sg_len ?f) (sg_span sh ?t (Suc i)) \<and> sg_ok sh t' (Suc j)"
    proof (rule "1.IH" [OF _ True refl refl refl _ nx(1) nx(2)])
      show "i < length t \<and> j < length t" using i j by simp
      show "sg_ok sh ?t (Suc i)" using nxt [OF ne] fr by (rule from_update(2) [rotated])
      show "len - sg_len ?f \<le> length (sg_span sh ?t (Suc i))"
        using "1.prems"(6) ne lc i fr by (simp add: from_update(3) sg_span_Cons)
    qed (use fr bnd sj True in \<open>auto simp: from_update(1) nx\<close>)
    then obtain t' where t': "sg_copy ?t (Suc i) (Suc j) (len - sg_len ?f) = Some (0, t')"
      "length t' = length t" "\<And>k. k < Suc j \<Longrightarrow> t' ! k = ?t ! k"
      "sg_span sh t' (Suc j) = take (len - sg_len ?f) (sg_span sh ?t (Suc i))" "sg_ok sh t' (Suc j)"
      by auto
    have "sg_copy t i j len = Some (0, t')"
      using i j True nx t'(1) by (simp add: sg_copy.simps [of t i j len] Let_def)
    moreover have tj: "t' ! j = sg_set_page (sg_page ?f) (sg_len ?f) (sg_off ?f) (t ! j)"
      using t'(3) [of j] j by simp
    moreover have "sg_span sh t' j = take len (sg_span sh t i)"
      using j t'(2,4) tj nj ne True lc i fr
      by (simp add: sg_span_Cons [of j t'] sg_span_Cons [of i t] sg_cells_take from_update(3))
        (simp add: sg_set_page_def)
    moreover have "sg_ok sh t' j"
      using t'(2,5) tj nj j e by (auto simp: sg_ok_def sg_set_page_def ent_ok_def simp flip: Cons_nth_drop_Suc)
    ultimately show ?thesis using t'(2,3) by auto
  qed
qed

text \<open>A list is determined by its entries up to the end mark.\<close>

lemma upto_end_cong:
  assumes "length t' = length t"
    "\<forall>x. i \<le> x \<and> x < i + length (upto_end (drop i t)) \<longrightarrow> t' ! x = t ! x"
  shows "upto_end (drop i t') = upto_end (drop i t)
    \<and> (list_ex sg_end (drop i t) \<longrightarrow> list_ex sg_end (drop i t'))"
  using assms
proof (induction "length t - i" arbitrary: i)
  case (Suc n)
  then have i: "i < length t" by simp
  have h: "t' ! i = t ! i" using Suc.prems(2) i by (simp add: upto_end_length_Suc)
  show ?case
  proof (cases "sg_end (t ! i)")
    case True
    with i h Suc.prems(1) show ?thesis by (simp flip: Cons_nth_drop_Suc)
  next
    case False
    then have "upto_end (drop (Suc i) t') = upto_end (drop (Suc i) t)
        \<and> (list_ex sg_end (drop (Suc i) t) \<longrightarrow> list_ex sg_end (drop (Suc i) t'))"
      using Suc.prems i Suc.hyps(2) by (intro Suc.hyps(1)) (auto simp: upto_end_length_Suc)
    with i h Suc.prems(1) False show ?thesis by (simp flip: Cons_nth_drop_Suc)
  qed
qed simp

lemma span_cong:
  assumes "length t' = length t"
    "\<forall>x. i \<le> x \<and> x < i + length (upto_end (drop i t)) \<longrightarrow> t' ! x = t ! x"
  shows "sg_span sh t' i = sg_span sh t i" "sg_ok sh t i \<Longrightarrow> sg_ok sh t' i"
  using upto_end_cong [OF assms] by (auto simp: sg_span_def sg_ok_def)

section \<open>Properties\<close>

text \<open>A two-page source list, and behind it an empty target list of two entries; pages of 16 bytes.\<close>

definition sg_demo :: sgtab where
  "sg_demo =
     [\<lparr>sg_page = Some (UPage 3), sg_off = 12, sg_len = 4, sg_end = False\<rparr>,
      \<lparr>sg_page = Some (UPage 4), sg_off = 0, sg_len = 6, sg_end = True\<rparr>,
      sg_zero, sg_zero\<lparr>sg_end := True\<rparr>]"

text \<open>\<open>sg_copy\<close> (util.c) returns 0 and makes \<open>sg_to\<close> cover exactly the first \<open>len\<close> bytes
  that \<open>sg_from\<close> covers, for any non-zero length the source has, when the target list has as many
  entries as the source and lies behind it in the table; the entries before the target, so the
  source list itself, are left as they were.\<close>

theorem sg_copy_covers:
  assumes "sg_ok sh t i" "i + length (upto_end (drop i t)) \<le> j" "j < length t"
    "length (upto_end (drop i t)) \<le> length (upto_end (drop j t))"
    "0 < len" "len \<le> length (sg_span sh t i)"
  shows "\<exists>t'. sg_copy t i j len = Some (0, t') \<and> length t' = length t
    \<and> (\<forall>k. k < j \<longrightarrow> t' ! k = t ! k) \<and> sg_span sh t' j = take len (sg_span sh t i) \<and> sg_ok sh t' j"
  using sg_copy_take [OF assms] by auto

theorem sg_copy_covers_witness:
  "sg_ok 4 sg_demo 0 \<and>
   (\<exists>t'. sg_copy sg_demo 0 2 7 = Some (0, t') \<and> length t' = length sg_demo
    \<and> (\<forall>k. k < 2 \<longrightarrow> t' ! k = sg_demo ! k) \<and> sg_span 4 t' 2 = take 7 (sg_span 4 sg_demo 0) \<and> sg_ok 4 t' 2)"
proof
  show ok: "sg_ok 4 sg_demo 0"
    by (simp add: sg_ok_def ent_ok_def sg_demo_def)
  show "\<exists>t'. sg_copy sg_demo 0 2 7 = Some (0, t') \<and> length t' = length sg_demo
    \<and> (\<forall>k. k < 2 \<longrightarrow> t' ! k = sg_demo ! k) \<and> sg_span 4 t' 2 = take 7 (sg_span 4 sg_demo 0) \<and> sg_ok 4 t' 2"
    by (rule sg_copy_covers [OF ok])
      (simp_all add: sg_demo_def sg_span_def sg_cells_def sg_zero_def)
qed

end
