(* ===== verification/Zero_Copy.thy ===== *)
theory Zero_Copy
  imports Scatterlist
begin

text \<open>
  Zero copy (\<open>cryptodev-linux/zc.c\<close>, \<open>zc.h\<close>): the pages of a user buffer are pinned and
  described by a scatterlist, so that the crypto API works on user memory directly.  The part of
  \<open>struct csession\<close> the code uses is a record of its own that the session record extends.  The
  theorems say that the scatterlist covers the bytes of the user buffer, that pinned pages are
  released again, and that growing the page arrays terminates.
\<close>

section \<open>The page arrays of a session\<close>

record zcbuf =
  zc_alignmask :: nat
  array_size :: u32
  used_pages :: u32
  readonly_pages :: u32
  pages_ptr :: "nat option"
  sg_ptr :: "nat option"
  pages :: "page option list"
  sg :: sgtab

text \<open>
  What the code relies on from the kernel's memory management: \<open>gup\<close> is \<open>get_user_pages\<close>
  (an error number, or the pages it pinned, possibly fewer than asked for), \<open>reserved\<close> is
  \<open>PageReserved\<close> and \<open>nth\<close> is \<open>nth_page\<close>.
\<close>

record mm =
  gup :: "umem \<Rightarrow> u64 \<Rightarrow> nat \<Rightarrow> bool \<Rightarrow> int + page list"
  reserved :: "page \<Rightarrow> bool"
  nth_pg :: "page \<Rightarrow> nat \<Rightarrow> page"

abbreviation (input) DEFAULT_PREALLOC_PAGES :: nat where "DEFAULT_PREALLOC_PAGES \<equiv> 32"

definition PAGECOUNT :: "nat \<Rightarrow> u64 \<Rightarrow> u32 \<Rightarrow> u64" where
  "PAGECOUNT sh buf buflen =
     (if buflen \<noteq> 0 then drop_bit sh (buf + ucast buflen - 1) - drop_bit sh buf + 1 else 0)"

definition PAGEOFFSET :: "nat \<Rightarrow> u64 \<Rightarrow> nat" where
  "PAGEOFFSET sh buf = unat (take_bit sh buf)"

definition pin_pages :: "page list \<Rightarrow> kst \<Rightarrow> kst" where
  "pin_pages ps s = s\<lparr>pins := (\<lambda>p. pins s p + int (count_list ps p))\<rparr>"

section \<open>\<open>__get_userbuf\<close>\<close>

text \<open>
  The loop over the pages after the first: \<open>sgp\<close> is the entry to fill, \<open>i\<close> the index of the
  next page.  Following a null \<open>sgp\<close> or running off an array is \<open>None\<close>.
\<close>

function fill_sg ::
  "nat \<Rightarrow> page option list \<Rightarrow> sgtab \<Rightarrow> nat option \<Rightarrow> nat \<Rightarrow> nat \<Rightarrow> sgtab option" where
  "fill_sg sh pg t sgp i len =
     (if len = 0 then Some t
      else
        (case sgp of
           None \<Rightarrow> None
         | Some j \<Rightarrow>
             (if i < length pg \<and> j < length t then
                (let pglen = min (2 ^ sh) len;
                     t' = t[j := sg_set_page (pg ! i) pglen 0 (t ! j)]
                 in fill_sg sh pg t' (sg_next t' j) (Suc i) (len - pglen))
              else None)))"
  by pat_completeness auto
termination
  by (relation "measure (\<lambda>(sh, pg, t, sgp, i, len). len)") auto

declare fill_sg.simps [simp del]

definition get_userbuf_pages ::
  "mm \<Rightarrow> nat \<Rightarrow> u64 \<Rightarrow> u32 \<Rightarrow> bool \<Rightarrow> u32 \<Rightarrow> nat \<Rightarrow> 'a zcbuf_scheme \<Rightarrow> kst
    \<Rightarrow> (int \<times> 'a zcbuf_scheme \<times> kst) option" where
  "get_userbuf_pages M sh addr len wr pgcount base ses s =
     (if pgcount = 0 \<or> len = 0 \<or> addr = 0
      then do { t \<leftarrow> sg_mark_end base (sg ses); Some (0, ses\<lparr>sg := t\<rparr>, s) }
      else
        (case gup M (um s) addr (unat pgcount) wr of
           Inl e \<Rightarrow> Some (- EINVAL, ses, s)
         | Inr ps \<Rightarrow>
             (if length (pages ses) < base + length ps then None
              else
                (let ses1 = ses\<lparr>pages := splice_at base (map Some ps) (pages ses)\<rparr>;
                     s1 = pin_pages ps s
                 in if length ps \<noteq> unat pgcount then Some (- EINVAL, ses1, s1)
                    else do {
                      t0 \<leftarrow> sg_init_table base (unat pgcount) (sg ses1);
                      let pglen = min (2 ^ sh - PAGEOFFSET sh addr) (unat len);
                      let pg = drop base (pages ses1);
                      t1 \<leftarrow> sg_put base (sg_set_page (pg ! 0) pglen (PAGEOFFSET sh addr)) t0;
                      t2 \<leftarrow> fill_sg sh pg t1 (sg_next t1 base) 1 (unat len - pglen);
                      t3 \<leftarrow> sg_mark_end (base + unat pgcount - 1) t2;
                      Some (0, ses1\<lparr>sg := t3\<rparr>, s1)
                    }))))"

section \<open>Growing and releasing\<close>

text \<open>
  The doubling loop of \<open>adjust_sg_array\<close> on a C \<open>int\<close> (signed comparison, 32-bit doubling): it
  does not end for a zero start, or when the doubling overflows to zero.
\<close>

partial_function (option) grow :: "u32 \<Rightarrow> u32 \<Rightarrow> u32 option" where
  "grow n pagecount =
     (if n <s pagecount then grow (n * 2) pagecount else Some n)"

declare grow.simps [code]

definition resize :: "nat \<Rightarrow> 'a \<Rightarrow> 'a list \<Rightarrow> 'a list" where
  "resize n d xs = take n xs @ replicate (n - length xs) d"

text \<open>\<open>krealloc\<close>: a new object and the old one freed, or null with the old one still there.\<close>

definition krealloc :: "okind \<Rightarrow> nat option \<Rightarrow> kst \<Rightarrow> nat option \<times> kst" where
  "krealloc k p s =
     (case kalloc k s of
        (None, s') \<Rightarrow> (None, s')
      | (Some i, s') \<Rightarrow> (Some i, kfree p s'))"

definition adjust_sg_array ::
  "u32 \<Rightarrow> 'a zcbuf_scheme \<Rightarrow> kst \<Rightarrow> (int \<times> 'a zcbuf_scheme \<times> kst) option" where
  "adjust_sg_array pagecount ses s =
     (case grow (array_size ses) pagecount of
        None \<Rightarrow> None
      | Some n \<Rightarrow> Some
          (case krealloc PagesArr (pages_ptr ses) s of
             (None, s1) \<Rightarrow> (- ENOMEM, ses, s1)
           | (Some p, s1) \<Rightarrow>
               (let ses1 = ses\<lparr>pages_ptr := Some p, pages := resize (unat n) None (pages ses)\<rparr>
                in case krealloc SgArr (sg_ptr ses) s1 of
                     (None, s2) \<Rightarrow> (- ENOMEM, ses1, s2)
                   | (Some q, s2) \<Rightarrow>
                       (0, ses1\<lparr>sg_ptr := Some q, sg := resize (unat n) sg_zero (sg ses), array_size := n\<rparr>, s2))))"

definition page_ev :: "pgev \<Rightarrow> kst \<Rightarrow> kst" where
  "page_ev e s =
     (case e of
        PutPage p \<Rightarrow> s\<lparr>pglog := pglog s @ [e], pins := (pins s)(p := pins s p - 1)\<rparr>
      | _ \<Rightarrow> s\<lparr>pglog := pglog s @ [e]\<rparr>)"

fun release_loop :: "mm \<Rightarrow> page option list \<Rightarrow> u32 \<Rightarrow> kst \<Rightarrow> (u32 \<times> kst) option" where
  "release_loop M [] ro s = Some (ro, s)"
| "release_loop M (None # ps) ro s = None"
| "release_loop M (Some p # ps) ro s =
     (let s1 = (if reserved M p then s else page_ev (SetDirty p) s);
          s2 = (if ro = 0 then page_ev (FlushDcache p) s1 else s1)
      in release_loop M ps (if ro = 0 then ro else ro - 1) (page_ev (PutPage p) s2))"

definition release_user_pages ::
  "mm \<Rightarrow> 'a zcbuf_scheme \<Rightarrow> kst \<Rightarrow> ('a zcbuf_scheme \<times> kst) option" where
  "release_user_pages M ses s =
     (if length (pages ses) < unat (used_pages ses) then None
      else do {
        (ro, s') \<leftarrow> release_loop M (take (unat (used_pages ses)) (pages ses)) (readonly_pages ses) s;
        Some (ses\<lparr>readonly_pages := ro, used_pages := 0\<rparr>, s')
      })"

section \<open>\<open>get_userbuf\<close>\<close>

definition smax :: "u32 \<Rightarrow> u32 \<Rightarrow> u32" where
  "smax a b = (if a <s b then b else a)"

definition reserve_pages ::
  "u32 \<Rightarrow> 'a zcbuf_scheme \<Rightarrow> kst \<Rightarrow> (int \<times> 'a zcbuf_scheme \<times> kst) option" where
  "reserve_pages used ses s =
     (if array_size ses < used then adjust_sg_array used ses s else Some (0, ses, s))"

text \<open>On success the result carries the source and destination scatterlists.\<close>

definition map_userbuf ::
  "mm \<Rightarrow> nat \<Rightarrow> 'a zcbuf_scheme \<Rightarrow> u64 \<Rightarrow> u32 \<Rightarrow> u64 \<Rightarrow> u32 \<Rightarrow> kst
    \<Rightarrow> (int \<times> nat option \<times> nat option \<times> 'a zcbuf_scheme \<times> kst) option" where
  "map_userbuf M sh ses src src_len dst dst_len s =
     (if src = dst then do {
        (rc, ses1, s1) \<leftarrow> get_userbuf_pages M sh src src_len True (used_pages ses) 0 ses s;
        if rc \<noteq> 0 then Some (rc, None, None, ses1, s1) else Some (0, Some 0, Some 0, ses1, s1)
      }
      else do {
        (rc, ses1, s1) \<leftarrow>
          (if src \<noteq> 0 then get_userbuf_pages M sh src src_len False (readonly_pages ses) 0 ses s
           else Some (0, ses, s));
        if rc \<noteq> 0 then Some (rc, None, None, ses1, s1)
        else (let src_sg = (if src \<noteq> 0 then Some 0 else None)
              in if dst \<noteq> 0 then do {
                   let base = unat (readonly_pages ses1);
                   (rc, ses2, s2) \<leftarrow>
                     get_userbuf_pages M sh dst dst_len True (used_pages ses1 - readonly_pages ses1) base ses1 s1;
                   if rc \<noteq> 0 then do {
                     (ses3, s3) \<leftarrow> release_user_pages M ses2 s2;
                     Some (rc, src_sg, Some base, ses3, s3)
                   }
                   else Some (0, src_sg, Some base, ses2, s2)
                 }
                 else Some (0, src_sg, None, ses1, s1))
      })"

definition get_userbuf ::
  "mm \<Rightarrow> nat \<Rightarrow> 'a zcbuf_scheme \<Rightarrow> u64 \<Rightarrow> u32 \<Rightarrow> u64 \<Rightarrow> u32 \<Rightarrow> kst
    \<Rightarrow> (int \<times> nat option \<times> nat option \<times> 'a zcbuf_scheme \<times> kst) option" where
  "get_userbuf M sh ses src src_len0 dst dst_len0 s =
     (let src_len = (if src = 0 then 0 else src_len0);
          dst_len = (if dst = 0 then 0 else dst_len0);
          src_pagecount = (ucast (PAGECOUNT sh src src_len) :: u32);
          dst_pagecount = (ucast (PAGECOUNT sh dst dst_len) :: u32);
          used = (if src = dst then smax src_pagecount dst_pagecount else src_pagecount + dst_pagecount);
          ro = (if src = dst then 0 else src_pagecount)
      in do {
        (rc, ses1, s1) \<leftarrow> reserve_pages used (ses\<lparr>used_pages := used, readonly_pages := ro\<rparr>) s;
        if rc \<noteq> 0 then Some (rc, None, None, ses1, s1)
        else map_userbuf M sh ses1 src src_len dst dst_len s1
      })"

section \<open>Growing terminates\<close>

lemma sint_small:
  assumes "unat (a :: u32) < 2 ^ 31"
  shows "sint a = int (unat a)"
proof -
  have u: "uint a = int (unat a)" by simp
  have "int (unat a) < int (2 ^ 31)" using assms by (simp only: of_nat_less_iff)
  then have "int (unat a) < 2 ^ 31" by simp
  moreover have "- (2 ^ 31) \<le> int (unat a)" by (rule order_trans [of _ 0]) simp_all
  ultimately have "signed_take_bit 31 (int (unat a)) = int (unat a)"
    by (intro signed_take_bit_int_eq_self)
  then show ?thesis unfolding sint_uint u by simp
qed

lemma sless_small:
  "unat (a :: u32) < 2 ^ 31 \<Longrightarrow> unat (b :: u32) < 2 ^ 31 \<Longrightarrow> a <s b \<longleftrightarrow> unat a < unat b"
  unfolding word_sless_alt by (simp only: sint_small of_nat_less_iff)

lemma grow_terminates:
  assumes "0 < unat n" "unat n < 2 ^ 31" "unat p \<le> 2 ^ 30"
  shows "\<exists>m k. grow n p = Some m \<and> unat p \<le> unat m \<and> unat m = unat n * 2 ^ k \<and> unat m < 2 ^ 31
    \<and> (m = n \<or> unat m < 2 * unat p)"
  using assms
proof (induction "unat p - unat n" arbitrary: n rule: less_induct)
  case less
  show ?case
  proof (cases "unat n < unat p")
    case False
    with less.prems show ?thesis
      by (subst grow.simps) (auto simp: sless_small intro: exI [of _ 0])
  next
    case True
    have dbl: "unat (n * 2) = unat n * 2"
      using True less.prems by (simp add: unat_word_ariths)
    have "\<exists>m k. grow (n * 2) p = Some m \<and> unat p \<le> unat m \<and> unat m = unat (n * 2) * 2 ^ k
        \<and> unat m < 2 ^ 31 \<and> (m = n * 2 \<or> unat m < 2 * unat p)"
      by (rule less.hyps) (use True less.prems dbl in auto)
    then obtain m k where m: "grow (n * 2) p = Some m" "unat p \<le> unat m"
      "unat m = unat (n * 2) * 2 ^ k" "unat m < 2 ^ 31" "m = n * 2 \<or> unat m < 2 * unat p"
      by blast
    from m(3) dbl have "unat m = unat n * 2 ^ Suc k" by simp
    moreover have "grow n p = grow (n * 2) p"
      using True less.prems by (subst grow.simps) (simp add: sless_small)
    moreover have "unat m < 2 * unat p" using m(5) True dbl by auto
    ultimately show ?thesis using m(1,2,4) by (intro exI [of _ m] exI [of _ "Suc k"]) simp
  qed
qed

section \<open>The table that \<open>__get_userbuf\<close> builds\<close>

definition blank :: "sgtab \<Rightarrow> nat \<Rightarrow> nat \<Rightarrow> bool" where
  "blank t j m \<longleftrightarrow> 0 < m \<and> j + m \<le> length t \<and> (\<forall>k < m. t ! (j + k) = sg_zero\<lparr>sg_end := (Suc k = m)\<rparr>)"

lemma blank_init:
  assumes "0 < n" "base + n \<le> length t"
  shows "\<exists>t'. sg_init_table base n t = Some t' \<and> length t' = length t \<and> blank t' base n
    \<and> (\<forall>x. x < base \<or> base + n \<le> x \<longrightarrow> x < length t \<longrightarrow> t' ! x = t ! x)"
  using assms
  by (auto simp: sg_init_table_def sg_mark_end_def sg_put_def blank_def nth_list_update nth_splice_at sg_zero_def)

lemma blank_step: "blank t j (Suc m) \<Longrightarrow> 0 < m \<Longrightarrow> blank (t[j := e]) (Suc j) m"
  unfolding blank_def
proof (intro conjI allI impI)
  fix k assume "0 < Suc m \<and> j + Suc m \<le> length t \<and>
     (\<forall>k<Suc m. t ! (j + k) = sg_zero\<lparr>sg_end := Suc k = Suc m\<rparr>)" "k < m"
  then show "t[j := e] ! (Suc j + k) = sg_zero\<lparr>sg_end := Suc k = m\<rparr>"
    by (auto dest: spec [of _ "Suc k"])
qed auto

lemma blank_head: "blank t j m \<Longrightarrow> t ! j = sg_zero\<lparr>sg_end := (m = 1)\<rparr> \<and> j < length t"
proof -
  assume b: "blank t j m"
  then have "t ! (j + 0) = sg_zero\<lparr>sg_end := (Suc 0 = m)\<rparr>" unfolding blank_def by blast
  moreover have "(Suc 0 = m) = (m = 1)" by auto
  ultimately show ?thesis using b by (auto simp: blank_def)
qed

lemma blank_span: "blank t j m \<Longrightarrow> sg_span sh t j = [] \<and> sg_ok sh t j \<and> length (upto_end (drop j t)) = m"
proof (induction m arbitrary: j)
  case (Suc m)
  note h = blank_head [OF Suc.prems]
  show ?case
  proof (cases "m = 0")
    case True
    with h show ?thesis
      by (simp add: sg_span_Cons sg_ok_def ent_ok_def sg_cells_def sg_zero_def flip: Cons_nth_drop_Suc)
  next
    case False
    then have "blank t (Suc j) m" using blank_step [OF Suc.prems, of "t ! j"] by simp
    note IH = Suc.IH [OF this]
    from h False IH show ?thesis
      by (simp add: sg_span_Cons sg_ok_def ent_ok_def sg_cells_def sg_zero_def flip: Cons_nth_drop_Suc)
  qed
qed (simp add: blank_def)

lemma blank_last: "blank t j m \<Longrightarrow> sg_end (t ! (j + m - 1))"
  by (auto simp: blank_def dest: spec [of _ "m - 1"])

text \<open>The cells of \<open>n\<close> consecutive bytes of user memory.\<close>

definition ucells :: "u64 \<Rightarrow> nat \<Rightarrow> cell list" where
  "ucells a n = map (\<lambda>i. UCell (a + of_nat i)) [0..<n]"

lemma length_ucells [simp]: "length (ucells a n) = n"
  by (simp add: ucells_def)

lemma ucells_0 [simp]: "ucells a 0 = []"
  by (simp add: ucells_def)

lemma ucells_split: "k \<le> n \<Longrightarrow> ucells a n = ucells a k @ ucells (a + of_nat k) (n - k)"
  by (simp add: ucells_def map_upt_split [of k n] add.assoc)

lemma sg_cells_user:
  "sg_cells sh (sg_set_page (Some (UPage p)) l off e) = ucells (push_bit sh p + of_nat off) l"
  by (simp add: sg_cells_def sg_set_page_def ucells_def add.assoc)

lemma span_after:
  assumes "j < length t" "\<not> sg_end (t ! j)" "ent_ok sh (t ! j)" "sg_ok sh t (Suc j)"
  shows "sg_ok sh t j" "sg_span sh t j = sg_cells sh (t ! j) @ sg_span sh t (Suc j)"
    "length (upto_end (drop j t)) = Suc (length (upto_end (drop (Suc j) t)))"
  using assms by (simp_all add: sg_span_Cons upto_end_length_Suc)
    (auto simp: sg_ok_def simp flip: Cons_nth_drop_Suc)

lemma span_end:
  assumes "j < length t" "sg_end (t ! j)" "ent_ok sh (t ! j)"
  shows "sg_ok sh t j" "sg_span sh t j = sg_cells sh (t ! j)" "length (upto_end (drop j t)) = 1"
  using assms by (simp_all add: sg_span_Cons upto_end_length_Suc)
    (auto simp: sg_ok_def simp flip: Cons_nth_drop_Suc)

lemma ent_ok_set: "p \<noteq> None \<Longrightarrow> off + l \<le> 2 ^ sh \<Longrightarrow> ent_ok sh (sg_set_page p l off e)"
  by (auto simp: ent_ok_def sg_set_page_def)

lemma sg_end_set [simp]: "sg_end (sg_set_page p l off e) = sg_end e"
  by (simp add: sg_set_page_def)

lemma push_bit_page: "push_bit sh (p + 1) = push_bit sh p + (of_nat (2 ^ sh) :: u64)"
  by (simp add: push_bit_add push_bit_of_1)

lemma fill_sg_span:
  assumes "blank t j m" "i + m \<le> length pg" "\<forall>k < m. pg ! (i + k) = Some (UPage (p + of_nat k))"
    "len \<le> m * 2 ^ sh"
  shows "\<exists>t'. fill_sg sh pg t (Some j) i len = Some t' \<and> length t' = length t
    \<and> (\<forall>x. x < j \<or> j + m \<le> x \<longrightarrow> t' ! x = t ! x) \<and> sg_end (t' ! (j + m - 1))
    \<and> sg_span sh t' j = ucells (push_bit sh p) len \<and> sg_ok sh t' j \<and> length (upto_end (drop j t')) = m"
  using assms
proof (induction m arbitrary: t j i p len)
  case (Suc m)
  show ?case
  proof (cases "len = 0")
    case True
    with Suc.prems(1) show ?thesis
      using blank_span [OF Suc.prems(1), of sh] blank_last [OF Suc.prems(1)] by (simp add: fill_sg.simps)
  next
    case False
    define l where "l = min (2 ^ sh) len"
    define t1 where "t1 = t[j := sg_set_page (Some (UPage p)) l 0 (t ! j)]"
    note h = blank_head [OF Suc.prems(1)]
    have pg: "pg ! i = Some (UPage p)" using Suc.prems(3) by (auto dest: spec [of _ 0])
    have step: "fill_sg sh pg t (Some j) i len = fill_sg sh pg t1 (sg_next t1 j) (Suc i) (len - l)"
      using False h Suc.prems(2) pg by (subst fill_sg.simps) (simp add: Let_def t1_def l_def)
    have tj: "t1 ! j = sg_set_page (Some (UPage p)) l 0 (t ! j)" using h by (simp add: t1_def)
    have cells: "sg_cells sh (t1 ! j) = ucells (push_bit sh p) l" unfolding tj by (simp add: sg_cells_user)
    have eok: "ent_ok sh (t1 ! j)" unfolding tj by (rule ent_ok_set) (simp_all add: l_def)
    have len1: "length t1 = length t" by (simp add: t1_def)
    have oth: "t1 ! x = t ! x" if "x \<noteq> j" for x using that by (simp add: t1_def)
    have te: "sg_end (t1 ! j) \<longleftrightarrow> m = 0" using h tj by simp
    show ?thesis
    proof (cases "m = 0")
      case True
      then have nx: "sg_next t1 j = None" and l: "l = len"
        using te Suc.prems(4) by (simp_all add: sg_next_def l_def)
      have f: "fill_sg sh pg t (Some j) i len = Some t1"
        using step nx l by (simp add: fill_sg.simps)
      note e = span_end [of j t1, OF _ _ eok]
      show ?thesis
        using f e h cells True l te len1 oth by (intro exI [of _ t1]) auto
    next
      case False
      then have nx: "sg_next t1 j = Some (Suc j)" using te by (simp add: sg_next_def)
      have pgs: "\<forall>k<m. pg ! (Suc i + k) = Some (UPage (p + 1 + of_nat k))"
      proof (intro allI impI)
        fix k assume "k < m"
        with Suc.prems(3) [rule_format, of "Suc k"] show "pg ! (Suc i + k) = Some (UPage (p + 1 + of_nat k))"
          by (simp add: ac_simps)
      qed
      have "blank t1 (Suc j) m" using Suc.prems(1) False by (simp add: blank_step t1_def)
      moreover have "Suc i + m \<le> length pg" using Suc.prems(2) by simp
      moreover have "len - l \<le> m * 2 ^ sh" using Suc.prems(4) by (simp add: l_def)
      ultimately obtain t' where t': "fill_sg sh pg t1 (Some (Suc j)) (Suc i) (len - l) = Some t'"
        "length t' = length t1" "\<forall>x. x < Suc j \<or> Suc j + m \<le> x \<longrightarrow> t' ! x = t1 ! x"
        "sg_end (t' ! (Suc j + m - 1))" "sg_span sh t' (Suc j) = ucells (push_bit sh (p + 1)) (len - l)"
        "sg_ok sh t' (Suc j)" "length (upto_end (drop (Suc j) t')) = m"
        using Suc.IH [of t1 "Suc j" "Suc i" "p + 1" "len - l"] pgs by blast
      have tj': "t' ! j = t1 ! j" using t'(3) by simp
      have nl: "j < length t'" using t'(2) len1 h by simp
      note sp = span_after [OF nl _ _ t'(6)]
      have uc: "ucells (push_bit sh p) len = ucells (push_bit sh p) l @ ucells (push_bit sh (p + 1)) (len - l)"
        by (subst ucells_split [of l]) (auto simp: push_bit_page l_def min_def)
      show ?thesis
      proof (intro exI [of _ t'] conjI)
        show "fill_sg sh pg t (Some j) i len = Some t'" using step nx t'(1) by simp
        show "\<forall>x. x < j \<or> j + Suc m \<le> x \<longrightarrow> t' ! x = t ! x" using t'(3) oth by auto
        show "sg_end (t' ! (j + Suc m - 1))" using t'(4) by simp
        show "sg_span sh t' j = ucells (push_bit sh p) len" "sg_ok sh t' j"
          "length (upto_end (drop j t')) = Suc m"
          using sp tj' te False eok cells uc t'(5,7) by simp_all
      qed (use t'(2) len1 in simp)
    qed
  qed
qed (simp add: blank_def)

lemma PAGEOFFSET_less: "PAGEOFFSET sh a < 2 ^ sh"
  by (simp add: PAGEOFFSET_def unsigned_take_bit_eq)

lemma page_addr: "push_bit sh (drop_bit sh a) + of_nat (PAGEOFFSET sh a) = a"
  by (simp add: PAGEOFFSET_def bits_ident)

lemma next_page_addr:
  "push_bit sh (drop_bit sh a + 1) = a + of_nat (2 ^ sh - PAGEOFFSET sh a)"
proof -
  have "of_nat (2 ^ sh - PAGEOFFSET sh a) = (of_nat (2 ^ sh) - of_nat (PAGEOFFSET sh a) :: u64)"
    using PAGEOFFSET_less [of sh a] by (intro of_nat_diff) simp
  then have "a + of_nat (2 ^ sh - PAGEOFFSET sh a)
      = push_bit sh (drop_bit sh a) + of_nat (PAGEOFFSET sh a) + (of_nat (2 ^ sh) - of_nat (PAGEOFFSET sh a))"
    by (simp only: page_addr)
  also have "\<dots> = push_bit sh (drop_bit sh a + 1)" by (simp only: push_bit_page) simp
  finally show ?thesis ..
qed

text \<open>The pages \<open>get_user_pages\<close> hands out: those of the range, in order.\<close>

definition pages_of :: "nat \<Rightarrow> u64 \<Rightarrow> nat \<Rightarrow> page list" where
  "pages_of sh a n = map (\<lambda>k. UPage (drop_bit sh a + of_nat k)) [0..<n]"

lemma length_pages_of [simp]: "length (pages_of sh a n) = n"
  by (simp add: pages_of_def)

lemma table_span:
  fixes sh a len
  defines "off \<equiv> PAGEOFFSET sh a"
  defines "l \<equiv> min (2 ^ sh - off) len"
  assumes b: "blank t0 base n" and np: "n \<le> length pg"
    and pgk: "\<And>k. k < n \<Longrightarrow> pg ! k = Some (UPage (drop_bit sh a + of_nat k))"
    and fit: "off + len \<le> n * 2 ^ sh"
    and t1: "t1 = t0[base := sg_set_page (pg ! 0) l off (t0 ! base)]"
  shows "\<exists>t. fill_sg sh pg t1 (sg_next t1 base) 1 (len - l) = Some t \<and> length t = length t0
      \<and> (\<forall>x. x < base \<or> base + n \<le> x \<longrightarrow> t ! x = t0 ! x) \<and> sg_end (t ! (base + n - 1))
      \<and> sg_span sh t base = ucells a len \<and> sg_ok sh t base \<and> length (upto_end (drop base t)) = n"
proof -
  note h = blank_head [OF b]
  have n: "0 < n" using b by (simp add: blank_def)
  have tb: "t1 ! base = sg_set_page (Some (UPage (drop_bit sh a))) l off (t0 ! base)"
    using h pgk [OF n] t1 by simp
  have ol: "off < 2 ^ sh" unfolding off_def by (rule PAGEOFFSET_less)
  have eok: "ent_ok sh (t1 ! base)" unfolding tb using ol by (intro ent_ok_set) (auto simp: l_def)
  have cells: "sg_cells sh (t1 ! base) = ucells a l"
    unfolding tb by (simp add: sg_cells_user page_addr off_def)
  have len1: "length t1 = length t0" using t1 by simp
  have oth: "t1 ! x = t0 ! x" if "x \<noteq> base" for x using t1 that by simp
  have te: "sg_end (t1 ! base) \<longleftrightarrow> n = 1" using tb h by simp
  show ?thesis
  proof (cases "n = 1")
    case True
    then have l: "l = len" using fit by (simp add: l_def)
    then have f: "fill_sg sh pg t1 (sg_next t1 base) 1 (len - l) = Some t1" by (simp add: fill_sg.simps)
    note e = span_end [of base t1, OF _ _ eok]
    show ?thesis using f e h cells l True te len1 oth by (intro exI [of _ t1]) auto
  next
    case False
    with n obtain m where m: "n = Suc m" "0 < m" by (cases n) auto
    have "blank t1 (Suc base) m" using b m t1 by (simp add: blank_step)
    moreover have "\<forall>k<m. pg ! (1 + k) = Some (UPage (drop_bit sh a + 1 + of_nat k))"
      using pgk m by (auto simp: ac_simps)
    moreover have "len - l \<le> m * 2 ^ sh" using fit m by (auto simp: l_def)
    ultimately obtain t' where t': "fill_sg sh pg t1 (Some (Suc base)) 1 (len - l) = Some t'"
      "length t' = length t1" "\<forall>x. x < Suc base \<or> Suc base + m \<le> x \<longrightarrow> t' ! x = t1 ! x"
      "sg_end (t' ! (Suc base + m - 1))"
      "sg_span sh t' (Suc base) = ucells (push_bit sh (drop_bit sh a + 1)) (len - l)"
      "sg_ok sh t' (Suc base)" "length (upto_end (drop (Suc base) t')) = m"
      using fill_sg_span [of t1 "Suc base" m 1 pg "drop_bit sh a + 1" "len - l" sh] np m by fastforce
    have nx: "sg_next t1 base = Some (Suc base)" using te False by (simp add: sg_next_def)
    have tb': "t' ! base = t1 ! base" using t'(3) by simp
    have nl: "base < length t'" using t'(2) len1 h by simp
    note sp = span_after [OF nl _ _ t'(6)]
    have "ucells a len = ucells a l @ ucells (push_bit sh (drop_bit sh a + 1)) (len - l)"
      by (subst ucells_split [of l]) (auto simp: next_page_addr l_def off_def min_def)
    then show ?thesis
    proof (intro exI [of _ t'] conjI)
      show "fill_sg sh pg t1 (sg_next t1 base) 1 (len - l) = Some t'" using nx t'(1) by simp
      show "\<forall>x. x < base \<or> base + n \<le> x \<longrightarrow> t' ! x = t0 ! x" using t'(3) oth m by auto
      show "sg_end (t' ! (base + n - 1))" using t'(4) m by simp
    qed (use sp tb' te False eok cells len1 m t'(2,5,7) in simp_all)
  qed
qed

lemma get_userbuf_pages_ok:
  assumes "addr \<noteq> 0" "len \<noteq> 0" "pgcount \<noteq> 0"
    and g: "gup M (um s) addr (unat pgcount) wr = Inr (pages_of sh addr (unat pgcount))"
    and room: "base + unat pgcount \<le> length (pages ses)" "base + unat pgcount \<le> length (sg ses)"
    and fit: "PAGEOFFSET sh addr + unat len \<le> unat pgcount * 2 ^ sh"
  shows "\<exists>t. get_userbuf_pages M sh addr len wr pgcount base ses s
      = Some (0, ses\<lparr>pages := splice_at base (map Some (pages_of sh addr (unat pgcount))) (pages ses), sg := t\<rparr>,
              pin_pages (pages_of sh addr (unat pgcount)) s)
    \<and> length t = length (sg ses)
    \<and> (\<forall>x. x < base \<or> base + unat pgcount \<le> x \<longrightarrow> x < length t \<longrightarrow> t ! x = sg ses ! x)
    \<and> sg_span sh t base = ucells addr (unat len) \<and> sg_ok sh t base
    \<and> length (upto_end (drop base t)) = unat pgcount"
proof -
  define n where "n = unat pgcount"
  define ps where "ps = pages_of sh addr n"
  define pg where "pg = drop base (splice_at base (map Some ps) (pages ses))"
  have n: "0 < n" using \<open>pgcount \<noteq> 0\<close> by (simp add: unat_gt_0 n_def)
  from blank_init [OF n room(2) [folded n_def]] obtain t0 where t0: "sg_init_table base n (sg ses) = Some t0"
    "length t0 = length (sg ses)" "blank t0 base n"
    "\<forall>x. x < base \<or> base + n \<le> x \<longrightarrow> x < length (sg ses) \<longrightarrow> t0 ! x = sg ses ! x" by auto
  note h = blank_head [OF t0(3)]
  have np: "n \<le> length pg" using room(1) by (simp add: pg_def ps_def n_def)
  have pgk: "pg ! k = Some (UPage (drop_bit sh addr + of_nat k))" if "k < n" for k
    using that room(1) by (simp add: pg_def ps_def n_def nth_splice_at) (simp add: pages_of_def)
  from table_span [OF t0(3) np pgk fit [folded n_def] refl]
  obtain t where t: "fill_sg sh pg (t0[base := sg_set_page (pg ! 0) (min (2 ^ sh - PAGEOFFSET sh addr) (unat len))
        (PAGEOFFSET sh addr) (t0 ! base)])
      (sg_next (t0[base := sg_set_page (pg ! 0) (min (2 ^ sh - PAGEOFFSET sh addr) (unat len))
        (PAGEOFFSET sh addr) (t0 ! base)]) base) 1
      (unat len - min (2 ^ sh - PAGEOFFSET sh addr) (unat len)) = Some t"
    "length t = length t0" "\<forall>x. x < base \<or> base + n \<le> x \<longrightarrow> t ! x = t0 ! x" "sg_end (t ! (base + n - 1))"
    "sg_span sh t base = ucells addr (unat len)" "sg_ok sh t base" "length (upto_end (drop base t)) = n"
    by blast
  have mk: "sg_mark_end (base + n - 1) t = Some t"
    using t(2,4) t0(2) room(2) n by (simp add: sg_mark_end_def sg_put_def list_update_same_conv n_def)
  have "get_userbuf_pages M sh addr len wr pgcount base ses s
      = Some (0, ses\<lparr>pages := splice_at base (map Some ps) (pages ses), sg := t\<rparr>, pin_pages ps s)"
    unfolding get_userbuf_pages_def
    using assms(1-3) g [folded n_def ps_def] room(1) t0(1) h t(1) mk
    by (simp add: Let_def sg_put_def ps_def [symmetric] n_def [symmetric] pg_def [symmetric])
      (simp add: ps_def)
  then show ?thesis using t t0(2,4) unfolding n_def ps_def by auto
qed

section \<open>Page counts\<close>

definition npages :: "nat \<Rightarrow> u64 \<Rightarrow> u32 \<Rightarrow> nat" where
  "npages sh buf len =
     (if len = 0 then 0 else (unat buf + unat len - 1) div 2 ^ sh - unat buf div 2 ^ sh + 1)"

lemma unat_ucast_32_64 [simp]: "unat (ucast (w :: u32) :: u64) = unat w"
  using unat_bound [of w] by (simp add: unsigned_ucast_eq take_bit_nat_eq_self)

lemma unat_drop_bit: "unat (drop_bit n w) = unat w div 2 ^ n"
  unfolding unat_drop_bit_eq by (rule drop_bit_eq_div)

lemma npages_bound:
  assumes "4 \<le> sh"
  shows "npages sh buf len \<le> 2 ^ 28 + 1"
proof (cases "len = 0")
  case False
  let ?P = "2 ^ sh :: nat"
  have P: "16 \<le> ?P" using power_increasing [OF assms, of "2 :: nat"] by simp
  have l: "unat len - 1 < 2 ^ 32" using unat_bound [of len] by simp
  have "(unat buf + unat len - 1) div ?P \<le> (unat buf + (unat len - 1)) div ?P" by (simp add: div_le_mono)
  also have "\<dots> \<le> unat buf div ?P + (unat len - 1) div ?P + 1"
    by (simp add: div_add1_eq [of "unat buf"] div_le_mono) (use P in \<open>simp add: less_mult_imp_div_less less_Suc_eq_le [symmetric] add_less_mono\<close>)
  finally have "npages sh buf len \<le> (unat len - 1) div ?P + 2" using False by (simp add: npages_def)
  also have "(unat len - 1) div ?P \<le> (unat len - 1) div 16" using P by (intro div_le_mono2) auto
  also have "(unat len - 1) div 16 < 2 ^ 28" using l by simp
  finally show ?thesis by simp
qed (simp add: npages_def)

lemma PAGECOUNT_npages:
  assumes "unat buf + unat len \<le> 2 ^ 64" "4 \<le> sh"
  shows "unat (ucast (PAGECOUNT sh buf len) :: u32) = npages sh buf len"
proof (cases "len = 0")
  case False
  define L :: u64 where "L = ucast len - 1"
  have ne: "(ucast len :: u64) \<noteq> 0" using False by (metis unat_ucast_32_64 unat_eq_zero)
  have l: "0 < unat len" using False by (simp add: unat_gt_0)
  have L: "unat L = unat len - 1" using unat_minus_one [OF ne] by (simp add: L_def)
  have s: "unat (buf + L) = unat buf + unat len - 1"
  proof -
    have "unat buf + unat L < 2 ^ LENGTH(64)" using assms(1) l L by simp
    then have "unat (buf + L) = unat buf + unat L" by (simp only: unat_add_lem)
    then show ?thesis using L l by simp
  qed
  have le: "unat buf div 2 ^ sh \<le> unat (buf + L) div 2 ^ sh" using s l by (intro div_le_mono) simp
  have d: "unat (drop_bit sh (buf + L) - drop_bit sh buf) = unat (buf + L) div 2 ^ sh - unat buf div 2 ^ sh"
    using le by (simp add: unat_sub_if' unat_drop_bit)
  have b: "unat (drop_bit sh (buf + L) - drop_bit sh buf) + 1 = npages sh buf len"
    using d s False by (simp add: npages_def)
  have nb: "npages sh buf len \<le> 2 ^ 28 + 1" by (rule npages_bound [OF assms(2)])
  have "unat (drop_bit sh (buf + L) - drop_bit sh buf + 1) = npages sh buf len"
    using b nb unat_add_lem [of "drop_bit sh (buf + L) - drop_bit sh buf" 1] by (simp del: unat_drop_bit_eq)
  moreover have "PAGECOUNT sh buf len = drop_bit sh (buf + L) - drop_bit sh buf + 1"
    using False by (simp add: PAGECOUNT_def L_def add_diff_eq)
  ultimately show ?thesis
    using nb by (simp add: unsigned_ucast_eq take_bit_nat_eq_self)
qed (simp add: PAGECOUNT_def npages_def)

lemma npages_pos: "len \<noteq> 0 \<Longrightarrow> 0 < npages sh buf len"
  by (simp add: npages_def)

lemma npages_fit:
  assumes "len \<noteq> 0"
  shows "PAGEOFFSET sh buf + unat len \<le> npages sh buf len * 2 ^ sh"
proof -
  let ?P = "2 ^ sh :: nat" and ?a = "unat buf"
  have l: "0 < unat len" using assms by (simp add: unat_gt_0)
  have off: "PAGEOFFSET sh buf = ?a mod ?P"
    unfolding PAGEOFFSET_def unsigned_take_bit_eq by (rule take_bit_eq_mod)
  define q where "q = (?a + unat len - 1) div ?P"
  have "?a + unat len - 1 < (q + 1) * ?P" unfolding q_def
    using dividend_less_div_times [of ?P "?a + unat len - 1"] by simp
  moreover have "?a div ?P \<le> q" unfolding q_def using l by (intro div_le_mono) simp
  moreover have "?a = ?a div ?P * ?P + ?a mod ?P" by (rule div_mult_mod_eq [symmetric])
  ultimately have "?a mod ?P + unat len \<le> (q + 1) * ?P - ?a div ?P * ?P" using l by linarith
  also have "\<dots> = (q + 1 - ?a div ?P) * ?P" by (rule diff_mult_distrib [symmetric])
  also have "q + 1 - ?a div ?P = q - ?a div ?P + 1" using \<open>?a div ?P \<le> q\<close> by simp
  finally show ?thesis using assms by (simp add: npages_def off q_def)
qed

section \<open>Pinning and releasing\<close>

definition zc_wf :: "'a zcbuf_scheme \<Rightarrow> bool" where
  "zc_wf ses \<longleftrightarrow> 0 < unat (array_size ses) \<and> unat (array_size ses) < 2 ^ 31
     \<and> unat (array_size ses) \<le> length (pages ses) \<and> unat (array_size ses) \<le> length (sg ses)"

lemma same_mem_krealloc: "krealloc k p s = (q, s') \<Longrightarrow> same_mem s s'"
  by (auto simp: krealloc_def split: prod.splits option.splits
      dest: same_mem_kalloc intro: same_mem_trans same_mem_kfree)

lemma length_resize [simp]: "length (resize n d xs) = n"
  by (simp add: resize_def)

lemma adjust_sg_array_ok:
  assumes "zc_wf ses" "unat n \<le> 2 ^ 30"
  shows "\<exists>rc ses' s'. adjust_sg_array n ses s = Some (rc, ses', s') \<and> same_mem s s' \<and> zc_wf ses'
    \<and> (rc = 0 \<or> rc = - ENOMEM) \<and> (rc = 0 \<longrightarrow> unat n \<le> unat (array_size ses'))
    \<and> used_pages ses' = used_pages ses \<and> readonly_pages ses' = readonly_pages ses
    \<and> zcbuf.more ses' = zcbuf.more ses"
proof -
  from assms obtain m k where g: "grow (array_size ses) n = Some m" "unat n \<le> unat m"
    "unat m = unat (array_size ses) * 2 ^ k" "unat m < 2 ^ 31"
    using grow_terminates [of "array_size ses" n] unfolding zc_wf_def by blast
  obtain p s1 where r1: "krealloc PagesArr (pages_ptr ses) s = (p, s1)" by fastforce
  obtain q s2 where r2: "krealloc SgArr (sg_ptr ses) s1 = (q, s2)" by fastforce
  have a: "0 < unat (array_size ses)" "unat (array_size ses) \<le> unat m"
    using assms(1) g(3) by (simp_all add: zc_wf_def)
  note sm = same_mem_krealloc [OF r1] same_mem_trans [OF same_mem_krealloc [OF r1] same_mem_krealloc [OF r2]]
  show ?thesis
  proof (cases p)
    case None
    with g r1 sm assms(1) show ?thesis by (simp add: adjust_sg_array_def)
  next
    case (Some i)
    show ?thesis
      using Some g(1,2,4) r1 r2 sm a assms(1)
      by (cases q) (simp_all add: adjust_sg_array_def Let_def zc_wf_def)
  qed
qed

text \<open>The pages held between \<open>get_userbuf\<close> and \<open>release_user_pages\<close>.\<close>

definition zc_held :: "'a zcbuf_scheme \<Rightarrow> page list \<Rightarrow> bool" where
  "zc_held ses ps \<longleftrightarrow> length ps = unat (used_pages ses) \<and> length ps \<le> length (pages ses)
     \<and> take (length ps) (pages ses) = map Some ps"

lemma pins_page_ev [simp]:
  "pins (page_ev (SetDirty p) s) = pins s" "pins (page_ev (FlushDcache p) s) = pins s"
  "pins (page_ev (PutPage p) s) = (pins s)(p := pins s p - 1)"
  by (simp_all add: page_ev_def)

lemma page_ev_frame [simp]:
  "um (page_ev e s) = um s" "kbuf (page_ev e s) = kbuf s" "live (page_ev e s) = live s"
  by (simp_all add: page_ev_def split: pgev.splits)

lemma release_loop_pins:
  "\<exists>ro' s'. release_loop M (map Some ps) ro s = Some (ro', s') \<and> um s' = um s \<and> kbuf s' = kbuf s
    \<and> live s' = live s \<and> pins s' = (\<lambda>p. pins s p - int (count_list ps p))"
proof (induction ps arbitrary: ro s)
  case (Cons p ps)
  define s1 where "s1 = (if reserved M p then s else page_ev (SetDirty p) s)"
  define s2 where "s2 = (if ro = 0 then page_ev (FlushDcache p) s1 else s1)"
  have s2: "pins s2 = pins s" "um s2 = um s" "kbuf s2 = kbuf s" "live s2 = live s"
    by (simp_all add: s2_def s1_def)
  from Cons.IH [of "if ro = 0 then ro else ro - 1" "page_ev (PutPage p) s2"]
  show ?case using s2 by (auto simp: Let_def s1_def [symmetric] s2_def [symmetric] fun_eq_iff)
qed auto

lemma release_user_pages_pins:
  assumes "zc_held ses ps"
  shows "\<exists>ro s'. release_user_pages M ses s = Some (ses\<lparr>readonly_pages := ro, used_pages := 0\<rparr>, s')
    \<and> um s' = um s \<and> kbuf s' = kbuf s \<and> live s' = live s \<and> pins s' = (\<lambda>p. pins s p - int (count_list ps p))"
  using assms release_loop_pins [of M ps "readonly_pages ses" s]
  by (auto simp: release_user_pages_def zc_held_def)

section \<open>What \<open>get_userbuf\<close> gives its callers\<close>

definition fits :: "u64 \<Rightarrow> u32 \<Rightarrow> bool" where
  "fits a n \<longleftrightarrow> a \<noteq> 0 \<and> n \<noteq> 0 \<and> unat a + unat n \<le> 2 ^ 64"

text \<open>\<open>get_user_pages\<close> pins all the pages it is asked for.\<close>

definition present :: "mm \<Rightarrow> nat \<Rightarrow> umem \<Rightarrow> u64 \<Rightarrow> nat \<Rightarrow> bool \<Rightarrow> bool" where
  "present M sh m a n wr \<longleftrightarrow> gup M m a n wr = Inr (pages_of sh a n)"

lemma ensure_room:
  assumes "zc_wf ses" "unat used \<le> 2 ^ 30"
  shows "\<exists>rc ses' s'. reserve_pages used ses s = Some (rc, ses', s')
    \<and> same_mem s s' \<and> zc_wf ses' \<and> (rc = 0 \<or> rc = - ENOMEM) \<and> (rc = 0 \<longrightarrow> unat used \<le> unat (array_size ses'))
    \<and> used_pages ses' = used_pages ses \<and> readonly_pages ses' = readonly_pages ses
    \<and> zcbuf.more ses' = zcbuf.more ses"
proof (cases "array_size ses < used")
  case True
  with adjust_sg_array_ok [OF assms] show ?thesis by (simp add: reserve_pages_def)
next
  case False
  then have "unat used \<le> unat (array_size ses)" by (simp add: word_less_nat_alt)
  with False assms(1) show ?thesis by (simp add: reserve_pages_def)
qed

lemma zc_wf_counts [simp]:
  "zc_wf (ses\<lparr>used_pages := u, readonly_pages := r\<rparr>) = zc_wf ses"
  by (simp add: zc_wf_def)

lemma nat_numeral_bounds: "n \<le> 2 ^ 28 + 1 \<Longrightarrow> m \<le> 2 ^ 28 + 1 \<Longrightarrow> n + m \<le> (2 :: nat) ^ 30"
  "n \<le> 2 ^ 28 + 1 \<Longrightarrow> n < (2 :: nat) ^ 31" "n \<le> 2 ^ 28 + 1 \<Longrightarrow> n \<le> (2 :: nat) ^ 30"
  by simp_all

lemma unat_smax:
  "unat a < 2 ^ 31 \<Longrightarrow> unat b < 2 ^ 31 \<Longrightarrow> unat (smax a b) = max (unat a) (unat b)"
  unfolding smax_def by (simp only: sless_small split: if_splits) (auto simp: max_def)

lemma get_userbuf_inplace:
  assumes wf: "zc_wf ses" and sh: "4 \<le> sh" and fit: "fits a n" "unat a + unat n2 \<le> 2 ^ 64"
    and pr: "present M sh (um s) a (max (npages sh a n) (npages sh a n2)) True"
  shows "\<exists>rc ssg dsg ses' s'. get_userbuf M sh ses a n a n2 s = Some (rc, ssg, dsg, ses', s')
    \<and> (rc = 0 \<or> rc = - ENOMEM) \<and> um s' = um s \<and> zcbuf.more ses' = zcbuf.more ses \<and> zc_wf ses'
    \<and> (rc \<noteq> 0 \<longrightarrow> same_mem s s')
    \<and> (rc = 0 \<longrightarrow> ssg = Some 0 \<and> dsg = Some 0 \<and> sg_ok sh (sg ses') 0
        \<and> sg_span sh (sg ses') 0 = ucells a (unat n)
        \<and> (\<exists>ps. zc_held ses' ps \<and> pins s' = (\<lambda>p. pins s p + int (count_list ps p))))"
proof -
  from fit have a: "a \<noteq> 0" "n \<noteq> 0" and f1: "unat a + unat n \<le> 2 ^ 64" unfolding fits_def by auto
  define used where "used = smax (ucast (PAGECOUNT sh a n)) (ucast (PAGECOUNT sh a n2))"
  define N where "N = max (npages sh a n) (npages sh a n2)"
  note nb = npages_bound [OF sh, of a n] npages_bound [OF sh, of a n2]
  have u: "unat used = N"
    unfolding used_def N_def
    using unat_smax [of "ucast (PAGECOUNT sh a n)" "ucast (PAGECOUNT sh a n2)"]
    unfolding PAGECOUNT_npages [OF f1 sh] PAGECOUNT_npages [OF fit(2) sh]
    using nat_numeral_bounds(2) [OF nb(1)] nat_numeral_bounds(2) [OF nb(2)] by blast
  have N: "N \<le> 2 ^ 30" using nat_numeral_bounds(3) nb unfolding N_def max_def by presburger
  have N0: "0 < N" using npages_pos [OF a(2), of sh a] unfolding N_def by simp
  then have u0: "used \<noteq> 0" using u by auto
  define ses0 where "ses0 = ses\<lparr>used_pages := used, readonly_pages := 0\<rparr>"
  have wf0: "zc_wf ses0" using wf by (simp add: ses0_def)
  obtain rc ses1 s1 where r: "reserve_pages used ses0 s = Some (rc, ses1, s1)"
    "same_mem s s1" "zc_wf ses1" "rc = 0 \<or> rc = - ENOMEM" "rc = 0 \<longrightarrow> unat used \<le> unat (array_size ses1)"
    "used_pages ses1 = used" "zcbuf.more ses1 = zcbuf.more ses"
    using ensure_room [OF wf0, of used s] N u by (auto simp: ses0_def)
  have um1: "um s1 = um s" "pins s1 = pins s" using r(2) by (auto simp: same_mem_def)
  show ?thesis
  proof (cases "rc = 0")
    case False
    have "get_userbuf M sh ses a n a n2 s = Some (rc, None, None, ses1, s1)"
      using a r(1) False by (simp add: get_userbuf_def Let_def flip: ses0_def used_def)
    with False r um1 show ?thesis by auto
  next
    case True
    then have room: "0 + unat used \<le> length (pages ses1)" "0 + unat used \<le> length (sg ses1)"
      using r(3,5) unfolding zc_wf_def by auto
    have g: "gup M (um s1) a (unat used) True = Inr (pages_of sh a (unat used))"
      using pr u unfolding present_def N_def um1 by simp
    have ft: "PAGEOFFSET sh a + unat n \<le> unat used * 2 ^ sh"
      using npages_fit [OF a(2), of sh a] unfolding u N_def
      by (rule order_trans) (simp add: mult_le_mono1)
    from get_userbuf_pages_ok [OF a u0 g room ft]
    obtain t where t: "get_userbuf_pages M sh a n True used 0 ses1 s1 =
        Some (0, ses1\<lparr>pages := splice_at 0 (map Some (pages_of sh a (unat used))) (pages ses1), sg := t\<rparr>,
          pin_pages (pages_of sh a (unat used)) s1)"
      "length t = length (sg ses1)" "sg_span sh t 0 = ucells a (unat n)" "sg_ok sh t 0" by blast
    let ?ses = "ses1\<lparr>pages := splice_at 0 (map Some (pages_of sh a (unat used))) (pages ses1), sg := t\<rparr>"
    have "get_userbuf M sh ses a n a n2 s = Some (0, Some 0, Some 0, ?ses, pin_pages (pages_of sh a (unat used)) s1)"
      using a r(1,6) True t(1)
      by (simp add: get_userbuf_def map_userbuf_def Let_def flip: ses0_def used_def)
    moreover have "zc_held ?ses (pages_of sh a (unat used))"
      using room r(6) by (simp add: zc_held_def splice_at_def)
    moreover have "zc_wf ?ses" using r(3) t(2) room by (simp add: zc_wf_def)
    ultimately show ?thesis
      using t um1 r(7) by (auto simp: pin_pages_def)
  qed
qed

lemma map_userbuf_apart:
  assumes wf: "zc_wf ses" and a: "a \<noteq> 0" "n \<noteq> 0" "b \<noteq> 0" "k \<noteq> 0" "a \<noteq> b"
    and ro: "unat (readonly_pages ses) = npages sh a n"
    and us: "unat (used_pages ses) = npages sh a n + npages sh b k"
    and room: "unat (used_pages ses) \<le> unat (array_size ses)"
    and pa: "present M sh (um s) a (npages sh a n) False"
    and pb: "present M sh (um s) b (npages sh b k) True"
  shows "\<exists>ses' s'. map_userbuf M sh ses a n b k s = Some (0, Some 0, Some (npages sh a n), ses', s')
    \<and> um s' = um s \<and> zcbuf.more ses' = zcbuf.more ses \<and> zc_wf ses'
    \<and> sg_ok sh (sg ses') 0 \<and> sg_span sh (sg ses') 0 = ucells a (unat n)
    \<and> sg_ok sh (sg ses') (npages sh a n) \<and> sg_span sh (sg ses') (npages sh a n) = ucells b (unat k)
    \<and> (\<exists>ps. zc_held ses' ps \<and> pins s' = (\<lambda>p. pins s p + int (count_list ps p)))"
proof -
  define R where "R = readonly_pages ses"
  define W where "W = used_pages ses - R"
  define A where "A = npages sh a n"
  define B where "B = npages sh b k"
  have A: "unat R = A" using ro by (simp add: A_def R_def)
  have B: "unat W = B" unfolding W_def R_def using us ro by (simp add: unat_sub_if' B_def)
  have R0: "R \<noteq> 0" using A npages_pos [OF a(2), of sh a] by (auto simp: A_def)
  have W0: "W \<noteq> 0" using B npages_pos [OF a(4), of sh b] by (auto simp: B_def)
  have rm: "A + B \<le> length (pages ses)" "A + B \<le> length (sg ses)"
    using room wf us unfolding zc_wf_def A_def B_def by auto
  have g1: "gup M (um s) a (unat R) False = Inr (pages_of sh a (unat R))"
    using pa A unfolding present_def A_def by simp
  have "0 + unat R \<le> length (pages ses)" "0 + unat R \<le> length (sg ses)" using rm A by simp_all
  note ok1 = get_userbuf_pages_ok [OF a(1,2) R0 g1 this]
  have ft1: "PAGEOFFSET sh a + unat n \<le> unat R * 2 ^ sh" using npages_fit [OF a(2)] A by (simp add: A_def)
  from ok1 [OF ft1] obtain t1 where t1: "get_userbuf_pages M sh a n False R 0 ses s =
      Some (0, ses\<lparr>pages := splice_at 0 (map Some (pages_of sh a (unat R))) (pages ses), sg := t1\<rparr>,
        pin_pages (pages_of sh a (unat R)) s)"
    "length t1 = length (sg ses)" "sg_span sh t1 0 = ucells a (unat n)" "sg_ok sh t1 0"
    "length (upto_end (drop 0 t1)) = unat R" by blast
  define ses1 where "ses1 = ses\<lparr>pages := splice_at 0 (map Some (pages_of sh a (unat R))) (pages ses), sg := t1\<rparr>"
  define s1 where "s1 = pin_pages (pages_of sh a (unat R)) s"
  have g2: "gup M (um s1) b (unat W) True = Inr (pages_of sh b (unat W))"
    using pb B unfolding present_def B_def s1_def pin_pages_def by simp
  have "unat R + unat W \<le> length (pages ses1)" "unat R + unat W \<le> length (sg ses1)"
    using rm A B t1(2) by (simp_all add: ses1_def)
  note ok2 = get_userbuf_pages_ok [OF a(3,4) W0 g2 this]
  have ft2: "PAGEOFFSET sh b + unat k \<le> unat W * 2 ^ sh" using npages_fit [OF a(4)] B by (simp add: B_def)
  from ok2 [OF ft2] obtain t2 where t2: "get_userbuf_pages M sh b k True W (unat R) ses1 s1 =
      Some (0, ses1\<lparr>pages := splice_at (unat R) (map Some (pages_of sh b (unat W))) (pages ses1), sg := t2\<rparr>,
        pin_pages (pages_of sh b (unat W)) s1)"
    "length t2 = length (sg ses1)"
    "\<forall>x. x < unat R \<or> unat R + unat W \<le> x \<longrightarrow> x < length t2 \<longrightarrow> t2 ! x = sg ses1 ! x"
    "sg_span sh t2 (unat R) = ucells b (unat k)" "sg_ok sh t2 (unat R)" by blast
  define ses2 where
    "ses2 = ses1\<lparr>pages := splice_at (unat R) (map Some (pages_of sh b (unat W))) (pages ses1), sg := t2\<rparr>"
  have l2: "length t2 = length t1" using t2(2) by (simp add: ses1_def)
  have keep: "\<forall>x. 0 \<le> x \<and> x < 0 + length (upto_end (drop 0 t1)) \<longrightarrow> t2 ! x = t1 ! x"
    unfolding t1(5) using t2(3) rm A t1(2) l2 by (auto simp: ses1_def)
  note src = span_cong [OF l2 keep, of sh]
  have "map_userbuf M sh ses a n b k s = Some (0, Some 0, Some A, ses2, pin_pages (pages_of sh b (unat W)) s1)"
  proof -
    have f: "readonly_pages ses1 = R" "used_pages ses1 = used_pages ses" by (simp_all add: ses1_def R_def)
    have m1: "get_userbuf_pages M sh a n False (readonly_pages ses) 0 ses s = Some (0, ses1, s1)"
      using t1(1) by (simp only: R_def ses1_def s1_def)
    have m2: "get_userbuf_pages M sh b k True (used_pages ses1 - readonly_pages ses1) (unat (readonly_pages ses1)) ses1 s1
        = Some (0, ses2, pin_pages (pages_of sh b (unat W)) s1)"
      using t2(1) by (simp only: f W_def [symmetric] ses2_def)
    have "unat (readonly_pages ses1) = A" by (simp only: f A)
    then show ?thesis using a m2 by (simp add: map_userbuf_def Let_def m1)
  qed
  moreover have "zc_held ses2 (pages_of sh a (unat R) @ pages_of sh b (unat W))"
    using rm A B us by (simp add: zc_held_def ses2_def ses1_def splice_at_def A_def B_def)
  moreover have "zc_wf ses2" using wf t1(2) l2 rm A B by (simp add: zc_wf_def ses2_def ses1_def)
  moreover have "sg ses2 = t2" "zcbuf.more ses2 = zcbuf.more ses" by (simp_all add: ses2_def ses1_def)
  moreover have "pins (pin_pages (pages_of sh b (unat W)) s1) =
      (\<lambda>p. pins s p + int (count_list (pages_of sh a (unat R) @ pages_of sh b (unat W)) p))"
    by (simp add: pin_pages_def s1_def add.assoc)
  ultimately show ?thesis
    using t2(4,5) src t1(3,4) A
    by (intro exI [of _ ses2] exI [of _ "pin_pages (pages_of sh b (unat W)) s1"])
      (auto simp: A_def pin_pages_def s1_def)
qed

lemma get_userbuf_apart:
  assumes wf: "zc_wf ses" and sh: "4 \<le> sh" and fit: "fits a n" "fits b k" and ne: "a \<noteq> b"
    and pa: "present M sh (um s) a (npages sh a n) False"
    and pb: "present M sh (um s) b (npages sh b k) True"
  shows "\<exists>rc ssg dsg ses' s'. get_userbuf M sh ses a n b k s = Some (rc, ssg, dsg, ses', s')
    \<and> (rc = 0 \<or> rc = - ENOMEM) \<and> um s' = um s \<and> zcbuf.more ses' = zcbuf.more ses \<and> zc_wf ses'
    \<and> (rc \<noteq> 0 \<longrightarrow> same_mem s s')
    \<and> (rc = 0 \<longrightarrow> ssg = Some 0 \<and> dsg = Some (npages sh a n)
        \<and> sg_ok sh (sg ses') 0 \<and> sg_span sh (sg ses') 0 = ucells a (unat n)
        \<and> sg_ok sh (sg ses') (npages sh a n) \<and> sg_span sh (sg ses') (npages sh a n) = ucells b (unat k)
        \<and> (\<exists>ps. zc_held ses' ps \<and> pins s' = (\<lambda>p. pins s p + int (count_list ps p))))"
proof -
  from fit have a: "a \<noteq> 0" "n \<noteq> 0" "b \<noteq> 0" "k \<noteq> 0" and f1: "unat a + unat n \<le> 2 ^ 64"
    and f2: "unat b + unat k \<le> 2 ^ 64" unfolding fits_def by auto
  define R :: u32 where "R = ucast (PAGECOUNT sh a n)"
  define used where "used = R + ucast (PAGECOUNT sh b k)"
  note nb = nat_numeral_bounds(1) [OF npages_bound [OF sh, of a n] npages_bound [OF sh, of b k]]
  have R: "unat R = npages sh a n" unfolding R_def by (rule PAGECOUNT_npages [OF f1 sh])
  have u: "unat used = npages sh a n + npages sh b k"
  proof -
    have "unat R + unat (ucast (PAGECOUNT sh b k) :: u32) < 2 ^ LENGTH(32)"
      unfolding R PAGECOUNT_npages [OF f2 sh] using nb by simp
    then have "unat used = unat R + unat (ucast (PAGECOUNT sh b k) :: u32)"
      unfolding used_def by (simp only: unat_add_lem)
    then show ?thesis unfolding R PAGECOUNT_npages [OF f2 sh] .
  qed
  define ses0 where "ses0 = ses\<lparr>used_pages := used, readonly_pages := R\<rparr>"
  have wf0: "zc_wf ses0" using wf by (simp add: ses0_def)
  obtain rc ses1 s1 where r: "reserve_pages used ses0 s = Some (rc, ses1, s1)"
    "same_mem s s1" "zc_wf ses1" "rc = 0 \<or> rc = - ENOMEM" "rc = 0 \<longrightarrow> unat used \<le> unat (array_size ses1)"
    "used_pages ses1 = used" "readonly_pages ses1 = R" "zcbuf.more ses1 = zcbuf.more ses"
    using ensure_room [OF wf0, of used s] nb u by (auto simp: ses0_def)
  have um1: "um s1 = um s" "pins s1 = pins s" using r(2) by (auto simp: same_mem_def)
  have top: "get_userbuf M sh ses a n b k s =
      (if rc \<noteq> 0 then Some (rc, None, None, ses1, s1) else map_userbuf M sh ses1 a n b k s1)"
    using a ne r(1) by (simp add: get_userbuf_def Let_def flip: ses0_def used_def R_def)
  show ?thesis
  proof (cases "rc = 0")
    case False
    with top r um1 show ?thesis by auto
  next
    case True
    have "\<exists>ses' s'. map_userbuf M sh ses1 a n b k s1 = Some (0, Some 0, Some (npages sh a n), ses', s')
      \<and> um s' = um s1 \<and> zcbuf.more ses' = zcbuf.more ses1 \<and> zc_wf ses'
      \<and> sg_ok sh (sg ses') 0 \<and> sg_span sh (sg ses') 0 = ucells a (unat n)
      \<and> sg_ok sh (sg ses') (npages sh a n) \<and> sg_span sh (sg ses') (npages sh a n) = ucells b (unat k)
      \<and> (\<exists>ps. zc_held ses' ps \<and> pins s' = (\<lambda>p. pins s1 p + int (count_list ps p)))"
      using r True u R pa pb um1 by (intro map_userbuf_apart a ne) simp_all
    with top True r(8) um1 show ?thesis by auto
  qed
qed

section \<open>Properties\<close>

text \<open>A small instance: pages of 16 bytes, page arrays of four entries, all memory present.\<close>

definition mm_demo :: mm where
  "mm_demo = \<lparr>gup = (\<lambda>m a n wr. Inr (pages_of 4 a n)), reserved = (\<lambda>_. False),
     nth_pg = (\<lambda>p k. case p of UPage q \<Rightarrow> UPage (q + of_nat k) | KPage \<Rightarrow> KPage)\<rparr>"

definition kst_demo :: kst where
  "kst_demo = \<lparr>um = \<lparr>ubytes = (\<lambda>_. Some 0), uwritable = (\<lambda>_. True)\<rparr>, kbuf = [], live = [], next_id = 0,
     allocs = [], bad_free = False, pins = (\<lambda>_. 0), pglog = [], uninit = (\<lambda>_. 0), uninit_int = 0,
     random = (\<lambda>i. of_nat i)\<rparr>"

definition zc_demo :: zcbuf where
  "zc_demo = \<lparr>zc_alignmask = 0, array_size = 4, used_pages = 0, readonly_pages = 0, pages_ptr = None,
     sg_ptr = None, pages = replicate 4 None, sg = replicate 4 sg_zero\<rparr>"

text \<open>For two different user buffers whose pages are all present, \<open>get_userbuf\<close> (zc.c) returns,
  with 0 or \<open>-ENOMEM\<close>.  On success the source scatterlist covers exactly the \<open>n\<close> bytes at \<open>a\<close>
  in order and the destination scatterlist exactly the \<open>k\<close> bytes at \<open>b\<close>; the page arrays stay
  well formed and user memory is unchanged; on failure no page stays pinned.\<close>

theorem get_userbuf_covers:
  assumes "zc_wf ses" "4 \<le> sh" "fits a n" "fits b k" "a \<noteq> b"
    and "present M sh (um s) a (npages sh a n) False"
    and "present M sh (um s) b (npages sh b k) True"
  shows "\<exists>rc ssg dsg ses' s'. get_userbuf M sh ses a n b k s = Some (rc, ssg, dsg, ses', s')
    \<and> (rc = 0 \<or> rc = - ENOMEM) \<and> um s' = um s \<and> zc_wf ses' \<and> (rc \<noteq> 0 \<longrightarrow> pins s' = pins s)
    \<and> (rc = 0 \<longrightarrow> (\<exists>i j. ssg = Some i \<and> dsg = Some j
        \<and> sg_ok sh (sg ses') i \<and> sg_span sh (sg ses') i = ucells a (unat n)
        \<and> sg_ok sh (sg ses') j \<and> sg_span sh (sg ses') j = ucells b (unat k)))"
  using get_userbuf_apart [OF assms] by (elim ex_forward) (auto simp: same_mem_def)

theorem get_userbuf_covers_witness:
  "zc_wf zc_demo \<and>
   (\<exists>rc ssg dsg ses' s'. get_userbuf mm_demo 4 zc_demo 0x35 20 0x80 10 kst_demo = Some (rc, ssg, dsg, ses', s')
    \<and> (rc = 0 \<or> rc = - ENOMEM) \<and> um s' = um kst_demo \<and> zc_wf ses' \<and> (rc \<noteq> 0 \<longrightarrow> pins s' = pins kst_demo)
    \<and> (rc = 0 \<longrightarrow> (\<exists>i j. ssg = Some i \<and> dsg = Some j
        \<and> sg_ok 4 (sg ses') i \<and> sg_span 4 (sg ses') i = ucells 0x35 (unat (20 :: u32))
        \<and> sg_ok 4 (sg ses') j \<and> sg_span 4 (sg ses') j = ucells 0x80 (unat (10 :: u32)))))"
proof
  show wf: "zc_wf zc_demo" by (simp add: zc_wf_def zc_demo_def)
  show "\<exists>rc ssg dsg ses' s'. get_userbuf mm_demo 4 zc_demo 0x35 20 0x80 10 kst_demo = Some (rc, ssg, dsg, ses', s')
    \<and> (rc = 0 \<or> rc = - ENOMEM) \<and> um s' = um kst_demo \<and> zc_wf ses' \<and> (rc \<noteq> 0 \<longrightarrow> pins s' = pins kst_demo)
    \<and> (rc = 0 \<longrightarrow> (\<exists>i j. ssg = Some i \<and> dsg = Some j
        \<and> sg_ok 4 (sg ses') i \<and> sg_span 4 (sg ses') i = ucells 0x35 (unat (20 :: u32))
        \<and> sg_ok 4 (sg ses') j \<and> sg_span 4 (sg ses') j = ucells 0x80 (unat (10 :: u32))))"
    by (rule get_userbuf_covers [OF wf]) (simp_all add: fits_def present_def mm_demo_def)
qed

text \<open>C28: \<open>release_user_pages\<close> (zc.c) after a successful \<open>get_userbuf\<close> returns, drops exactly the
  references the call took, page by page, and leaves user memory alone, whatever happened to the
  user's memory in between.\<close>

theorem release_balances_get_userbuf:
  assumes "zc_wf ses" "4 \<le> sh" "fits a n" "fits b k" "a \<noteq> b"
    and "present M sh (um s) a (npages sh a n) False"
    and "present M sh (um s) b (npages sh b k) True"
    and "get_userbuf M sh ses a n b k s = Some (0, ssg, dsg, ses', s')"
  shows "\<exists>ses2 s2. release_user_pages M ses' (s'\<lparr>um := m\<rparr>) = Some (ses2, s2) \<and> pins s2 = pins s
    \<and> um s2 = m \<and> used_pages ses2 = 0"
proof -
  from get_userbuf_apart [OF assms(1-7)] assms(8) obtain ps where
    h: "zc_held ses' ps" "pins s' = (\<lambda>p. pins s p + int (count_list ps p))" by auto
  from release_user_pages_pins [OF h(1), of M "s'\<lparr>um := m\<rparr>"] h(2) show ?thesis by auto
qed

theorem release_balances_get_userbuf_witness:
  "\<exists>ssg dsg ses' s'. get_userbuf mm_demo 4 zc_demo 0x35 20 0x80 10 kst_demo = Some (0, ssg, dsg, ses', s')
    \<and> (\<exists>ses2 s2. release_user_pages mm_demo ses' (s'\<lparr>um := um kst_demo\<rparr>) = Some (ses2, s2) \<and> pins s2 = pins kst_demo
    \<and> um s2 = um kst_demo \<and> used_pages ses2 = 0)"
proof -
  have wf: "zc_wf zc_demo" by (simp add: zc_wf_def zc_demo_def)
  have "map_option fst (get_userbuf mm_demo 4 zc_demo 0x35 20 0x80 10 kst_demo) = Some 0"
    by code_simp
  then obtain ssg dsg ses' s' where
    g: "get_userbuf mm_demo 4 zc_demo 0x35 20 0x80 10 kst_demo = Some (0, ssg, dsg, ses', s')" by auto
  show ?thesis
    using release_balances_get_userbuf [OF wf _ _ _ _ _ _ g, of "um kst_demo"] g
    by (simp add: fits_def present_def mm_demo_def)
qed

text \<open>In place (\<open>src == dst\<close>), \<open>get_userbuf\<close> gives one scatterlist for both directions, and
  it covers exactly the \<open>n\<close> source bytes at \<open>a\<close> -- also when the destination length \<open>n2\<close> is
  larger, as in an AEAD encryption whose tag follows the data.\<close>

theorem get_userbuf_inplace_covers:
  assumes "zc_wf ses" "4 \<le> sh" "fits a n" "unat a + unat n2 \<le> 2 ^ 64"
    and "present M sh (um s) a (max (npages sh a n) (npages sh a n2)) True"
  shows "\<exists>rc ssg dsg ses' s'. get_userbuf M sh ses a n a n2 s = Some (rc, ssg, dsg, ses', s')
    \<and> (rc = 0 \<or> rc = - ENOMEM) \<and> um s' = um s \<and> zc_wf ses' \<and> (rc \<noteq> 0 \<longrightarrow> pins s' = pins s)
    \<and> (rc = 0 \<longrightarrow> (\<exists>i. ssg = Some i \<and> dsg = Some i
        \<and> sg_ok sh (sg ses') i \<and> sg_span sh (sg ses') i = ucells a (unat n)))"
  using get_userbuf_inplace [OF assms] by (elim ex_forward) (auto simp: same_mem_def)

theorem get_userbuf_inplace_covers_witness:
  "zc_wf zc_demo \<and>
   (\<exists>rc ssg dsg ses' s'. get_userbuf mm_demo 4 zc_demo 0x35 20 0x35 36 kst_demo = Some (rc, ssg, dsg, ses', s')
    \<and> (rc = 0 \<or> rc = - ENOMEM) \<and> um s' = um kst_demo \<and> zc_wf ses' \<and> (rc \<noteq> 0 \<longrightarrow> pins s' = pins kst_demo)
    \<and> (rc = 0 \<longrightarrow> (\<exists>i. ssg = Some i \<and> dsg = Some i
        \<and> sg_ok 4 (sg ses') i \<and> sg_span 4 (sg ses') i = ucells 0x35 (unat (20 :: u32)))))"
proof
  show wf: "zc_wf zc_demo" by (simp add: zc_wf_def zc_demo_def)
  show "\<exists>rc ssg dsg ses' s'. get_userbuf mm_demo 4 zc_demo 0x35 20 0x35 36 kst_demo = Some (rc, ssg, dsg, ses', s')
    \<and> (rc = 0 \<or> rc = - ENOMEM) \<and> um s' = um kst_demo \<and> zc_wf ses' \<and> (rc \<noteq> 0 \<longrightarrow> pins s' = pins kst_demo)
    \<and> (rc = 0 \<longrightarrow> (\<exists>i. ssg = Some i \<and> dsg = Some i
        \<and> sg_ok 4 (sg ses') i \<and> sg_span 4 (sg ses') i = ucells 0x35 (unat (20 :: u32))))"
    by (rule get_userbuf_inplace_covers [OF wf]) (simp_all add: fits_def present_def mm_demo_def)
qed

text \<open>\<open>adjust_sg_array\<close> (zc.c) ends for every request of at most \<open>2^30\<close> pages on well-formed
  arrays, with 0 or \<open>-ENOMEM\<close>, and keeps them well formed; on success the new size is the old one
  doubled some number of times, is at least the request, and less than twice the request unless no
  growth was needed.\<close>

theorem adjust_sg_array_grows:
  assumes "zc_wf ses" "unat n \<le> 2 ^ 30"
  shows "\<exists>rc ses' s'. adjust_sg_array n ses s = Some (rc, ses', s') \<and> (rc = 0 \<or> rc = - ENOMEM) \<and> zc_wf ses'
    \<and> um s' = um s \<and> pins s' = pins s
    \<and> (rc = 0 \<longrightarrow> unat n \<le> unat (array_size ses')
        \<and> (\<exists>k. unat (array_size ses') = unat (array_size ses) * 2 ^ k)
        \<and> (array_size ses' = array_size ses \<or> unat (array_size ses') < 2 * unat n))"
proof -
  from adjust_sg_array_ok [OF assms, of s] obtain rc ses' s' where
    a: "adjust_sg_array n ses s = Some (rc, ses', s')" "same_mem s s'" "zc_wf ses'"
      "rc = 0 \<or> rc = - ENOMEM" "rc = 0 \<longrightarrow> unat n \<le> unat (array_size ses')" by blast
  from assms obtain m k where g: "grow (array_size ses) n = Some m"
    "unat m = unat (array_size ses) * 2 ^ k" "m = array_size ses \<or> unat m < 2 * unat n"
    using grow_terminates [of "array_size ses" n] unfolding zc_wf_def by blast
  have "rc = 0 \<Longrightarrow> array_size ses' = m"
    using a(1) g(1) by (auto simp: adjust_sg_array_def Let_def split: prod.splits option.splits)
  with a g show ?thesis by (intro exI [of _ rc] exI [of _ ses'] exI [of _ s']) (auto simp: same_mem_def)
qed

theorem adjust_sg_array_grows_witness:
  "zc_wf zc_demo \<and> unat (9 :: u32) \<le> 2 ^ 30 \<and>
   (\<exists>rc ses' s'. adjust_sg_array 9 zc_demo kst_demo = Some (rc, ses', s') \<and> (rc = 0 \<or> rc = - ENOMEM) \<and> zc_wf ses'
    \<and> um s' = um kst_demo \<and> pins s' = pins kst_demo
    \<and> (rc = 0 \<longrightarrow> unat (9 :: u32) \<le> unat (array_size ses')
        \<and> (\<exists>k. unat (array_size ses') = unat (array_size zc_demo) * 2 ^ k)
        \<and> (array_size ses' = array_size zc_demo \<or> unat (array_size ses') < 2 * unat (9 :: u32))))"
proof (intro conjI)
  show wf: "zc_wf zc_demo" by (simp add: zc_wf_def zc_demo_def)
  show "unat (9 :: u32) \<le> 2 ^ 30" by simp
  then show "\<exists>rc ses' s'. adjust_sg_array 9 zc_demo kst_demo = Some (rc, ses', s') \<and> (rc = 0 \<or> rc = - ENOMEM) \<and> zc_wf ses'
    \<and> um s' = um kst_demo \<and> pins s' = pins kst_demo
    \<and> (rc = 0 \<longrightarrow> unat (9 :: u32) \<le> unat (array_size ses')
        \<and> (\<exists>k. unat (array_size ses') = unat (array_size zc_demo) * 2 ^ k)
        \<and> (array_size ses' = array_size zc_demo \<or> unat (array_size ses') < 2 * unat (9 :: u32)))"
    by (rule adjust_sg_array_grows [OF wf])
qed

text \<open>When \<open>get_user_pages\<close> pins only some of the pages of an in-place buffer, \<open>get_userbuf\<close>
  returns \<open>-EINVAL\<close> and the pages it got stay pinned.\<close>

theorem get_userbuf_partial_pins:
  assumes "fits a n" "4 \<le> sh" "zc_wf ses" "npages sh a n \<le> unat (array_size ses)"
    and "gup M (um s) a (npages sh a n) True = Inr ps" "length ps < npages sh a n"
  shows "\<exists>ses' s'. get_userbuf M sh ses a n a n s = Some (- EINVAL, None, None, ses', s')
    \<and> pins s' = (\<lambda>p. pins s p + int (count_list ps p))"
proof -
  from assms(1) have a: "a \<noteq> 0" "n \<noteq> 0" and f: "unat a + unat n \<le> 2 ^ 64" unfolding fits_def by auto
  define c :: u32 where "c = ucast (PAGECOUNT sh a n)"
  have c: "unat c = npages sh a n" unfolding c_def by (rule PAGECOUNT_npages [OF f assms(2)])
  have c0: "c \<noteq> 0" using c npages_pos [OF a(2), of sh a] by auto
  have sm: "smax c c = c" by (simp add: smax_def)
  have rsv: "reserve_pages c (ses\<lparr>used_pages := c, readonly_pages := 0\<rparr>) s
      = Some (0, ses\<lparr>used_pages := c, readonly_pages := 0\<rparr>, s)"
    using assms(4) c by (simp add: reserve_pages_def word_less_nat_alt)
  have "length ps \<le> length (pages ses)" using assms(3,4,6) unfolding zc_wf_def by simp
  then show ?thesis
    using a rsv sm c c0 assms(5,6)
    by (simp add: get_userbuf_def Let_def map_userbuf_def get_userbuf_pages_def pin_pages_def flip: c_def)
qed

theorem get_userbuf_partial_pins_witness:
  "zc_wf zc_demo \<and>
   (\<exists>ses' s'. get_userbuf (mm_demo\<lparr>gup := \<lambda>m a n wr. Inr (pages_of 4 a 1)\<rparr>) 4 zc_demo 0x35 20 0x35 20 kst_demo
      = Some (- EINVAL, None, None, ses', s')
    \<and> pins s' = (\<lambda>p. pins kst_demo p + int (count_list (pages_of 4 0x35 1) p)))"
proof
  show wf: "zc_wf zc_demo" by (simp add: zc_wf_def zc_demo_def)
  show "\<exists>ses' s'. get_userbuf (mm_demo\<lparr>gup := \<lambda>m a n wr. Inr (pages_of 4 a 1)\<rparr>) 4 zc_demo 0x35 20 0x35 20 kst_demo
      = Some (- EINVAL, None, None, ses', s')
    \<and> pins s' = (\<lambda>p. pins kst_demo p + int (count_list (pages_of 4 0x35 1) p))"
    by (rule get_userbuf_partial_pins [OF _ _ wf]) (simp_all add: fits_def npages_def zc_demo_def)
qed

end
