(* ===== verification/Cryptlib.thy ===== *)
theory Cryptlib
  imports Cryptodev_Types Zero_Copy
begin

text \<open>
  The wrapper around the kernel crypto API (\<open>cryptodev-linux/cryptlib.c\<close>, \<open>cryptlib.h\<close>): setting
  up and tearing down ciphers and hashes, running a request and waiting for its completion.  The
  crypto API itself is a parameter (record \<open>capi\<close>); a scatterlist argument is given by the cells
  it covers, \<open>None\<close> for a null pointer.  The theorems are about leaks, double frees, completion
  and the data a request reads and writes.
\<close>

section \<open>Memory behind a scatterlist\<close>

definition cell_get :: "kst \<Rightarrow> cell \<Rightarrow> byte option" where
  "cell_get s c =
     (case c of
        UCell a \<Rightarrow> ubytes (um s) a
      | KCell i \<Rightarrow> (if i < length (kbuf s) then Some (kbuf s ! i) else None))"

definition cell_put :: "kst \<Rightarrow> cell \<Rightarrow> byte \<Rightarrow> kst option" where
  "cell_put s c b =
     (case cell_get s c of
        None \<Rightarrow> None
      | Some _ \<Rightarrow>
          (case c of
             UCell a \<Rightarrow> Some (s\<lparr>um := (um s)\<lparr>ubytes := (ubytes (um s))(a \<mapsto> b)\<rparr>\<rparr>)
           | KCell i \<Rightarrow> Some (s\<lparr>kbuf := (kbuf s)[i := b]\<rparr>)))"

fun cells_get :: "('s \<Rightarrow> 'c \<Rightarrow> byte option) \<Rightarrow> 's \<Rightarrow> 'c list \<Rightarrow> byte list option" where
  "cells_get get s [] = Some []"
| "cells_get get s (c # cs) = do { b \<leftarrow> get s c; bs \<leftarrow> cells_get get s cs; Some (b # bs) }"

fun cells_put :: "('s \<Rightarrow> 'c \<Rightarrow> byte \<Rightarrow> 's option) \<Rightarrow> 's \<Rightarrow> 'c list \<Rightarrow> byte list \<Rightarrow> 's option" where
  "cells_put put s (c # cs) (b # bs) = do { s' \<leftarrow> put s c b; cells_put put s' cs bs }"
| "cells_put put s _ _ = Some s"

text \<open>
  What the code relies on when it hands a scatterlist to the crypto API: bytes scattered to
  distinct cells are the bytes gathered from them, and other cells keep their bytes.
\<close>

locale scatter_memory =
  fixes get :: "'s \<Rightarrow> 'c \<Rightarrow> byte option" and put :: "'s \<Rightarrow> 'c \<Rightarrow> byte \<Rightarrow> 's option"
  assumes get_same: "put s c b = Some s' \<Longrightarrow> get s' c = Some b"
    and get_other: "put s c b = Some s' \<Longrightarrow> d \<noteq> c \<Longrightarrow> get s' d = get s d"
    and put_defined: "get s c \<noteq> None \<Longrightarrow> put s c b \<noteq> None"
begin

lemma put_frame: "cells_put put s cs bs = Some s' \<Longrightarrow> d \<notin> set cs \<Longrightarrow> get s' d = get s d"
proof (induction cs arbitrary: s bs)
  case (Cons c cs)
  show ?case
  proof (cases bs)
    case (Cons b bs')
    with Cons.prems obtain s1 where s1: "put s c b = Some s1" "cells_put put s1 cs bs' = Some s'"
      by (auto split: Option.bind_splits)
    then have "get s' d = get s1 d" using Cons.prems(2) by (intro Cons.IH) auto
    then show ?thesis using get_other [OF s1(1), of d] Cons.prems(2) by simp
  qed (use Cons.prems in simp)
qed simp

lemma gather_after_scatter:
  "cells_put put s cs bs = Some s' \<Longrightarrow> length bs = length cs \<Longrightarrow> distinct cs \<Longrightarrow>
    cells_get get s' cs = Some bs"
proof (induction cs arbitrary: s bs)
  case (Cons c cs)
  then obtain b bs' s1 where b: "bs = b # bs'" "put s c b = Some s1" "cells_put put s1 cs bs' = Some s'"
    by (cases bs) (auto split: Option.bind_splits)
  then have "cells_get get s' cs = Some bs'" using Cons by simp
  moreover have "get s' c = Some b"
    using put_frame [OF b(3), of c] get_same [OF b(2)] Cons.prems(3) by simp
  ultimately show ?case using b(1) by simp
qed simp

lemma get_cong: "(\<And>c. c \<in> set cs \<Longrightarrow> get s' c = get s c) \<Longrightarrow> cells_get get s' cs = cells_get get s cs"
  by (induction cs) auto

lemma gather_other:
  "cells_put put s cs bs = Some s' \<Longrightarrow> set ds \<inter> set cs = {} \<Longrightarrow> cells_get get s' ds = cells_get get s ds"
  by (rule get_cong) (auto intro: put_frame)

lemma scatter_total:
  "cells_get get s cs \<noteq> None \<Longrightarrow> \<exists>s'. cells_put put s cs bs = Some s'"
proof (induction cs arbitrary: s bs)
  case (Cons c cs)
  show ?case
  proof (cases bs)
    case (Cons b bs')
    from Cons.prems have d: "get s c \<noteq> None" "cells_get get s cs \<noteq> None"
      by (auto split: Option.bind_splits)
    then obtain s1 where s1: "put s c b = Some s1" using put_defined by fastforce
    have "get s1 x \<noteq> None" if "get s x \<noteq> None" for x
      using that get_same [OF s1] get_other [OF s1] by (cases "x = c") auto
    then have "cells_get get s1 cs \<noteq> None"
      using d(2) by (induction cs) (auto split: Option.bind_splits)
    from Cons.IH [OF this, of bs'] s1 Cons show ?thesis by auto
  qed simp
qed simp

end

interpretation cells: scatter_memory cell_get cell_put
  by unfold_locales
    (auto simp: cell_get_def cell_put_def nth_list_update split: cell.splits option.splits if_splits)

abbreviation "sg_gather \<equiv> cells_get cell_get"
abbreviation "sg_scatter \<equiv> cells_put cell_put"

definition sg_fetch :: "kst \<Rightarrow> cell list option \<Rightarrow> nat \<Rightarrow> byte list option" where
  "sg_fetch s l n =
     (if n = 0 then Some []
      else case l of None \<Rightarrow> None | Some cs \<Rightarrow> (if n \<le> length cs then sg_gather s (take n cs) else None))"

definition sg_store :: "kst \<Rightarrow> cell list option \<Rightarrow> byte list \<Rightarrow> kst option" where
  "sg_store s l bs =
     (if bs = [] then Some s
      else case l of None \<Rightarrow> None
        | Some cs \<Rightarrow> (if length bs \<le> length cs then sg_scatter s (take (length bs) cs) bs else None))"

section \<open>The crypto API\<close>

text \<open>
  \<open>alloc_*\<close> are \<open>crypto_alloc_*\<close> by algorithm name, \<open>None\<close> for an \<open>IS_ERR\<close> result; the
  information they give is what the accessor functions return.  An operation on data returns the
  value of the call, the error codes its completion callback is invoked with, the bytes it writes
  to the destination and the new IV or hash state.
\<close>

record tfm_info =
  ti_alg :: bool
  ti_min_keysize :: nat
  ti_max_keysize :: nat
  ti_blocksize :: nat
  ti_ivsize :: nat
  ti_alignmask :: nat
  ti_maxauthsize :: nat

record hash_info =
  hi_digestsize :: nat
  hi_alignmask :: nat

record 'h capi =
  alloc_ablkcipher :: "string \<Rightarrow> tfm_info option"
  alloc_aead :: "string \<Rightarrow> tfm_info option"
  alloc_ahash :: "string \<Rightarrow> hash_info option"
  ablkcipher_setkey :: "string \<Rightarrow> byte list \<Rightarrow> int"
  aead_setkey :: "string \<Rightarrow> byte list \<Rightarrow> int"
  aead_setauthsize :: "string \<Rightarrow> nat \<Rightarrow> int"
  ahash_setkey :: "string \<Rightarrow> byte list \<Rightarrow> int"
  ablkcipher_crypt :: "bool \<Rightarrow> string \<Rightarrow> byte list \<Rightarrow> byte list \<Rightarrow> byte list
    \<Rightarrow> int \<times> int list \<times> byte list \<times> byte list"
  aead_crypt :: "bool \<Rightarrow> string \<Rightarrow> byte list \<Rightarrow> nat \<Rightarrow> byte list \<Rightarrow> byte list \<Rightarrow> byte list
    \<Rightarrow> int \<times> int list \<times> byte list \<times> byte list"
  ahash_init :: "string \<Rightarrow> byte list \<Rightarrow> int \<times> 'h"
  ahash_update :: "'h \<Rightarrow> byte list \<Rightarrow> int \<times> int list \<times> 'h"
  ahash_final :: "'h \<Rightarrow> int \<times> int list \<times> byte list \<times> 'h"
  cra_name :: "string \<Rightarrow> byte list"
  cra_driver_name :: "string \<Rightarrow> byte list"
  cra_flags :: "string \<Rightarrow> u32"

section \<open>Completion\<close>

record cryptodev_result =
  completed :: bool
  err :: int

definition result_init :: cryptodev_result where
  "result_init = \<lparr>completed = False, err = 0\<rparr>"

definition cryptodev_complete :: "int \<Rightarrow> cryptodev_result \<Rightarrow> cryptodev_result" where
  "cryptodev_complete e res =
     (if e = - EINPROGRESS then res else res\<lparr>err := e, completed := True\<rparr>)"

text \<open>\<open>waitfor\<close> waits without limit: \<open>None\<close> when the request is never completed.\<close>

definition waitfor :: "cryptodev_result \<Rightarrow> int \<Rightarrow> int option" where
  "waitfor cr ret =
     (if ret = 0 then Some 0
      else if ret = - EINPROGRESS \<or> ret = - EBUSY
      then (if completed cr then (if err cr \<noteq> 0 then Some (err cr) else Some 0) else None)
      else Some ret)"

section \<open>Ciphers\<close>

record tfm =
  tfm_id :: nat
  tfm_name :: string
  tfm_key :: "byte list"
  tfm_authsize :: nat

record cipher_data =
  c_init :: bool
  c_blocksize :: nat
  c_aead :: bool
  c_stream :: bool
  c_ivsize :: nat
  c_alignmask :: nat
  c_s :: "tfm option"
  c_request :: "nat option"
  c_as :: "tfm option"
  c_arequest :: "nat option"
  c_assoc :: "cell list option \<times> nat"
  c_result :: "nat option"
  c_res :: cryptodev_result
  c_iv :: "byte list"

definition cipher_zero :: cipher_data where
  "cipher_zero = \<lparr>c_init = False, c_blocksize = 0, c_aead = False, c_stream = False, c_ivsize = 0,
     c_alignmask = 0, c_s = None, c_request = None, c_as = None, c_arequest = None, c_assoc = (None, 0),
     c_result = None, c_res = result_init, c_iv = replicate 16 0\<rparr>"

definition free_tfm :: "tfm option \<Rightarrow> kst \<Rightarrow> kst" where
  "free_tfm t s = kfree (map_option tfm_id t) s"

text \<open>The error exit of \<open>cryptodev_cipher_init\<close>; the AEAD branch tests \<open>async.s\<close>.\<close>

definition cipher_init_error :: "int \<Rightarrow> bool \<Rightarrow> cipher_data \<Rightarrow> kst \<Rightarrow> int \<times> cipher_data \<times> kst" where
  "cipher_init_error ret aead out s =
     (let s1 = (if \<not> aead then free_tfm (c_s out) (kfree (c_request out) s)
                else (let s0 = kfree (c_arequest out) s
                      in if c_s out \<noteq> None then free_tfm (c_as out) s0 else s0))
      in (ret, out, kfree (c_result out) s1))"

text \<open>The common tail: result object, request, callback.\<close>

definition cipher_init_request :: "bool \<Rightarrow> bool \<Rightarrow> cipher_data \<Rightarrow> kst \<Rightarrow> int \<times> cipher_data \<times> kst" where
  "cipher_init_request stream aead out0 s =
     (let out = out0\<lparr>c_stream := stream, c_aead := aead\<rparr>
      in case kalloc ResultObj s of
           (None, s1) \<Rightarrow> cipher_init_error (- ENOMEM) aead out s1
         | (Some r, s1) \<Rightarrow>
             (let out1 = out\<lparr>c_result := Some r, c_res := result_init\<rparr>
              in case kalloc (if aead then ReqAead else ReqAblk) s1 of
                   (None, s2) \<Rightarrow> cipher_init_error (- ENOMEM) aead out1 s2
                 | (Some q, s2) \<Rightarrow>
                     (0, (if aead then out1\<lparr>c_arequest := Some q\<rparr> else out1\<lparr>c_request := Some q\<rparr>)\<lparr>c_init := True\<rparr>, s2)))"

definition cryptodev_cipher_init ::
  "'h capi \<Rightarrow> string \<Rightarrow> byte list \<Rightarrow> bool \<Rightarrow> bool \<Rightarrow> kst \<Rightarrow> int \<times> cipher_data \<times> kst" where
  "cryptodev_cipher_init A alg_name key stream aead s =
     (case (if aead then alloc_aead A alg_name else alloc_ablkcipher A alg_name) of
        None \<Rightarrow> (- EINVAL, cipher_zero, s)
      | Some ti \<Rightarrow>
          (case kalloc (if aead then TfmAead else TfmAblk) s of
             (None, s1) \<Rightarrow> (- EINVAL, cipher_zero, s1)
           | (Some i, s1) \<Rightarrow>
               (let t = \<lparr>tfm_id = i, tfm_name = alg_name, tfm_key = [], tfm_authsize = ti_maxauthsize ti\<rparr>;
                    out = (if aead then cipher_zero\<lparr>c_as := Some t\<rparr> else cipher_zero\<lparr>c_s := Some t\<rparr>)
                in if \<not> aead \<and> ti_alg ti \<and> 0 < ti_max_keysize ti
                        \<and> (length key < ti_min_keysize ti \<or> ti_max_keysize ti < length key)
                   then cipher_init_error (- EINVAL) aead out s1
                   else
                     (let t' = t\<lparr>tfm_key := key\<rparr>;
                          out1 = (if aead then out\<lparr>c_as := Some t'\<rparr> else out\<lparr>c_s := Some t'\<rparr>)
                            \<lparr>c_blocksize := ti_blocksize ti, c_ivsize := ti_ivsize ti, c_alignmask := ti_alignmask ti\<rparr>;
                          ret = (if aead then aead_setkey A alg_name key else ablkcipher_setkey A alg_name key)
                      in if ret \<noteq> 0 then cipher_init_error (- EINVAL) aead out1 s1
                         else cipher_init_request stream aead out1 s1))))"

definition cryptodev_cipher_deinit :: "cipher_data \<Rightarrow> kst \<Rightarrow> cipher_data \<times> kst" where
  "cryptodev_cipher_deinit cdata s =
     (if c_init cdata then
        (let s1 = (if \<not> c_aead cdata then free_tfm (c_s cdata) (kfree (c_request cdata) s)
                   else free_tfm (c_as cdata) (kfree (c_arequest cdata) s))
         in (cdata\<lparr>c_init := False\<rparr>, kfree (c_result cdata) s1))
      else (cdata, s))"

text \<open>
  One request: the source bytes are read, the operation runs, its output goes to the destination,
  its callbacks to the result object, and the caller waits.
\<close>

definition cipher_request ::
  "(byte list \<Rightarrow> byte list \<Rightarrow> int \<times> int list \<times> byte list \<times> byte list) \<Rightarrow> cipher_data
    \<Rightarrow> cell list option \<Rightarrow> cell list option \<Rightarrow> nat \<Rightarrow> kst \<Rightarrow> (int \<times> cipher_data \<times> kst) option" where
  "cipher_request f cdata src dst len s =
     do {
       bs \<leftarrow> sg_fetch s src len;
       let (ret, cbs, out, iv) = f (c_iv cdata) bs;
       s1 \<leftarrow> sg_store s dst out;
       let res = fold cryptodev_complete cbs ((c_res cdata)\<lparr>completed := False\<rparr>);
       r \<leftarrow> waitfor res ret;
       Some (r, cdata\<lparr>c_iv := iv, c_res := res\<rparr>, s1)
     }"

definition cipher_op ::
  "'h capi \<Rightarrow> bool \<Rightarrow> cipher_data \<Rightarrow> cell list option \<Rightarrow> cell list option \<Rightarrow> nat \<Rightarrow> kst
    \<Rightarrow> (int \<times> cipher_data \<times> kst) option" where
  "cipher_op A enc cdata src dst len s =
     (if \<not> c_aead cdata then
        (case c_s cdata of None \<Rightarrow> None
         | Some t \<Rightarrow> cipher_request (ablkcipher_crypt A enc (tfm_name t) (tfm_key t)) cdata src dst len s)
      else
        (case c_as cdata of None \<Rightarrow> None
         | Some t \<Rightarrow> do {
             ad \<leftarrow> sg_fetch s (fst (c_assoc cdata)) (snd (c_assoc cdata));
             cipher_request (\<lambda>iv. aead_crypt A enc (tfm_name t) (tfm_key t) (tfm_authsize t) iv ad) cdata src dst len s
           }))"

definition cryptodev_cipher_encrypt ::
  "'h capi \<Rightarrow> cipher_data \<Rightarrow> cell list option \<Rightarrow> cell list option \<Rightarrow> nat \<Rightarrow> kst
    \<Rightarrow> (int \<times> cipher_data \<times> kst) option" where
  "cryptodev_cipher_encrypt A cdata src dst len s = cipher_op A True cdata src dst len s"

definition cryptodev_cipher_decrypt ::
  "'h capi \<Rightarrow> cipher_data \<Rightarrow> cell list option \<Rightarrow> cell list option \<Rightarrow> nat \<Rightarrow> kst
    \<Rightarrow> (int \<times> cipher_data \<times> kst) option" where
  "cryptodev_cipher_decrypt A cdata src dst len s = cipher_op A False cdata src dst len s"

definition cryptodev_cipher_auth :: "cipher_data \<Rightarrow> cell list option \<Rightarrow> nat \<Rightarrow> cipher_data" where
  "cryptodev_cipher_auth cdata l len = cdata\<lparr>c_assoc := (if len \<noteq> 0 then l else None, len)\<rparr>"

definition cryptodev_cipher_set_tag_size :: "'h capi \<Rightarrow> cipher_data \<Rightarrow> nat \<Rightarrow> cipher_data" where
  "cryptodev_cipher_set_tag_size A cdata sz =
     (case c_as cdata of
        Some t \<Rightarrow>
          (if c_aead cdata \<and> aead_setauthsize A (tfm_name t) sz = 0
           then cdata\<lparr>c_as := Some (t\<lparr>tfm_authsize := sz\<rparr>)\<rparr> else cdata)
      | None \<Rightarrow> cdata)"

definition cryptodev_cipher_get_tag_size :: "cipher_data \<Rightarrow> nat" where
  "cryptodev_cipher_get_tag_size cdata =
     (if c_init cdata \<and> c_aead cdata then (case c_as cdata of Some t \<Rightarrow> tfm_authsize t | None \<Rightarrow> 0) else 0)"

definition cryptodev_cipher_set_iv :: "cipher_data \<Rightarrow> byte list \<Rightarrow> nat \<Rightarrow> cipher_data" where
  "cryptodev_cipher_set_iv cdata iv iv_size =
     (let n = min iv_size 16 in cdata\<lparr>c_iv := take n iv @ drop n (c_iv cdata)\<rparr>)"

definition cryptodev_cipher_get_iv :: "cipher_data \<Rightarrow> byte list \<Rightarrow> nat \<Rightarrow> byte list" where
  "cryptodev_cipher_get_iv cdata iv iv_size =
     (let n = min iv_size 16 in take n (c_iv cdata) @ drop n iv)"

section \<open>Hashes\<close>

record 'h hash_data =
  h_init :: bool
  h_digestsize :: nat
  h_alignmask :: nat
  h_s :: "tfm option"
  h_result :: "nat option"
  h_res :: cryptodev_result
  h_request :: "nat option"
  h_state :: "'h option"

definition hash_zero :: "'h hash_data" where
  "hash_zero = \<lparr>h_init = False, h_digestsize = 0, h_alignmask = 0, h_s = None, h_result = None,
     h_res = result_init, h_request = None, h_state = None\<rparr>"

definition hash_init_error :: "int \<Rightarrow> 'h hash_data \<Rightarrow> kst \<Rightarrow> int \<times> 'h hash_data \<times> kst" where
  "hash_init_error ret hdata s = (ret, hdata, free_tfm (h_s hdata) (kfree (h_result hdata) s))"

definition cryptodev_hash_init ::
  "'h capi \<Rightarrow> 'h hash_data \<Rightarrow> string \<Rightarrow> bool \<Rightarrow> byte list \<Rightarrow> kst \<Rightarrow> int \<times> 'h hash_data \<times> kst" where
  "cryptodev_hash_init A hdata alg_name hmac_mode mackey s =
     (case alloc_ahash A alg_name of
        None \<Rightarrow> (- EINVAL, hdata, s)
      | Some hi \<Rightarrow>
          (case kalloc TfmAhash s of
             (None, s1) \<Rightarrow> (- EINVAL, hdata, s1)
           | (Some i, s1) \<Rightarrow>
               (let t = \<lparr>tfm_id = i, tfm_name = alg_name, tfm_key = (if hmac_mode then mackey else []), tfm_authsize = 0\<rparr>;
                    h1 = hdata\<lparr>h_s := Some t\<rparr>
                in if hmac_mode \<and> ahash_setkey A alg_name mackey \<noteq> 0 then hash_init_error (- EINVAL) h1 s1
                   else
                     (let h2 = h1\<lparr>h_digestsize := hi_digestsize hi, h_alignmask := hi_alignmask hi\<rparr>
                      in case kalloc ResultObj s1 of
                           (None, s2) \<Rightarrow> hash_init_error (- ENOMEM) (h2\<lparr>h_result := None\<rparr>) s2
                         | (Some r, s2) \<Rightarrow>
                             (let h3 = h2\<lparr>h_result := Some r, h_res := result_init\<rparr>
                              in case kalloc ReqAhash s2 of
                                   (None, s3) \<Rightarrow> hash_init_error (- ENOMEM) (h3\<lparr>h_request := None\<rparr>) s3
                                 | (Some q, s3) \<Rightarrow>
                                     (case ahash_init A alg_name (tfm_key t) of
                                        (ret, st) \<Rightarrow>
                                          (if ret \<noteq> 0
                                           then hash_init_error ret (h3\<lparr>h_request := Some q\<rparr>) (kfree (Some q) s3)
                                           else (0, h3\<lparr>h_request := Some q, h_state := Some st, h_init := True\<rparr>, s3))))))))"

definition cryptodev_hash_deinit :: "'h hash_data \<Rightarrow> kst \<Rightarrow> 'h hash_data \<times> kst" where
  "cryptodev_hash_deinit hdata s =
     (if h_init hdata
      then (hdata\<lparr>h_init := False\<rparr>, free_tfm (h_s hdata) (kfree (h_result hdata) (kfree (h_request hdata) s)))
      else (hdata, s))"

definition cryptodev_hash_reset :: "'h capi \<Rightarrow> 'h hash_data \<Rightarrow> (int \<times> 'h hash_data) option" where
  "cryptodev_hash_reset A hdata =
     (case h_s hdata of None \<Rightarrow> None
      | Some t \<Rightarrow> (case ahash_init A (tfm_name t) (tfm_key t) of
                    (ret, st) \<Rightarrow> Some (ret, hdata\<lparr>h_state := Some st\<rparr>)))"

definition cryptodev_hash_update ::
  "'h capi \<Rightarrow> 'h hash_data \<Rightarrow> cell list option \<Rightarrow> nat \<Rightarrow> kst \<Rightarrow> (int \<times> 'h hash_data) option" where
  "cryptodev_hash_update A hdata l len s =
     do {
       st \<leftarrow> h_state hdata;
       bs \<leftarrow> sg_fetch s l len;
       let (ret, cbs, st') = ahash_update A st bs;
       let res = fold cryptodev_complete cbs ((h_res hdata)\<lparr>completed := False\<rparr>);
       r \<leftarrow> waitfor res ret;
       Some (r, hdata\<lparr>h_state := Some st', h_res := res\<rparr>)
     }"

definition cryptodev_hash_final ::
  "'h capi \<Rightarrow> 'h hash_data \<Rightarrow> (int \<times> byte list \<times> 'h hash_data) option" where
  "cryptodev_hash_final A hdata =
     do {
       st \<leftarrow> h_state hdata;
       let (ret, cbs, out, st') = ahash_final A st;
       let res = fold cryptodev_complete cbs ((h_res hdata)\<lparr>completed := False\<rparr>);
       r \<leftarrow> waitfor res ret;
       Some (r, out, hdata\<lparr>h_state := Some st', h_res := res\<rparr>)
     }"

section \<open>Allocation and release of ciphers and hashes\<close>

definition cipher_ids :: "cipher_data \<Rightarrow> nat list" where
  "cipher_ids cd =
     (if c_init cd then
        (if c_aead cd then opt_ids (c_arequest cd) @ opt_ids (map_option tfm_id (c_as cd))
         else opt_ids (c_request cd) @ opt_ids (map_option tfm_id (c_s cd))) @ opt_ids (c_result cd)
      else [])"

definition hash_ids :: "'h hash_data \<Rightarrow> nat list" where
  "hash_ids h =
     (if h_init h then opt_ids (h_request h) @ opt_ids (h_result h) @ opt_ids (map_option tfm_id (h_s h)) else [])"

lemma cipher_deinit_kfrees:
  "cryptodev_cipher_deinit cd s = (cd\<lparr>c_init := False\<rparr>, kfrees (cipher_ids cd) s)"
  by (cases cd) (simp add: cryptodev_cipher_deinit_def cipher_ids_def free_tfm_def kfree_kfrees Let_def)

lemma hash_deinit_kfrees:
  "cryptodev_hash_deinit h s = (h\<lparr>h_init := False\<rparr>, kfrees (hash_ids h) s)"
  by (cases h) (simp add: cryptodev_hash_deinit_def hash_ids_def free_tfm_def kfree_kfrees)

lemma cipher_init_error_same:
  "cipher_init_error ret ae cd s = (r, cd', s') \<Longrightarrow> same_mem s s' \<and> r = ret \<and> cd' = cd"
  by (auto simp: cipher_init_error_def Let_def free_tfm_def kfree_kfrees split: if_splits)

text \<open>The error exit of a block cipher gives back everything allocated so far.\<close>

lemma cipher_init_error_frees:
  assumes "cipher_init_error ret False cd t = (r, cd', s')" "allocates l s t"
    "distinct l" "set l = set (opt_ids (c_request cd) @ opt_ids (map_option tfm_id (c_s cd)) @ opt_ids (c_result cd))"
    "distinct (opt_ids (c_request cd) @ opt_ids (map_option tfm_id (c_s cd)) @ opt_ids (c_result cd))"
  shows "allocates [] s s'"
proof -
  from assms(1) have e: "s' = kfrees (opt_ids (c_request cd) @ opt_ids (map_option tfm_id (c_s cd)) @ opt_ids (c_result cd)) t"
    by (auto simp: cipher_init_error_def Let_def free_tfm_def kfree_kfrees)
  show ?thesis unfolding e by (rule allocates_free [of "[]" l s t]) (use assms in simp_all)
qed

lemma cipher_init_request_ok:
  assumes "cipher_init_request st ae cd t = (ret, cd', s')" "heap_wf s" "allocates [i] s t"
    and "if ae then c_as cd = Some f else c_s cd = Some f" "tfm_id f = i" "\<not> c_init cd"
    "c_request cd = None" "c_arequest cd = None" "c_result cd = None"
  shows "same_mem t s' \<and> (ret = 0 \<longrightarrow> c_init cd' \<and> c_aead cd' = ae \<and> c_stream cd' = st \<and> c_iv cd' = c_iv cd
      \<and> c_blocksize cd' = c_blocksize cd \<and> c_ivsize cd' = c_ivsize cd \<and> c_alignmask cd' = c_alignmask cd
      \<and> c_as cd' = c_as cd \<and> c_s cd' = c_s cd \<and> allocates (cipher_ids cd') s s')
    \<and> (ret \<noteq> 0 \<longrightarrow> ret < 0 \<and> \<not> c_init cd' \<and> (\<not> ae \<longrightarrow> allocates [] s s'))"
proof -
  have wft: "heap_wf t" using assms(3) by (simp add: allocates_def)
  obtain r t1 where k1: "kalloc ResultObj t = (r, t1)" by fastforce
  obtain q t2 where k2: "kalloc (if ae then ReqAead else ReqAblk) t1 = (q, t2)" by fastforce
  note sm = same_mem_kalloc [OF k1] same_mem_kalloc [OF k2]
  let ?out = "cd\<lparr>c_stream := st, c_aead := ae\<rparr>"
  show ?thesis
  proof (cases r)
    case None
    then have e: "cipher_init_error (- ENOMEM) ae ?out t1 = (ret, cd', s')"
      using assms(1) k1 by (simp add: cipher_init_request_def Let_def)
    have a: "allocates [i] s t1"
      using allocates_trans [OF assms(3) allocates_None [OF wft]] k1 None by fastforce
    note f = cipher_init_error_frees [of _ ?out, OF _ a]
    from cipher_init_error_same [OF e] sm(1) e f assms(4-9) show ?thesis
      by (auto intro: same_mem_trans split: if_splits)
  next
    case (Some r')
    let ?out1 = "?out\<lparr>c_result := Some r', c_res := result_init\<rparr>"
    have a1: "allocates [i, r'] s t1"
      using allocates_trans [OF assms(3) allocates_kalloc [OF wft]] k1 Some by fastforce
    then have wf1: "heap_wf t1" by (simp add: allocates_def)
    show ?thesis
    proof (cases q)
      case None
      then have e: "cipher_init_error (- ENOMEM) ae ?out1 t2 = (ret, cd', s')"
        using assms(1) k1 k2 Some by (simp add: cipher_init_request_def Let_def)
      have a: "allocates [i, r'] s t2"
        using allocates_trans [OF a1 allocates_None [OF wf1]] k2 None by fastforce
      then have d: "i \<noteq> r'" by (simp add: allocates_def)
      note f = cipher_init_error_frees [of _ ?out1, OF _ a]
      from cipher_init_error_same [OF e] sm e f d assms(4-9) show ?thesis
        by (auto intro: same_mem_trans split: if_splits)
    next
      case (Some q')
      with \<open>r = Some r'\<close> have e: "ret = 0" "s' = t2"
        "cd' = (if ae then ?out1\<lparr>c_arequest := Some q'\<rparr> else ?out1\<lparr>c_request := Some q'\<rparr>)\<lparr>c_init := True\<rparr>"
        using assms(1) k1 k2 by (auto simp: cipher_init_request_def Let_def)
      have a: "allocates [i, r', q'] s t2"
        using allocates_trans [OF a1 allocates_kalloc [OF wf1]] k2 Some by fastforce
      then have d: "distinct [i, r', q']" by (simp add: allocates_def)
      have "cipher_ids cd' = [q', i, r']"
        unfolding e(3) cipher_ids_def using assms(4,5) by (auto split: if_splits)
      moreover have "allocates [q', i, r'] s t2" using d by (intro allocates_perm [OF a]) auto
      ultimately show ?thesis
        using sm e by (auto intro: same_mem_trans)
    qed
  qed
qed

lemma cipher_init_ok:
  assumes "cryptodev_cipher_init A name key st ae s = (ret, cd, s')" "heap_wf s"
  shows "same_mem s s'"
    and "ret = 0 \<Longrightarrow> c_init cd \<and> c_aead cd = ae \<and> c_stream cd = st \<and> length (c_iv cd) = 16
      \<and> (\<exists>ti f. (if ae then alloc_aead A name else alloc_ablkcipher A name) = Some ti
          \<and> (if ae then c_as cd else c_s cd) = Some f \<and> tfm_name f = name \<and> tfm_key f = key
          \<and> c_blocksize cd = ti_blocksize ti \<and> c_ivsize cd = ti_ivsize ti)
      \<and> allocates (cipher_ids cd) s s'"
    and "ret \<noteq> 0 \<Longrightarrow> ret < 0 \<and> \<not> c_init cd \<and> (\<not> ae \<longrightarrow> allocates [] s s')"
proof -
  have goal: "same_mem s s' \<and> (ret = 0 \<longrightarrow> c_init cd \<and> c_aead cd = ae \<and> c_stream cd = st \<and> length (c_iv cd) = 16
      \<and> (\<exists>ti f. (if ae then alloc_aead A name else alloc_ablkcipher A name) = Some ti
          \<and> (if ae then c_as cd else c_s cd) = Some f \<and> tfm_name f = name \<and> tfm_key f = key
          \<and> c_blocksize cd = ti_blocksize ti \<and> c_ivsize cd = ti_ivsize ti)
      \<and> allocates (cipher_ids cd) s s')
    \<and> (ret \<noteq> 0 \<longrightarrow> ret < 0 \<and> \<not> c_init cd \<and> (\<not> ae \<longrightarrow> allocates [] s s'))"
  proof (cases "if ae then alloc_aead A name else alloc_ablkcipher A name")
    case None
    with assms show ?thesis
      by (auto simp: cryptodev_cipher_init_def cipher_zero_def allocates_refl)
  next
    case (Some ti)
    obtain p s1 where k: "kalloc (if ae then TfmAead else TfmAblk) s = (p, s1)" by fastforce
    note sm = same_mem_kalloc [OF k]
    show ?thesis
    proof (cases p)
      case None
      with assms Some k sm show ?thesis
        by (auto simp: cryptodev_cipher_init_def cipher_zero_def intro: allocates_None)
    next
      case (Some i)
      have a: "allocates [i] s s1" using allocates_kalloc [OF assms(2)] k Some by blast
      define t where "t = \<lparr>tfm_id = i, tfm_name = name, tfm_key = [], tfm_authsize = ti_maxauthsize ti\<rparr>"
      define out where "out = (if ae then cipher_zero\<lparr>c_as := Some t\<rparr> else cipher_zero\<lparr>c_s := Some t\<rparr>)"
      define out1 where "out1 = (if ae then out\<lparr>c_as := Some (t\<lparr>tfm_key := key\<rparr>)\<rparr> else out\<lparr>c_s := Some (t\<lparr>tfm_key := key\<rparr>)\<rparr>)
        \<lparr>c_blocksize := ti_blocksize ti, c_ivsize := ti_ivsize ti, c_alignmask := ti_alignmask ti\<rparr>"
      have f: "\<not> c_init out" "\<not> c_init out1" "c_request out = None" "c_request out1 = None"
        "c_arequest out1 = None" "c_result out = None" "c_result out1 = None" "c_iv out1 = replicate 16 0"
        "\<not> ae \<Longrightarrow> c_s out = Some t" "(if ae then c_as out1 else c_s out1) = Some (t\<lparr>tfm_key := key\<rparr>)"
        "c_blocksize out1 = ti_blocksize ti" "c_ivsize out1 = ti_ivsize ti"
        by (simp_all add: out_def out1_def cipher_zero_def)
      have "cryptodev_cipher_init A name key st ae s =
         (if \<not> ae \<and> ti_alg ti \<and> 0 < ti_max_keysize ti
            \<and> (length key < ti_min_keysize ti \<or> ti_max_keysize ti < length key)
          then cipher_init_error (- EINVAL) ae out s1
          else if (if ae then aead_setkey A name key else ablkcipher_setkey A name key) \<noteq> 0
          then cipher_init_error (- EINVAL) ae out1 s1
          else cipher_init_request st ae out1 s1)"
        unfolding cryptodev_cipher_init_def Let_def t_def out_def out1_def
        by (simp only: \<open>(if ae then alloc_aead A name else alloc_ablkcipher A name) = Some ti\<close> k Some
            option.case prod.case)
      with assms(1) have "cipher_init_error (- EINVAL) ae out s1 = (ret, cd, s')
          \<or> cipher_init_error (- EINVAL) ae out1 s1 = (ret, cd, s')
          \<or> cipher_init_request st ae out1 s1 = (ret, cd, s')"
        by presburger
      then consider (e0) "cipher_init_error (- EINVAL) ae out s1 = (ret, cd, s')"
        | (e1) "cipher_init_error (- EINVAL) ae out1 s1 = (ret, cd, s')"
        | (ok) "cipher_init_request st ae out1 s1 = (ret, cd, s')" by blast
      then show ?thesis
      proof cases
        case e0
        note fr = cipher_init_error_frees [of _ out, OF _ a]
        from cipher_init_error_same [OF e0] sm e0 fr f show ?thesis
          by (auto simp: t_def intro: same_mem_trans)
      next
        case e1
        note fr = cipher_init_error_frees [of _ out1, OF _ a]
        from cipher_init_error_same [OF e1] sm e1 fr f show ?thesis
          by (auto simp: t_def intro: same_mem_trans)
      next
        case ok
        have "if ae then c_as out1 = Some (t\<lparr>tfm_key := key\<rparr>) else c_s out1 = Some (t\<lparr>tfm_key := key\<rparr>)"
          using f(10) by (cases ae) simp_all
        note r = cipher_init_request_ok [OF ok assms(2) a this _ f(2,4,5,7)]
        show ?thesis
          using r sm f \<open>(if ae then alloc_aead A name else alloc_ablkcipher A name) = Some ti\<close>
          by (auto simp: t_def intro: same_mem_trans split: if_splits)
      qed
    qed
  qed
  from goal show "same_mem s s'" by blast
  from goal show "ret = 0 \<Longrightarrow> c_init cd \<and> c_aead cd = ae \<and> c_stream cd = st \<and> length (c_iv cd) = 16
      \<and> (\<exists>ti f. (if ae then alloc_aead A name else alloc_ablkcipher A name) = Some ti
          \<and> (if ae then c_as cd else c_s cd) = Some f \<and> tfm_name f = name \<and> tfm_key f = key
          \<and> c_blocksize cd = ti_blocksize ti \<and> c_ivsize cd = ti_ivsize ti)
      \<and> allocates (cipher_ids cd) s s'" by blast
  from goal show "ret \<noteq> 0 \<Longrightarrow> ret < 0 \<and> \<not> c_init cd \<and> (\<not> ae \<longrightarrow> allocates [] s s')" by blast
qed

lemma hash_init_error_frees:
  assumes "hash_init_error ret h t = (r, h', s')" "allocates l s t"
    "set l = set (opt_ids (h_result h) @ opt_ids (map_option tfm_id (h_s h)))"
    "distinct (opt_ids (h_result h) @ opt_ids (map_option tfm_id (h_s h)))"
  shows "allocates [] s s' \<and> same_mem t s' \<and> r = ret \<and> h' = h"
proof -
  from assms(1) have e: "s' = kfrees (opt_ids (h_result h) @ opt_ids (map_option tfm_id (h_s h))) t" "r = ret" "h' = h"
    by (auto simp: hash_init_error_def free_tfm_def kfree_kfrees)
  have "allocates [] s s'"
    unfolding e by (rule allocates_free [of "[]" l s t]) (use assms in simp_all)
  with e show ?thesis by (simp add: same_mem_kfrees)
qed

lemma hash_init_ok:
  assumes "cryptodev_hash_init A h name hm key s = (ret, h', s')" "heap_wf s" "\<not> h_init h" "h_result h = None"
  shows "same_mem s s' \<and> (ret = 0 \<longrightarrow> h_init h' \<and> h_state h' \<noteq> None
      \<and> (\<exists>hi f. alloc_ahash A name = Some hi \<and> h_s h' = Some f \<and> tfm_name f = name
          \<and> tfm_key f = (if hm then key else []) \<and> h_digestsize h' = hi_digestsize hi)
      \<and> allocates (hash_ids h') s s')
    \<and> (ret \<noteq> 0 \<longrightarrow> \<not> h_init h' \<and> allocates [] s s')"
proof (cases "alloc_ahash A name")
  case None
  with assms show ?thesis by (auto simp: cryptodev_hash_init_def allocates_refl)
next
  case (Some hi)
  note hi = Some
  obtain p s1 where k1: "kalloc TfmAhash s = (p, s1)" by fastforce
  note sm1 = same_mem_kalloc [OF k1]
  show ?thesis
  proof (cases p)
    case None
    with assms hi k1 sm1 show ?thesis by (auto simp: cryptodev_hash_init_def intro: allocates_None)
  next
    case (Some i)
    note p = Some
    have a1: "allocates [i] s s1" using allocates_kalloc [OF assms(2)] k1 Some by blast
    then have wf1: "heap_wf s1" by (simp add: allocates_def)
    define t where "t = \<lparr>tfm_id = i, tfm_name = name, tfm_key = (if hm then key else []), tfm_authsize = 0\<rparr>"
    define h1 where "h1 = h\<lparr>h_s := Some t\<rparr>"
    define h2 where "h2 = h1\<lparr>h_digestsize := hi_digestsize hi, h_alignmask := hi_alignmask hi\<rparr>"
    have f: "\<not> h_init h1" "\<not> h_init h2" "h_s h1 = Some t" "h_s h2 = Some t" "tfm_id t = i" "h_result h1 = None"
      using assms(3,4) by (simp_all add: h1_def h2_def t_def)
    obtain r s2 where k2: "kalloc ResultObj s1 = (r, s2)" by fastforce
    note sm2 = same_mem_trans [OF sm1 same_mem_kalloc [OF k2]]
    obtain q s3 where k3: "kalloc ReqAhash s2 = (q, s3)" by fastforce
    note sm3 = same_mem_trans [OF sm2 same_mem_kalloc [OF k3]]
    obtain rv st where iv: "ahash_init A name (tfm_key t) = (rv, st)" by fastforce
    note u = assms(1) [unfolded cryptodev_hash_init_def hi k1 p option.case prod.case Let_def,
        folded t_def, folded h1_def, folded h2_def]
    show ?thesis
    proof (cases "hm \<and> ahash_setkey A name key \<noteq> 0")
      case True
      with u have "hash_init_error (- EINVAL) h1 s1 = (ret, h', s')" by simp
      from hash_init_error_frees [OF this a1] f sm1 show ?thesis by (auto intro: same_mem_trans)
    next
      case nk: False
      show ?thesis
      proof (cases r)
        case None
        have a2: "allocates [i] s s2" using allocates_trans [OF a1 allocates_None [OF wf1]] k2 None by fastforce
        from u nk k2 None have "hash_init_error (- ENOMEM) (h2\<lparr>h_result := None\<rparr>) s2 = (ret, h', s')" by simp
        from hash_init_error_frees [OF this a2] f sm2 show ?thesis by (auto intro: same_mem_trans)
      next
        case (Some r')
        note r = Some
        define h3 where "h3 = h2\<lparr>h_result := Some r', h_res := result_init\<rparr>"
        have f3: "\<not> h_init h3" "h_s h3 = Some t" "h_result h3 = Some r'" "h_digestsize h3 = hi_digestsize hi"
          using f by (simp_all add: h3_def h2_def)
        have a2: "allocates [i, r'] s s2" using allocates_trans [OF a1 allocates_kalloc [OF wf1]] k2 Some by fastforce
        then have wf2: "heap_wf s2" and d2: "i \<noteq> r'" by (simp_all add: allocates_def)
        show ?thesis
        proof (cases q)
          case None
          have a3: "allocates [i, r'] s s3" using allocates_trans [OF a2 allocates_None [OF wf2]] k3 None by fastforce
          from u nk k2 r k3 None have "hash_init_error (- ENOMEM) (h3\<lparr>h_request := None\<rparr>) s3 = (ret, h', s')"
            by (simp add: h3_def)
          from hash_init_error_frees [OF this a3] f f3 d2 sm3 show ?thesis
            by (auto simp: insert_commute intro: same_mem_trans)
        next
          case (Some q')
          have a3: "allocates [i, r', q'] s s3" using allocates_trans [OF a2 allocates_kalloc [OF wf2]] k3 Some by fastforce
          then have d3: "distinct [i, r', q']" by (simp add: allocates_def)
          show ?thesis
          proof (cases "rv = 0")
            case True
            with u nk k2 r k3 Some iv have e: "ret = 0" "s' = s3"
              "h' = h3\<lparr>h_request := Some q', h_state := Some st, h_init := True\<rparr>"
              by (auto simp: h3_def t_def)
            have "allocates [q', r', i] s s3" using d3 by (intro allocates_perm [OF a3]) auto
            with e f3 f(5) sm3 hi show ?thesis by (simp add: hash_ids_def t_def)
          next
            case False
            with u nk k2 r k3 Some iv have e: "hash_init_error rv (h3\<lparr>h_request := Some q'\<rparr>) (kfree (Some q') s3) = (ret, h', s')"
              by (simp add: h3_def t_def)
            have a4: "allocates [i, r'] s (kfrees [q'] s3)"
              by (rule allocates_free [of "[i, r']" "[q']" s s3]) (use a3 in simp_all)
            have "same_mem s (kfree (Some q') s3)" by (rule same_mem_trans [OF sm3 same_mem_kfree])
            with hash_init_error_frees [OF e a4 [simplified]] f f3 d2 False show ?thesis
              by (auto simp: insert_commute intro: same_mem_trans)
          qed
        qed
      qed
    qed
  qed
qed

section \<open>Completion of requests\<close>

text \<open>
  The contract of an asynchronous request: when the call says that the request is queued, its
  callback is eventually invoked with something else than \<open>-EINPROGRESS\<close>.  The outcome of the
  request is then what that callback reports.
\<close>

definition completes :: "int \<Rightarrow> int list \<Rightarrow> bool" where
  "completes ret cbs \<longleftrightarrow>
     (ret = - EINPROGRESS \<or> ret = - EBUSY \<longrightarrow> (\<exists>e \<in> set cbs. e \<noteq> - EINPROGRESS))"

definition outcome :: "int \<Rightarrow> int list \<Rightarrow> int" where
  "outcome ret cbs =
     (if ret = - EINPROGRESS \<or> ret = - EBUSY then last (filter (\<lambda>e. e \<noteq> - EINPROGRESS) cbs) else ret)"

lemma fold_complete:
  "fold cryptodev_complete cbs r =
     (let es = filter (\<lambda>e. e \<noteq> - EINPROGRESS) cbs
      in if es = [] then r else r\<lparr>err := last es, completed := True\<rparr>)"
  by (induction cbs arbitrary: r) (auto simp: cryptodev_complete_def Let_def)

lemma waitfor_outcome:
  assumes "completes ret cbs"
  shows "waitfor (fold cryptodev_complete cbs r) ret = Some (outcome ret cbs)"
  using assms
  by (auto simp: waitfor_def outcome_def completes_def fold_complete Let_def filter_empty_conv)

definition cipher_out_ok :: "int \<times> int list \<times> byte list \<times> byte list \<Rightarrow> bool" where
  "cipher_out_ok x = (case x of (ret, cbs, out, iv) \<Rightarrow> completes ret cbs \<and> length iv = 16)"

text \<open>What the module relies on from the crypto API, as its documentation promises it.\<close>

definition capi_ok :: "'h capi \<Rightarrow> bool" where
  "capi_ok A \<longleftrightarrow>
     (\<forall>enc nm k iv bs. length iv = 16 \<longrightarrow>
        cipher_out_ok (ablkcipher_crypt A enc nm k iv bs)
        \<and> length (fst (snd (snd (ablkcipher_crypt A enc nm k iv bs)))) = length bs)
   \<and> (\<forall>enc nm k au iv ad bs. length iv = 16 \<longrightarrow> cipher_out_ok (aead_crypt A enc nm k au iv ad bs))
   \<and> (\<forall>h bs. case ahash_update A h bs of (ret, cbs, h') \<Rightarrow> completes ret cbs)
   \<and> (\<forall>h. case ahash_final A h of (ret, cbs, out, h') \<Rightarrow> completes ret cbs)
   \<and> (\<forall>nm ti. alloc_ablkcipher A nm = Some ti \<longrightarrow> 0 < ti_blocksize ti \<and> ti_ivsize ti \<le> 16)
   \<and> (\<forall>nm ti. alloc_aead A nm = Some ti \<longrightarrow> 0 < ti_blocksize ti \<and> ti_ivsize ti \<le> 16)"

text \<open>A block cipher request as a function on byte strings, when source and destination are there.\<close>

lemma cipher_op_ablk:
  assumes "capi_ok A" "\<not> c_aead cd" "c_s cd = Some t" "length (c_iv cd) = 16"
    "sg_fetch s src len = Some bs" "length bs = len"
    "ablkcipher_crypt A enc (tfm_name t) (tfm_key t) (c_iv cd) bs = (ret, cbs, out, iv)"
    "sg_store s dst out = Some s'"
  shows "cipher_op A enc cd src dst len s
    = Some (outcome ret cbs, cd\<lparr>c_iv := iv, c_res := fold cryptodev_complete cbs ((c_res cd)\<lparr>completed := False\<rparr>)\<rparr>, s')"
proof -
  have "cipher_out_ok (ablkcipher_crypt A enc (tfm_name t) (tfm_key t) (c_iv cd) bs)"
    using assms(1,4) unfolding capi_ok_def by blast
  then have "completes ret cbs" using assms(7) by (simp add: cipher_out_ok_def)
  with assms show ?thesis by (simp add: cipher_op_def cipher_request_def waitfor_outcome)
qed

lemma hash_update_ok:
  assumes "capi_ok A" "h_state h = Some st" "sg_fetch s l n = Some bs" "ahash_update A st bs = (ret, cbs, st')"
  shows "cryptodev_hash_update A h l n s
    = Some (outcome ret cbs, h\<lparr>h_state := Some st', h_res := fold cryptodev_complete cbs ((h_res h)\<lparr>completed := False\<rparr>)\<rparr>)"
proof -
  have "completes ret cbs" using assms(1,4) unfolding capi_ok_def by (metis case_prod_conv)
  with assms show ?thesis by (simp add: cryptodev_hash_update_def waitfor_outcome)
qed

lemma hash_final_ok:
  assumes "capi_ok A" "h_state h = Some st" "ahash_final A st = (ret, cbs, out, st')"
  shows "cryptodev_hash_final A h
    = Some (outcome ret cbs, out, h\<lparr>h_state := Some st', h_res := fold cryptodev_complete cbs ((h_res h)\<lparr>completed := False\<rparr>)\<rparr>)"
proof -
  have "completes ret cbs" using assms(1,3) unfolding capi_ok_def by (metis case_prod_conv)
  with assms show ?thesis by (simp add: cryptodev_hash_final_def waitfor_outcome)
qed

section \<open>Properties\<close>

text \<open>
  A small crypto API for witnesses: one XOR block cipher that completes asynchronously, a stream
  cipher and an AEAD cipher that append a constant tag, and a hash that collects its input.
\<close>

definition xor_key :: "byte list \<Rightarrow> byte list \<Rightarrow> byte list" where
  "xor_key k bs = map (\<lambda>b. b XOR (case k of [] \<Rightarrow> 0 | x # _ \<Rightarrow> x)) bs"

definition capi_demo :: "byte list capi" where
  "capi_demo =
    \<lparr>alloc_ablkcipher = (\<lambda>n.
       if n = ''cbc(aes)'' then Some \<lparr>ti_alg = True, ti_min_keysize = 2, ti_max_keysize = 4, ti_blocksize = 4,
         ti_ivsize = 4, ti_alignmask = 3, ti_maxauthsize = 0\<rparr>
       else if n = ''ctr(aes)'' then Some \<lparr>ti_alg = True, ti_min_keysize = 2, ti_max_keysize = 4, ti_blocksize = 1,
         ti_ivsize = 4, ti_alignmask = 3, ti_maxauthsize = 0\<rparr>
       else None),
     alloc_aead = (\<lambda>n.
       if n = ''gcm(aes)'' then Some \<lparr>ti_alg = True, ti_min_keysize = 2, ti_max_keysize = 4, ti_blocksize = 1,
         ti_ivsize = 4, ti_alignmask = 3, ti_maxauthsize = 2\<rparr>
       else None),
     alloc_ahash = (\<lambda>n. if n = ''sha1'' \<or> n = ''hmac(sha1)'' then Some \<lparr>hi_digestsize = 4, hi_alignmask = 0\<rparr> else None),
     ablkcipher_setkey = (\<lambda>n k. 0),
     aead_setkey = (\<lambda>n k. if length k = 2 then 0 else - EINVAL),
     aead_setauthsize = (\<lambda>n k. if k \<le> 2 then 0 else - EINVAL),
     ahash_setkey = (\<lambda>n k. 0),
     ablkcipher_crypt = (\<lambda>enc n k iv bs. (- EINPROGRESS, [- EINPROGRESS, 0], xor_key k bs, iv)),
     aead_crypt = (\<lambda>enc n k au iv ad bs.
       (0, [], xor_key k (if enc then bs else take (length bs - au) bs) @ (if enc then replicate au 7 else []), iv)),
     ahash_init = (\<lambda>n k. (0, k)),
     ahash_update = (\<lambda>h bs. (0, [], h @ bs)),
     ahash_final = (\<lambda>h. (- EBUSY, [- EINPROGRESS, 0], take 4 (h @ [0, 0, 0, 0]), h)),
     cra_name = (\<lambda>n. [97]), cra_driver_name = (\<lambda>n. [98]), cra_flags = (\<lambda>n. 0)\<rparr>"

lemma capi_demo_ok: "capi_ok capi_demo"
  by (auto simp: capi_ok_def capi_demo_def cipher_out_ok_def completes_def xor_key_def)

text \<open>Waiting for a request (\<open>waitfor\<close>, \<open>cryptodev_complete\<close> of cryptlib.c): after the callbacks
  \<open>cbs\<close> the wait is over exactly when the call did not queue the request or some callback reported
  something else than \<open>-EINPROGRESS\<close>; the value is then the return value of the call, or for a
  queued request the last code reported that is not \<open>-EINPROGRESS\<close>.\<close>

theorem waitfor_reports_outcome:
  "waitfor (fold cryptodev_complete cbs (res\<lparr>completed := False\<rparr>)) ret
    = (if completes ret cbs then Some (outcome ret cbs) else None)"
proof (cases "completes ret cbs")
  case True
  then show ?thesis by (simp add: waitfor_outcome)
next
  case False
  then have "filter (\<lambda>e. e \<noteq> - EINPROGRESS) cbs = []" by (auto simp: completes_def filter_empty_conv)
  with False show ?thesis by (auto simp: waitfor_def fold_complete completes_def)
qed

text \<open>\<open>cryptodev_cipher_init\<close> for block ciphers (cryptlib.c) neither leaks nor frees twice: on
  success the cipher owns the objects that were allocated and \<open>cryptodev_cipher_deinit\<close> gives back
  exactly them; on every error path the kernel objects are those before the call.\<close>

theorem cipher_init_deinit_balanced:
  assumes "heap_wf s" "cryptodev_cipher_init A name key stream False s = (ret, cd, s')"
  shows "(c_init cd \<longleftrightarrow> ret = 0) \<and> live (snd (cryptodev_cipher_deinit cd s')) = live s
    \<and> bad_free (snd (cryptodev_cipher_deinit cd s')) = bad_free s"
proof -
  note ok = cipher_init_ok [OF assms(2,1)]
  show ?thesis
  proof (cases "ret = 0")
    case True
    with ok(2) have a: "allocates ([] @ cipher_ids cd) s s'" "c_init cd" by auto
    then have "allocates [] s (kfrees (cipher_ids cd) s')" by (intro allocates_free) (auto simp: allocates_def)
    with True a show ?thesis by (simp add: cipher_deinit_kfrees allocates_def)
  next
    case False
    with ok(3) have "allocates [] s s'" "\<not> c_init cd" by auto
    with False show ?thesis by (simp add: cryptodev_cipher_deinit_def allocates_def)
  qed
qed

theorem cipher_init_deinit_balanced_witness:
  "heap_wf kst_demo \<and>
   (\<exists>ret cd s'. cryptodev_cipher_init capi_demo ''cbc(aes)'' [1, 2] False False kst_demo = (ret, cd, s') \<and> ret = 0 \<and>
    (c_init cd \<longleftrightarrow> ret = 0) \<and> live (snd (cryptodev_cipher_deinit cd s')) = live kst_demo
    \<and> bad_free (snd (cryptodev_cipher_deinit cd s')) = bad_free kst_demo)"
proof
  show wf: "heap_wf kst_demo" by (simp add: heap_wf_def kst_demo_def)
  obtain ret cd s' where i: "cryptodev_cipher_init capi_demo ''cbc(aes)'' [1, 2] False False kst_demo = (ret, cd, s')"
    by (metis prod_cases3)
  moreover have "fst (cryptodev_cipher_init capi_demo ''cbc(aes)'' [1, 2] False False kst_demo) = 0"
    by (simp add: cryptodev_cipher_init_def capi_demo_def kst_demo_def kalloc_def cipher_init_request_def)
  ultimately show "\<exists>ret cd s'. cryptodev_cipher_init capi_demo ''cbc(aes)'' [1, 2] False False kst_demo = (ret, cd, s') \<and> ret = 0 \<and>
    (c_init cd \<longleftrightarrow> ret = 0) \<and> live (snd (cryptodev_cipher_deinit cd s')) = live kst_demo
    \<and> bad_free (snd (cryptodev_cipher_deinit cd s')) = bad_free kst_demo"
    using cipher_init_deinit_balanced [OF wf i] by simp
qed

text \<open>\<open>cryptodev_hash_init\<close> (cryptlib.c) on a fresh session neither leaks nor frees twice, on any
  path, and \<open>cryptodev_hash_deinit\<close> gives back exactly what it allocated.\<close>

theorem hash_init_deinit_balanced:
  assumes "heap_wf s" "cryptodev_hash_init A hash_zero name hmac key s = (ret, h, s')"
  shows "(h_init h \<longleftrightarrow> ret = 0) \<and> live (snd (cryptodev_hash_deinit h s')) = live s
    \<and> bad_free (snd (cryptodev_hash_deinit h s')) = bad_free s"
proof -
  note ok = hash_init_ok [OF assms(2,1)]
  show ?thesis
  proof (cases "ret = 0")
    case True
    with ok have a: "allocates ([] @ hash_ids h) s s'" "h_init h" by (auto simp: hash_zero_def)
    then have "allocates [] s (kfrees (hash_ids h) s')" by (intro allocates_free) (auto simp: allocates_def)
    with True a show ?thesis by (simp add: hash_deinit_kfrees allocates_def)
  next
    case False
    with ok have "allocates [] s s'" "\<not> h_init h" by (auto simp: hash_zero_def)
    with False show ?thesis by (simp add: cryptodev_hash_deinit_def allocates_def)
  qed
qed

theorem hash_init_deinit_balanced_witness:
  "heap_wf kst_demo \<and>
   (\<exists>ret h s'. cryptodev_hash_init capi_demo hash_zero ''hmac(sha1)'' True [1, 2] kst_demo = (ret, h, s') \<and> ret = 0 \<and>
    (h_init h \<longleftrightarrow> ret = 0) \<and> live (snd (cryptodev_hash_deinit h s')) = live kst_demo
    \<and> bad_free (snd (cryptodev_hash_deinit h s')) = bad_free kst_demo)"
proof
  show wf: "heap_wf kst_demo" by (simp add: heap_wf_def kst_demo_def)
  obtain ret h s' where i: "cryptodev_hash_init capi_demo hash_zero ''hmac(sha1)'' True [1, 2] kst_demo = (ret, h, s')"
    by (metis prod_cases3)
  moreover have "fst (cryptodev_hash_init capi_demo hash_zero ''hmac(sha1)'' True [1, 2] kst_demo) = 0"
    by (simp add: cryptodev_hash_init_def capi_demo_def kst_demo_def kalloc_def)
  ultimately show "\<exists>ret h s'. cryptodev_hash_init capi_demo hash_zero ''hmac(sha1)'' True [1, 2] kst_demo = (ret, h, s') \<and> ret = 0 \<and>
    (h_init h \<longleftrightarrow> ret = 0) \<and> live (snd (cryptodev_hash_deinit h s')) = live kst_demo
    \<and> bad_free (snd (cryptodev_hash_deinit h s')) = bad_free kst_demo"
    using hash_init_deinit_balanced [OF wf i] by simp
qed

text \<open>When the key of an AEAD cipher is refused, \<open>cryptodev_cipher_init\<close> returns \<open>-EINVAL\<close> with the
  transform it allocated still live, and the cipher data does not own it: its error exit tests
  \<open>async.s\<close>, which is null for AEAD ciphers, before freeing \<open>async.as\<close>.\<close>

theorem aead_init_leaks_transform:
  assumes "alloc_aead A name = Some ti" "aead_setkey A name key \<noteq> 0" "kalloc TfmAead s = (Some i, t)"
  shows "\<exists>cd. cryptodev_cipher_init A name key stream True s = (- EINVAL, cd, t) \<and> \<not> c_init cd
    \<and> live t = (i, TfmAead) # live s"
  using assms
  by (auto simp: cryptodev_cipher_init_def cipher_init_error_def cipher_zero_def Let_def kalloc_def
      split: list.splits bool.splits)

theorem aead_init_leaks_transform_witness:
  "\<exists>cd. cryptodev_cipher_init capi_demo ''gcm(aes)'' [1, 2, 3] True True kst_demo
      = (- EINVAL, cd, snd (kalloc TfmAead kst_demo)) \<and> \<not> c_init cd
    \<and> live (snd (kalloc TfmAead kst_demo)) = (0, TfmAead) # live kst_demo"
  by (rule aead_init_leaks_transform [where ti = "\<lparr>ti_alg = True, ti_min_keysize = 2, ti_max_keysize = 4, ti_blocksize = 1,
         ti_ivsize = 4, ti_alignmask = 3, ti_maxauthsize = 2\<rparr>"])
    (simp_all add: capi_demo_def kst_demo_def kalloc_def)

end
