(* ===== verification/Crypto_Session.thy ===== *)
theory Crypto_Session
  imports Cryptlib
begin

text \<open>
  Sessions (\<open>cryptodev-linux/ioctl.c\<close>, from \<open>crypto_create_session\<close> to
  \<open>crypto_get_session_by_sid\<close>, and \<open>struct csession\<close>, \<open>struct fcrypt\<close> of \<open>cryptodev_int.h\<close>).  A
  file's sessions are a list, newest first; a session is locked while an operation works on it.
  The theorems: session identifiers stay distinct, lookup finds what creation stored, finishing
  removes it, and no kernel object is leaked or freed twice.
\<close>

section \<open>Data\<close>

record 'h csession = zcbuf +
  ses_id :: nat
  sem :: bool
  cdata :: cipher_data
  hdata :: "'h hash_data"
  sid :: u32

type_synonym 'h fcrypt = "'h csession list"

record kernel_crypt_op =
  k_cop :: crypt_op
  k_ivlen :: nat
  k_iv :: "byte list"
  k_digestsize :: nat
  k_hash_output :: "byte list"

definition session_zero :: "nat \<Rightarrow> 'h csession" where
  "session_zero i =
     \<lparr>zc_alignmask = 0, array_size = 0, used_pages = 0, readonly_pages = 0, pages_ptr = None, sg_ptr = None,
      pages = [], sg = [], ses_id = i, sem = False, cdata = cipher_zero, hdata = hash_zero, sid = 0\<rparr>"

section \<open>Creation\<close>

text \<open>
  The two switches of \<open>crypto_create_session\<close>: \<open>None\<close> for a bad identifier, otherwise the
  algorithm name, if any, with the stream and AEAD flags, or with the HMAC mode.
\<close>

definition cipher_alg :: "u32 \<Rightarrow> (string option \<times> bool \<times> bool) option" where
  "cipher_alg c =
     (if c = 0 then Some (None, False, False)
      else if c = op_code CRYPTO_DES_CBC then Some (Some ''cbc(des)'', False, False)
      else if c = op_code CRYPTO_3DES_CBC then Some (Some ''cbc(des3_ede)'', False, False)
      else if c = op_code CRYPTO_BLF_CBC then Some (Some ''cbc(blowfish)'', False, False)
      else if c = op_code CRYPTO_AES_CBC then Some (Some ''cbc(aes)'', False, False)
      else if c = op_code CRYPTO_AES_ECB then Some (Some ''ecb(aes)'', False, False)
      else if c = op_code CRYPTO_CAMELLIA_CBC then Some (Some ''cbc(camellia)'', False, False)
      else if c = op_code CRYPTO_AES_CTR then Some (Some ''ctr(aes)'', True, False)
      else if c = op_code CRYPTO_AES_GCM then Some (Some ''gcm(aes)'', True, True)
      else if c = op_code CRYPTO_NULL then Some (Some ''ecb(cipher_null)'', True, False)
      else None)"

definition mac_alg :: "u32 \<Rightarrow> (string option \<times> bool) option" where
  "mac_alg m =
     (if m = 0 then Some (None, True)
      else if m = op_code CRYPTO_MD5_HMAC then Some (Some ''hmac(md5)'', True)
      else if m = op_code CRYPTO_RIPEMD160_HMAC then Some (Some ''hmac(rmd160)'', True)
      else if m = op_code CRYPTO_SHA1_HMAC then Some (Some ''hmac(sha1)'', True)
      else if m = op_code CRYPTO_SHA2_256_HMAC then Some (Some ''hmac(sha256)'', True)
      else if m = op_code CRYPTO_SHA2_384_HMAC then Some (Some ''hmac(sha384)'', True)
      else if m = op_code CRYPTO_SHA2_512_HMAC then Some (Some ''hmac(sha512)'', True)
      else if m = op_code CRYPTO_MD5 then Some (Some ''md5'', False)
      else if m = op_code CRYPTO_RIPEMD160 then Some (Some ''rmd160'', False)
      else if m = op_code CRYPTO_SHA1 then Some (Some ''sha1'', False)
      else if m = op_code CRYPTO_SHA2_256 then Some (Some ''sha256'', False)
      else if m = op_code CRYPTO_SHA2_384 then Some (Some ''sha384'', False)
      else if m = op_code CRYPTO_SHA2_512 then Some (Some ''sha512'', False)
      else None)"

text \<open>\<open>restart:\<close> draw session identifiers until one is new; \<open>None\<close> if that never happens.\<close>

partial_function (option) pick_sid :: "u32 list \<Rightarrow> (nat \<Rightarrow> u32) \<Rightarrow> (u32 \<times> (nat \<Rightarrow> u32)) option" where
  "pick_sid sids r =
     (if r 0 \<in> set sids then pick_sid sids (\<lambda>i. r (Suc i)) else Some (r 0, \<lambda>i. r (Suc i)))"

declare pick_sid.simps [code]

text \<open>The error exits \<open>error_hash\<close> and \<open>error_cipher\<close>.\<close>

definition create_error_cipher :: "'h csession \<Rightarrow> kst \<Rightarrow> kst" where
  "create_error_cipher ses s = kfree (Some (ses_id ses)) s"

definition create_error_hash :: "'h csession \<Rightarrow> kst \<Rightarrow> kst" where
  "create_error_hash ses s =
     (case cryptodev_cipher_deinit (cdata ses) s of
        (_, s1) \<Rightarrow> create_error_cipher ses (kfree (pages_ptr ses) (kfree (sg_ptr ses) s1)))"

text \<open>The cipher part and the hash part of the set-up: a status, the session, the kernel state.\<close>

definition create_cipher ::
  "'h capi \<Rightarrow> string option \<Rightarrow> bool \<Rightarrow> bool \<Rightarrow> session_op \<Rightarrow> 'h csession \<Rightarrow> kst
    \<Rightarrow> int \<times> 'h csession \<times> kst" where
  "create_cipher A alg stream aead sop ses s =
     (case alg of
        None \<Rightarrow> (0, ses, s)
      | Some name \<Rightarrow>
          (if CRYPTO_CIPHER_MAX_KEY_LEN < sop_keylen sop
           then (- EINVAL, ses, create_error_cipher ses s)
           else
             (case copy_from_user (um s) (sop_key sop) (unat (sop_keylen sop)) of
                None \<Rightarrow> (- EFAULT, ses, create_error_cipher ses s)
              | Some key \<Rightarrow>
                  (case cryptodev_cipher_init A name key stream aead s of
                     (ret, c1, s1) \<Rightarrow>
                       (let ses1 = ses\<lparr>cdata := c1\<rparr>
                        in if ret < 0 then (- EINVAL, ses1, create_error_cipher ses1 s1)
                           else (0, ses1, s1))))))"

definition create_hash ::
  "'h capi \<Rightarrow> string option \<Rightarrow> bool \<Rightarrow> bool \<Rightarrow> session_op \<Rightarrow> 'h csession \<Rightarrow> kst
    \<Rightarrow> int \<times> 'h csession \<times> kst" where
  "create_hash A alg hmac_mode aead sop ses s =
     (case alg of
        None \<Rightarrow> (0, ses, s)
      | Some name \<Rightarrow>
          (if aead then (0, ses, s)
           else if CRYPTO_HMAC_MAX_KEY_LEN < sop_mackeylen sop
           then (- EINVAL, ses, create_error_hash ses s)
           else
             (case (if sop_mackey sop \<noteq> 0
                    then copy_from_user (um s) (sop_mackey sop) (unat (sop_mackeylen sop))
                    else Some (map (uninit s) [0..<unat (sop_mackeylen sop)])) of
                None \<Rightarrow> (- EFAULT, ses, create_error_hash ses s)
              | Some key \<Rightarrow>
                  (case cryptodev_hash_init A (hdata ses) name hmac_mode key s of
                     (ret, h1, s1) \<Rightarrow>
                       (let ses1 = ses\<lparr>hdata := h1\<rparr>
                        in if ret \<noteq> 0 then (- EINVAL, ses1, create_error_hash ses1 s1)
                           else (0, ses1, s1))))))"

definition create_arrays :: "'h csession \<Rightarrow> kst \<Rightarrow> int \<times> 'h csession \<times> kst" where
  "create_arrays ses s =
     (let n = DEFAULT_PREALLOC_PAGES;
          ses0 = ses\<lparr>zc_alignmask := max (c_alignmask (cdata ses)) (h_alignmask (hdata ses)), array_size := of_nat n\<rparr>
      in case kalloc PagesArr s of
           (p, s1) \<Rightarrow>
             (case kalloc SgArr s1 of
                (q, s2) \<Rightarrow>
                  (let ses1 = ses0\<lparr>pages_ptr := p, pages := replicate n None, sg_ptr := q, sg := replicate n sg_zero\<rparr>
                   in if q = None \<or> p = None then (- ENOMEM, ses1, create_error_hash ses1 s2)
                      else (0, ses1, s2))))"

definition crypto_create_session ::
  "'h capi \<Rightarrow> 'h fcrypt \<Rightarrow> session_op \<Rightarrow> kst \<Rightarrow> (int \<times> 'h fcrypt \<times> session_op \<times> kst) option" where
  "crypto_create_session A fcr sop s =
     (if sop_cipher sop = 0 \<and> sop_mac sop = 0 then Some (- EINVAL, fcr, sop, s)
      else
        (case cipher_alg (sop_cipher sop) of
           None \<Rightarrow> Some (- EINVAL, fcr, sop, s)
         | Some (alg_name, stream, aead) \<Rightarrow>
             (case mac_alg (sop_mac sop) of
                None \<Rightarrow> Some (- EINVAL, fcr, sop, s)
              | Some (hash_name, hmac_mode) \<Rightarrow>
                  (case kalloc SessionObj s of
                     (None, s1) \<Rightarrow> Some (- ENOMEM, fcr, sop, s1)
                   | (Some i, s1) \<Rightarrow>
                       (case create_cipher A alg_name stream aead sop (session_zero i) s1 of
                          (ret, ses2, s2) \<Rightarrow>
                            (if ret \<noteq> 0 then Some (ret, fcr, sop, s2)
                             else
                               (case create_hash A hash_name hmac_mode aead sop ses2 s2 of
                                  (ret, ses3, s3) \<Rightarrow>
                                    (if ret \<noteq> 0 then Some (ret, fcr, sop, s3)
                                     else
                                       (case create_arrays ses3 s3 of
                                          (ret, ses4, s4) \<Rightarrow>
                                            (if ret \<noteq> 0 then Some (ret, fcr, sop, s4)
                                             else do {
                                               (d, r) \<leftarrow> pick_sid (map sid fcr) (random s4);
                                               Some (0, ses4\<lparr>sid := d\<rparr> # fcr, sop\<lparr>sop_ses := d\<rparr>, s4\<lparr>random := r\<rparr>)
                                             }))))))))))"

section \<open>Lookup and removal\<close>

definition crypto_destroy_session :: "'h csession \<Rightarrow> kst \<Rightarrow> kst option" where
  "crypto_destroy_session ses s =
     (if sem ses then None
      else
        (let s1 = snd (cryptodev_cipher_deinit (cdata ses) s);
             s2 = snd (cryptodev_hash_deinit (hdata ses) s1)
         in Some (kfree (Some (ses_id ses)) (kfree (sg_ptr ses) (kfree (pages_ptr ses) s2)))))"

definition find_session :: "u32 \<Rightarrow> 'h fcrypt \<Rightarrow> 'h csession option" where
  "find_session d fcr = find (\<lambda>x. sid x = d) fcr"

fun remove_session :: "u32 \<Rightarrow> 'h fcrypt \<Rightarrow> 'h fcrypt" where
  "remove_session d [] = []"
| "remove_session d (x # xs) = (if sid x = d then xs else x # remove_session d xs)"

fun replace_session :: "'h csession \<Rightarrow> 'h fcrypt \<Rightarrow> 'h fcrypt" where
  "replace_session y [] = []"
| "replace_session y (x # xs) = (if sid x = sid y then y # xs else x # replace_session y xs)"

text \<open>
  After the loop \<open>ses_ptr\<close> is never null, so the \<open>-ENOENT\<close> branch of the source is not taken.
\<close>

definition crypto_finish_session :: "'h fcrypt \<Rightarrow> u32 \<Rightarrow> kst \<Rightarrow> (int \<times> 'h fcrypt \<times> kst) option" where
  "crypto_finish_session fcr d s =
     (case find_session d fcr of
        None \<Rightarrow> Some (0, fcr, s)
      | Some ses \<Rightarrow> do { s' \<leftarrow> crypto_destroy_session ses s; Some (0, remove_session d fcr, s') })"

fun crypto_finish_all_sessions :: "'h fcrypt \<Rightarrow> kst \<Rightarrow> kst option" where
  "crypto_finish_all_sessions [] s = Some s"
| "crypto_finish_all_sessions (x # xs) s =
     do { s' \<leftarrow> crypto_destroy_session x s; crypto_finish_all_sessions xs s' }"

text \<open>The lookup locks the session it finds; waiting on a locked one is \<open>None\<close>.\<close>

definition crypto_get_session_by_sid ::
  "'h fcrypt \<Rightarrow> u32 \<Rightarrow> ('h csession option \<times> 'h fcrypt) option" where
  "crypto_get_session_by_sid fcr d =
     (case find_session d fcr of
        None \<Rightarrow> Some (None, fcr)
      | Some ses \<Rightarrow>
          (if sem ses then None
           else Some (Some (ses\<lparr>sem := True\<rparr>), replace_session (ses\<lparr>sem := True\<rparr>) fcr)))"

definition crypto_put_session :: "'h csession \<Rightarrow> 'h fcrypt \<Rightarrow> 'h fcrypt" where
  "crypto_put_session ses fcr = replace_session (ses\<lparr>sem := False\<rparr>) fcr"

section \<open>The session list as a store\<close>

text \<open>
  What the other parts of the module rely on: a store addressed by session identifier, in which
  replacing the value of a session keeps the identifiers.
\<close>

locale session_store =
  fixes key :: "'s \<Rightarrow> u32" and lookup :: "u32 \<Rightarrow> 'f \<Rightarrow> 's option" and insert :: "'s \<Rightarrow> 'f \<Rightarrow> 'f"
    and remove :: "u32 \<Rightarrow> 'f \<Rightarrow> 'f" and replace :: "'s \<Rightarrow> 'f \<Rightarrow> 'f" and ok :: "'f \<Rightarrow> bool"
  assumes lookup_key: "lookup d f = Some x \<Longrightarrow> key x = d"
    and lookup_insert: "lookup d (insert x f) = (if d = key x then Some x else lookup d f)"
    and lookup_remove: "ok f \<Longrightarrow> lookup d (remove e f) = (if d = e then None else lookup d f)"
    and lookup_replace: "lookup d (replace x f) = (if d = key x \<and> lookup d f \<noteq> None then Some x else lookup d f)"
    and ok_insert: "ok f \<Longrightarrow> lookup (key x) f = None \<Longrightarrow> ok (insert x f)"
    and ok_remove: "ok f \<Longrightarrow> ok (remove d f)"
    and ok_replace: "ok f \<Longrightarrow> ok (replace x f)"
    and remove_insert: "remove (key x) (insert x f) = f"
begin

text \<open>An operation on one session that is looked up, changed and put back leaves the others alone.\<close>

lemma update_other:
  assumes "lookup d f = Some x" "key y = d" "e \<noteq> d"
  shows "lookup e (replace y f) = lookup e f"
  using assms by (simp add: lookup_replace)

lemma update_same:
  assumes "lookup d f = Some x" "key y = d"
  shows "lookup d (replace y f) = Some y"
  using assms by (simp add: lookup_replace)

lemma update_twice:
  assumes "lookup d f = Some x" "key y = d" "key z = d"
  shows "lookup e (replace z (replace y f)) = lookup e (replace z f)"
  using assms by (simp add: lookup_replace)

lemma create_finish:
  assumes "ok f" "lookup (key x) f = None"
  shows "ok (insert x f)" "lookup (key x) (insert x f) = Some x" "remove (key x) (insert x f) = f"
  using assms by (simp_all add: ok_insert lookup_insert remove_insert)

end

definition sids_ok :: "'h fcrypt \<Rightarrow> bool" where
  "sids_ok fcr \<longleftrightarrow> distinct (map sid fcr)"

lemma find_session_simps [simp]:
  "find_session d [] = None"
  "find_session d (x # xs) = (if sid x = d then Some x else find_session d xs)"
  by (simp_all add: find_session_def)

lemma find_session_None: "find_session d fcr = None \<longleftrightarrow> d \<notin> set (map sid fcr)"
  by (induction fcr) auto

lemma find_session_Some: "find_session d fcr = Some x \<Longrightarrow> sid x = d \<and> x \<in> set fcr"
  by (induction fcr) (auto split: if_splits)

lemma sids_replace [simp]: "map sid (replace_session y fcr) = map sid fcr"
  by (induction fcr) auto

lemma sids_remove: "set (map sid (remove_session d fcr)) \<subseteq> set (map sid fcr)"
  by (induction fcr) auto

lemma find_remove:
  "distinct (map sid fcr) \<Longrightarrow>
    find_session d (remove_session e fcr) = (if d = e then None else find_session d fcr)"
proof (induction fcr)
  case (Cons x xs)
  then show ?case by (auto simp: find_session_None)
qed simp

lemma distinct_remove: "distinct (map sid fcr) \<Longrightarrow> distinct (map sid (remove_session d fcr))"
proof (induction fcr)
  case (Cons x xs)
  then show ?case using sids_remove [of d xs] by auto
qed simp

interpretation fcr: session_store sid find_session "(#)" remove_session replace_session sids_ok
proof unfold_locales
  fix d and x :: "'h csession" and f
  show "find_session d (replace_session x f)
      = (if d = sid x \<and> find_session d f \<noteq> None then Some x else find_session d f)"
    by (induction f) auto
qed (auto simp: sids_ok_def find_session_None find_remove distinct_remove dest: find_session_Some)

section \<open>Well-formed sessions\<close>

definition session_ids :: "'h csession \<Rightarrow> nat list" where
  "session_ids ses = cipher_ids (cdata ses) @ hash_ids (hdata ses) @ opt_ids (pages_ptr ses)
     @ opt_ids (sg_ptr ses) @ [ses_id ses]"

definition cdata_ok :: "cipher_data \<Rightarrow> bool" where
  "cdata_ok cd \<longleftrightarrow> length (c_iv cd) = 16 \<and>
     (c_init cd \<longrightarrow> 0 < c_blocksize cd \<and> c_ivsize cd \<le> 16
       \<and> (if c_aead cd then c_as cd \<noteq> None else c_s cd \<noteq> None))"

definition hdata_ok :: "'h hash_data \<Rightarrow> bool" where
  "hdata_ok h \<longleftrightarrow> (h_init h \<longrightarrow> h_state h \<noteq> None \<and> h_s h \<noteq> None)"

definition ses_ok :: "'h csession \<Rightarrow> bool" where
  "ses_ok ses \<longleftrightarrow> zc_wf ses \<and> cdata_ok (cdata ses) \<and> hdata_ok (hdata ses)"

definition fcr_wf :: "'h fcrypt \<Rightarrow> kst \<Rightarrow> bool" where
  "fcr_wf fcr s \<longleftrightarrow> heap_wf s \<and> sids_ok fcr \<and> (\<forall>ses \<in> set fcr. ses_ok ses)
     \<and> distinct (concat (map session_ids fcr)) \<and> set (concat (map session_ids fcr)) \<subseteq> ids s"

lemma destroy_kfrees:
  "\<not> sem ses \<Longrightarrow> crypto_destroy_session ses s = Some (kfrees (session_ids ses) s)"
  by (simp add: crypto_destroy_session_def session_ids_def cipher_deinit_kfrees hash_deinit_kfrees
      kfree_kfrees [of "pages_ptr ses"] kfree_kfrees [of "sg_ptr ses"] Let_def)

lemma pick_sid_new:
  assumes "r j \<notin> set sids"
  shows "\<exists>d r'. pick_sid sids r = Some (d, r') \<and> d \<notin> set sids"
  using assms
proof (induction j arbitrary: r)
  case 0
  then show ?case by (subst pick_sid.simps) simp
next
  case (Suc j)
  show ?case
  proof (cases "r 0 \<in> set sids")
    case True
    with Suc.IH [of "\<lambda>i. r (Suc i)"] Suc.prems show ?thesis by (subst pick_sid.simps) simp
  next
    case False
    then show ?thesis by (subst pick_sid.simps) simp
  qed
qed

lemma pick_sid_fresh: "pick_sid sids r = Some y \<Longrightarrow> fst y \<notin> set sids"
  by (erule pick_sid.raw_induct [rotated]) (auto split: if_splits)

lemma pick_sid_result: "pick_sid sids r = Some (d, r') \<Longrightarrow> d \<notin> set sids"
  using pick_sid_fresh by fastforce

section \<open>Creation\<close>

lemma random_frame [simp]:
  "allocates l s (t\<lparr>random := r\<rparr>) = allocates l s t" "heap_wf (t\<lparr>random := r\<rparr>) = heap_wf t"
  "ids (t\<lparr>random := r\<rparr>) = ids t" "same_mem (s\<lparr>random := r\<rparr>) (t\<lparr>random := r\<rparr>) = same_mem (s\<lparr>random := random t\<rparr>) t"
  by (simp_all add: allocates_def heap_wf_def ids_def same_mem_def)

lemma same_mem_random: "same_mem s t \<Longrightarrow> same_mem (s\<lparr>random := random t\<rparr>) t \<and> random t = random s"
  by (simp add: same_mem_def)

lemma allocates_opt: "heap_wf s \<Longrightarrow> kalloc k s = (p, s') \<Longrightarrow> allocates (opt_ids p) s s'"
  by (cases p) (auto intro: allocates_kalloc allocates_None)

lemma allocates_wf: "allocates l s t \<Longrightarrow> heap_wf t"
  by (simp add: allocates_def)

lemma allocates_undo:
  "allocates l s t \<Longrightarrow> distinct m \<Longrightarrow> set m = set l \<Longrightarrow> allocates [] s (kfrees m t)"
  using allocates_free [of "[]" l s t m] by simp

lemma create_cipher_ok:
  assumes c: "create_cipher A alg st ae sop ses s = (ret, ses', s')"
    and a: "allocates [ses_id ses] s0 s" and z: "cdata ses = cipher_zero" and A: "capi_ok A"
  shows "same_mem s s' \<and> (ret = 0 \<longrightarrow> (\<exists>cd. ses' = ses\<lparr>cdata := cd\<rparr> \<and> cdata_ok cd
      \<and> (c_init cd \<longleftrightarrow> alg \<noteq> None) \<and> allocates (ses_id ses # cipher_ids cd) s0 s'))
    \<and> (ret \<noteq> 0 \<longrightarrow> ret < 0 \<and> (\<not> ae \<longrightarrow> allocates [] s0 s'))"
proof -
  have undo: "allocates [] s0 (kfree (Some (ses_id ses)) s)" "same_mem s (kfree (Some (ses_id ses)) s)"
    using allocates_undo [OF a, of "[ses_id ses]"] by (auto intro: same_mem_kfree)
  show ?thesis
  proof (cases alg)
    case None
    have f: "cdata_ok cipher_zero" "\<not> c_init cipher_zero" "cipher_ids cipher_zero = []"
      by (simp_all add: cipher_ids_def cdata_ok_def cipher_zero_def)
    have "ses\<lparr>cdata := cipher_zero\<rparr> = ses" by (simp flip: z)
    with c a f None show ?thesis by (auto simp: create_cipher_def intro!: exI [of _ cipher_zero])
  next
    case (Some name)
    show ?thesis
    proof (cases "CRYPTO_CIPHER_MAX_KEY_LEN < sop_keylen sop \<or> copy_from_user (um s) (sop_key sop) (unat (sop_keylen sop)) = None")
      case True
      with c Some undo show ?thesis by (auto simp: create_cipher_def create_error_cipher_def split: if_splits)
    next
      case False
      then obtain key where k: "copy_from_user (um s) (sop_key sop) (unat (sop_keylen sop)) = Some key" by auto
      obtain rv cd s1 where i: "cryptodev_cipher_init A name key st ae s = (rv, cd, s1)" by (metis prod_cases3)
      note ok = cipher_init_ok [OF i allocates_wf [OF a]]
      from c Some False k i have e: "if rv < 0 then ret = - EINVAL \<and> s' = kfree (Some (ses_id ses)) s1
          else ret = 0 \<and> ses' = ses\<lparr>cdata := cd\<rparr> \<and> s' = s1"
        by (auto simp: create_cipher_def create_error_cipher_def Let_def split: if_splits)
      show ?thesis
      proof (cases "rv = 0")
        case True
        with ok(2) have "allocates ([ses_id ses] @ cipher_ids cd) s0 s1" by (intro allocates_trans [OF a]) simp
        moreover have "cdata_ok cd"
          using ok(2) [OF True] A unfolding capi_ok_def cdata_ok_def by (auto split: if_splits)
        ultimately show ?thesis using e True ok(1,2) Some by auto
      next
        case False
        with ok(3) have n: "rv < 0" "\<not> ae \<Longrightarrow> allocates [] s s1" by auto
        have "\<not> ae \<Longrightarrow> allocates [ses_id ses] s0 s1" using allocates_trans [OF a n(2)] by simp
        then have "\<not> ae \<Longrightarrow> allocates [] s0 (kfree (Some (ses_id ses)) s1)"
          using allocates_undo [of "[ses_id ses]" s0 s1 "[ses_id ses]"] by simp
        with e n(1) ok(1) show ?thesis by (auto intro: same_mem_trans same_mem_kfree)
      qed
    qed
  qed
qed

lemma create_error_hash_kfrees:
  "create_error_hash ses s =
     kfrees (cipher_ids (cdata ses) @ opt_ids (sg_ptr ses) @ opt_ids (pages_ptr ses) @ [ses_id ses]) s"
  by (simp add: create_error_hash_def create_error_cipher_def cipher_deinit_kfrees
      kfree_kfrees [of "pages_ptr ses"] kfree_kfrees [of "sg_ptr ses"])

lemma create_hash_ok:
  assumes c: "create_hash A alg hm ae sop ses s = (ret, ses', s')"
    and a: "allocates (ses_id ses # cipher_ids (cdata ses)) s0 s" and z: "hdata ses = hash_zero"
    and p: "pages_ptr ses = None" "sg_ptr ses = None"
  shows "same_mem s s' \<and> (ret = 0 \<longrightarrow> (\<exists>h. ses' = ses\<lparr>hdata := h\<rparr> \<and> hdata_ok h
      \<and> (h_init h \<longleftrightarrow> alg \<noteq> None \<and> \<not> ae) \<and> allocates (ses_id ses # cipher_ids (cdata ses) @ hash_ids h) s0 s'))
    \<and> (ret \<noteq> 0 \<longrightarrow> ret < 0 \<and> allocates [] s0 s')"
proof -
  have d: "distinct (cipher_ids (cdata ses) @ [ses_id ses])" using a by (auto simp: allocates_def)
  have undo: "allocates [] s0 (create_error_hash ses' t)" if "allocates (ses_id ses # cipher_ids (cdata ses)) s0 t"
    "cdata ses' = cdata ses" "pages_ptr ses' = None" "sg_ptr ses' = None" "ses_id ses' = ses_id ses" for t and ses' :: "'a csession"
    using allocates_undo [OF that(1), of "cipher_ids (cdata ses) @ [ses_id ses]"] d that
    by (auto simp: create_error_hash_kfrees)
  have f: "hdata_ok (hdata ses)" "\<not> h_init (hdata ses)" "hash_ids (hdata ses) = []"
    by (simp_all add: z hash_ids_def hdata_ok_def hash_zero_def)
  have noop: "\<exists>h. ses = ses\<lparr>hdata := h\<rparr> \<and> hdata_ok h \<and> \<not> h_init h
      \<and> allocates (ses_id ses # cipher_ids (cdata ses) @ hash_ids h) s0 s"
    using f a by (intro exI [of _ "hdata ses"]) simp
  have sm: "same_mem t (create_error_hash ses' t)" for t and ses' :: "'a csession"
    unfolding create_error_hash_kfrees by (rule same_mem_kfrees)
  show ?thesis
  proof (cases alg)
    case None
    then have "ret = 0" "ses' = ses" "s' = s" using c by (simp_all add: create_hash_def)
    with None noop show ?thesis by simp
  next
    case (Some name)
    define kp where "kp = (if sop_mackey sop \<noteq> 0
        then copy_from_user (um s) (sop_mackey sop) (unat (sop_mackeylen sop))
        else Some (map (uninit s) [0..<unat (sop_mackeylen sop)]))"
    show ?thesis
    proof (cases "ae \<or> CRYPTO_HMAC_MAX_KEY_LEN < sop_mackeylen sop \<or> kp = None")
      case True
      show ?thesis
      proof (cases ae)
        case True
        then have "ret = 0" "ses' = ses" "s' = s" using c Some by (simp_all add: create_hash_def)
        with True noop show ?thesis by simp
      next
        case ae: False
        then have "ret < 0" "s' = create_error_hash ses s"
          using c Some True unfolding create_hash_def kp_def [symmetric] by (auto split: if_splits)
        with undo [OF a refl p refl] sm show ?thesis by simp
      qed
    next
      case False
      then obtain key where k: "kp = Some key" by auto
      obtain rv h s1 where i: "cryptodev_hash_init A (hdata ses) name hm key s = (rv, h, s1)" by (metis prod_cases3)
      have "\<not> h_init (hdata ses)" "h_result (hdata ses) = None" using z by (simp_all add: hash_zero_def)
      note ok = hash_init_ok [OF i allocates_wf [OF a] this]
      from c Some False k i have e: "if rv \<noteq> 0 then ret = - EINVAL \<and> s' = create_error_hash (ses\<lparr>hdata := h\<rparr>) s1
          else ret = 0 \<and> ses' = ses\<lparr>hdata := h\<rparr> \<and> s' = s1"
        unfolding create_hash_def kp_def [symmetric] by (auto simp: Let_def split: if_splits)
      show ?thesis
      proof (cases "rv = 0")
        case True
        with ok have "allocates ((ses_id ses # cipher_ids (cdata ses)) @ hash_ids h) s0 s1"
          by (intro allocates_trans [OF a]) simp
        with e True ok False Some show ?thesis by (auto simp: hdata_ok_def)
      next
        case nz: False
        with ok have "allocates [] s s1" by simp
        from allocates_trans [OF a this] have "allocates (ses_id ses # cipher_ids (cdata ses)) s0 s1" by simp
        from undo [OF this] e nz p ok sm show ?thesis by (auto intro: same_mem_trans)
      qed
    qed
  qed
qed

lemma create_arrays_ok:
  assumes c: "create_arrays ses s = (ret, ses', s')"
    and a: "allocates (ses_id ses # cipher_ids (cdata ses) @ hash_ids (hdata ses)) s0 s"
    and z: "pages_ptr ses = None" "sg_ptr ses = None" "cdata_ok (cdata ses)" "hdata_ok (hdata ses)"
  shows "same_mem s s' \<and> (ret = 0 \<longrightarrow> ses_ok ses' \<and> sem ses' = sem ses \<and> cdata ses' = cdata ses
      \<and> hdata ses' = hdata ses \<and> allocates (session_ids ses') s0 s')
    \<and> (ret \<noteq> 0 \<longrightarrow> ret = - ENOMEM \<and> allocates (hash_ids (hdata ses)) s0 s')"
proof -
  obtain p s1 where k1: "kalloc PagesArr s = (p, s1)" by fastforce
  obtain q s2 where k2: "kalloc SgArr s1 = (q, s2)" by fastforce
  note sm = same_mem_trans [OF same_mem_kalloc [OF k1] same_mem_kalloc [OF k2]]
  define ses1 where "ses1 = ses\<lparr>zc_alignmask := max (c_alignmask (cdata ses)) (h_alignmask (hdata ses)),
    array_size := of_nat DEFAULT_PREALLOC_PAGES,
    pages_ptr := p, pages := replicate DEFAULT_PREALLOC_PAGES None, sg_ptr := q, sg := replicate DEFAULT_PREALLOC_PAGES sg_zero\<rparr>"
  have f: "ses_id ses1 = ses_id ses" "cdata ses1 = cdata ses" "hdata ses1 = hdata ses" "pages_ptr ses1 = p"
    "sg_ptr ses1 = q" "sem ses1 = sem ses" by (simp_all add: ses1_def)
  have wf: "zc_wf ses1" by (simp add: ses1_def zc_wf_def)
  have e: "(ret, ses', s') = (if q = None \<or> p = None then (- ENOMEM, ses1, create_error_hash ses1 s2) else (0, ses1, s2))"
    using c unfolding create_arrays_def Let_def k1 prod.case k2 ses1_def by (rule sym)
  have a1: "allocates ((ses_id ses # cipher_ids (cdata ses) @ hash_ids (hdata ses)) @ opt_ids p) s0 s1"
    by (rule allocates_trans [OF a allocates_opt [OF allocates_wf [OF a] k1]])
  have a2: "allocates (((ses_id ses # cipher_ids (cdata ses) @ hash_ids (hdata ses)) @ opt_ids p) @ opt_ids q) s0 s2"
    by (rule allocates_trans [OF a1 allocates_opt [OF allocates_wf [OF a1] k2]])
  let ?freed = "cipher_ids (cdata ses) @ opt_ids q @ opt_ids p @ [ses_id ses]"
  have d: "distinct (hash_ids (hdata ses) @ ?freed)"
    using a2 by (auto simp: allocates_def)
  show ?thesis
  proof (cases "q = None \<or> p = None")
    case True
    have "allocates (hash_ids (hdata ses) @ ?freed) s0 s2" using d by (intro allocates_perm [OF a2]) auto
    then have "allocates (hash_ids (hdata ses)) s0 (kfrees ?freed s2)" using d by (intro allocates_free) auto
    then have "allocates (hash_ids (hdata ses)) s0 (create_error_hash ses1 s2)"
      unfolding create_error_hash_kfrees f .
    moreover have "same_mem s (create_error_hash ses1 s2)"
      unfolding create_error_hash_kfrees using sm by (rule same_mem_kfreesI)
    ultimately show ?thesis using e True by simp
  next
    case False
    have "allocates (session_ids ses1) s0 s2"
      unfolding session_ids_def f using d by (intro allocates_perm [OF a2]) auto
    then show ?thesis using e False sm f wf z by (simp add: ses_ok_def)
  qed
qed

lemma fcr_wf_Cons:
  assumes "fcr_wf fcr s" "allocates (session_ids ses) s t" "ses_ok ses" "sid ses \<notin> set (map sid fcr)"
  shows "fcr_wf (ses # fcr) t"
proof -
  from assms(2) obtain objs where o: "live t = objs @ live s" "fst ` set objs = set (session_ids ses)"
    by (auto simp: allocates_def)
  have "ids t = set (session_ids ses) \<union> ids s" using o by (auto simp: ids_def)
  moreover have "set (session_ids ses) \<inter> ids s = {}" "distinct (session_ids ses)" "heap_wf t"
    using assms(2) by (auto simp: allocates_def)
  ultimately show ?thesis using assms by (auto simp: fcr_wf_def sids_ok_def)
qed

lemma create_session_cases:
  assumes A: "capi_ok A" and w: "fcr_wf fcr s"
  shows "(\<exists>ret t. crypto_create_session A fcr sop s = Some (ret, fcr, sop, t) \<and> ret < 0 \<and> same_mem s t)
    \<or> (\<exists>ses t. crypto_create_session A fcr sop s =
          do { (d, r) \<leftarrow> pick_sid (map sid fcr) (random t);
               Some (0, ses\<lparr>sid := d\<rparr> # fcr, sop\<lparr>sop_ses := d\<rparr>, t\<lparr>random := r\<rparr>) }
        \<and> same_mem s t \<and> ses_ok ses \<and> \<not> sem ses \<and> allocates (session_ids ses) s t)"
    (is "?fail \<or> ?go")
proof (cases "\<exists>alg st ae hn hm i s1. \<not> (sop_cipher sop = 0 \<and> sop_mac sop = 0)
      \<and> cipher_alg (sop_cipher sop) = Some (alg, st, ae) \<and> mac_alg (sop_mac sop) = Some (hn, hm)
      \<and> kalloc SessionObj s = (Some i, s1)")
  case False
  then consider "sop_cipher sop = 0 \<and> sop_mac sop = 0 \<or> cipher_alg (sop_cipher sop) = None
      \<or> (\<exists>x. cipher_alg (sop_cipher sop) = Some x) \<and> mac_alg (sop_mac sop) = None"
    | s1 where "\<exists>x. cipher_alg (sop_cipher sop) = Some x" "\<exists>x. mac_alg (sop_mac sop) = Some x" "kalloc SessionObj s = (None, s1)"
    by (metis option.exhaust prod.exhaust)
  then have ?fail
    by cases (auto simp: crypto_create_session_def dest: same_mem_kalloc)
  then show ?thesis ..
next
  case True
  then obtain alg st ae hn hm i s1 where h: "\<not> (sop_cipher sop = 0 \<and> sop_mac sop = 0)"
    "cipher_alg (sop_cipher sop) = Some (alg, st, ae)" "mac_alg (sop_mac sop) = Some (hn, hm)"
    and k: "kalloc SessionObj s = (Some i, s1)" by blast
  let ?z = "session_zero i :: 'a csession"
  have z: "ses_id ?z = i" "cdata ?z = cipher_zero" "hdata ?z = hash_zero" "pages_ptr ?z = None" "sg_ptr ?z = None" "\<not> sem ?z"
    by (simp_all add: session_zero_def)
  obtain r2 ses2 s2 where c2: "create_cipher A alg st ae sop ?z s1 = (r2, ses2, s2)" by (metis prod_cases3)
  obtain r3 ses3 s3 where c3: "create_hash A hn hm ae sop ses2 s2 = (r3, ses3, s3)" by (metis prod_cases3)
  obtain r4 ses4 s4 where c4: "create_arrays ses3 s3 = (r4, ses4, s4)" by (metis prod_cases3)
  have top: "crypto_create_session A fcr sop s =
     (if r2 \<noteq> 0 then Some (r2, fcr, sop, s2) else if r3 \<noteq> 0 then Some (r3, fcr, sop, s3)
      else if r4 \<noteq> 0 then Some (r4, fcr, sop, s4)
      else do { (d, r) \<leftarrow> pick_sid (map sid fcr) (random s4);
                Some (0, ses4\<lparr>sid := d\<rparr> # fcr, sop\<lparr>sop_ses := d\<rparr>, s4\<lparr>random := r\<rparr>) })"
    unfolding crypto_create_session_def by (simp only: h k option.case prod.case c2 c3 c4 if_False)
  have "heap_wf s" using w by (simp add: fcr_wf_def)
  then have "allocates [ses_id ?z] s s1" using allocates_kalloc [OF _ k] z by simp
  note ok2 = create_cipher_ok [OF c2 this z(2) A]
  have sm2: "same_mem s s2" using same_mem_kalloc [OF k] ok2 by (blast intro: same_mem_trans)
  show ?thesis
  proof (cases "r2 = 0")
    case False
    with top ok2 sm2 have ?fail by simp
    then show ?thesis ..
  next
    case r2: True
    with ok2 obtain cd where cd: "ses2 = ?z\<lparr>cdata := cd\<rparr>" "cdata_ok cd" "allocates (i # cipher_ids cd) s s2"
      using z by auto
    have "allocates (ses_id ses2 # cipher_ids (cdata ses2)) s s2" "hdata ses2 = hash_zero"
      "pages_ptr ses2 = None" "sg_ptr ses2 = None" using cd z by simp_all
    note ok3 = create_hash_ok [OF c3 this]
    have sm3: "same_mem s s3" using sm2 ok3 by (blast intro: same_mem_trans)
    show ?thesis
    proof (cases "r3 = 0")
      case False
      with top r2 ok3 sm3 have ?fail by simp
      then show ?thesis ..
    next
      case r3: True
      with ok3 obtain hh where hh: "ses3 = ses2\<lparr>hdata := hh\<rparr>" "hdata_ok hh"
        "allocates (ses_id ses2 # cipher_ids (cdata ses2) @ hash_ids hh) s s3" by auto
      have "allocates (ses_id ses3 # cipher_ids (cdata ses3) @ hash_ids (hdata ses3)) s s3"
        "pages_ptr ses3 = None" "sg_ptr ses3 = None" "cdata_ok (cdata ses3)" "hdata_ok (hdata ses3)"
        using hh cd z by simp_all
      note ok4 = create_arrays_ok [OF c4 this]
      have sm4: "same_mem s s4" using sm3 ok4 by (blast intro: same_mem_trans)
      show ?thesis
      proof (cases "r4 = 0")
        case False
        with top r2 r3 ok4 sm4 have ?fail by simp
        then show ?thesis ..
      next
        case True
        then have "sem ses4 = sem ses3" using ok4 by simp
        then have "\<not> sem ses4" using hh(1) cd(1) z(6) by simp
        with top r2 r3 True ok4 sm4 have ?go by (intro exI [of _ ses4] exI [of _ s4]) simp
        then show ?thesis ..
      qed
    qed
  qed
qed

lemma create_session_ok:
  assumes c: "crypto_create_session A fcr sop s = Some (ret, fcr', sop', s')" and "capi_ok A" "fcr_wf fcr s"
  shows "um s' = um s \<and> pins s' = pins s \<and> (ret = 0 \<longrightarrow> (\<exists>ses. fcr' = ses # fcr \<and> sid ses = sop_ses sop'
        \<and> sid ses \<notin> set (map sid fcr) \<and> ses_ok ses \<and> \<not> sem ses \<and> allocates (session_ids ses) s s'))
    \<and> (ret \<noteq> 0 \<longrightarrow> ret < 0 \<and> fcr' = fcr \<and> sop' = sop)"
  using create_session_cases [OF assms(2,3), of sop]
proof (elim disjE exE conjE)
  fix r t assume "crypto_create_session A fcr sop s = Some (r, fcr, sop, t)" "r < 0" "same_mem s t"
  with c show ?thesis by (simp add: same_mem_def)
next
  fix ses t
  assume g: "crypto_create_session A fcr sop s =
      do { (d, r) \<leftarrow> pick_sid (map sid fcr) (random t);
           Some (0, ses\<lparr>sid := d\<rparr> # fcr, sop\<lparr>sop_ses := d\<rparr>, t\<lparr>random := r\<rparr>) }"
    and f: "same_mem s t" "ses_ok ses" "\<not> sem ses" "allocates (session_ids ses) s t"
  from c g obtain d r where d: "pick_sid (map sid fcr) (random t) = Some (d, r)"
    "ret = 0" "fcr' = ses\<lparr>sid := d\<rparr> # fcr" "sop' = sop\<lparr>sop_ses := d\<rparr>" "s' = t\<lparr>random := r\<rparr>"
    by (auto split: Option.bind_splits)
  define x where "x = ses\<lparr>sid := d\<rparr>"
  have "session_ids x = session_ids ses" "ses_ok x" "\<not> sem x" "sid x = d"
    using f by (simp_all add: x_def session_ids_def ses_ok_def zc_wf_def)
  moreover have "d \<notin> set (map sid fcr)" using d(1) by (rule pick_sid_result)
  ultimately show ?thesis
    using d f(1,4) unfolding x_def [symmetric] by (simp add: same_mem_def)
qed

lemma create_session_returns:
  assumes "capi_ok A" "fcr_wf fcr s" "random s j \<notin> set (map sid fcr)"
  shows "\<exists>r. crypto_create_session A fcr sop s = Some r"
proof -
  from pick_sid_new [of "random s" j, OF assms(3)] obtain d r where
    p: "pick_sid (map sid fcr) (random s) = Some (d, r)" by blast
  from create_session_cases [OF assms(1,2), of sop] show ?thesis
  proof (elim disjE exE conjE)
    fix ses t
    assume "crypto_create_session A fcr sop s =
        do { (d, r) \<leftarrow> pick_sid (map sid fcr) (random t);
             Some (0, ses\<lparr>sid := d\<rparr> # fcr, sop\<lparr>sop_ses := d\<rparr>, t\<lparr>random := r\<rparr>) }" "same_mem s t"
    with p show ?thesis by (simp add: same_mem_def)
  qed blast
qed

section \<open>Removal\<close>

lemma finish_all_ok:
  assumes "fcr_wf fcr s" "\<forall>ses \<in> set fcr. \<not> sem ses"
  shows "\<exists>s'. crypto_finish_all_sessions fcr s = Some s' \<and> same_mem s s' \<and> heap_wf s' \<and> bad_free s' = bad_free s
    \<and> live s' = filter (\<lambda>x. fst x \<notin> set (concat (map session_ids fcr))) (live s)"
  using assms
proof (induction fcr arbitrary: s)
  case Nil
  then show ?case by (simp add: fcr_wf_def)
next
  case (Cons x xs)
  have w: "heap_wf s" "distinct (session_ids x)" "set (session_ids x) \<subseteq> ids s"
    using Cons.prems(1) by (auto simp: fcr_wf_def)
  note k = kfrees_owned [OF w]
  let ?t = "kfrees (session_ids x) s"
  have "ids ?t = ids s - set (session_ids x)" using k by (auto simp: ids_def)
  then have "fcr_wf xs ?t"
    using Cons.prems(1) k by (auto simp: fcr_wf_def sids_ok_def)
  from Cons.IH [OF this] Cons.prems(2) obtain s' where s': "crypto_finish_all_sessions xs ?t = Some s'"
    "same_mem ?t s'" "heap_wf s'" "bad_free s' = bad_free ?t"
    "live s' = filter (\<lambda>x. fst x \<notin> set (concat (map session_ids xs))) (live ?t)" by auto
  have "same_mem s s'" by (rule same_mem_trans [OF same_mem_kfrees s'(2)])
  moreover have "live s' = filter (\<lambda>y. fst y \<notin> set (concat (map session_ids (x # xs)))) (live s)"
    unfolding s'(5) using k by (auto intro: filter_cong)
  ultimately show ?case using s' k Cons.prems(2) by (auto simp: destroy_kfrees)
qed

section \<open>Properties\<close>

definition sop_demo :: session_op where
  "sop_demo = \<lparr>sop_cipher = op_code CRYPTO_AES_CBC, sop_mac = op_code CRYPTO_SHA1_HMAC, sop_keylen = 2, sop_pad1 = 0,
     sop_key = 0x100, sop_mackeylen = 3, sop_pad2 = 0, sop_mackey = 0x200, sop_ses = 0, sop_pad3 = 0\<rparr>"

lemma fcr_wf_Nil: "heap_wf s \<Longrightarrow> fcr_wf [] s"
  by (simp add: fcr_wf_def sids_ok_def)

lemma kst_demo_wf: "heap_wf kst_demo"
  by (simp add: heap_wf_def kst_demo_def)

text \<open>C23: A session that \<open>crypto_create_session\<close> (ioctl.c) has created gets an identifier that no other
  session of the file has and is found under it, unlocked and well formed, the other sessions being
  found as before; finishing it right away (\<open>crypto_finish_session\<close>) restores the list and the
  kernel objects, with no invalid free.\<close>

theorem create_then_finish:
  assumes "capi_ok A" "fcr_wf fcr s" "crypto_create_session A fcr sop s = Some (0, fcr', sop', s')"
  shows "fcr_wf fcr' s' \<and> sop_ses sop' \<notin> set (map sid fcr)
    \<and> (\<exists>ses. find_session (sop_ses sop') fcr' = Some ses \<and> \<not> sem ses \<and> ses_ok ses)
    \<and> (\<forall>d. d \<noteq> sop_ses sop' \<longrightarrow> find_session d fcr' = find_session d fcr)
    \<and> (\<exists>s''. crypto_finish_session fcr' (sop_ses sop') s' = Some (0, fcr, s'')
        \<and> live s'' = live s \<and> bad_free s'' = bad_free s \<and> um s'' = um s)"
proof -
  from create_session_ok [OF assms(3,1,2)] obtain ses where ses: "fcr' = ses # fcr" "sid ses = sop_ses sop'"
    "sid ses \<notin> set (map sid fcr)" "ses_ok ses" "\<not> sem ses" "allocates ([] @ session_ids ses) s s'" "um s' = um s" by auto
  then have "allocates [] s (kfrees (session_ids ses) s')" by (intro allocates_free) (auto simp: allocates_def)
  moreover have "um (kfrees (session_ids ses) s') = um s"
    using same_mem_kfrees [of s' "session_ids ses"] ses(7) by (simp add: same_mem_def)
  moreover have "sids_ok fcr" "find_session (sid ses) fcr = None"
    using assms(2) ses(3) by (auto simp: fcr_wf_def find_session_None)
  then have "find_session (sid ses) fcr' = Some ses" "remove_session (sid ses) fcr' = fcr"
    unfolding ses(1) by (rule fcr.create_finish)+
  ultimately show ?thesis
    using ses fcr_wf_Cons [OF assms(2), of ses s']
    by (auto simp: crypto_finish_session_def destroy_kfrees allocates_def)
qed

theorem create_then_finish_witness:
  "\<exists>fcr' sop' s'. crypto_create_session capi_demo [] sop_demo kst_demo = Some (0, fcr', sop', s') \<and>
    fcr_wf fcr' s' \<and> sop_ses sop' \<notin> set (map sid ([] :: byte list fcrypt))
    \<and> (\<exists>ses. find_session (sop_ses sop') fcr' = Some ses \<and> \<not> sem ses \<and> ses_ok ses)
    \<and> (\<forall>d. d \<noteq> sop_ses sop' \<longrightarrow> find_session d fcr' = find_session d [])
    \<and> (\<exists>s''. crypto_finish_session fcr' (sop_ses sop') s' = Some (0, [], s'')
        \<and> live s'' = live kst_demo \<and> bad_free s'' = bad_free kst_demo \<and> um s'' = um kst_demo)"
proof -
  have "map_option fst (crypto_create_session capi_demo [] sop_demo kst_demo) = Some 0"
    by code_simp
  then obtain fcr' sop' s' where
    c: "crypto_create_session capi_demo [] sop_demo kst_demo = Some (0, fcr', sop', s')" by auto
  show ?thesis
    using create_then_finish [OF capi_demo_ok fcr_wf_Nil [OF kst_demo_wf] c] c by blast
qed

text \<open>C37: \<open>crypto_create_session\<close> returns for every request if the random number generator eventually
  delivers an identifier that is not in use.\<close>

theorem create_session_terminates:
  assumes "capi_ok A" "fcr_wf fcr s" "random s j \<notin> set (map sid fcr)"
  shows "\<exists>ret fcr' sop' s'. crypto_create_session A fcr sop s = Some (ret, fcr', sop', s')
    \<and> (ret = 0 \<or> ret < 0 \<and> fcr' = fcr \<and> sop' = sop)"
proof -
  from create_session_returns [OF assms] obtain ret fcr' sop' s' where
    c: "crypto_create_session A fcr sop s = Some (ret, fcr', sop', s')" by (metis prod_cases4)
  with create_session_ok [OF c assms(1,2)] show ?thesis by auto
qed

theorem create_session_terminates_witness:
  "fcr_wf ([] :: byte list fcrypt) kst_demo \<and>
   (\<exists>ret fcr' sop' s'. crypto_create_session capi_demo [] sop_demo kst_demo = Some (ret, fcr', sop', s')
    \<and> (ret = 0 \<or> ret < 0 \<and> fcr' = [] \<and> sop' = sop_demo))"
  using create_session_terminates [OF capi_demo_ok fcr_wf_Nil [OF kst_demo_wf], of 0 sop_demo] fcr_wf_Nil [OF kst_demo_wf]
  by simp

text \<open>\<open>crypto_finish_all_sessions\<close> (ioctl.c), run when the file is closed and no operation is in
  progress, returns and frees exactly the objects the sessions own, each once.\<close>

theorem finish_all_frees_everything:
  assumes "fcr_wf fcr s" "\<forall>ses \<in> set fcr. \<not> sem ses"
  shows "\<exists>s'. crypto_finish_all_sessions fcr s = Some s' \<and> bad_free s' = bad_free s \<and> um s' = um s
    \<and> live s' = filter (\<lambda>x. fst x \<notin> set (concat (map session_ids fcr))) (live s)"
  using finish_all_ok [OF assms] by (auto simp: same_mem_def)

theorem finish_all_frees_everything_witness:
  "\<exists>fcr sop' s'. crypto_create_session capi_demo [] sop_demo kst_demo = Some (0, fcr, sop', s') \<and> fcr_wf fcr s'
    \<and> (\<exists>s''. crypto_finish_all_sessions fcr s' = Some s'' \<and> bad_free s'' = bad_free s' \<and> um s'' = um s'
    \<and> live s'' = filter (\<lambda>x. fst x \<notin> set (concat (map session_ids fcr))) (live s'))"
proof -
  have "map_option fst (crypto_create_session capi_demo [] sop_demo kst_demo) = Some 0"
    by code_simp
  then obtain fcr' sop' s' where
    c: "crypto_create_session capi_demo [] sop_demo kst_demo = Some (0, fcr', sop', s')" by auto
  from create_session_ok [OF c capi_demo_ok fcr_wf_Nil [OF kst_demo_wf]]
  obtain ses where f: "fcr' = [ses]" "\<not> sem ses" "ses_ok ses" "allocates (session_ids ses) kst_demo s'" by auto
  have w: "fcr_wf fcr' s'"
    unfolding f(1) by (rule fcr_wf_Cons [OF fcr_wf_Nil [OF kst_demo_wf] f(4,3)]) simp
  have "\<forall>x \<in> set fcr'. \<not> sem x" using f by simp
  note g = finish_all_frees_everything [OF w this]
  with c w show ?thesis by blast
qed

text \<open>Finishing a session identifier that no session of the file has succeeds with 0 and changes
  nothing; the \<open>-ENOENT\<close> of the source is not reachable.\<close>

theorem finish_unknown_session:
  assumes "d \<notin> set (map sid fcr)"
  shows "crypto_finish_session fcr d s = Some (0, fcr, s)"
  using assms unfolding find_session_None [symmetric] by (simp add: crypto_finish_session_def)

theorem finish_unknown_session_witness:
  "crypto_finish_session ([] :: byte list fcrypt) 5 kst_demo = Some (0, [], kst_demo)"
  using finish_unknown_session [of 5 "[]" kst_demo] by simp

text \<open>If one of the page arrays cannot be allocated, \<open>crypto_create_session\<close> returns
  \<open>-ENOMEM\<close> after freeing the cipher and the session, but the objects of the hash stay allocated:
  \<open>error_hash\<close> has no call of \<open>cryptodev_hash_deinit\<close>.\<close>

theorem create_arrays_failure_keeps_hash:
  assumes "allocates (ses_id ses # cipher_ids (cdata ses) @ hash_ids (hdata ses)) s0 s"
    "pages_ptr ses = None" "sg_ptr ses = None" "cdata_ok (cdata ses)" "hdata_ok (hdata ses)"
    "create_arrays ses s = (ret, ses', s')" "ret \<noteq> 0"
  shows "ret = - ENOMEM \<and> allocates (hash_ids (hdata ses)) s0 s'"
  using create_arrays_ok [OF assms(6,1-5)] assms(7) by blast

text \<open>A hash session whose page arrays cannot be allocated: four objects are there, then memory runs out.\<close>

definition ses_hash_demo :: "byte list csession" where
  "ses_hash_demo = (session_zero 0)\<lparr>hdata := hash_zero\<lparr>h_init := True, h_s := Some \<lparr>tfm_id = 1, tfm_name = ''sha1'',
     tfm_key = [], tfm_authsize = 0\<rparr>, h_result := Some 2, h_request := Some 3, h_state := Some []\<rparr>\<rparr>"

definition kst_hash_demo :: kst where
  "kst_hash_demo = kst_demo\<lparr>live := [(3, ReqAhash), (2, ResultObj), (1, TfmAhash), (0, SessionObj)], next_id := 4,
     allocs := [False, True]\<rparr>"

theorem create_arrays_failure_keeps_hash_witness:
  "\<exists>ret ses' s'. create_arrays ses_hash_demo kst_hash_demo = (ret, ses', s') \<and> ret = - ENOMEM
    \<and> hash_ids (hdata ses_hash_demo) = [3, 2, 1] \<and> allocates (hash_ids (hdata ses_hash_demo)) kst_demo s'"
proof -
  have i: "hash_ids (hdata ses_hash_demo) = [3, 2, 1]" "cipher_ids (cdata ses_hash_demo) = []" "ses_id ses_hash_demo = 0"
    by (simp_all add: ses_hash_demo_def session_zero_def hash_ids_def cipher_ids_def cipher_zero_def)
  have a: "allocates (ses_id ses_hash_demo # cipher_ids (cdata ses_hash_demo) @ hash_ids (hdata ses_hash_demo)) kst_demo kst_hash_demo"
    unfolding i by (simp add: allocates_def kst_demo_def kst_hash_demo_def heap_wf_def ids_def insert_commute)
  obtain ret ses' s' where c: "create_arrays ses_hash_demo kst_hash_demo = (ret, ses', s')" by (metis prod_cases3)
  have "ret \<noteq> 0"
    using c by (auto simp: create_arrays_def kst_hash_demo_def kst_demo_def kalloc_def Let_def)
  then show ?thesis
    using create_arrays_failure_keeps_hash [OF a _ _ _ _ c] c i
    by (simp add: ses_hash_demo_def session_zero_def cdata_ok_def cipher_zero_def hdata_ok_def)
qed

end
