(* ===== verification/Crypto_Main.thy ===== *)
theory Crypto_Main
  imports Crypto_Session
begin

text \<open>
  The traditional operations of /dev/crypto (\<open>cryptodev-linux/main.c\<close>): hashing and encrypting the
  user's data, through a page of kernel memory or by zero copy.  The theorems: an operation returns
  with the session unlocked, both ways of moving the data give the same result, and a hash is
  computed over the plain text whatever the direction.
\<close>

section \<open>One piece of data\<close>

definition ses_hash ::
  "'h capi \<Rightarrow> 'h csession \<Rightarrow> cell list option \<Rightarrow> nat \<Rightarrow> kst \<Rightarrow> (int \<times> 'h csession) option" where
  "ses_hash A ses l len s =
     (if h_init (hdata ses)
      then do { (ret, h) \<leftarrow> cryptodev_hash_update A (hdata ses) l len s; Some (ret, ses\<lparr>hdata := h\<rparr>) }
      else Some (0, ses))"

definition ses_cipher ::
  "'h capi \<Rightarrow> bool \<Rightarrow> 'h csession \<Rightarrow> cell list option \<Rightarrow> cell list option \<Rightarrow> nat \<Rightarrow> kst
    \<Rightarrow> (int \<times> 'h csession \<times> kst) option" where
  "ses_cipher A enc ses src dst len s =
     (if c_init (cdata ses)
      then do {
        (ret, c, s') \<leftarrow> (if enc then cryptodev_cipher_encrypt A (cdata ses) src dst len s
                         else cryptodev_cipher_decrypt A (cdata ses) src dst len s);
        Some (ret, ses\<lparr>cdata := c\<rparr>, s')
      }
      else Some (0, ses, s))"

definition hash_n_crypt ::
  "'h capi \<Rightarrow> 'h csession \<Rightarrow> crypt_op \<Rightarrow> cell list option \<Rightarrow> cell list option \<Rightarrow> nat \<Rightarrow> kst
    \<Rightarrow> (int \<times> 'h csession \<times> kst) option" where
  "hash_n_crypt A ses cop src_sg dst_sg len s =
     (if cop_op cop = COP_ENCRYPT then do {
        (ret, ses1) \<leftarrow> ses_hash A ses src_sg len s;
        if ret \<noteq> 0 then Some (ret, ses1, s) else ses_cipher A True ses1 src_sg dst_sg len s
      }
      else do {
        (ret, ses1, s1) \<leftarrow> ses_cipher A False ses src_sg dst_sg len s;
        if ret \<noteq> 0 then Some (ret, ses1, s1)
        else do { (ret, ses2) \<leftarrow> ses_hash A ses1 dst_sg len s1; Some (ret, ses2, s1) }
      })"

section \<open>Through a kernel page\<close>

definition sg_init_one :: "nat \<Rightarrow> cell list option" where
  "sg_init_one n = Some (map KCell [0..<n])"

text \<open>The loop of \<open>__crypto_run_std\<close>; with an empty buffer it would not end.\<close>

function crypto_run_std_loop ::
  "'h capi \<Rightarrow> crypt_op \<Rightarrow> nat \<Rightarrow> 'h csession \<Rightarrow> u64 \<Rightarrow> u64 \<Rightarrow> nat \<Rightarrow> kst \<Rightarrow> (int \<times> 'h csession \<times> kst) option" where
  "crypto_run_std_loop A cop bufsize ses src dst nbytes s =
     (if nbytes = 0 then Some (0, ses, s)
      else if bufsize = 0 then None
      else
        (let current_len = (if bufsize < nbytes then bufsize else nbytes)
         in case copy_from_user (um s) src current_len of
              None \<Rightarrow> Some (- EFAULT, ses, s)
            | Some bs \<Rightarrow>
                (let s1 = s\<lparr>kbuf := bs @ drop current_len (kbuf s)\<rparr>
                 in do {
                      (ret, ses1, s2) \<leftarrow>
                        hash_n_crypt A ses cop (sg_init_one current_len) (sg_init_one current_len) current_len s1;
                      if ret \<noteq> 0 then Some (ret, ses1, s2)
                      else
                        (case (if c_init (cdata ses1) then copy_to_user (um s2) dst (take current_len (kbuf s2))
                               else (0, um s2)) of
                           (k, m) \<Rightarrow>
                             (if k \<noteq> 0 then Some (- EFAULT, ses1, s2\<lparr>um := m\<rparr>)
                              else crypto_run_std_loop A cop bufsize ses1 (src + of_nat current_len) (dst + of_nat current_len)
                                     (nbytes - current_len) (s2\<lparr>um := m\<rparr>)))
                    })))"
  by pat_completeness auto
termination
  by (relation "measure (\<lambda>(A, cop, bufsize, ses, src, dst, nbytes, s). nbytes)") (auto split: if_splits)

declare crypto_run_std_loop.simps [simp del]

definition crypto_run_std ::
  "'h capi \<Rightarrow> nat \<Rightarrow> 'h csession \<Rightarrow> crypt_op \<Rightarrow> kst \<Rightarrow> (int \<times> 'h csession \<times> kst) option" where
  "crypto_run_std A sh ses cop s =
     (let nbytes = unat (cop_len cop)
      in case kalloc FreePage s of
           (None, s1) \<Rightarrow> Some (- ENOMEM, ses, s1)
         | (Some data, s1) \<Rightarrow>
             (let bufsize = (if 2 ^ sh < nbytes then 2 ^ sh else nbytes);
                  s2 = s1\<lparr>kbuf := map (uninit s1) [0..<2 ^ sh]\<rparr>
              in do {
                   (ret, ses1, s3) \<leftarrow> crypto_run_std_loop A cop bufsize ses (cop_src cop) (cop_dst cop) nbytes s2;
                   Some (ret, ses1, kfree (Some data) s3)
                 }))"

section \<open>By zero copy\<close>

definition sg_arg :: "nat \<Rightarrow> 'a zcbuf_scheme \<Rightarrow> nat option \<Rightarrow> cell list option" where
  "sg_arg sh ses i = map_option (sg_span sh (sg ses)) i"

definition crypto_run_zc ::
  "'h capi \<Rightarrow> mm \<Rightarrow> nat \<Rightarrow> 'h csession \<Rightarrow> kernel_crypt_op \<Rightarrow> kst \<Rightarrow> (int \<times> 'h csession \<times> kst) option" where
  "crypto_run_zc A M sh ses kcop s =
     (let cop = k_cop kcop
      in do {
           (ret, src_sg, dst_sg, ses1, s1) \<leftarrow>
             get_userbuf M sh ses (cop_src cop) (cop_len cop) (cop_dst cop) (cop_len cop) s;
           if ret \<noteq> 0 then crypto_run_std A sh ses1 cop s1
           else do {
             (ret, ses2, s2) \<leftarrow>
               hash_n_crypt A ses1 cop (sg_arg sh ses1 src_sg) (sg_arg sh ses1 dst_sg) (unat (cop_len cop)) s1;
             (ses3, s3) \<leftarrow> release_user_pages M ses2 s2;
             Some (ret, ses3, s3)
           }
         })"

section \<open>\<open>crypto_run\<close>\<close>

text \<open>
  The body that runs with the session locked, in its four parts.  \<open>ret\<close> starts with the value an
  uninitialised variable has.
\<close>

definition run_reset ::
  "'h capi \<Rightarrow> 'h csession \<Rightarrow> crypt_op \<Rightarrow> int \<Rightarrow> (int \<times> bool \<times> 'h csession) option" where
  "run_reset A ses cop ret0 =
     (if h_init (hdata ses) \<and> (cop_flags cop = 0 \<or> has_flag (cop_flags cop) COP_FLAG_RESET)
      then do { (ret, h) \<leftarrow> cryptodev_hash_reset A (hdata ses); Some (ret, ret = 0, ses\<lparr>hdata := h\<rparr>) }
      else Some (ret0, True, ses))"

definition run_set_iv ::
  "'h csession \<Rightarrow> kernel_crypt_op \<Rightarrow> int \<Rightarrow> (int \<times> bool \<times> 'h csession) option" where
  "run_set_iv ses kcop ret0 =
     (if c_init (cdata ses) then
        (if c_blocksize (cdata ses) = 0 then None
         else if unat (cop_len (k_cop kcop)) mod c_blocksize (cdata ses) \<noteq> 0 then Some (- EINVAL, False, ses)
         else Some (ret0, True,
           ses\<lparr>cdata := cryptodev_cipher_set_iv (cdata ses) (k_iv kcop) (min (c_ivsize (cdata ses)) (k_ivlen kcop))\<rparr>))
      else Some (ret0, True, ses))"

definition run_data ::
  "'h capi \<Rightarrow> mm \<Rightarrow> nat \<Rightarrow> 'h csession \<Rightarrow> kernel_crypt_op \<Rightarrow> int \<Rightarrow> kst \<Rightarrow> (int \<times> bool \<times> 'h csession \<times> kst) option" where
  "run_data A M sh ses kcop ret0 s =
     (if cop_len (k_cop kcop) \<noteq> 0 then do {
        (ret, ses1, s1) \<leftarrow>
          (if has_flag (cop_flags (k_cop kcop)) COP_FLAG_NO_ZC then crypto_run_std A sh ses (k_cop kcop) s
           else crypto_run_zc A M sh ses kcop s);
        Some (ret, ret = 0, ses1, s1)
      }
      else Some (ret0, True, ses, s))"

definition run_final ::
  "'h capi \<Rightarrow> 'h csession \<Rightarrow> kernel_crypt_op \<Rightarrow> int \<Rightarrow> (int \<times> 'h csession \<times> kernel_crypt_op) option" where
  "run_final A ses kcop0 ret0 =
     (let kcop = (if c_init (cdata ses)
                  then kcop0\<lparr>k_iv := cryptodev_cipher_get_iv (cdata ses) (k_iv kcop0) (min (c_ivsize (cdata ses)) (k_ivlen kcop0))\<rparr>
                  else kcop0);
          fl = cop_flags (k_cop kcop)
      in if h_init (hdata ses) \<and>
            (has_flag fl COP_FLAG_FINAL \<or> (\<not> has_flag fl COP_FLAG_UPDATE \<or> cop_len (k_cop kcop) = 0))
         then do {
           (ret, out, h) \<leftarrow> cryptodev_hash_final A (hdata ses);
           let kcop1 = kcop\<lparr>k_hash_output := out @ drop (length out) (k_hash_output kcop)\<rparr>;
           if ret \<noteq> 0 then Some (ret, ses\<lparr>hdata := h\<rparr>, kcop1)
           else Some (0, ses\<lparr>hdata := h\<rparr>, kcop1\<lparr>k_digestsize := h_digestsize h\<rparr>)
         }
         else Some (ret0, ses, kcop))"

definition run_session ::
  "'h capi \<Rightarrow> mm \<Rightarrow> nat \<Rightarrow> 'h csession \<Rightarrow> kernel_crypt_op \<Rightarrow> kst
    \<Rightarrow> (int \<times> 'h csession \<times> kernel_crypt_op \<times> kst) option" where
  "run_session A M sh ses kcop s =
     do {
       (ret1, go1, ses1) \<leftarrow> run_reset A ses (k_cop kcop) (uninit_int s);
       if \<not> go1 then Some (ret1, ses1, kcop, s)
       else do {
         (ret2, go2, ses2) \<leftarrow> run_set_iv ses1 kcop ret1;
         if \<not> go2 then Some (ret2, ses2, kcop, s)
         else do {
           (ret3, go3, ses3, s3) \<leftarrow> run_data A M sh ses2 kcop ret2 s;
           if \<not> go3 then Some (ret3, ses3, kcop, s3)
           else do {
             (ret4, ses4, kcop4) \<leftarrow> run_final A ses3 kcop ret3;
             Some (ret4, ses4, kcop4, s3)
           }
         }
       }
     }"

definition crypto_run ::
  "'h capi \<Rightarrow> mm \<Rightarrow> nat \<Rightarrow> 'h fcrypt \<Rightarrow> kernel_crypt_op \<Rightarrow> kst
    \<Rightarrow> (int \<times> 'h fcrypt \<times> kernel_crypt_op \<times> kst) option" where
  "crypto_run A M sh fcr kcop s =
     (if cop_op (k_cop kcop) \<noteq> COP_ENCRYPT \<and> cop_op (k_cop kcop) \<noteq> COP_DECRYPT
      then Some (- EINVAL, fcr, kcop, s)
      else do {
        (ses_ptr, fcr1) \<leftarrow> crypto_get_session_by_sid fcr (cop_ses (k_cop kcop));
        case ses_ptr of
          None \<Rightarrow> Some (- EINVAL, fcr1, kcop, s)
        | Some ses \<Rightarrow> do {
            (ret, ses', kcop', s') \<leftarrow> run_session A M sh ses kcop s;
            Some (ret, crypto_put_session ses' fcr1, kcop', s')
          }
      })"


section \<open>User buffers as cells\<close>

definition can_write :: "umem \<Rightarrow> u64 \<Rightarrow> nat \<Rightarrow> bool" where
  "can_write m a n \<longleftrightarrow> (\<forall>i \<in> set [0..<n]. ubytes m (a + of_nat i) \<noteq> None \<and> uwritable m (a + of_nat i))"

lemma can_write_iff:
  "can_write m a n \<longleftrightarrow> (\<forall>i < n. ubytes m (a + of_nat i) \<noteq> None \<and> uwritable m (a + of_nat i))"
  by (auto simp: can_write_def)

lemma can_write_Suc: "can_write m a (Suc n) \<longleftrightarrow> ubytes m a \<noteq> None \<and> uwritable m a \<and> can_write m (a + 1) n"
  unfolding can_write_iff All_less_Suc2 by (simp add: add.assoc)

lemma ucells_Suc: "ucells a (Suc n) = UCell a # ucells (a + 1) n"
  using ucells_split [of 1 "Suc n" a] by (simp add: ucells_def)

lemma gather_user: "sg_gather s (ucells a n) = copy_from_user (um s) a n"
proof (induction n arbitrary: a)
  case (Suc n)
  have "cell_get s (UCell a) = urd (um s) a" by (simp add: cell_get_def urd_def)
  with Suc show ?case by (cases "copy_from_user (um s) (a + 1) n") (auto simp: ucells_Suc split: option.split)
qed simp

lemma can_write_stable: "can_write (snd (copy_to_user m b bs)) a n = can_write m a n"
  by (simp add: can_write_def mapped_copy)

lemma scatter_user:
  "can_write (um s) a (length bs) \<Longrightarrow>
    sg_scatter s (ucells a (length bs)) bs = Some (s\<lparr>um := snd (copy_to_user (um s) a bs)\<rparr>)
    \<and> fst (copy_to_user (um s) a bs) = 0"
proof (induction bs arbitrary: s a)
  case (Cons b bs)
  define m where "m = (um s)\<lparr>ubytes := (ubytes (um s))(a \<mapsto> b)\<rparr>"
  from Cons.prems have w: "ubytes (um s) a \<noteq> None" "uwritable (um s) a" "can_write (um s) (a + 1) (length bs)"
    by (auto simp: can_write_Suc)
  have m: "uwr (um s) a b = Some m" "cell_put s (UCell a) b = Some (s\<lparr>um := m\<rparr>)"
    using w by (auto simp: uwr_def m_def cell_put_def cell_get_def)
  have "can_write m (a + 1) (length bs)" using w(3) by (auto simp: can_write_def m_def)
  from Cons.IH [of "s\<lparr>um := m\<rparr>" "a + 1"] this m show ?case by (simp add: ucells_Suc)
qed simp

lemma can_write_prefix: "can_write m a n \<Longrightarrow> k \<le> n \<Longrightarrow> can_write m a k"
  by (auto simp: can_write_def)

lemma can_write_suffix: "can_write m a (k + n) \<Longrightarrow> can_write m (a + of_nat k) n"
proof (induction k arbitrary: a)
  case (Suc k)
  then have "can_write m (a + 1 + of_nat k) n" by (intro Suc.IH) (simp add: can_write_Suc)
  then show ?case by (simp add: add.assoc)
qed simp

lemma gather_kernel:
  assumes "n \<le> length (kbuf s)"
  shows "sg_gather s (map KCell [0..<n]) = Some (take n (kbuf s))"
proof -
  have "sg_gather s (map KCell is) = Some (map ((!) (kbuf s)) is)" if "\<forall>i \<in> set is. i < length (kbuf s)" for "is"
    using that by (induction "is") (auto simp: cell_get_def)
  moreover have "map ((!) (kbuf s)) [0..<n] = take n (kbuf s)" using assms by (simp add: list_eq_iff_nth_eq)
  ultimately show ?thesis using assms by simp
qed

lemma scatter_kernel:
  assumes "length bs \<le> length (kbuf s)"
  shows "sg_scatter s (map KCell [0..<length bs]) bs = Some (s\<lparr>kbuf := bs @ drop (length bs) (kbuf s)\<rparr>)"
proof -
  have "sg_scatter s (map KCell [k..<k + length bs]) bs = Some (s\<lparr>kbuf := take k (kbuf s) @ bs @ drop (k + length bs) (kbuf s)\<rparr>)"
    if "k + length bs \<le> length (kbuf s)" for k s bs
    using that
  proof (induction bs arbitrary: k s)
    case (Cons b bs)
    define t where "t = s\<lparr>kbuf := (kbuf s)[k := b]\<rparr>"
    have p: "cell_put s (KCell k) b = Some t" using Cons.prems by (simp add: cell_put_def cell_get_def t_def)
    have "sg_scatter t (map KCell [Suc k..<Suc k + length bs]) bs
        = Some (t\<lparr>kbuf := take (Suc k) (kbuf t) @ bs @ drop (Suc k + length bs) (kbuf t)\<rparr>)"
      using Cons.prems by (intro Cons.IH) (simp add: t_def)
    moreover have "take (Suc k) (kbuf t) = take k (kbuf s) @ [b]"
      using Cons.prems by (simp add: t_def take_Suc_conv_app_nth)
    moreover have "[k..<k + length (b # bs)] = k # [Suc k..<Suc k + length bs]"
      by (subst upt_conv_Cons) (simp_all del: upt_Suc)
    ultimately show ?case using p by (simp add: t_def del: upt_Suc)
  qed simp
  from this [of 0 bs s] assms show ?thesis by simp
qed

section \<open>What an operation computes\<close>

text \<open>
  \<open>ablk_sem\<close>: for the transform \<open>t\<close> the crypto API computes the functions \<open>f\<close> (output) and \<open>g\<close>
  (next IV) without error on whole blocks, and a text may be processed in pieces of whole blocks,
  the IV being handed on.  \<open>hash_sem\<close>: hashing computes \<open>u\<close>, and may be done in pieces.
\<close>

definition ablk_sem ::
  "'h capi \<Rightarrow> tfm \<Rightarrow> nat \<Rightarrow> (bool \<Rightarrow> byte list \<Rightarrow> byte list \<Rightarrow> byte list)
    \<Rightarrow> (bool \<Rightarrow> byte list \<Rightarrow> byte list \<Rightarrow> byte list) \<Rightarrow> bool" where
  "ablk_sem A t bsz f g \<longleftrightarrow>
     (\<forall>enc iv bs. length iv = 16 \<and> bsz dvd length bs \<longrightarrow>
        (\<exists>ret cbs. ablkcipher_crypt A enc (tfm_name t) (tfm_key t) iv bs = (ret, cbs, f enc iv bs, g enc iv bs)
           \<and> completes ret cbs \<and> outcome ret cbs = 0)
        \<and> length (f enc iv bs) = length bs \<and> length (g enc iv bs) = 16)
   \<and> (\<forall>enc iv xs ys. length iv = 16 \<and> bsz dvd length xs \<and> bsz dvd length ys \<longrightarrow>
        f enc iv (xs @ ys) = f enc iv xs @ f enc (g enc iv xs) ys
        \<and> g enc iv (xs @ ys) = g enc (g enc iv xs) ys)
   \<and> (\<forall>enc iv. length iv = 16 \<longrightarrow> g enc iv [] = iv)"

definition hash_sem :: "'h capi \<Rightarrow> ('h \<Rightarrow> byte list \<Rightarrow> 'h) \<Rightarrow> bool" where
  "hash_sem A u \<longleftrightarrow>
     (\<forall>h bs. \<exists>ret cbs. ahash_update A h bs = (ret, cbs, u h bs) \<and> completes ret cbs \<and> outcome ret cbs = 0)
   \<and> (\<forall>h xs ys. u h (xs @ ys) = u (u h xs) ys) \<and> (\<forall>h. u h [] = h)"

text \<open>A session with a block cipher, and possibly a hash, whose behaviour is described by these.\<close>

definition ses_sem ::
  "'h capi \<Rightarrow> 'h csession \<Rightarrow> tfm \<Rightarrow> nat \<Rightarrow> (bool \<Rightarrow> byte list \<Rightarrow> byte list \<Rightarrow> byte list)
    \<Rightarrow> (bool \<Rightarrow> byte list \<Rightarrow> byte list \<Rightarrow> byte list) \<Rightarrow> ('h \<Rightarrow> byte list \<Rightarrow> 'h) \<Rightarrow> bool" where
  "ses_sem A ses t bsz f g u \<longleftrightarrow>
     c_init (cdata ses) \<and> \<not> c_aead (cdata ses) \<and> c_s (cdata ses) = Some t \<and> length (c_iv (cdata ses)) = 16
   \<and> ablk_sem A t bsz f g \<and> (h_init (hdata ses) \<longrightarrow> hash_sem A u \<and> h_state (hdata ses) \<noteq> None)"

text \<open>The session after the text \<open>bs\<close>: the hash always covers the plain text.\<close>

definition after_text ::
  "(bool \<Rightarrow> byte list \<Rightarrow> byte list \<Rightarrow> byte list) \<Rightarrow> (bool \<Rightarrow> byte list \<Rightarrow> byte list \<Rightarrow> byte list)
    \<Rightarrow> ('h \<Rightarrow> byte list \<Rightarrow> 'h) \<Rightarrow> bool \<Rightarrow> byte list \<Rightarrow> 'h csession \<Rightarrow> 'h csession \<Rightarrow> bool" where
  "after_text f g u enc bs ses ses' \<longleftrightarrow>
     (\<exists>r1 r2. ses' = ses\<lparr>cdata := (cdata ses)\<lparr>c_iv := g enc (c_iv (cdata ses)) bs, c_res := r1\<rparr>,
        hdata := (if h_init (hdata ses)
                  then (hdata ses)\<lparr>h_state := map_option (\<lambda>h. u h (if enc then bs else f enc (c_iv (cdata ses)) bs)) (h_state (hdata ses)),
                         h_res := r2\<rparr>
                  else hdata ses)\<rparr>)"

lemma ses_cipher_sem:
  assumes "ses_sem A ses t bsz f g u" "sg_fetch s src n = Some bs" "length bs = n" "bsz dvd n"
    "sg_store s dst (f enc (c_iv (cdata ses)) bs) = Some s'"
  shows "\<exists>r. ses_cipher A enc ses src dst n s
    = Some (0, ses\<lparr>cdata := (cdata ses)\<lparr>c_iv := g enc (c_iv (cdata ses)) bs, c_res := r\<rparr>\<rparr>, s')"
proof -
  from assms(1) have c: "c_init (cdata ses)" "\<not> c_aead (cdata ses)" "c_s (cdata ses) = Some t"
    "length (c_iv (cdata ses)) = 16" and sem: "ablk_sem A t bsz f g" by (auto simp: ses_sem_def)
  from sem c(4) assms(3,4) obtain ret cbs where
    a: "ablkcipher_crypt A enc (tfm_name t) (tfm_key t) (c_iv (cdata ses)) bs
        = (ret, cbs, f enc (c_iv (cdata ses)) bs, g enc (c_iv (cdata ses)) bs)"
      "completes ret cbs" "outcome ret cbs = 0" unfolding ablk_sem_def by blast
  with c assms(2,5) show ?thesis
    by (cases enc) (auto simp: ses_cipher_def cryptodev_cipher_encrypt_def cryptodev_cipher_decrypt_def cipher_op_def
        cipher_request_def waitfor_outcome Let_def)
qed

lemma ses_hash_sem:
  assumes "h_init (hdata ses) \<longrightarrow> hash_sem A u \<and> h_state (hdata ses) \<noteq> None" "sg_fetch s l n = Some bs"
  shows "\<exists>r. ses_hash A ses l n s = Some (0, ses\<lparr>hdata := (if h_init (hdata ses)
      then (hdata ses)\<lparr>h_state := map_option (\<lambda>h. u h bs) (h_state (hdata ses)), h_res := r\<rparr> else hdata ses)\<rparr>)"
proof (cases "h_init (hdata ses)")
  case True
  with assms(1) obtain h where h: "h_state (hdata ses) = Some h" and sem: "hash_sem A u" by auto
  from sem obtain ret cbs where "ahash_update A h bs = (ret, cbs, u h bs)" "completes ret cbs" "outcome ret cbs = 0"
    unfolding hash_sem_def by blast
  with True h assms(2) show ?thesis
    by (auto simp: ses_hash_def cryptodev_hash_update_def waitfor_outcome Let_def)
qed (simp add: ses_hash_def)

lemma hash_n_crypt_sem:
  assumes "ses_sem A ses t bsz f g u" "cop_op cop = (if enc then COP_ENCRYPT else COP_DECRYPT)"
    "sg_fetch s src n = Some bs" "length bs = n" "bsz dvd n"
    "sg_store s dst (f enc (c_iv (cdata ses)) bs) = Some s'"
    "sg_fetch s' dst n = Some (f enc (c_iv (cdata ses)) bs)"
  shows "\<exists>ses'. hash_n_crypt A ses cop src dst n s = Some (0, ses', s') \<and> after_text f g u enc bs ses ses'"
proof (cases enc)
  case True
  have hp: "h_init (hdata ses) \<longrightarrow> hash_sem A u \<and> h_state (hdata ses) \<noteq> None"
    using assms(1) by (simp add: ses_sem_def)
  from ses_hash_sem [OF hp assms(3)] obtain r2 where
    h: "ses_hash A ses src n s = Some (0, ses\<lparr>hdata := (if h_init (hdata ses)
      then (hdata ses)\<lparr>h_state := map_option (\<lambda>h. u h bs) (h_state (hdata ses)), h_res := r2\<rparr> else hdata ses)\<rparr>)" by blast
  define ses1 where "ses1 = ses\<lparr>hdata := (if h_init (hdata ses)
      then (hdata ses)\<lparr>h_state := map_option (\<lambda>h. u h bs) (h_state (hdata ses)), h_res := r2\<rparr> else hdata ses)\<rparr>"
  have c1: "cdata ses1 = cdata ses" by (simp add: ses1_def)
  have "ses_sem A ses1 t bsz f g u" using assms(1) by (auto simp: ses_sem_def ses1_def)
  from ses_cipher_sem [OF this assms(3-5), of dst enc s'] assms(6) c1 obtain r1 where
    "ses_cipher A enc ses1 src dst n s = Some (0, ses1\<lparr>cdata := (cdata ses)\<lparr>c_iv := g enc (c_iv (cdata ses)) bs, c_res := r1\<rparr>\<rparr>, s')"
    by auto
  moreover have "after_text f g u enc bs ses (ses1\<lparr>cdata := (cdata ses)\<lparr>c_iv := g enc (c_iv (cdata ses)) bs, c_res := r1\<rparr>\<rparr>)"
    unfolding after_text_def ses1_def using True by (intro exI [of _ r1] exI [of _ r2]) (cases ses, simp)
  ultimately show ?thesis
    using h True assms(2) unfolding ses1_def [symmetric] by (simp add: hash_n_crypt_def)
next
  case False
  from ses_cipher_sem [OF assms(1,3-6)] obtain r1 where
    c: "ses_cipher A enc ses src dst n s = Some (0, ses\<lparr>cdata := (cdata ses)\<lparr>c_iv := g enc (c_iv (cdata ses)) bs, c_res := r1\<rparr>\<rparr>, s')"
    by blast
  define ses1 where "ses1 = ses\<lparr>cdata := (cdata ses)\<lparr>c_iv := g enc (c_iv (cdata ses)) bs, c_res := r1\<rparr>\<rparr>"
  have hp: "h_init (hdata ses1) \<longrightarrow> hash_sem A u \<and> h_state (hdata ses1) \<noteq> None"
    using assms(1) by (simp add: ses_sem_def ses1_def)
  from ses_hash_sem [OF hp assms(7)] obtain r2 where
    "ses_hash A ses1 dst n s' = Some (0, ses1\<lparr>hdata := (if h_init (hdata ses1)
      then (hdata ses1)\<lparr>h_state := map_option (\<lambda>h. u h (f enc (c_iv (cdata ses)) bs)) (h_state (hdata ses1)), h_res := r2\<rparr>
      else hdata ses1)\<rparr>)" by blast
  moreover have "after_text f g u enc bs ses (ses1\<lparr>hdata := (if h_init (hdata ses1)
      then (hdata ses1)\<lparr>h_state := map_option (\<lambda>h. u h (f enc (c_iv (cdata ses)) bs)) (h_state (hdata ses1)), h_res := r2\<rparr>
      else hdata ses1)\<rparr>)"
    unfolding after_text_def ses1_def using False by (intro exI [of _ r1] exI [of _ r2]) (cases ses, simp)
  ultimately show ?thesis
    using c False assms(2) unfolding ses1_def [symmetric] by (simp add: hash_n_crypt_def)
qed

lemma ses_sem_after:
  assumes "ses_sem A ses t bsz f g u" "after_text f g u enc bs ses ses'" "bsz dvd length bs"
  shows "ses_sem A ses' t bsz f g u"
proof -
  from assms(1) have l: "length (c_iv (cdata ses)) = 16" and sem: "ablk_sem A t bsz f g" by (auto simp: ses_sem_def)
  from sem l assms(3) have "length (g enc (c_iv (cdata ses)) bs) = 16" unfolding ablk_sem_def by blast
  with assms(1,2) show ?thesis by (auto simp: ses_sem_def after_text_def)
qed

lemma after_text_append:
  assumes "ses_sem A ses t bsz f g u" "bsz dvd length xs" "bsz dvd length ys"
    "after_text f g u enc xs ses ses1" "after_text f g u enc ys ses1 ses2"
  shows "after_text f g u enc (xs @ ys) ses ses2"
proof -
  from assms(1) have l: "length (c_iv (cdata ses)) = 16" and sem: "ablk_sem A t bsz f g"
    and hs: "h_init (hdata ses) \<longrightarrow> hash_sem A u" by (auto simp: ses_sem_def)
  from sem l assms(2,3) have fg: "f enc (c_iv (cdata ses)) (xs @ ys)
      = f enc (c_iv (cdata ses)) xs @ f enc (g enc (c_iv (cdata ses)) xs) ys"
    "g enc (c_iv (cdata ses)) (xs @ ys) = g enc (g enc (c_iv (cdata ses)) xs) ys" unfolding ablk_sem_def by blast+
  have u: "h_init (hdata ses) \<Longrightarrow> u h (a @ b) = u (u h a) b" for h a b using hs by (simp add: hash_sem_def)
  from assms(4) obtain r1 r2 where 1: "ses1 = ses\<lparr>cdata := (cdata ses)\<lparr>c_iv := g enc (c_iv (cdata ses)) xs, c_res := r1\<rparr>,
        hdata := (if h_init (hdata ses)
                  then (hdata ses)\<lparr>h_state := map_option (\<lambda>h. u h (if enc then xs else f enc (c_iv (cdata ses)) xs)) (h_state (hdata ses)),
                         h_res := r2\<rparr>
                  else hdata ses)\<rparr>" unfolding after_text_def by blast
  from assms(5) obtain q1 q2 where 2: "ses2 = ses1\<lparr>cdata := (cdata ses1)\<lparr>c_iv := g enc (c_iv (cdata ses1)) ys, c_res := q1\<rparr>,
        hdata := (if h_init (hdata ses1)
                  then (hdata ses1)\<lparr>h_state := map_option (\<lambda>h. u h (if enc then ys else f enc (c_iv (cdata ses1)) ys)) (h_state (hdata ses1)),
                         h_res := q2\<rparr>
                  else hdata ses1)\<rparr>" unfolding after_text_def by blast
  show ?thesis
    unfolding after_text_def 2 1 using fg u
    by (intro exI [of _ q1] exI [of _ q2]) (cases "h_init (hdata ses)"; cases enc; simp add: option.map_comp comp_def)
qed

section \<open>The two ways of moving the data\<close>

lemma in_range_shift:
  assumes "in_range (a + of_nat k) n x" "k + n \<le> 2 ^ 64"
  shows "in_range a (k + n) x"
proof -
  have k: "unat (of_nat k :: u64) \<le> k" by (simp add: unat_of_nat)
  have "x - a = (x - (a + of_nat k)) + of_nat k" by simp
  then have "unat (x - a) \<le> unat (x - (a + of_nat k)) + unat (of_nat k :: u64)"
    by (metis unat_word_ariths(1) mod_less_eq_dividend)
  with assms(1) k show ?thesis by (simp add: in_range_def)
qed

definition no_clobber :: "u64 \<Rightarrow> u64 \<Rightarrow> nat \<Rightarrow> bool" where
  "no_clobber src dst n \<longleftrightarrow> src = dst \<or> disjoint_ranges src n dst n"

lemma disjoint_iff: "disjoint_ranges a n b k \<longleftrightarrow> (\<forall>i < n. \<not> in_range b k (a + of_nat i))"
  by (auto simp: disjoint_ranges_def)

lemma no_clobber_step:
  assumes "no_clobber src dst (k + n)" "k + n \<le> 2 ^ 64"
  shows "disjoint_ranges (src + of_nat k) n dst k" "no_clobber (src + of_nat k) (dst + of_nat k) n"
proof -
  show "disjoint_ranges (src + of_nat k) n dst k"
    unfolding disjoint_iff
  proof (intro allI impI)
    fix i assume i: "i < n"
    show "\<not> in_range dst k (src + of_nat k + of_nat i)"
    proof (cases "src = dst")
      case True
      have "unat (of_nat (k + i) :: u64) = k + i" using i assms(2) by (intro unat_of_nat_small) simp
      then show ?thesis using True by (simp add: in_range_def add.assoc)
    next
      case False
      with assms(1) have "\<not> in_range dst (k + n) (src + of_nat (k + i))"
        using i unfolding no_clobber_def disjoint_iff by (metis nat_add_left_cancel_less)
      then show ?thesis using assms(2) by (auto simp: in_range_def add.assoc)
    qed
  qed
  show "no_clobber (src + of_nat k) (dst + of_nat k) n"
  proof (cases "src = dst")
    case False
    with assms(1) have d: "\<forall>i < k + n. \<not> in_range dst (k + n) (src + of_nat i)"
      unfolding no_clobber_def disjoint_iff by auto
    have "\<not> in_range (dst + of_nat k) n (src + of_nat k + of_nat i)" if "i < n" for i
      using d [rule_format, of "k + i"] that in_range_shift [OF _ assms(2)] by (auto simp: add.assoc)
    then show ?thesis unfolding no_clobber_def disjoint_iff by blast
  qed (simp add: no_clobber_def)
qed

lemma after_text_Nil:
  assumes "ses_sem A ses t bsz f g u"
  shows "after_text f g u enc [] ses ses"
proof -
  from assms have l: "length (c_iv (cdata ses)) = 16" and sem: "ablk_sem A t bsz f g"
    and hs: "h_init (hdata ses) \<longrightarrow> hash_sem A u" by (auto simp: ses_sem_def)
  from sem l have "g enc (c_iv (cdata ses)) [] = c_iv (cdata ses)" "length (f enc (c_iv (cdata ses)) []) = length ([] :: byte list)"
    unfolding ablk_sem_def by auto
  then have fg: "g enc (c_iv (cdata ses)) [] = c_iv (cdata ses)" "f enc (c_iv (cdata ses)) [] = []" by auto
  have u: "h_init (hdata ses) \<Longrightarrow> u h [] = h" for h using hs by (simp add: hash_sem_def)
  show ?thesis
    unfolding after_text_def fg if_cancel
    by (rule exI [of _ "c_res (cdata ses)"], rule exI [of _ "h_res (hdata ses)"])
      (cases "h_init (hdata ses)"; simp add: u option.map_ident)
qed

lemma std_piece:
  assumes sem: "ses_sem A ses t bsz f g u" and op: "cop_op cop = (if enc then COP_ENCRYPT else COP_DECRYPT)"
    and n: "bsz dvd n" "length bs = n" "n \<le> length (kbuf s)" "0 < n" "take n (kbuf s) = bs"
  shows "\<exists>ses'. hash_n_crypt A ses cop (sg_init_one n) (sg_init_one n) n s
      = Some (0, ses', s\<lparr>kbuf := f enc (c_iv (cdata ses)) bs @ drop n (kbuf s)\<rparr>) \<and> after_text f g u enc bs ses ses'"
proof (rule hash_n_crypt_sem [OF sem op _ n(2,1)])
  let ?out = "f enc (c_iv (cdata ses)) bs"
  have lo: "length ?out = n" using sem n(1,2) by (auto simp: ses_sem_def ablk_sem_def)
  then have ne: "?out \<noteq> []" using n(4) by auto
  show "sg_fetch s (sg_init_one n) n = Some bs"
    using n by (simp add: sg_fetch_def sg_init_one_def take_map gather_kernel)
  show "sg_store s (sg_init_one n) ?out = Some (s\<lparr>kbuf := ?out @ drop n (kbuf s)\<rparr>)"
    using scatter_kernel [of ?out s] lo n ne by (simp add: sg_store_def sg_init_one_def take_map)
  show "sg_fetch (s\<lparr>kbuf := ?out @ drop n (kbuf s)\<rparr>) (sg_init_one n) n = Some ?out"
    using n lo by (simp add: sg_fetch_def sg_init_one_def take_map gather_kernel)
qed

lemma std_loop_sem:
  assumes "ses_sem A ses t bsz f g u" "cop_op cop = (if enc then COP_ENCRYPT else COP_DECRYPT)"
    "0 < bufsize" "bsz dvd bufsize" "bsz dvd nbytes" "bufsize \<le> length (kbuf s)" "nbytes \<le> 2 ^ 64"
    "copy_from_user (um s) src nbytes = Some bs" "can_write (um s) dst nbytes" "no_clobber src dst nbytes"
  shows "\<exists>ses' kb. crypto_run_std_loop A cop bufsize ses src dst nbytes s
      = Some (0, ses', s\<lparr>kbuf := kb, um := snd (copy_to_user (um s) dst (f enc (c_iv (cdata ses)) bs))\<rparr>)
    \<and> after_text f g u enc bs ses ses'"
  using assms
proof (induction nbytes arbitrary: ses src dst s bs rule: less_induct)
  case (less n)
  note sem = less.prems(1)
  define iv where "iv = c_iv (cdata ses)"
  have ablk: "ablk_sem A t bsz f g" and liv: "length iv = 16" and ci: "c_init (cdata ses)"
    using sem by (auto simp: ses_sem_def iv_def)
  have lbs: "length bs = n" using length_load_bytes [OF less.prems(8)] .
  show ?case
  proof (cases "n = 0")
    case True
    then have "bs = []" using lbs by simp
    moreover have "f enc iv [] = []" using ablk liv unfolding ablk_sem_def by (metis dvd_0_right length_0_conv)
    moreover have "s\<lparr>kbuf := kbuf s, um := um s\<rparr> = s" by simp
    ultimately show ?thesis
      using True after_text_Nil [OF sem] unfolding iv_def
      by (intro exI [of _ ses] exI [of _ "kbuf s"]) (simp add: crypto_run_std_loop.simps)
  next
    case False
    define cl where "cl = (if bufsize < n then bufsize else n)"
    have cl: "0 < cl" "cl \<le> n" "cl \<le> bufsize" "bsz dvd cl" using False less.prems(3-5) by (auto simp: cl_def)
    define xs where "xs = take cl bs"
    define ys where "ys = drop cl bs"
    have xy: "bs = xs @ ys" "length xs = cl" "length ys = n - cl" using lbs cl by (simp_all add: xs_def ys_def)
    have dy: "bsz dvd n - cl" using less.prems(5) cl by (simp add: dvd_diff_nat)
    have "copy_from_user (um s) src (cl + (n - cl)) = Some bs" using less.prems(8) cl by simp
    note l = load_bytes_split [OF this, folded xs_def ys_def]
    define s1 where "s1 = s\<lparr>kbuf := xs @ drop cl (kbuf s)\<rparr>"
    define out where "out = f enc iv xs"
    have lo: "length out = cl" using ablk liv cl(4) xy(2) unfolding ablk_sem_def out_def by metis
    define s2 where "s2 = s1\<lparr>kbuf := out @ drop cl (kbuf s1)\<rparr>"
    have "cl \<le> length (kbuf s1)" "take cl (kbuf s1) = xs"
      using less.prems(6) cl xy by (simp_all add: s1_def)
    from std_piece [OF sem less.prems(2) cl(4) xy(2) this(1) cl(1) this(2)] obtain ses1 where
      p: "hash_n_crypt A ses cop (sg_init_one cl) (sg_init_one cl) cl s1 = Some (0, ses1, s2)"
        "after_text f g u enc xs ses ses1"
      by (auto simp: s2_def out_def iv_def)
    have c1: "c_init (cdata ses1)" "c_iv (cdata ses1) = g enc iv xs" using p(2) ci by (auto simp: after_text_def iv_def)
    have um2: "um s2 = um s" "take cl (kbuf s2) = out" using lo by (simp_all add: s2_def s1_def)
    define m where "m = snd (copy_to_user (um s) dst out)"
    have cw: "copy_to_user (um s) dst out = (0, m)"
      using scatter_user [of s dst out] can_write_prefix [OF less.prems(9) cl(2)] lo
      by (simp add: m_def prod_eq_iff)
    have step: "crypto_run_std_loop A cop bufsize ses src dst n s
        = crypto_run_std_loop A cop bufsize ses1 (src + of_nat cl) (dst + of_nat cl) (n - cl) (s2\<lparr>um := m\<rparr>)"
      using False less.prems(3) l(1) p(1) c1(1) um2 cw
      by (subst crypto_run_std_loop.simps) (simp add: Let_def cl_def [symmetric] s1_def [symmetric])
    have nn: "cl + (n - cl) = n" using cl by simp
    note nc = no_clobber_step [of src dst cl "n - cl", unfolded nn, OF less.prems(10,7)]
    have rd: "copy_from_user m (src + of_nat cl) (n - cl) = Some ys"
      using user.load_store_disjoint [OF cw, of "src + of_nat cl" "n - cl"] nc(1) lo l(2) cl less.prems(7) by simp
    have wr: "can_write m (dst + of_nat cl) (n - cl)"
      unfolding m_def can_write_stable using can_write_suffix [of "um s" dst cl "n - cl"] less.prems(9) nn by simp
    have "\<exists>ses' kb. crypto_run_std_loop A cop bufsize ses1 (src + of_nat cl) (dst + of_nat cl) (n - cl) (s2\<lparr>um := m\<rparr>)
        = Some (0, ses', s2\<lparr>um := m\<rparr>\<lparr>kbuf := kb, um := snd (copy_to_user (um (s2\<lparr>um := m\<rparr>)) (dst + of_nat cl) (f enc (c_iv (cdata ses1)) ys))\<rparr>)
      \<and> after_text f g u enc ys ses1 ses'"
    proof (rule less.IH)
      show "n - cl < n" using cl by simp
      show "ses_sem A ses1 t bsz f g u" by (rule ses_sem_after [OF sem p(2)]) (use xy cl in simp)
      show "copy_from_user (um (s2\<lparr>um := m\<rparr>)) (src + of_nat cl) (n - cl) = Some ys" using rd by simp
      show "can_write (um (s2\<lparr>um := m\<rparr>)) (dst + of_nat cl) (n - cl)" using wr by simp
      show "bufsize \<le> length (kbuf (s2\<lparr>um := m\<rparr>))" using less.prems(6) lo cl xy by (simp add: s2_def s1_def)
    qed (use less.prems(2-4,7) dy nc(2) in simp_all)
    then obtain ses' kb where r: "crypto_run_std_loop A cop bufsize ses1 (src + of_nat cl) (dst + of_nat cl) (n - cl) (s2\<lparr>um := m\<rparr>)
        = Some (0, ses', s2\<lparr>um := m\<rparr>\<lparr>kbuf := kb, um := snd (copy_to_user m (dst + of_nat cl) (f enc (g enc iv xs) ys))\<rparr>)"
      "after_text f g u enc ys ses1 ses'" using c1(2) by auto
    have fx: "f enc iv bs = out @ f enc (g enc iv xs) ys"
      using ablk liv cl(4) dy xy unfolding ablk_sem_def out_def by metis
    have "copy_to_user (um s) dst (f enc iv bs) = copy_to_user m (dst + of_nat cl) (f enc (g enc iv xs) ys)"
      unfolding fx store_bytes_append cw using lo by simp
    moreover have "after_text f g u enc bs ses ses'"
      unfolding xy(1) by (rule after_text_append [OF sem _ _ p(2) r(2)]) (use xy cl dy in simp_all)
    moreover have "s2\<lparr>um := m\<rparr>\<lparr>kbuf := kb, um := x\<rparr> = s\<lparr>kbuf := kb, um := x\<rparr>" for x
      by (simp add: s2_def s1_def)
    ultimately show ?thesis using step r(1) unfolding iv_def by auto
  qed
qed

lemma more_eq:
  fixes x y :: "'h csession"
  shows "zcbuf.more x = zcbuf.more y \<Longrightarrow> cdata x = cdata y" "zcbuf.more x = zcbuf.more y \<Longrightarrow> hdata x = hdata y"
    "zcbuf.more x = zcbuf.more y \<Longrightarrow> sid x = sid y" "zcbuf.more x = zcbuf.more y \<Longrightarrow> sem x = sem y"
    "zcbuf.more x = zcbuf.more y \<Longrightarrow> ses_id x = ses_id y"
  by (cases x, cases y, simp)+

lemma ses_sem_more:
  assumes "zcbuf.more x = zcbuf.more y"
  shows "ses_sem A x t bsz f g u = ses_sem A y t bsz f g u"
  unfolding ses_sem_def more_eq(1,2) [OF assms] ..

lemma after_text_more:
  assumes "after_text f g u enc bs x x'" "zcbuf.more x = zcbuf.more y"
  shows "\<exists>y'. after_text f g u enc bs y y' \<and> zcbuf.more x' = zcbuf.more y'"
proof -
  note m = more_eq [OF assms(2)]
  from assms(1) obtain r1 r2 where "x' = x\<lparr>cdata := (cdata x)\<lparr>c_iv := g enc (c_iv (cdata x)) bs, c_res := r1\<rparr>,
        hdata := (if h_init (hdata x)
                  then (hdata x)\<lparr>h_state := map_option (\<lambda>h. u h (if enc then bs else f enc (c_iv (cdata x)) bs)) (h_state (hdata x)),
                         h_res := r2\<rparr>
                  else hdata x)\<rparr>" unfolding after_text_def by blast
  then have "zcbuf.more x' = zcbuf.more (y\<lparr>cdata := (cdata y)\<lparr>c_iv := g enc (c_iv (cdata y)) bs, c_res := r1\<rparr>,
        hdata := (if h_init (hdata y)
                  then (hdata y)\<lparr>h_state := map_option (\<lambda>h. u h (if enc then bs else f enc (c_iv (cdata y)) bs)) (h_state (hdata y)),
                         h_res := r2\<rparr>
                  else hdata y)\<rparr>)"
    unfolding m using assms(2) by (cases x; cases y; simp)
  then show ?thesis unfolding after_text_def by blast
qed

lemma run_std_sem:
  assumes "ses_sem A ses t bsz f g u" "cop_op cop = (if enc then COP_ENCRYPT else COP_DECRYPT)"
    "bsz dvd 2 ^ sh" "bsz dvd unat (cop_len cop)" "cop_len cop \<noteq> 0"
    "copy_from_user (um s) (cop_src cop) (unat (cop_len cop)) = Some bs"
    "can_write (um s) (cop_dst cop) (unat (cop_len cop))" "no_clobber (cop_src cop) (cop_dst cop) (unat (cop_len cop))"
  shows "\<exists>ret ses' s'. crypto_run_std A sh ses cop s = Some (ret, ses', s')
    \<and> (ret = 0 \<or> ret = - ENOMEM) \<and> pins s' = pins s
    \<and> (heap_wf s \<longrightarrow> live s' = live s \<and> bad_free s' = bad_free s \<and> heap_wf s')
    \<and> (ret = 0 \<longrightarrow> um s' = snd (copy_to_user (um s) (cop_dst cop) (f enc (c_iv (cdata ses)) bs))
        \<and> after_text f g u enc bs ses ses')
    \<and> (ret \<noteq> 0 \<longrightarrow> um s' = um s \<and> ses' = ses)"
proof -
  define n where "n = unat (cop_len cop)"
  have n: "0 < n" "n \<le> 2 ^ 64" using assms(5) unat_bound [of "cop_len cop"] by (simp_all add: n_def unat_gt_0)
  obtain p s1 where k: "kalloc FreePage s = (p, s1)" by fastforce
  have sm: "same_mem s s1" by (rule same_mem_kalloc [OF k])
  then have um1: "um s1 = um s" "pins s1 = pins s" by (simp_all add: same_mem_def)
  show ?thesis
  proof (cases p)
    case None
    with k kalloc_None [of FreePage s s1] um1 show ?thesis by (simp add: crypto_run_std_def)
  next
    case (Some i)
    define bufsize where "bufsize = (if 2 ^ sh < n then 2 ^ sh else n)"
    define s2 where "s2 = s1\<lparr>kbuf := map (uninit s1) [0..<2 ^ sh]\<rparr>"
    have b: "0 < bufsize" "bsz dvd bufsize" "bufsize \<le> length (kbuf s2)"
      using n assms(3,4) by (auto simp: bufsize_def n_def s2_def)
    have um2: "um s2 = um s" using um1 by (simp add: s2_def)
    note l = std_loop_sem [OF assms(1,2) b(1,2) assms(4) [folded n_def] b(3) n(2),
        unfolded um2, OF assms(6-8) [folded n_def]]
    then obtain ses' kb where l: "crypto_run_std_loop A cop bufsize ses (cop_src cop) (cop_dst cop) n s2
        = Some (0, ses', s2\<lparr>kbuf := kb, um := snd (copy_to_user (um s) (cop_dst cop) (f enc (c_iv (cdata ses)) bs))\<rparr>)"
      "after_text f g u enc bs ses ses'" by blast
    define s3 where "s3 = s2\<lparr>kbuf := kb, um := snd (copy_to_user (um s) (cop_dst cop) (f enc (c_iv (cdata ses)) bs))\<rparr>"
    have top: "crypto_run_std A sh ses cop s = Some (0, ses', kfree (Some i) s3)"
      using k Some l(1) by (simp add: crypto_run_std_def Let_def flip: n_def bufsize_def s2_def s3_def)
    have p3: "pins s3 = pins s" using um1 by (simp add: s3_def s2_def)
    have h3: "live (kfree (Some i) s3) = live s \<and> bad_free (kfree (Some i) s3) = bad_free s \<and> heap_wf (kfree (Some i) s3)"
      if "heap_wf s"
    proof -
      from kalloc_Some [OF k [unfolded Some] that]
      have "heap_wf s3" "live s3 = (i, FreePage) # live s" "bad_free s3 = bad_free s"
        by (simp_all add: s3_def s2_def heap_wf_def)
      with kfree_live [OF this(1,2)] show ?thesis by simp
    qed
    have "same_mem s3 (kfree (Some i) s3)" by (rule same_mem_kfree)
    then have "um (kfree (Some i) s3) = um s3" "pins (kfree (Some i) s3) = pins s3" by (simp_all add: same_mem_def)
    with top l(2) h3 p3 show ?thesis by (simp add: s3_def)
  qed
qed

text \<open>The hypotheses of a zero-copy operation: both buffers mapped, present and not overlapping.\<close>

definition zc_ready :: "mm \<Rightarrow> nat \<Rightarrow> umem \<Rightarrow> u64 \<Rightarrow> u64 \<Rightarrow> u32 \<Rightarrow> bool" where
  "zc_ready M sh m src dst len \<longleftrightarrow> 4 \<le> sh \<and> fits src len \<and> fits dst len
     \<and> (if src = dst then present M sh m src (npages sh src len) True
        else present M sh m src (npages sh src len) False \<and> present M sh m dst (npages sh dst len) True)"

lemma get_userbuf_ready:
  assumes "zc_wf ses" "zc_ready M sh (um s) a b n"
  shows "\<exists>rc i j ses' s'. get_userbuf M sh ses a n b n s = Some (rc, i, j, ses', s')
    \<and> (rc = 0 \<or> rc = - ENOMEM) \<and> um s' = um s \<and> zcbuf.more ses' = zcbuf.more ses \<and> zc_wf ses'
    \<and> (rc \<noteq> 0 \<longrightarrow> same_mem s s')
    \<and> (rc = 0 \<longrightarrow> sg_arg sh ses' i = Some (ucells a (unat n)) \<and> sg_arg sh ses' j = Some (ucells b (unat n))
        \<and> (\<exists>ps. zc_held ses' ps \<and> pins s' = (\<lambda>p. pins s p + int (count_list ps p))))"
proof (cases "a = b")
  case True
  with assms(2) have "4 \<le> sh" "fits a n" "unat a + unat n \<le> 2 ^ 64"
    "present M sh (um s) a (max (npages sh a n) (npages sh a n)) True"
    by (auto simp: zc_ready_def fits_def)
  from get_userbuf_inplace [OF assms(1) this] True show ?thesis by (elim ex_forward) (auto simp: sg_arg_def)
next
  case False
  with assms(2) have "4 \<le> sh" "fits a n" "fits b n" "a \<noteq> b" "present M sh (um s) a (npages sh a n) False"
    "present M sh (um s) b (npages sh b n) True" by (auto simp: zc_ready_def)
  from get_userbuf_apart [OF assms(1) this] show ?thesis by (elim ex_forward) (auto simp: sg_arg_def)
qed

lemma run_zc_sem:
  assumes sem: "ses_sem A ses t bsz f g u" and op: "cop_op cop = (if enc then COP_ENCRYPT else COP_DECRYPT)"
    and bsz: "bsz dvd 2 ^ sh" "bsz dvd unat (cop_len cop)" "cop_len cop \<noteq> 0"
    and rd: "copy_from_user (um s) (cop_src cop) (unat (cop_len cop)) = Some bs"
    and wr: "can_write (um s) (cop_dst cop) (unat (cop_len cop))"
    and nc: "no_clobber (cop_src cop) (cop_dst cop) (unat (cop_len cop))"
    and wf: "zc_wf ses" and zc: "zc_ready M sh (um s) (cop_src cop) (cop_dst cop) (cop_len cop)" and k: "k_cop kcop = cop"
  shows "\<exists>ret ses' s' x. crypto_run_zc A M sh ses kcop s = Some (ret, ses', s')
    \<and> (ret = 0 \<or> ret = - ENOMEM) \<and> pins s' = pins s \<and> zc_wf ses' \<and> zcbuf.more ses' = zcbuf.more x
    \<and> (ret = 0 \<longrightarrow> um s' = snd (copy_to_user (um s) (cop_dst cop) (f enc (c_iv (cdata ses)) bs))
        \<and> after_text f g u enc bs ses x)
    \<and> (ret \<noteq> 0 \<longrightarrow> um s' = um s \<and> x = ses)"
proof -
  define n where "n = unat (cop_len cop)"
  have n: "0 < n" "n \<le> 2 ^ 64" using bsz(3) unat_bound [of "cop_len cop"] by (simp_all add: n_def unat_gt_0)
  from get_userbuf_ready [OF wf zc] obtain rc i j ses1 s1 where
    g: "get_userbuf M sh ses (cop_src cop) (cop_len cop) (cop_dst cop) (cop_len cop) s = Some (rc, i, j, ses1, s1)"
      "um s1 = um s" "zcbuf.more ses1 = zcbuf.more ses" "zc_wf ses1" "rc \<noteq> 0 \<Longrightarrow> same_mem s s1"
      "rc = 0 \<Longrightarrow> sg_arg sh ses1 i = Some (ucells (cop_src cop) n) \<and> sg_arg sh ses1 j = Some (ucells (cop_dst cop) n)
        \<and> (\<exists>ps. zc_held ses1 ps \<and> pins s1 = (\<lambda>p. pins s p + int (count_list ps p)))"
    unfolding n_def by blast
  have sem1: "ses_sem A ses1 t bsz f g u" using sem ses_sem_more [OF g(3)] by blast
  have iv1: "c_iv (cdata ses1) = c_iv (cdata ses)" using more_eq(1) [OF g(3)] by simp
  show ?thesis
  proof (cases "rc = 0")
    case False
    from run_std_sem [OF sem1 op bsz, of s1 bs] rd wr nc obtain ret ses' s' where
      r: "crypto_run_std A sh ses1 cop s1 = Some (ret, ses', s')" "ret = 0 \<or> ret = - ENOMEM" "pins s' = pins s1"
        "ret = 0 \<longrightarrow> um s' = snd (copy_to_user (um s) (cop_dst cop) (f enc (c_iv (cdata ses)) bs)) \<and> after_text f g u enc bs ses1 ses'"
        "ret \<noteq> 0 \<longrightarrow> um s' = um s \<and> ses' = ses1"
      unfolding g(2) iv1 by auto
    have top: "crypto_run_zc A M sh ses kcop s = Some (ret, ses', s')"
      using g(1) False r(1) k by (simp add: crypto_run_zc_def Let_def)
    have pn: "pins s1 = pins s" using g(5) [OF False] by (simp add: same_mem_def)
    show ?thesis
    proof (cases "ret = 0")
      case True
      with r(4) after_text_more [OF _ g(3)] obtain x where "after_text f g u enc bs ses x" "zcbuf.more ses' = zcbuf.more x" by blast
      moreover have "zc_wf ses'" using r(4) True g(4) by (auto simp: after_text_def zc_wf_def)
      ultimately show ?thesis using top r True pn by (intro exI [of _ ret] exI [of _ ses'] exI [of _ s'] exI [of _ x]) simp
    next
      case nz: False
      with r(5) g(3,4) have "zcbuf.more ses' = zcbuf.more ses" "zc_wf ses'" by simp_all
      with top r nz pn show ?thesis by (intro exI [of _ ret] exI [of _ ses'] exI [of _ s'] exI [of _ ses]) simp
    qed
  next
    case True
    from g(6) [OF True] obtain ps where a: "sg_arg sh ses1 i = Some (ucells (cop_src cop) n)"
      "sg_arg sh ses1 j = Some (ucells (cop_dst cop) n)" "zc_held ses1 ps" "pins s1 = (\<lambda>p. pins s p + int (count_list ps p))" by blast
    define out where "out = f enc (c_iv (cdata ses)) bs"
    have lbs: "length bs = n" using length_load_bytes [OF rd] by (simp add: n_def)
    have lo: "length out = n"
      using sem bsz(2) lbs unfolding ses_sem_def ablk_sem_def out_def n_def by metis
    define s2 where "s2 = s1\<lparr>um := snd (copy_to_user (um s) (cop_dst cop) out)\<rparr>"
    have st: "sg_scatter s1 (ucells (cop_dst cop) n) out = Some s2" "copy_to_user (um s) (cop_dst cop) out = (0, um s2)"
      using scatter_user [of s1 "cop_dst cop" out] wr lo unfolding g(2) s2_def n_def by (simp_all add: prod_eq_iff)
    have rdb: "copy_from_user (um s2) (cop_dst cop) n = Some out"
      using user.load_after_store [OF st(2)] lo n(2) by simp
    have "\<exists>ses2. hash_n_crypt A ses1 cop (Some (ucells (cop_src cop) n)) (Some (ucells (cop_dst cop) n)) n s1 = Some (0, ses2, s2)
        \<and> after_text f g u enc bs ses1 ses2"
    proof (rule hash_n_crypt_sem [OF sem1 op])
      show "sg_fetch s1 (Some (ucells (cop_src cop) n)) n = Some bs"
        using rd n(1) unfolding n_def by (simp add: sg_fetch_def gather_user g(2))
      show "sg_store s1 (Some (ucells (cop_dst cop) n)) (f enc (c_iv (cdata ses1)) bs) = Some s2"
        using st(1) lo n(1) unfolding iv1 out_def by (auto simp: sg_store_def)
      show "sg_fetch s2 (Some (ucells (cop_dst cop) n)) n = Some (f enc (c_iv (cdata ses1)) bs)"
        using rdb n(1) unfolding iv1 out_def by (simp add: sg_fetch_def gather_user)
    qed (use lbs bsz(2) in \<open>simp_all add: n_def\<close>)
    then obtain ses2 where h: "hash_n_crypt A ses1 cop (Some (ucells (cop_src cop) n)) (Some (ucells (cop_dst cop) n)) n s1 = Some (0, ses2, s2)"
      "after_text f g u enc bs ses1 ses2" by blast
    have h2: "zc_held ses2 ps" "zc_wf ses2" using a(3) g(4) h(2) by (auto simp: after_text_def zc_held_def zc_wf_def)
    from release_user_pages_pins [OF h2(1), of M s2] obtain ro s3 where
      rl: "release_user_pages M ses2 s2 = Some (ses2\<lparr>readonly_pages := ro, used_pages := 0\<rparr>, s3)" "um s3 = um s2"
        "pins s3 = (\<lambda>p. pins s2 p - int (count_list ps p))" by blast
    have top: "crypto_run_zc A M sh ses kcop s = Some (0, ses2\<lparr>readonly_pages := ro, used_pages := 0\<rparr>, s3)"
      using g(1) True h(1) rl(1) k a(1,2) by (simp add: crypto_run_zc_def Let_def flip: n_def)
    obtain x where x: "after_text f g u enc bs ses x" "zcbuf.more ses2 = zcbuf.more x"
      using after_text_more [OF h(2) g(3)] by blast
    have "zcbuf.more (ses2\<lparr>readonly_pages := ro, used_pages := 0\<rparr>) = zcbuf.more x" using x(2) by simp
    moreover have "zc_wf (ses2\<lparr>readonly_pages := ro, used_pages := 0\<rparr>)" using h2(2) by (simp add: zc_wf_def)
    moreover have "pins s3 = pins s" using rl(3) a(4) by (auto simp: s2_def)
    moreover have "um s3 = snd (copy_to_user (um s) (cop_dst cop) out)" using rl(2) by (simp add: s2_def)
    ultimately show ?thesis using top x(1) unfolding out_def by auto
  qed
qed


section \<open>What an operation keeps of the session\<close>

definition same_ses :: "'h csession \<Rightarrow> 'h csession \<Rightarrow> bool" where
  "same_ses x y \<longleftrightarrow> sid x = sid y \<and> sem x = sem y \<and> ses_id x = ses_id y"

lemma same_ses_refl [simp]: "same_ses x x"
  by (simp add: same_ses_def)

lemma same_ses_trans [trans]: "same_ses x y \<Longrightarrow> same_ses y z \<Longrightarrow> same_ses x z"
  by (simp add: same_ses_def)

lemma same_ses_more: "zcbuf.more x = zcbuf.more y \<Longrightarrow> same_ses x y"
  using more_eq(3-5) [of x y] by (simp add: same_ses_def)

lemma same_ses_upd [simp]:
  "same_ses x (y\<lparr>cdata := c\<rparr>) = same_ses x y" "same_ses x (y\<lparr>hdata := h\<rparr>) = same_ses x y"
  by (simp_all add: same_ses_def)

lemma get_userbuf_pages_more:
  "get_userbuf_pages M sh a n wr k base ses s = Some (rc, ses', s') \<Longrightarrow> zcbuf.more ses' = zcbuf.more ses"
  by (auto simp: get_userbuf_pages_def Let_def bind_eq_Some_conv split: if_splits sum.splits)

lemma release_user_pages_more:
  "release_user_pages M ses s = Some (ses', s') \<Longrightarrow> zcbuf.more ses' = zcbuf.more ses"
  by (auto simp: release_user_pages_def bind_eq_Some_conv split: if_splits)

lemma adjust_sg_array_more:
  "adjust_sg_array n ses s = Some (rc, ses', s') \<Longrightarrow> zcbuf.more ses' = zcbuf.more ses"
  by (auto simp: adjust_sg_array_def Let_def split: option.splits prod.splits)

lemma map_userbuf_more:
  "map_userbuf M sh ses a n b k s = Some (rc, i, j, ses', s') \<Longrightarrow> zcbuf.more ses' = zcbuf.more ses"
  by (auto simp: map_userbuf_def Let_def bind_eq_Some_conv split: if_splits
      dest!: get_userbuf_pages_more release_user_pages_more)

lemma get_userbuf_more:
  "get_userbuf M sh ses a n b k s = Some (rc, i, j, ses', s') \<Longrightarrow> zcbuf.more ses' = zcbuf.more ses"
  unfolding get_userbuf_def Let_def reserve_pages_def
  by (auto simp: bind_eq_Some_conv split: if_splits dest!: map_userbuf_more adjust_sg_array_more)

lemma ses_hash_same: "ses_hash A ses l n s = Some (ret, ses') \<Longrightarrow> same_ses ses ses'"
  by (auto simp: ses_hash_def bind_eq_Some_conv split: if_splits)

lemma ses_cipher_same: "ses_cipher A enc ses src dst n s = Some (ret, ses', s') \<Longrightarrow> same_ses ses ses'"
  by (auto simp: ses_cipher_def bind_eq_Some_conv split: if_splits)

lemma hash_n_crypt_same: "hash_n_crypt A ses cop src dst n s = Some (ret, ses', s') \<Longrightarrow> same_ses ses ses'"
  by (auto simp: hash_n_crypt_def bind_eq_Some_conv split: if_splits
      dest!: ses_hash_same ses_cipher_same intro: same_ses_trans)

lemma std_loop_same:
  "crypto_run_std_loop A cop bufsize ses src dst n s = Some (ret, ses', s') \<Longrightarrow> same_ses ses ses'"
proof (induction n arbitrary: ses src dst s rule: less_induct)
  case (less n)
  have IH: "crypto_run_std_loop A cop bufsize x a b k t = Some (ret, ses', s') \<Longrightarrow> k < n \<Longrightarrow> same_ses ses x \<Longrightarrow> same_ses ses ses'"
    for x a b k t using less.IH same_ses_trans by blast
  show ?case
    using less.prems
    by (subst (asm) crypto_run_std_loop.simps)
      (auto simp: Let_def bind_eq_Some_conv split: if_splits option.splits prod.splits
        dest!: hash_n_crypt_same elim!: IH)
qed

lemma run_std_same: "crypto_run_std A sh ses cop s = Some (ret, ses', s') \<Longrightarrow> same_ses ses ses'"
  by (auto simp: crypto_run_std_def Let_def bind_eq_Some_conv split: option.splits prod.splits dest: std_loop_same)

lemma run_zc_same:
  assumes "crypto_run_zc A M sh ses kcop s = Some (ret, ses', s')"
  shows "same_ses ses ses'"
proof -
  from assms obtain rc i j ses1 s1 where
    g: "get_userbuf M sh ses (cop_src (k_cop kcop)) (cop_len (k_cop kcop)) (cop_dst (k_cop kcop)) (cop_len (k_cop kcop)) s
      = Some (rc, i, j, ses1, s1)" by (auto simp: crypto_run_zc_def Let_def bind_eq_Some_conv)
  have "same_ses ses ses1" by (rule same_ses_more) (use get_userbuf_more [OF g] in simp)
  also have "same_ses ses1 ses'"
  proof (cases "rc = 0")
    case False
    with assms g show ?thesis by (intro run_std_same) (simp add: crypto_run_zc_def Let_def)
  next
    case True
    with assms g obtain rc2 ses2 s2 where
      "hash_n_crypt A ses1 (k_cop kcop) (sg_arg sh ses1 i) (sg_arg sh ses1 j) (unat (cop_len (k_cop kcop))) s1 = Some (rc2, ses2, s2)"
      "release_user_pages M ses2 s2 = Some (ses', s')" by (auto simp: crypto_run_zc_def Let_def bind_eq_Some_conv)
    then have "same_ses ses1 ses2" "same_ses ses2 ses'"
      by (auto dest: hash_n_crypt_same intro: same_ses_more [OF release_user_pages_more [symmetric]])
    then show ?thesis by (rule same_ses_trans)
  qed
  finally show ?thesis .
qed

lemma run_parts_same:
  "run_reset A ses cop r = Some (ret, go, ses') \<Longrightarrow> same_ses ses ses'"
  "run_set_iv ses kcop r = Some (ret, go, ses') \<Longrightarrow> same_ses ses ses'"
  "run_data A M sh ses kcop r s = Some (ret, go, ses', s') \<Longrightarrow> same_ses ses ses'"
  "run_final A ses kcop r = Some (ret, ses', kcop') \<Longrightarrow> same_ses ses ses'"
  by (auto simp: run_reset_def run_set_iv_def run_data_def run_final_def Let_def bind_eq_Some_conv split: if_splits
      dest!: run_std_same run_zc_same)

lemma run_session_same:
  "run_session A M sh ses kcop s = Some (ret, ses', kcop', s') \<Longrightarrow> same_ses ses ses'"
  unfolding run_session_def
  by (auto simp: bind_eq_Some_conv split: if_splits dest!: run_parts_same intro: same_ses_trans)

section \<open>Theorems\<close>

text \<open>A session with the XOR cipher and a hash, and one with the cipher alone.\<close>

definition ses_demo :: "bool \<Rightarrow> byte list csession" where
  "ses_demo h = \<lparr>zc_alignmask = 0, array_size = 4, used_pages = 0, readonly_pages = 0, pages_ptr = None, sg_ptr = None,
     pages = replicate 4 None, sg = replicate 4 sg_zero, ses_id = 0, sem = False,
     cdata = cipher_zero\<lparr>c_init := True, c_blocksize := 4, c_ivsize := 4,
       c_s := Some \<lparr>tfm_id = 1, tfm_name = ''cbc(aes)'', tfm_key = [5, 6], tfm_authsize = 0\<rparr>\<rparr>,
     hdata = hash_zero\<lparr>h_init := h, h_state := Some []\<rparr>, sid = 7\<rparr>"

definition cop_demo :: "u64 \<Rightarrow> u64 \<Rightarrow> u16 \<Rightarrow> crypt_op" where
  "cop_demo a b fl = \<lparr>cop_ses = 7, cop_op = COP_ENCRYPT, cop_flags = fl, cop_len = 24, cop_pad = 0, cop_src = a, cop_dst = b, cop_mac = 0, cop_iv = 0\<rparr>"

definition kcop_demo :: "u64 \<Rightarrow> u64 \<Rightarrow> u16 \<Rightarrow> kernel_crypt_op" where
  "kcop_demo a b fl = \<lparr>k_cop = cop_demo a b fl, k_ivlen = 4, k_iv = [1, 2, 3, 4] @ replicate 12 0, k_digestsize = 0, k_hash_output = replicate 64 0\<rparr>"

lemma ses_demo_sem:
  "ses_sem capi_demo (ses_demo h) \<lparr>tfm_id = 1, tfm_name = ''cbc(aes)'', tfm_key = [5, 6], tfm_authsize = 0\<rparr> 4
     (\<lambda>enc iv bs. xor_key [5, 6] bs) (\<lambda>enc iv bs. iv) (\<lambda>h bs. h @ bs)"
  by (auto simp: ses_sem_def ablk_sem_def hash_sem_def ses_demo_def cipher_zero_def hash_zero_def capi_demo_def xor_key_def
      completes_def outcome_def)

lemma copy_zeros: "copy_from_user (um kst_demo) a n = Some (replicate n 0)"
  by (induction n arbitrary: a) (auto simp: kst_demo_def urd_def)

lemma demo_ready:
  "a \<noteq> 0 \<Longrightarrow> b \<noteq> 0 \<Longrightarrow> unat a < 1000 \<Longrightarrow> unat b < 1000 \<Longrightarrow> zc_ready mm_demo 4 (um kst_demo) a b 24"
  by (auto simp: zc_ready_def fits_def present_def mm_demo_def)

lemma demo_can_write: "can_write (um kst_demo) a n"
  by (simp add: can_write_def kst_demo_def)

lemma after_text_fields:
  assumes "after_text f g u enc bs ses ses'"
  shows "c_iv (cdata ses') = g enc (c_iv (cdata ses)) bs"
    "h_state (hdata ses') = (if h_init (hdata ses)
       then map_option (\<lambda>h. u h (if enc then bs else f enc (c_iv (cdata ses)) bs)) (h_state (hdata ses))
       else h_state (hdata ses))"
  using assms by (auto simp: after_text_def)

text \<open>C7: The zero-copy path and the copying path (\<open>__crypto_run_zc\<close> and \<open>__crypto_run_std\<close> of main.c)
  do the same: for a session with a block cipher, with or without a hash, and two buffers that are
  equal or do not overlap, both return with 0 or \<open>-ENOMEM\<close>; when both succeed they leave the same
  user memory, namely the cipher's output at the destination, the same IV, and the same hash state,
  which covers the plain text in either direction.  The zero-copy path holds no page afterwards.\<close>

theorem zero_copy_agrees:
  assumes "ses_sem A ses t bsz f g u" "cop_op (k_cop kcop) = (if enc then COP_ENCRYPT else COP_DECRYPT)"
    "bsz dvd 2 ^ sh" "bsz dvd unat (cop_len (k_cop kcop))" "cop_len (k_cop kcop) \<noteq> 0"
    "copy_from_user (um s) (cop_src (k_cop kcop)) (unat (cop_len (k_cop kcop))) = Some bs"
    "can_write (um s) (cop_dst (k_cop kcop)) (unat (cop_len (k_cop kcop)))"
    "no_clobber (cop_src (k_cop kcop)) (cop_dst (k_cop kcop)) (unat (cop_len (k_cop kcop)))"
    "zc_wf ses" "zc_ready M sh (um s) (cop_src (k_cop kcop)) (cop_dst (k_cop kcop)) (cop_len (k_cop kcop))"
  shows "\<exists>r1 ses1 s1 r2 ses2 s2.
      crypto_run_std A sh ses (k_cop kcop) s = Some (r1, ses1, s1) \<and> crypto_run_zc A M sh ses kcop s = Some (r2, ses2, s2)
    \<and> r1 \<in> {0, - ENOMEM} \<and> r2 \<in> {0, - ENOMEM} \<and> pins s2 = pins s \<and> zc_wf ses2
    \<and> (r1 = 0 \<and> r2 = 0 \<longrightarrow> um s1 = um s2
        \<and> um s1 = snd (copy_to_user (um s) (cop_dst (k_cop kcop)) (f enc (c_iv (cdata ses)) bs))
        \<and> c_iv (cdata ses1) = g enc (c_iv (cdata ses)) bs \<and> c_iv (cdata ses2) = c_iv (cdata ses1)
        \<and> h_state (hdata ses1) = (if h_init (hdata ses)
             then map_option (\<lambda>h. u h (if enc then bs else f enc (c_iv (cdata ses)) bs)) (h_state (hdata ses))
             else h_state (hdata ses))
        \<and> h_state (hdata ses2) = h_state (hdata ses1))"
proof -
  from run_std_sem [OF assms(1-8)] obtain r1 ses1 s1 where
    a: "crypto_run_std A sh ses (k_cop kcop) s = Some (r1, ses1, s1)" "r1 = 0 \<or> r1 = - ENOMEM"
      "r1 = 0 \<Longrightarrow> um s1 = snd (copy_to_user (um s) (cop_dst (k_cop kcop)) (f enc (c_iv (cdata ses)) bs))"
      "r1 = 0 \<Longrightarrow> after_text f g u enc bs ses ses1" by blast
  note fa = after_text_fields [OF a(4)]
  from run_zc_sem [OF assms refl] obtain r2 ses2 s2 x where
    b: "crypto_run_zc A M sh ses kcop s = Some (r2, ses2, s2)" "r2 = 0 \<or> r2 = - ENOMEM" "pins s2 = pins s" "zc_wf ses2"
      "zcbuf.more ses2 = zcbuf.more x"
      "r2 = 0 \<Longrightarrow> um s2 = snd (copy_to_user (um s) (cop_dst (k_cop kcop)) (f enc (c_iv (cdata ses)) bs))"
      "r2 = 0 \<Longrightarrow> after_text f g u enc bs ses x" by blast
  note fb = after_text_fields [OF b(7)]
  have "cdata ses2 = cdata x" "hdata ses2 = hdata x" using more_eq(1,2) [OF b(5)] by simp_all
  with a(1-3) b(1-4,6) fa fb show ?thesis
    by (intro exI [of _ r1] exI [of _ ses1] exI [of _ s1] exI [of _ r2] exI [of _ ses2] exI [of _ s2]) simp
qed

theorem zero_copy_agrees_witness:
  "\<exists>r1 ses1 s1 r2 ses2 s2.
      crypto_run_std capi_demo 4 (ses_demo True) (cop_demo 40 100 0) kst_demo = Some (r1, ses1, s1)
    \<and> crypto_run_zc capi_demo mm_demo 4 (ses_demo True) (kcop_demo 40 100 0) kst_demo = Some (r2, ses2, s2)
    \<and> r1 \<in> {0, - ENOMEM} \<and> r2 \<in> {0, - ENOMEM} \<and> pins s2 = pins kst_demo \<and> zc_wf ses2
    \<and> (r1 = 0 \<and> r2 = 0 \<longrightarrow> um s1 = um s2
        \<and> um s1 = snd (copy_to_user (um kst_demo) 100 (xor_key [5, 6] (replicate 24 0)))
        \<and> h_state (hdata ses1) = Some (replicate 24 0) \<and> h_state (hdata ses2) = h_state (hdata ses1))"
proof -
  have "\<exists>r1 ses1 s1 r2 ses2 s2.
      crypto_run_std capi_demo 4 (ses_demo True) (k_cop (kcop_demo 40 100 0)) kst_demo = Some (r1, ses1, s1)
    \<and> crypto_run_zc capi_demo mm_demo 4 (ses_demo True) (kcop_demo 40 100 0) kst_demo = Some (r2, ses2, s2)
    \<and> r1 \<in> {0, - ENOMEM} \<and> r2 \<in> {0, - ENOMEM} \<and> pins s2 = pins kst_demo \<and> zc_wf ses2
    \<and> (r1 = 0 \<and> r2 = 0 \<longrightarrow> um s1 = um s2
        \<and> um s1 = snd (copy_to_user (um kst_demo) (cop_dst (k_cop (kcop_demo 40 100 0)))
            ((\<lambda>enc iv bs. xor_key [5, 6] bs) True (c_iv (cdata (ses_demo True))) (replicate 24 0)))
        \<and> c_iv (cdata ses1) = (\<lambda>enc iv bs. iv) True (c_iv (cdata (ses_demo True))) (replicate 24 0)
        \<and> c_iv (cdata ses2) = c_iv (cdata ses1)
        \<and> h_state (hdata ses1) = (if h_init (hdata (ses_demo True))
             then map_option (\<lambda>h. (\<lambda>h bs. h @ bs) h (if True then replicate 24 0
               else (\<lambda>enc iv bs. xor_key [5, 6] bs) True (c_iv (cdata (ses_demo True))) (replicate 24 0))) (h_state (hdata (ses_demo True)))
             else h_state (hdata (ses_demo True)))
        \<and> h_state (hdata ses2) = h_state (hdata ses1))"
    by (rule zero_copy_agrees [OF ses_demo_sem])
      (simp_all add: kcop_demo_def cop_demo_def copy_zeros demo_can_write demo_ready no_clobber_def disjoint_ranges_def
        in_range_def ses_demo_def zc_wf_def upt_rec)
  moreover have "h_init (hdata (ses_demo True))" "h_state (hdata (ses_demo True)) = Some []"
    "k_cop (kcop_demo 40 100 0) = cop_demo 40 100 0" "cop_dst (cop_demo 40 100 0) = 100"
    by (simp_all add: ses_demo_def kcop_demo_def cop_demo_def)
  ultimately show ?thesis by (elim ex_forward) auto
qed

text \<open>A session taken by its identifier, worked on under its lock and put back.\<close>

lemma locked_session:
  assumes "find_session d fcr = Some ses" "same_ses (ses\<lparr>sem := True\<rparr>) ses'"
    "fcr' = crypto_put_session ses' (replace_session (ses\<lparr>sem := True\<rparr>) fcr)"
  shows "map sid fcr' = map sid fcr" "find_session d fcr' = Some (ses'\<lparr>sem := False\<rparr>)"
    "e \<noteq> d \<Longrightarrow> find_session e fcr' = find_session e fcr"
proof -
  define fcr1 where "fcr1 = replace_session (ses\<lparr>sem := True\<rparr>) fcr"
  have k: "sid ses = d" using assms(1) by (rule fcr.lookup_key)
  with assms(2) have d: "sid ses' = d" by (simp add: same_ses_def)
  have 1: "find_session d fcr1 = Some (ses\<lparr>sem := True\<rparr>)"
    unfolding fcr1_def by (rule fcr.update_same [OF assms(1)]) (simp add: k)
  have f: "fcr' = replace_session (ses'\<lparr>sem := False\<rparr>) fcr1" by (simp add: assms(3) crypto_put_session_def fcr1_def)
  show "find_session d fcr' = Some (ses'\<lparr>sem := False\<rparr>)"
    unfolding f by (rule fcr.update_same [OF 1]) (simp add: d)
  show "map sid fcr' = map sid fcr" by (simp add: f fcr1_def)
  show "find_session e fcr' = find_session e fcr" if "e \<noteq> d"
  proof -
    have "find_session e fcr' = find_session e fcr1"
      unfolding f by (rule fcr.update_other [OF 1 _ that]) (simp add: d)
    also have "\<dots> = find_session e fcr"
      unfolding fcr1_def by (rule fcr.update_other [OF assms(1) _ that]) (simp add: k)
    finally show ?thesis .
  qed
qed

text \<open>C15: \<open>crypto_run\<close> (main.c) works on its own session only: whatever the outcome, the session
  identifiers of the file stay as they are, every other session is unchanged, and the session it
  worked on is unlocked again.  An operation code that is neither encrypt nor decrypt, or an
  unknown session, is \<open>-EINVAL\<close> and changes nothing.\<close>

theorem crypto_run_unlocks:
  assumes "crypto_run A M sh fcr kcop s = Some (ret, fcr', kcop', s')"
  shows "map sid fcr' = map sid fcr
    \<and> (\<forall>d. d \<noteq> cop_ses (k_cop kcop) \<longrightarrow> find_session d fcr' = find_session d fcr)
    \<and> (cop_op (k_cop kcop) = COP_ENCRYPT \<or> cop_op (k_cop kcop) = COP_DECRYPT \<longrightarrow>
        (case find_session (cop_ses (k_cop kcop)) fcr' of
           Some ses \<Rightarrow> \<not> sem ses | None \<Rightarrow> ret = - EINVAL \<and> fcr' = fcr \<and> kcop' = kcop \<and> s' = s))
    \<and> (cop_op (k_cop kcop) \<noteq> COP_ENCRYPT \<and> cop_op (k_cop kcop) \<noteq> COP_DECRYPT \<longrightarrow>
        ret = - EINVAL \<and> fcr' = fcr \<and> kcop' = kcop \<and> s' = s)"
proof (cases "cop_op (k_cop kcop) \<noteq> COP_ENCRYPT \<and> cop_op (k_cop kcop) \<noteq> COP_DECRYPT")
  case True
  with assms show ?thesis by (simp add: crypto_run_def)
next
  case op: False
  define d where "d = cop_ses (k_cop kcop)"
  show ?thesis
  proof (cases "find_session d fcr")
    case None
    with assms op show ?thesis by (auto simp: crypto_run_def crypto_get_session_by_sid_def d_def)
  next
    case (Some ses)
    from Some assms op obtain ses' where
      r: "run_session A M sh (ses\<lparr>sem := True\<rparr>) kcop s = Some (ret, ses', kcop', s')"
        "fcr' = crypto_put_session ses' (replace_session (ses\<lparr>sem := True\<rparr>) fcr)"
      by (auto simp: crypto_run_def crypto_get_session_by_sid_def bind_eq_Some_conv d_def split: if_splits)
    from locked_session [OF Some run_session_same [OF r(1)] r(2)] show ?thesis using op unfolding d_def by auto
  qed
qed

definition kcop_empty :: kernel_crypt_op where
  "kcop_empty = (kcop_demo 40 100 0)\<lparr>k_cop := (cop_demo 40 100 0)\<lparr>cop_len := 0\<rparr>\<rparr>"

lemma run_demo: "\<exists>r. crypto_run capi_demo mm_demo 4 [ses_demo False] kcop_empty kst_demo = Some r"
  by (simp add: crypto_run_def crypto_get_session_by_sid_def run_session_def run_reset_def run_set_iv_def run_data_def
      run_final_def cryptodev_cipher_set_iv_def Let_def kcop_empty_def cop_demo_def ses_demo_def cipher_zero_def hash_zero_def)

theorem crypto_run_unlocks_witness:
  "\<exists>ret fcr' kcop' s'. crypto_run capi_demo mm_demo 4 [ses_demo False] kcop_empty kst_demo = Some (ret, fcr', kcop', s')
    \<and> map sid fcr' = [7] \<and> (case find_session 7 fcr' of Some ses \<Rightarrow> \<not> sem ses | None \<Rightarrow> False)"
proof -
  obtain ret fcr' kcop' s' where r: "crypto_run capi_demo mm_demo 4 [ses_demo False] kcop_empty kst_demo = Some (ret, fcr', kcop', s')"
    using run_demo by (metis prod_cases4)
  have m: "map sid [ses_demo False] = [7]" "cop_ses (k_cop kcop_empty) = 7" "cop_op (k_cop kcop_empty) = COP_ENCRYPT"
    by (simp_all add: ses_demo_def kcop_empty_def cop_demo_def)
  from crypto_run_unlocks [OF r] m have k: "map sid fcr' = [7]" "case find_session 7 fcr' of Some ses \<Rightarrow> \<not> sem ses | None \<Rightarrow> fcr' = [ses_demo False]"
    by (auto split: option.splits)
  moreover from k(1) have "find_session 7 fcr' \<noteq> None" by (simp add: find_session_None)
  ultimately show ?thesis using r by (auto split: option.splits)
qed

text \<open>The text of an operation on either data path, for a session whose IV is set.\<close>

lemma run_data_sem:
  assumes sem: "ses_sem A x t bsz f g u" "bsz dvd 2 ^ sh" "\<not> h_init (hdata x)"
    and op: "cop_op (k_cop kcop) = (if enc then COP_ENCRYPT else COP_DECRYPT)"
      "bsz dvd unat (cop_len (k_cop kcop))" "cop_len (k_cop kcop) \<noteq> 0"
    and rd: "copy_from_user (um s) (cop_src (k_cop kcop)) (unat (cop_len (k_cop kcop))) = Some bs"
    and wr: "can_write (um s) (cop_dst (k_cop kcop)) (unat (cop_len (k_cop kcop)))"
    and nc: "no_clobber (cop_src (k_cop kcop)) (cop_dst (k_cop kcop)) (unat (cop_len (k_cop kcop)))"
    and zc: "zc_wf x" "zc_ready M sh (um s) (cop_src (k_cop kcop)) (cop_dst (k_cop kcop)) (cop_len (k_cop kcop))"
  shows "\<exists>ret go ses' s' y. run_data A M sh x kcop (uninit_int s) s = Some (ret, go, ses', s') \<and> go = (ret = 0)
      \<and> (ret = 0 \<or> ret = - ENOMEM) \<and> pins s' = pins s \<and> zcbuf.more ses' = zcbuf.more y
      \<and> (ret = 0 \<longrightarrow> um s' = snd (copy_to_user (um s) (cop_dst (k_cop kcop)) (f enc (c_iv (cdata x)) bs)) \<and> after_text f g u enc bs x y)
      \<and> (ret \<noteq> 0 \<longrightarrow> um s' = um s \<and> y = x) \<and> zc_wf ses'"
proof (cases "has_flag (cop_flags (k_cop kcop)) COP_FLAG_NO_ZC")
  case True
  have "zc_wf y" if "after_text f g u enc bs x y" for y using that zc(1) by (auto simp: after_text_def zc_wf_def)
  with zc(1) run_std_sem [OF sem(1) op(1) sem(2) op(2,3) rd wr nc] True op(3) show ?thesis
    unfolding run_data_def by (auto simp: bind_eq_Some_conv)
next
  case False
  from run_zc_sem [OF sem(1) op(1) sem(2) op(2,3) rd wr nc zc refl] False op(3) show ?thesis
    unfolding run_data_def by (auto simp: bind_eq_Some_conv)
qed

lemma run_cipher_session:
  assumes ses: "find_session (cop_ses (k_cop kcop)) fcr = Some ses" "\<not> sem ses" "\<not> h_init (hdata ses)"
    and sem: "ses_sem A ses t bsz f g u" "c_blocksize (cdata ses) = bsz" "0 < bsz" "bsz dvd 2 ^ sh"
    and op: "cop_op (k_cop kcop) = (if enc then COP_ENCRYPT else COP_DECRYPT)"
      "bsz dvd unat (cop_len (k_cop kcop))" "cop_len (k_cop kcop) \<noteq> 0"
    and rd: "copy_from_user (um s) (cop_src (k_cop kcop)) (unat (cop_len (k_cop kcop))) = Some bs"
    and wr: "can_write (um s) (cop_dst (k_cop kcop)) (unat (cop_len (k_cop kcop)))"
    and nc: "no_clobber (cop_src (k_cop kcop)) (cop_dst (k_cop kcop)) (unat (cop_len (k_cop kcop)))"
    and zc: "zc_wf ses" "zc_ready M sh (um s) (cop_src (k_cop kcop)) (cop_dst (k_cop kcop)) (cop_len (k_cop kcop))"
    and iv: "length (k_iv kcop) = 16" "k = min (min (c_ivsize (cdata ses)) (k_ivlen kcop)) 16"
      "iv = take k (k_iv kcop) @ drop k (c_iv (cdata ses))"
  shows "\<exists>ret fcr' kcop' s'. crypto_run A M sh fcr kcop s = Some (ret, fcr', kcop', s') \<and> pins s' = pins s
    \<and> (ret = 0 \<or> ret = - ENOMEM)
    \<and> (ret = 0 \<longrightarrow> um s' = snd (copy_to_user (um s) (cop_dst (k_cop kcop)) (f enc iv bs))
        \<and> kcop' = kcop\<lparr>k_iv := take k (g enc iv bs) @ drop k (k_iv kcop)\<rparr>)
    \<and> (ret \<noteq> 0 \<longrightarrow> um s' = um s \<and> kcop' = kcop)
    \<and> (\<exists>ses' r. find_session (cop_ses (k_cop kcop)) fcr' = Some ses' \<and> \<not> sem ses' \<and> zc_wf ses' \<and> hdata ses' = hdata ses
        \<and> cdata ses' = (cdata ses)\<lparr>c_iv := (if ret = 0 then g enc iv bs else iv), c_res := r\<rparr>)"
proof -
  define x where "x = ses\<lparr>sem := True, cdata := cryptodev_cipher_set_iv (cdata ses) (k_iv kcop) (min (c_ivsize (cdata ses)) (k_ivlen kcop))\<rparr>"
  have cx: "cdata x = (cdata ses)\<lparr>c_iv := iv\<rparr>" "hdata x = hdata ses"
    using iv by (simp_all add: x_def cryptodev_cipher_set_iv_def Let_def)
  have "length (c_iv (cdata ses)) = 16" using sem(1) by (simp add: ses_sem_def)
  then have "length iv = 16" using iv by simp
  then have semx: "ses_sem A x t bsz f g u" using sem(1) by (simp add: ses_sem_def cx)
  have zx: "zc_wf x" using zc(1) by (simp add: zc_wf_def x_def)
  have hx: "\<not> h_init (hdata x)" using ses(3) by (simp add: cx)
  have ivx: "c_iv (cdata x) = iv" by (simp add: cx)
  from run_data_sem [OF semx sem(4) hx op rd wr nc zx zc(2), unfolded ivx]
  obtain ret go ses' s' y where d: "run_data A M sh x kcop (uninit_int s) s = Some (ret, go, ses', s')" "go = (ret = 0)"
      "ret = 0 \<or> ret = - ENOMEM" "pins s' = pins s" "zcbuf.more ses' = zcbuf.more y"
      "ret = 0 \<Longrightarrow> um s' = snd (copy_to_user (um s) (cop_dst (k_cop kcop)) (f enc iv bs))" "ret = 0 \<Longrightarrow> after_text f g u enc bs x y"
      "ret \<noteq> 0 \<Longrightarrow> um s' = um s" "ret \<noteq> 0 \<Longrightarrow> y = x" "zc_wf ses'" by blast
  have y: "\<exists>r. cdata ses' = (cdata ses)\<lparr>c_iv := (if ret = 0 then g enc iv bs else iv), c_res := r\<rparr> \<and> hdata ses' = hdata ses"
  proof (cases "ret = 0")
    case True
    then show ?thesis using d(7) ses(3) more_eq(1,2) [OF d(5)] unfolding after_text_def cx by auto
  next
    case False
    then show ?thesis using d(9) more_eq(1,2) [OF d(5)] by (intro exI [of _ "c_res (cdata ses)"]) (simp add: cx)
  qed
  have "\<exists>kcop2. run_session A M sh (ses\<lparr>sem := True\<rparr>) kcop s = Some (ret, ses', kcop2, s')
      \<and> (if ret = 0 then kcop2 = kcop\<lparr>k_iv := take k (g enc iv bs) @ drop k (k_iv kcop)\<rparr> else kcop2 = kcop)"
  proof -
    have init: "c_init (cdata ses)" using sem(1) by (simp add: ses_sem_def)
    have "run_reset A (ses\<lparr>sem := True\<rparr>) (k_cop kcop) (uninit_int s) = Some (uninit_int s, True, ses\<lparr>sem := True\<rparr>)"
      using ses(3) by (simp add: run_reset_def)
    moreover have "run_set_iv (ses\<lparr>sem := True\<rparr>) kcop (uninit_int s) = Some (uninit_int s, True, x)"
      using init sem(2,3) op(2) by (simp add: run_set_iv_def x_def)
    moreover have "run_final A ses' kcop ret = Some (ret, ses', kcop\<lparr>k_iv := take k (g enc iv bs) @ drop k (k_iv kcop)\<rparr>)" if "ret = 0"
      using y that init ses(3) iv(2) by (auto simp: run_final_def cryptodev_cipher_get_iv_def Let_def)
    ultimately show ?thesis using d(1,2) by (cases "ret = 0") (simp_all add: run_session_def)
  qed
  then obtain kcop2 where r: "run_session A M sh (ses\<lparr>sem := True\<rparr>) kcop s = Some (ret, ses', kcop2, s')"
      "if ret = 0 then kcop2 = kcop\<lparr>k_iv := take k (g enc iv bs) @ drop k (k_iv kcop)\<rparr> else kcop2 = kcop" by blast
  define fcr' where "fcr' = crypto_put_session ses' (replace_session (ses\<lparr>sem := True\<rparr>) fcr)"
  have c: "crypto_run A M sh fcr kcop s = Some (ret, fcr', kcop2, s')"
    using ses(1,2) op(1) r(1) by (cases enc) (simp_all add: crypto_run_def crypto_get_session_by_sid_def fcr'_def)
  have f: "find_session (cop_ses (k_cop kcop)) fcr' = Some (ses'\<lparr>sem := False\<rparr>)"
    by (rule locked_session(2) [OF ses(1) run_session_same [OF r(1)] fcr'_def])
  have "\<exists>z r. find_session (cop_ses (k_cop kcop)) fcr' = Some z \<and> \<not> sem z \<and> zc_wf z \<and> hdata z = hdata ses
      \<and> cdata z = (cdata ses)\<lparr>c_iv := (if ret = 0 then g enc iv bs else iv), c_res := r\<rparr>"
    using y d(10) by (intro exI [of _ "ses'\<lparr>sem := False\<rparr>"]) (simp add: f zc_wf_def)
  then show ?thesis using c d(3,4,6,8) r(2) by (intro exI [of _ ret] exI [of _ fcr'] exI [of _ kcop2] exI [of _ s']) (simp split: if_splits)
qed

text \<open>C8: A whole operation on a session with a block cipher (\<open>crypto_run\<close> of main.c, on either data
  path): the IV of the request is loaded over the session's, the text of whole blocks is processed
  from the source to the destination, the next IV is handed back in the request, no page stays
  pinned, and the call returns 0, or \<open>-ENOMEM\<close> with the user's memory as it was.\<close>

theorem crypto_run_cipher:
  assumes ses: "find_session (cop_ses (k_cop kcop)) fcr = Some ses" "\<not> sem ses" "\<not> h_init (hdata ses)"
    and sem: "ses_sem A ses t bsz f g u" "c_blocksize (cdata ses) = bsz" "0 < bsz" "bsz dvd 2 ^ sh"
    and op: "cop_op (k_cop kcop) = (if enc then COP_ENCRYPT else COP_DECRYPT)"
      "bsz dvd unat (cop_len (k_cop kcop))" "cop_len (k_cop kcop) \<noteq> 0"
    and rd: "copy_from_user (um s) (cop_src (k_cop kcop)) (unat (cop_len (k_cop kcop))) = Some bs"
    and wr: "can_write (um s) (cop_dst (k_cop kcop)) (unat (cop_len (k_cop kcop)))"
    and nc: "no_clobber (cop_src (k_cop kcop)) (cop_dst (k_cop kcop)) (unat (cop_len (k_cop kcop)))"
    and zc: "zc_wf ses" "zc_ready M sh (um s) (cop_src (k_cop kcop)) (cop_dst (k_cop kcop)) (cop_len (k_cop kcop))"
    and iv: "length (k_iv kcop) = 16" "k = min (min (c_ivsize (cdata ses)) (k_ivlen kcop)) 16"
      "iv = take k (k_iv kcop) @ drop k (c_iv (cdata ses))"
  shows "\<exists>ret fcr' kcop' s'. crypto_run A M sh fcr kcop s = Some (ret, fcr', kcop', s') \<and> pins s' = pins s
    \<and> (ret = 0 \<or> ret = - ENOMEM)
    \<and> (ret = 0 \<longrightarrow> um s' = snd (copy_to_user (um s) (cop_dst (k_cop kcop)) (f enc iv bs))
        \<and> kcop' = kcop\<lparr>k_iv := take k (g enc iv bs) @ drop k (k_iv kcop)\<rparr>)
    \<and> (ret \<noteq> 0 \<longrightarrow> um s' = um s \<and> kcop' = kcop)"
  using run_cipher_session [OF assms] by blast

theorem crypto_run_cipher_witness:
  "\<exists>ret fcr' kcop' s'. crypto_run capi_demo mm_demo 4 [ses_demo False] (kcop_demo 40 100 0) kst_demo = Some (ret, fcr', kcop', s')
    \<and> pins s' = pins kst_demo \<and> (ret = 0 \<or> ret = - ENOMEM)
    \<and> (ret = 0 \<longrightarrow> um s' = snd (copy_to_user (um kst_demo) 100 (xor_key [5, 6] (replicate 24 0))))"
proof -
  have "\<exists>ret fcr' kcop' s'. crypto_run capi_demo mm_demo 4 [ses_demo False] (kcop_demo 40 100 0) kst_demo = Some (ret, fcr', kcop', s')
    \<and> pins s' = pins kst_demo \<and> (ret = 0 \<or> ret = - ENOMEM)
    \<and> (ret = 0 \<longrightarrow> um s' = snd (copy_to_user (um kst_demo) (cop_dst (k_cop (kcop_demo 40 100 0)))
          ((\<lambda>enc iv bs. xor_key [5, 6] bs) True ([1, 2, 3, 4] @ replicate 12 0) (replicate 24 0)))
        \<and> kcop' = (kcop_demo 40 100 0)\<lparr>k_iv := take 4 ((\<lambda>enc iv bs. iv) True ([1, 2, 3, 4] @ replicate 12 0) (replicate 24 0))
             @ drop 4 (k_iv (kcop_demo 40 100 0))\<rparr>)
    \<and> (ret \<noteq> 0 \<longrightarrow> um s' = um kst_demo \<and> kcop' = kcop_demo 40 100 0)"
    by (rule crypto_run_cipher [OF _ _ _ ses_demo_sem [of False]])
      (simp_all add: kcop_demo_def cop_demo_def copy_zeros demo_can_write demo_ready no_clobber_def disjoint_ranges_def
        in_range_def ses_demo_def zc_wf_def upt_rec cipher_zero_def hash_zero_def)
  moreover have "cop_dst (k_cop (kcop_demo 40 100 0)) = 100" by (simp add: kcop_demo_def cop_demo_def)
  ultimately show ?thesis by (elim ex_forward) auto
qed

text \<open>With an empty text and a session that only has a cipher, \<open>crypto_run\<close> (main.c) never assigns
  its result variable: what it returns is whatever the variable held.\<close>

theorem crypto_run_empty_uninit:
  assumes "find_session (cop_ses (k_cop kcop)) fcr = Some ses" "\<not> sem ses" "c_init (cdata ses)" "\<not> h_init (hdata ses)"
    "0 < c_blocksize (cdata ses)" "cop_len (k_cop kcop) = 0" "cop_op (k_cop kcop) \<in> {COP_ENCRYPT, COP_DECRYPT}"
  shows "\<exists>fcr' kcop'. crypto_run A M sh fcr kcop s = Some (uninit_int s, fcr', kcop', s)"
  using assms
  by (auto simp: crypto_run_def crypto_get_session_by_sid_def run_session_def run_reset_def run_set_iv_def run_data_def
      run_final_def cryptodev_cipher_set_iv_def Let_def)

theorem crypto_run_empty_uninit_witness:
  "\<exists>fcr' kcop'. crypto_run capi_demo mm_demo 4 [ses_demo False] kcop_empty (kst_demo\<lparr>uninit_int := 77\<rparr>)
    = Some (77, fcr', kcop', kst_demo\<lparr>uninit_int := 77\<rparr>)"
  using crypto_run_empty_uninit [of kcop_empty "[ses_demo False]"
      "ses_demo False" capi_demo mm_demo 4 "kst_demo\<lparr>uninit_int := 77\<rparr>"]
  by (simp add: kcop_empty_def ses_demo_def cop_demo_def cipher_zero_def hash_zero_def)

end
