(* ===== verification/Crypto_Async.thy ===== *)
theory Crypto_Async
  imports Crypto_Main Fifo
begin

text \<open>
  Opening and closing /dev/crypto and the asynchronous interface (\<open>cryptodev-linux/ioctl.c\<close>, lines
  406 to 606, and \<open>cryptodev_poll\<close>): the job ring of an open file, the worker that runs the queued
  operations, and the step relation in which callers and the worker interleave at the granularity of
  the list locks.  The theorems: jobs are fetched in the order they were queued, the ring never
  grows beyond its limit, poll tells the truth, closing frees everything.
\<close>

section \<open>Data\<close>

record todo_list_item =
  it_id :: nat
  it_kcop :: kernel_crypt_op
  it_result :: int

text \<open>\<open>cryptask\<close>: the work item is queued on the workqueue.\<close>

record 'h crypt_priv =
  pcr_id :: nat
  fcrypts :: "'h fcrypt"
  free_l :: "todo_list_item list"
  todo_l :: "todo_list_item list"
  done_l :: "todo_list_item list"
  itemcount :: int
  cryptask :: bool

abbreviation (input) DEF_COP_RINGSIZE :: nat where "DEF_COP_RINGSIZE \<equiv> 16"
abbreviation (input) MAX_COP_RINGSIZE :: int where "MAX_COP_RINGSIZE \<equiv> 64"

definition cop_zero :: crypt_op where
  "cop_zero = \<lparr>cop_ses = 0, cop_op = 0, cop_flags = 0, cop_len = 0, cop_pad = 0, cop_src = 0, cop_dst = 0,
     cop_mac = 0, cop_iv = 0\<rparr>"

definition item_zero :: "nat \<Rightarrow> todo_list_item" where
  "item_zero i = \<lparr>it_id = i, it_kcop = \<lparr>k_cop = cop_zero, k_ivlen = 0, k_iv = replicate 16 0, k_digestsize = 0,
     k_hash_output = replicate 64 0\<rparr>, it_result = 0\<rparr>"

section \<open>Open and release\<close>

fun open_items :: "nat \<Rightarrow> 'h crypt_priv \<Rightarrow> kst \<Rightarrow> int \<times> 'h crypt_priv \<times> kst" where
  "open_items 0 pcr s = (0, pcr, s)"
| "open_items (Suc n) pcr s =
     (case kalloc TodoItem s of
        (None, s1) \<Rightarrow> (- ENOMEM, pcr, s1)
      | (Some i, s1) \<Rightarrow>
          open_items n (pcr\<lparr>itemcount := itemcount pcr + 1, free_l := item_zero i # free_l pcr\<rparr>) s1)"

text \<open>The second component is the file's \<open>private_data\<close>, which a failing open leaves unset.\<close>

definition cryptodev_open :: "kst \<Rightarrow> int \<times> 'h crypt_priv option \<times> kst" where
  "cryptodev_open s =
     (case kalloc PrivObj s of
        (None, s1) \<Rightarrow> (- ENOMEM, None, s1)
      | (Some p, s1) \<Rightarrow>
          (case open_items DEF_COP_RINGSIZE
                  \<lparr>pcr_id = p, fcrypts = [], free_l = [], todo_l = [], done_l = [], itemcount = 0, cryptask = False\<rparr> s1 of
             (ret, pcr, s2) \<Rightarrow> (if ret \<noteq> 0 then (ret, None, s2) else (0, Some pcr, s2))))"

text \<open>The boolean tells whether the message about a wrong number of freed items is printed.\<close>

definition cryptodev_release :: "'h crypt_priv option \<Rightarrow> kst \<Rightarrow> (int \<times> bool \<times> kst) option" where
  "cryptodev_release private_data s =
     (case private_data of
        None \<Rightarrow> Some (0, False, s)
      | Some pcr \<Rightarrow>
          (let items = free_l pcr @ todo_l pcr @ done_l pcr;
               s1 = kfrees (map it_id items) s;
               items_freed = int (length items)
           in do {
                s2 \<leftarrow> crypto_finish_all_sessions (fcrypts pcr) s1;
                Some (0, items_freed \<noteq> itemcount pcr, kfree (Some (pcr_id pcr)) s2)
              }))"

section \<open>Queueing a job\<close>

text \<open>Under the lock of the free list: a free item, the permission to allocate one, or \<open>-EBUSY\<close>.\<close>

definition take_slot :: "'h crypt_priv \<Rightarrow> (int + todo_list_item option) \<times> 'h crypt_priv" where
  "take_slot pcr =
     (case free_l pcr of
        it # r \<Rightarrow> (Inr (Some it), pcr\<lparr>free_l := r\<rparr>)
      | [] \<Rightarrow> (if itemcount pcr < MAX_COP_RINGSIZE then (Inr None, pcr\<lparr>itemcount := itemcount pcr + 1\<rparr>)
               else (Inl (- EBUSY), pcr)))"

text \<open>Under the lock of the todo list, then \<open>queue_work\<close>.\<close>

definition push_job :: "kernel_crypt_op \<Rightarrow> todo_list_item \<Rightarrow> 'h crypt_priv \<Rightarrow> 'h crypt_priv" where
  "push_job kcop item pcr = pcr\<lparr>todo_l := todo_l pcr @ [item\<lparr>it_kcop := kcop\<rparr>], cryptask := True\<rparr>"

definition crypto_async_run :: "'h crypt_priv \<Rightarrow> kernel_crypt_op \<Rightarrow> kst \<Rightarrow> int \<times> 'h crypt_priv \<times> kst" where
  "crypto_async_run pcr kcop s =
     (case take_slot pcr of
        (Inl e, pcr1) \<Rightarrow> (e, pcr1, s)
      | (Inr (Some item), pcr1) \<Rightarrow> (0, push_job kcop item pcr1, s)
      | (Inr None, pcr1) \<Rightarrow>
          (case kalloc TodoItem s of
             (None, s1) \<Rightarrow> (- EFAULT, pcr1, s1)
           | (Some i, s1) \<Rightarrow> (0, push_job kcop (item_zero i) pcr1, s1)))"

section \<open>The worker\<close>

definition run_job ::
  "'h capi \<Rightarrow> mm \<Rightarrow> nat \<Rightarrow> 'h fcrypt \<Rightarrow> todo_list_item \<Rightarrow> kst \<Rightarrow> (todo_list_item \<times> 'h fcrypt \<times> kst) option" where
  "run_job A M sh fcr item s =
     do {
       (ret, fcr', kcop', s') \<leftarrow> crypto_run A M sh fcr (it_kcop item) s;
       Some (item\<lparr>it_kcop := kcop', it_result := ret\<rparr>, fcr', s')
     }"

fun run_jobs ::
  "'h capi \<Rightarrow> mm \<Rightarrow> nat \<Rightarrow> 'h fcrypt \<Rightarrow> todo_list_item list \<Rightarrow> kst
    \<Rightarrow> (todo_list_item list \<times> 'h fcrypt \<times> kst) option" where
  "run_jobs A M sh fcr [] s = Some ([], fcr, s)"
| "run_jobs A M sh fcr (item # items) s =
     do {
       (item', fcr1, s1) \<leftarrow> run_job A M sh fcr item s;
       (items', fcr2, s2) \<leftarrow> run_jobs A M sh fcr1 items s1;
       Some (item' # items', fcr2, s2)
     }"

definition cut_todo :: "'h crypt_priv \<Rightarrow> todo_list_item list \<times> 'h crypt_priv" where
  "cut_todo pcr = (todo_l pcr, pcr\<lparr>todo_l := [], cryptask := False\<rparr>)"

definition splice_done :: "todo_list_item list \<Rightarrow> 'h crypt_priv \<Rightarrow> 'h crypt_priv" where
  "splice_done items pcr = pcr\<lparr>done_l := done_l pcr @ items\<rparr>"

definition cryptask_routine ::
  "'h capi \<Rightarrow> mm \<Rightarrow> nat \<Rightarrow> 'h crypt_priv \<Rightarrow> kst \<Rightarrow> ('h crypt_priv \<times> kst) option" where
  "cryptask_routine A M sh pcr s =
     (case cut_todo pcr of
        (tmp, pcr1) \<Rightarrow> do {
          (tmp', fcr', s') \<leftarrow> run_jobs A M sh (fcrypts pcr1) tmp s;
          Some (splice_done tmp' (pcr1\<lparr>fcrypts := fcr'\<rparr>), s')
        })"

section \<open>Fetching a result\<close>

definition pop_done :: "'h crypt_priv \<Rightarrow> (todo_list_item \<times> 'h crypt_priv) option" where
  "pop_done pcr = (case done_l pcr of [] \<Rightarrow> None | it # r \<Rightarrow> Some (it, pcr\<lparr>done_l := r\<rparr>))"

definition give_back :: "todo_list_item \<Rightarrow> 'h crypt_priv \<Rightarrow> 'h crypt_priv" where
  "give_back item pcr = pcr\<lparr>free_l := free_l pcr @ [item]\<rparr>"

text \<open>With no finished job the caller's request block is left as it was.\<close>

definition crypto_async_fetch ::
  "'h crypt_priv \<Rightarrow> kernel_crypt_op \<Rightarrow> int \<times> 'h crypt_priv \<times> kernel_crypt_op" where
  "crypto_async_fetch pcr kcop =
     (case pop_done pcr of
        None \<Rightarrow> (- EBUSY, pcr, kcop)
      | Some (item, pcr1) \<Rightarrow> (it_result item, give_back item pcr1, it_kcop item))"

section \<open>Poll\<close>

abbreviation (input) POLL_IN :: u32 where "POLL_IN \<equiv> 0x041"
abbreviation (input) POLL_OUT :: u32 where "POLL_OUT \<equiv> 0x104"

text \<open>\<open>POLLIN | POLLRDNORM\<close> is \<open>0x041\<close>, \<open>POLLOUT | POLLWRNORM\<close> is \<open>0x104\<close>.\<close>

definition cryptodev_poll :: "'h crypt_priv \<Rightarrow> u32" where
  "cryptodev_poll pcr =
     (if done_l pcr \<noteq> [] then POLL_IN else 0) OR
     (if free_l pcr \<noteq> [] \<or> itemcount pcr < MAX_COP_RINGSIZE then POLL_OUT else 0)"


section \<open>Interleaved execution\<close>

text \<open>
  The state while calls are in progress: \<open>adding\<close> are the callers of \<open>crypto_async_run\<close> between
  the two critical sections (\<open>None\<close>: still to allocate an item), \<open>fetching\<close> the items taken off the
  done list and not yet given back, \<open>worker\<close> the worker's private list (still to run, already run).
  \<open>lost\<close> counts failed allocations.  Every rule is one critical section or one call; \<open>other\<close> stands
  for the calls that work on the sessions meanwhile.
\<close>

record 'h async =
  pcr :: "'h crypt_priv"
  kern :: kst
  adding :: "(todo_list_item option \<times> kernel_crypt_op) list"
  fetching :: "todo_list_item list"
  worker :: "(todo_list_item list \<times> todo_list_item list) option"
  lost :: nat

inductive async_step :: "'h capi \<Rightarrow> mm \<Rightarrow> nat \<Rightarrow> 'h async \<Rightarrow> crypt_op label \<Rightarrow> 'h async \<Rightarrow> bool"
  for A :: "'h capi" and M :: mm and sh :: nat where
  take: "take_slot (pcr x) = (Inr it, p) \<Longrightarrow>
    async_step A M sh x Tau (x\<lparr>pcr := p, adding := (it, kcop) # adding x\<rparr>)"
| alloc: "adding x = xs @ (None, kcop) # ys \<Longrightarrow> kalloc TodoItem (kern x) = (Some i, s) \<Longrightarrow>
    async_step A M sh x Tau (x\<lparr>kern := s, adding := xs @ (Some (item_zero i), kcop) # ys\<rparr>)"
| alloc_fail: "adding x = xs @ (None, kcop) # ys \<Longrightarrow> kalloc TodoItem (kern x) = (None, s) \<Longrightarrow>
    async_step A M sh x Tau (x\<lparr>kern := s, adding := xs @ ys, lost := Suc (lost x)\<rparr>)"
| push: "adding x = xs @ (Some it, kcop) # ys \<Longrightarrow>
    async_step A M sh x (In (k_cop kcop)) (x\<lparr>pcr := push_job kcop it (pcr x), adding := xs @ ys\<rparr>)"
| cut: "worker x = None \<Longrightarrow> cryptask (pcr x) \<Longrightarrow> cut_todo (pcr x) = (tmp, p) \<Longrightarrow>
    async_step A M sh x Tau (x\<lparr>pcr := p, worker := Some (tmp, [])\<rparr>)"
| job: "worker x = Some (it # tmp, dn) \<Longrightarrow> run_job A M sh (fcrypts (pcr x)) it (kern x) = Some (it', f, s) \<Longrightarrow>
    async_step A M sh x Tau (x\<lparr>pcr := (pcr x)\<lparr>fcrypts := f\<rparr>, kern := s, worker := Some (tmp, dn @ [it'])\<rparr>)"
| splice: "worker x = Some ([], dn) \<Longrightarrow>
    async_step A M sh x Tau (x\<lparr>pcr := splice_done dn (pcr x), worker := None\<rparr>)"
| pop: "pop_done (pcr x) = Some (it, p) \<Longrightarrow>
    async_step A M sh x (Out (k_cop (it_kcop it))) (x\<lparr>pcr := p, fetching := it # fetching x\<rparr>)"
| return: "fetching x = xs @ it # ys \<Longrightarrow>
    async_step A M sh x Tau (x\<lparr>pcr := give_back it (pcr x), fetching := xs @ ys\<rparr>)"
| other: "async_step A M sh x Tau (x\<lparr>pcr := (pcr x)\<lparr>fcrypts := f\<rparr>, kern := s\<rparr>)"

definition worker_items :: "'h async \<Rightarrow> todo_list_item list" where
  "worker_items x = (case worker x of None \<Rightarrow> [] | Some (tmp, dn) \<Rightarrow> dn @ tmp)"

text \<open>The jobs in the order they will be fetched, and the accounting of the items.\<close>

definition async_queue :: "'h async \<Rightarrow> crypt_op list" where
  "async_queue x = map (\<lambda>it. k_cop (it_kcop it)) (done_l (pcr x) @ worker_items x @ todo_l (pcr x))"

definition async_ok :: "'h async \<Rightarrow> bool" where
  "async_ok x \<longleftrightarrow> itemcount (pcr x) \<le> MAX_COP_RINGSIZE
     \<and> itemcount (pcr x) = int (length (free_l (pcr x)) + length (todo_l (pcr x)) + length (worker_items x)
         + length (done_l (pcr x)) + length (adding x) + length (fetching x) + lost x)
     \<and> (todo_l (pcr x) \<noteq> [] \<longrightarrow> cryptask (pcr x))"

definition idle :: "'h crypt_priv \<Rightarrow> kst \<Rightarrow> 'h async" where
  "idle p s = \<lparr>pcr = p, kern = s, adding = [], fetching = [], worker = None, lost = 0\<rparr>"

lemma run_final_cop: "run_final A ses kcop r = Some (ret, ses', kcop') \<Longrightarrow> k_cop kcop' = k_cop kcop"
  by (auto simp: run_final_def Let_def bind_eq_Some_conv split: if_splits)

lemma crypto_run_cop: "crypto_run A M sh fcr kcop s = Some (ret, fcr', kcop', s') \<Longrightarrow> k_cop kcop' = k_cop kcop"
  by (auto simp: crypto_run_def run_session_def bind_eq_Some_conv split: if_splits option.splits dest: run_final_cop)

lemma run_job_cop: "run_job A M sh fcr it s = Some (it', f, s') \<Longrightarrow> k_cop (it_kcop it') = k_cop (it_kcop it)"
  by (auto simp: run_job_def bind_eq_Some_conv dest: crypto_run_cop)

lemma async_step_ok: "async_ok x \<Longrightarrow> async_step A M sh x l y \<Longrightarrow> async_ok y"
  by (erule async_step.cases)
    (auto simp: async_ok_def worker_items_def take_slot_def push_job_def cut_todo_def splice_done_def pop_done_def give_back_def
      split: list.splits if_splits option.splits)

lemma async_step_queue:
  "async_step A M sh x l y \<Longrightarrow>
    (case l of In k \<Rightarrow> async_queue y = async_queue x @ [k] | Out k \<Rightarrow> async_queue x = k # async_queue y
     | Tau \<Rightarrow> async_queue y = async_queue x)"
  by (erule async_step.cases)
    (auto simp: async_queue_def worker_items_def take_slot_def push_job_def cut_todo_def splice_done_def pop_done_def give_back_def
      split: list.splits if_splits option.splits dest: run_job_cop)

interpretation async: fifo async_queue async_ok "async_step A M sh" for A :: "'h capi" and M sh
  by unfold_locales (auto intro: async_step_ok dest: async_step_queue)

text \<open>The calls, run without interruption, are runs of the step relation.\<close>

lemmas run_one = run_cons [OF _ run_nil]

lemma async_run_steps:
  assumes "crypto_async_run p kcop s = (0, p', s')"
  shows "\<exists>ls. run_of (async_step A M sh) (idle p s) ls (idle p' s') \<and> ins ls = [k_cop kcop] \<and> outs ls = []"
proof (cases "free_l p")
  case (Cons it r)
  define x where "x = (idle p s)\<lparr>pcr := p\<lparr>free_l := r\<rparr>, adding := [(Some it, kcop)]\<rparr>"
  have "async_step A M sh (idle p s) Tau x"
    using async_step.take [of "idle p s" "Some it" "p\<lparr>free_l := r\<rparr>" A M sh kcop] Cons by (simp add: x_def idle_def take_slot_def)
  moreover have "async_step A M sh x (In (k_cop kcop)) (idle p' s')"
    using async_step.push [of x "[]" it kcop "[]" A M sh] assms Cons
    by (simp add: x_def idle_def take_slot_def crypto_async_run_def)
  ultimately show ?thesis by (intro exI [of _ "[Tau, In (k_cop kcop)]"]) (auto intro: run_cons run_nil)
next
  case Nil
  define q where "q = p\<lparr>itemcount := itemcount p + 1\<rparr>"
  from assms Nil obtain i where t: "take_slot p = (Inr None, q)" "kalloc TodoItem s = (Some i, s')" "p' = push_job kcop (item_zero i) q"
    by (auto simp: crypto_async_run_def take_slot_def q_def split: if_splits prod.splits option.splits)
  have "async_step A M sh (idle p s) Tau ((idle p s)\<lparr>pcr := q, adding := [(None, kcop)]\<rparr>)"
    using async_step.take [of "idle p s" None q A M sh kcop] t(1) by (simp add: idle_def)
  moreover have "async_step A M sh ((idle p s)\<lparr>pcr := q, adding := [(None, kcop)]\<rparr>) Tau ((idle q s')\<lparr>adding := [(Some (item_zero i), kcop)]\<rparr>)"
    using async_step.alloc [of "(idle p s)\<lparr>pcr := q, adding := [(None, kcop)]\<rparr>" "[]" kcop "[]" i s' A M sh] t(2) by (simp add: idle_def)
  moreover have "async_step A M sh ((idle q s')\<lparr>adding := [(Some (item_zero i), kcop)]\<rparr>) (In (k_cop kcop)) (idle p' s')"
    using async_step.push [of "(idle q s')\<lparr>adding := [(Some (item_zero i), kcop)]\<rparr>" "[]" "item_zero i" kcop "[]" A M sh] t(3) by (simp add: idle_def)
  ultimately show ?thesis by (intro exI [of _ "[Tau, Tau, In (k_cop kcop)]"]) (auto intro: run_cons run_nil)
qed

lemma run_jobs_steps:
  "run_jobs A M sh f tmp s = Some (tmp', f', s') \<Longrightarrow>
    run_of (async_step A M sh) ((idle (p\<lparr>fcrypts := f\<rparr>) s)\<lparr>worker := Some (tmp, dn)\<rparr>) (replicate (length tmp) Tau)
      ((idle (p\<lparr>fcrypts := f'\<rparr>) s')\<lparr>worker := Some ([], dn @ tmp')\<rparr>)"
proof (induction tmp arbitrary: f s dn tmp')
  case (Cons it tmp)
  from Cons.prems obtain it' f1 s1 tmp1 where
    r: "run_job A M sh f it s = Some (it', f1, s1)" "run_jobs A M sh f1 tmp s1 = Some (tmp1, f', s')" "tmp' = it' # tmp1"
    by (auto simp: bind_eq_Some_conv)
  have "async_step A M sh ((idle (p\<lparr>fcrypts := f\<rparr>) s)\<lparr>worker := Some (it # tmp, dn)\<rparr>) Tau
      ((idle (p\<lparr>fcrypts := f1\<rparr>) s1)\<lparr>worker := Some (tmp, dn @ [it'])\<rparr>)"
    using async_step.job [of "(idle (p\<lparr>fcrypts := f\<rparr>) s)\<lparr>worker := Some (it # tmp, dn)\<rparr>" it tmp dn A M sh it' f1 s1] r(1)
    by (simp add: idle_def)
  with Cons.IH [OF r(2), of "dn @ [it']"] r(3) show ?case by (auto intro: run_cons)
qed simp

lemma ins_outs_Tau [simp]: "ins (replicate n Tau) = []" "outs (replicate n Tau) = []"
  by (induction n) simp_all

lemma ins_outs_append [simp]: "ins (xs @ ys) = ins xs @ ins ys" "outs (xs @ ys) = outs xs @ outs ys"
  by (induction xs rule: ins.induct; simp)+

lemma cryptask_steps:
  assumes "cryptask_routine A M sh p s = Some (p', s')" "cryptask p"
  shows "\<exists>ls. run_of (async_step A M sh) (idle p s) ls (idle p' s') \<and> ins ls = [] \<and> outs ls = []"
proof -
  define q where "q = p\<lparr>todo_l := [], cryptask := False\<rparr>"
  from assms(1) obtain tmp f where r: "run_jobs A M sh (fcrypts q) (todo_l p) s = Some (tmp, f, s')"
    "p' = splice_done tmp (q\<lparr>fcrypts := f\<rparr>)"
    by (auto simp: cryptask_routine_def cut_todo_def bind_eq_Some_conv q_def)
  have 1: "async_step A M sh (idle p s) Tau ((idle q s)\<lparr>worker := Some (todo_l p, [])\<rparr>)"
    using async_step.cut [of "idle p s" "todo_l p" q A M sh] assms(2) by (simp add: idle_def cut_todo_def q_def)
  have 2: "run_of (async_step A M sh) ((idle q s)\<lparr>worker := Some (todo_l p, [])\<rparr>) (replicate (length (todo_l p)) Tau)
      ((idle (q\<lparr>fcrypts := f\<rparr>) s')\<lparr>worker := Some ([], tmp)\<rparr>)"
    using run_jobs_steps [OF r(1), where p = q and dn = "[]"] by simp
  have 3: "async_step A M sh ((idle (q\<lparr>fcrypts := f\<rparr>) s')\<lparr>worker := Some ([], tmp)\<rparr>) Tau (idle p' s')"
    using async_step.splice [of "(idle (q\<lparr>fcrypts := f\<rparr>) s')\<lparr>worker := Some ([], tmp)\<rparr>" tmp A M sh] r(2) by (simp add: idle_def)
  have "run_of (async_step A M sh) (idle p s) ((Tau # replicate (length (todo_l p)) Tau) @ [Tau]) (idle p' s')"
    unfolding run_of_append using run_cons [of "async_step A M sh", OF 1 2] run_one [of "async_step A M sh", OF 3] by blast
  then show ?thesis by (rule exI [of _ "(Tau # replicate (length (todo_l p)) Tau) @ [Tau]", OF conjI]) simp
qed

lemma fetch_steps:
  assumes "crypto_async_fetch p kcop = (ret, p', kcop')" "done_l p \<noteq> []"
  shows "run_of (async_step A M sh) (idle p s) [Out (k_cop kcop'), Tau] (idle p' s)"
proof -
  from assms(2) obtain it r where d: "done_l p = it # r" by (cases "done_l p") auto
  with assms(1) have k: "kcop' = it_kcop it" "p' = give_back it (p\<lparr>done_l := r\<rparr>)"
    by (auto simp: crypto_async_fetch_def pop_done_def)
  have "async_step A M sh (idle p s) (Out (k_cop kcop')) ((idle (p\<lparr>done_l := r\<rparr>) s)\<lparr>fetching := [it]\<rparr>)"
    using async_step.pop [of "idle p s" it "p\<lparr>done_l := r\<rparr>" A M sh] d k(1) by (simp add: idle_def pop_done_def)
  moreover have "async_step A M sh ((idle (p\<lparr>done_l := r\<rparr>) s)\<lparr>fetching := [it]\<rparr>) Tau (idle p' s)"
    using async_step.return [of "(idle (p\<lparr>done_l := r\<rparr>) s)\<lparr>fetching := [it]\<rparr>" "[]" it "[]" A M sh] k(2) by (simp add: idle_def)
  ultimately show ?thesis by (auto intro: run_cons run_nil)
qed

section \<open>Asynchronous and synchronous operation\<close>

text \<open>The reference: the operations run one after the other by \<open>crypto_run\<close>.\<close>

fun run_seq ::
  "'h capi \<Rightarrow> mm \<Rightarrow> nat \<Rightarrow> 'h fcrypt \<Rightarrow> kernel_crypt_op list \<Rightarrow> kst
    \<Rightarrow> ((int \<times> kernel_crypt_op) list \<times> 'h fcrypt \<times> kst) option" where
  "run_seq A M sh fcr [] s = Some ([], fcr, s)"
| "run_seq A M sh fcr (k # ks) s =
     do {
       (ret, fcr1, k', s1) \<leftarrow> crypto_run A M sh fcr k s;
       (rs, fcr2, s2) \<leftarrow> run_seq A M sh fcr1 ks s1;
       Some ((ret, k') # rs, fcr2, s2)
     }"

fun submit_all :: "'h crypt_priv \<Rightarrow> kernel_crypt_op list \<Rightarrow> kst \<Rightarrow> int list \<times> 'h crypt_priv \<times> kst" where
  "submit_all p [] s = ([], p, s)"
| "submit_all p (k # ks) s =
     (case crypto_async_run p k s of (ret, p1, s1) \<Rightarrow> (case submit_all p1 ks s1 of (rs, p2, s2) \<Rightarrow> (ret # rs, p2, s2)))"

fun fetch_all :: "nat \<Rightarrow> 'h crypt_priv \<Rightarrow> kernel_crypt_op \<Rightarrow> (int \<times> kernel_crypt_op) list \<times> 'h crypt_priv" where
  "fetch_all 0 p k = ([], p)"
| "fetch_all (Suc n) p k =
     (case crypto_async_fetch p k of (ret, p1, k1) \<Rightarrow> (case fetch_all n p1 k of (rs, p2) \<Rightarrow> ((ret, k1) # rs, p2)))"

lemma submit_all_free:
  "length ks \<le> length (free_l p) \<Longrightarrow>
    \<exists>p'. submit_all p ks s = (replicate (length ks) 0, p', s) \<and> fcrypts p' = fcrypts p \<and> done_l p' = done_l p
      \<and> map it_kcop (todo_l p') = map it_kcop (todo_l p) @ ks \<and> free_l p' = drop (length ks) (free_l p)
      \<and> itemcount p' = itemcount p \<and> (ks \<noteq> [] \<longrightarrow> cryptask p')"
proof (induction ks arbitrary: p)
  case (Cons k ks)
  then obtain it r where f: "free_l p = it # r" by (cases "free_l p") auto
  define q where "q = push_job k it (p\<lparr>free_l := r\<rparr>)"
  have "length ks \<le> length (free_l q)" using Cons.prems f by (simp add: q_def push_job_def)
  from Cons.IH [OF this] obtain p' where "submit_all q ks s = (replicate (length ks) 0, p', s)"
    "fcrypts p' = fcrypts q" "done_l p' = done_l q" "map it_kcop (todo_l p') = map it_kcop (todo_l q) @ ks"
    "free_l p' = drop (length ks) (free_l q)" "itemcount p' = itemcount q" "ks \<noteq> [] \<longrightarrow> cryptask p'" by blast
  moreover have "crypto_async_run p k s = (0, q, s)" using f by (simp add: crypto_async_run_def take_slot_def q_def)
  moreover from calculation(1) have "ks = [] \<Longrightarrow> p' = q" by simp
  ultimately show ?case using f by (auto simp: q_def push_job_def)
qed simp

lemma run_seq_length: "run_seq A M sh f ks s = Some (rs, f', s') \<Longrightarrow> length rs = length ks"
proof (induction ks arbitrary: f s rs)
  case (Cons k ks)
  then show ?case by (fastforce simp: bind_eq_Some_conv)
qed simp

lemma run_jobs_seq:
  "run_seq A M sh f (map it_kcop its) s = Some (rs, f', s') \<Longrightarrow>
    \<exists>its'. run_jobs A M sh f its s = Some (its', f', s') \<and> map (\<lambda>it. (it_result it, it_kcop it)) its' = rs"
proof (induction its arbitrary: f s rs)
  case (Cons it its)
  from Cons.prems obtain ret f1 k' s1 rs1 where
    c: "crypto_run A M sh f (it_kcop it) s = Some (ret, f1, k', s1)" "run_seq A M sh f1 (map it_kcop its) s1 = Some (rs1, f', s')"
      "rs = (ret, k') # rs1" by (auto simp: bind_eq_Some_conv)
  from Cons.IH [OF c(2)] obtain its' where "run_jobs A M sh f1 its s1 = Some (its', f', s')"
    "map (\<lambda>it. (it_result it, it_kcop it)) its' = rs1" by blast
  with c show ?case by (simp add: run_job_def)
qed simp

lemma fetch_all_done:
  "done_l p = its @ r \<Longrightarrow> \<exists>p'. fetch_all (length its) p k = (map (\<lambda>it. (it_result it, it_kcop it)) its, p')
    \<and> done_l p' = r \<and> free_l p' = free_l p @ its \<and> fcrypts p' = fcrypts p \<and> todo_l p' = todo_l p"
proof (induction its arbitrary: p)
  case (Cons it its)
  define q where "q = give_back it (p\<lparr>done_l := its @ r\<rparr>)"
  have "done_l q = its @ r" by (simp add: q_def give_back_def)
  from Cons.IH [OF this] obtain p' where "fetch_all (length its) q k = (map (\<lambda>it. (it_result it, it_kcop it)) its, p')"
    "done_l p' = r" "free_l p' = free_l q @ its" "fcrypts p' = fcrypts q" "todo_l p' = todo_l q" by blast
  moreover have "crypto_async_fetch p k = (it_result it, q, it_kcop it)"
    using Cons.prems by (simp add: crypto_async_fetch_def pop_done_def q_def)
  ultimately show ?case by (simp add: q_def give_back_def)
qed simp

section \<open>The objects of an open file\<close>

definition pcr_ids :: "'h crypt_priv \<Rightarrow> nat list" where
  "pcr_ids p = map it_id (free_l p @ todo_l p @ done_l p) @ concat (map session_ids (fcrypts p)) @ [pcr_id p]"

lemma finish_all_kfrees:
  "\<forall>ses \<in> set f. \<not> sem ses \<Longrightarrow> crypto_finish_all_sessions f s = Some (kfrees (concat (map session_ids f)) s)"
  by (induction f arbitrary: s) (simp_all add: destroy_kfrees)

lemma release_kfrees:
  assumes "\<forall>ses \<in> set (fcrypts p). \<not> sem ses"
  shows "cryptodev_release (Some p) s
    = Some (0, int (length (free_l p @ todo_l p @ done_l p)) \<noteq> itemcount p, kfrees (pcr_ids p) s)"
  using finish_all_kfrees [OF assms] by (simp add: cryptodev_release_def Let_def pcr_ids_def)

lemma open_items_ok:
  "open_items n p s = (ret, p', s') \<Longrightarrow> heap_wf s \<Longrightarrow>
    \<exists>its. allocates (map it_id its) s s' \<and> p' = p\<lparr>free_l := its @ free_l p, itemcount := itemcount p + int (length its)\<rparr>
      \<and> (ret = 0 \<and> length its = n \<or> ret = - ENOMEM \<and> length its < n)"
proof (induction n arbitrary: p s)
  case (Suc n)
  obtain q s1 where k: "kalloc TodoItem s = (q, s1)" by fastforce
  show ?case
  proof (cases q)
    case None
    with Suc.prems k show ?thesis using allocates_None [of s TodoItem s1] by (intro exI [of _ "[]"]) simp
  next
    case (Some i)
    define p1 where "p1 = p\<lparr>itemcount := itemcount p + 1, free_l := item_zero i # free_l p\<rparr>"
    have al: "allocates [i] s s1" by (rule allocates_kalloc [OF Suc.prems(2) k [unfolded Some]])
    then have "heap_wf s1" by (simp add: allocates_def)
    moreover have "open_items n p1 s1 = (ret, p', s')" using Suc.prems(1) k Some by (simp add: p1_def)
    ultimately obtain its where its: "allocates (map it_id its) s1 s'"
      "p' = p1\<lparr>free_l := its @ free_l p1, itemcount := itemcount p1 + int (length its)\<rparr>"
      "ret = 0 \<and> length its = n \<or> ret = - ENOMEM \<and> length its < n" using Suc.IH by blast
    from allocates_trans [OF al its(1)] have a2: "allocates ([i] @ map it_id its) s s'" .
    have "allocates (map it_id (its @ [item_zero i])) s s'"
      by (rule allocates_perm [OF a2]) (use a2 in \<open>auto simp: item_zero_def allocates_def\<close>)
    then show ?thesis using its(2,3) by (intro exI [of _ "its @ [item_zero i]"]) (auto simp: p1_def)
  qed
qed (auto simp: allocates_refl)

lemma open_ok:
  assumes "cryptodev_open s = (ret, p, s')" "heap_wf s"
  shows "(case p of
      Some q \<Rightarrow> ret = 0 \<and> allocates (pcr_ids q) s s' \<and> fcrypts q = [] \<and> todo_l q = [] \<and> done_l q = [] \<and> \<not> cryptask q
        \<and> length (free_l q) = 16 \<and> itemcount q = 16
    | None \<Rightarrow> ret = - ENOMEM)"
proof -
  obtain q s1 where k: "kalloc PrivObj s = (q, s1)" by fastforce
  show ?thesis
  proof (cases q)
    case None
    with assms k show ?thesis by (auto simp: cryptodev_open_def)
  next
    case (Some i)
    define p0 :: "'a crypt_priv" where
      "p0 = \<lparr>pcr_id = i, fcrypts = [], free_l = [], todo_l = [], done_l = [], itemcount = 0, cryptask = False\<rparr>"
    have al: "allocates [i] s s1" by (rule allocates_kalloc [OF assms(2) k [unfolded Some]])
    then have wf1: "heap_wf s1" by (simp add: allocates_def)
    obtain r p1 s2 where o: "open_items 16 p0 s1 = (r, p1, s2)" by (metis prod_cases3)
    from open_items_ok [OF o wf1] obtain its where its: "allocates (map it_id its) s1 s2"
      "p1 = p0\<lparr>free_l := its @ free_l p0, itemcount := itemcount p0 + int (length its)\<rparr>"
      "r = 0 \<and> length its = 16 \<or> r = - ENOMEM \<and> length its < 16" by blast
    have top: "cryptodev_open s = (if r \<noteq> 0 then (r, None, s2) else (0, Some p1, s2))"
      using k Some o by (simp add: cryptodev_open_def p0_def)
    show ?thesis
    proof (cases "r = 0")
      case True
      from allocates_trans [OF al its(1)] have al2: "allocates (i # map it_id its) s s2" by simp
      have "allocates (map it_id its @ [i]) s s2" by (rule allocates_perm [OF al2]) (use al2 in \<open>auto simp: allocates_def\<close>)
      then show ?thesis using assms(1) top True its by (auto simp: pcr_ids_def p0_def)
    next
      case False
      then show ?thesis using assms(1) top its(3) by auto
    qed
  qed
qed

section \<open>Theorems\<close>

text \<open>A small open file for the witnesses: one session, two free items, and a job that is queued, run
  and fetched.\<close>

definition pcr_demo :: "byte list crypt_priv" where
  "pcr_demo = \<lparr>pcr_id = 0, fcrypts = [ses_demo False], free_l = [item_zero 1, item_zero 2], todo_l = [], done_l = [],
     itemcount = 2, cryptask = False\<rparr>"

lemma demo_ok: "async_ok (idle pcr_demo s)"
  by (simp add: async_ok_def idle_def worker_items_def pcr_demo_def)

lemma demo_submit: "crypto_async_run pcr_demo kcop_empty s
    = (0, push_job kcop_empty (item_zero 1) (pcr_demo\<lparr>free_l := [item_zero 2]\<rparr>), s)"
  by (simp add: crypto_async_run_def take_slot_def pcr_demo_def)

text \<open>C9: Whatever the callers, the worker and the other users of the sessions do, and however their
  critical sections interleave, jobs come back from the asynchronous interface (\<open>crypto_async_run\<close>,
  \<open>cryptask_routine\<close>, \<open>crypto_async_fetch\<close> of ioctl.c) in the order in which they were queued, each
  once: the operations queued so far are those fetched so far followed by those still in the ring.\<close>

theorem async_jobs_in_order:
  assumes "run_of (async_step A M sh) (idle p s) ls y" "async_ok (idle p s)" "done_l p = []" "todo_l p = []"
  shows "ins ls = outs ls @ async_queue y"
proof -
  have "async_queue (idle p s) = []" using assms(3,4) by (simp add: async_queue_def idle_def worker_items_def)
  then show ?thesis by (rule async.in_order(1) [OF assms(1,2)])
qed

theorem async_jobs_in_order_witness:
  "\<exists>ls y. run_of (async_step capi_demo mm_demo 4) (idle pcr_demo kst_demo) ls y \<and> ins ls = [k_cop kcop_empty]
    \<and> ins ls = outs ls @ async_queue y"
proof -
  from async_run_steps [OF demo_submit, of capi_demo mm_demo 4 kst_demo] obtain ls y where
    r: "run_of (async_step capi_demo mm_demo 4) (idle pcr_demo kst_demo) ls y" "ins ls = [k_cop kcop_empty]" by blast
  have "ins ls = outs ls @ async_queue y"
    by (rule async_jobs_in_order [OF r(1) demo_ok]) (simp_all add: pcr_demo_def)
  with r show ?thesis by blast
qed





text \<open>\<open>cryptodev_poll\<close> (ioctl.c) tells the truth: it reports writable exactly when queueing a job
  would not fail with \<open>-EBUSY\<close>, and readable exactly when there is a finished job; otherwise a fetch
  is \<open>-EBUSY\<close> and changes nothing.\<close>

theorem poll_truthful:
  "(cryptodev_poll p AND 4 \<noteq> 0 \<longleftrightarrow> (\<forall>kcop s. fst (crypto_async_run p kcop s) \<noteq> - EBUSY))
   \<and> (if cryptodev_poll p AND 1 \<noteq> 0 then \<exists>it q. pop_done p = Some (it, q)
      else \<forall>kcop. crypto_async_fetch p kcop = (- EBUSY, p, kcop))"
proof -
  have "free_l p \<noteq> [] \<or> itemcount p < MAX_COP_RINGSIZE \<longleftrightarrow> (\<forall>kcop s. fst (crypto_async_run p kcop s) \<noteq> - EBUSY)"
    by (auto simp: crypto_async_run_def take_slot_def split: list.splits prod.splits option.splits)
  then show ?thesis by (auto simp: cryptodev_poll_def pop_done_def crypto_async_fetch_def split: list.splits)
qed

text \<open>Closing the file (\<open>cryptodev_release\<close> of ioctl.c) frees every item of the ring wherever it is,
  every object of every session and the private structure, each exactly once and nothing else; the
  message about a wrong number of items appears exactly when the accounting is off.\<close>

theorem release_frees_everything:
  assumes "heap_wf s" "distinct (pcr_ids p)" "set (pcr_ids p) \<subseteq> ids s" "\<forall>ses \<in> set (fcrypts p). \<not> sem ses"
  shows "\<exists>s'. cryptodev_release (Some p) s = Some (0, int (length (free_l p @ todo_l p @ done_l p)) \<noteq> itemcount p, s')
    \<and> live s' = filter (\<lambda>x. fst x \<notin> set (pcr_ids p)) (live s) \<and> bad_free s' = bad_free s \<and> um s' = um s"
  using release_kfrees [OF assms(4)] kfrees_owned [OF assms(1-3)] same_mem_kfrees [of s "pcr_ids p"]
  by (simp add: same_mem_def)

theorem release_frees_everything_witness:
  "\<exists>s'. cryptodev_release (Some (pcr_demo\<lparr>fcrypts := []\<rparr>)) (kst_demo\<lparr>live := [(9, SgArr), (0, PrivObj), (1, TodoItem), (2, TodoItem)], next_id := 10\<rparr>)
      = Some (0, False, s') \<and> live s' = [(9, SgArr)] \<and> \<not> bad_free s'"
  using release_frees_everything [of "kst_demo\<lparr>live := [(9, SgArr), (0, PrivObj), (1, TodoItem), (2, TodoItem)], next_id := 10\<rparr>"
      "pcr_demo\<lparr>fcrypts := []\<rparr>"]
  by (auto simp: heap_wf_def pcr_ids_def ids_def pcr_demo_def item_zero_def kst_demo_def)

text \<open>Opening /dev/crypto (\<open>cryptodev_open\<close> of ioctl.c) gives an idle file with sixteen free items that
  satisfies the invariant of the ring; closing it right away restores the kernel heap and prints no
  complaint.\<close>

theorem open_release_balanced:
  assumes "cryptodev_open s = (0, Some p, s')" "heap_wf s"
  shows "async_ok (idle p s') \<and> length (free_l p) = 16 \<and> async_queue (idle p s') = []
    \<and> (\<exists>s''. cryptodev_release (Some p) s' = Some (0, False, s'') \<and> live s'' = live s \<and> bad_free s'' = bad_free s)"
proof -
  from open_ok [OF assms] have p: "allocates (pcr_ids p) s s'" "fcrypts p = []" "todo_l p = []" "done_l p = []"
    "length (free_l p) = 16" "itemcount p = 16" by auto
  have "allocates [] s (kfrees (pcr_ids p) s')"
    by (rule allocates_free [of "[]" "pcr_ids p"]) (use p(1) in \<open>auto simp: allocates_def\<close>)
  then show ?thesis
    using release_kfrees [of p s'] p by (auto simp: async_ok_def async_queue_def idle_def worker_items_def allocates_def)
qed

theorem open_release_balanced_witness:
  "\<exists>p s'. cryptodev_open kst_demo = (0, Some (p :: byte list crypt_priv), s') \<and> async_ok (idle p s') \<and> length (free_l p) = 16
    \<and> (\<exists>s''. cryptodev_release (Some p) s' = Some (0, False, s'') \<and> live s'' = live kst_demo \<and> \<not> bad_free s'')"
proof -
  obtain ret q s' where c: "cryptodev_open kst_demo = (ret, q :: byte list crypt_priv option, s')" by (metis prod_cases3)
  have "open_items n p t = (0, snd (open_items n p t))" if "allocs t = []" for n and p :: "byte list crypt_priv" and t
    using that by (induction n arbitrary: p t) (simp_all add: kalloc_def)
  then have "fst (cryptodev_open kst_demo :: int \<times> byte list crypt_priv option \<times> kst) = 0"
    by (auto simp: cryptodev_open_def kalloc_def kst_demo_def split: prod.splits) (metis Pair_inject kst.select_convs(5))
  with c open_ok [OF c kst_demo_wf] obtain p where p: "cryptodev_open kst_demo = (0, Some (p :: byte list crypt_priv), s')"
    by (auto split: option.splits)
  from open_release_balanced [OF p kst_demo_wf] p show ?thesis by (auto simp: kst_demo_def)
qed

text \<open>When an allocation for the initial items fails, \<open>cryptodev_open\<close> (ioctl.c) returns \<open>-ENOMEM\<close>
  without freeing the private structure and the items it already has: after \<open>k\<close> items \<open>k + 1\<close>
  objects stay behind, and no file refers to them.\<close>

theorem open_failure_leaks:
  assumes "allocs s = True # replicate k True @ False # r" "k < 16" "heap_wf s"
  shows "\<exists>s' l. cryptodev_open s = (- ENOMEM, None :: 'h crypt_priv option, s') \<and> allocates l s s' \<and> length l = Suc k"
proof -
  have items: "\<exists>p' s' l. open_items (Suc (k + m)) p t = (- ENOMEM, p', s') \<and> allocates l t s' \<and> length l = k"
    if "allocs t = replicate k True @ False # r" "heap_wf t" for m and p :: "'h crypt_priv" and t
    using that
  proof (induction k arbitrary: p t)
    case 0
    then show ?case using allocates_None [of t TodoItem] by (auto simp: kalloc_def)
  next
    case (Suc k)
    obtain i t1 where k: "kalloc TodoItem t = (Some i, t1)" "allocs t1 = replicate k True @ False # r"
      using Suc.prems(1) by (simp add: kalloc_def)
    have al: "allocates [i] t t1" by (rule allocates_kalloc [OF Suc.prems(2) k(1)])
    then have "heap_wf t1" by (simp add: allocates_def)
    from Suc.IH [OF k(2) this] obtain p' s' l where
      "open_items (Suc (k + m)) (p\<lparr>itemcount := itemcount p + 1, free_l := item_zero i # free_l p\<rparr>) t1 = (- ENOMEM, p', s')"
      "allocates l t1 s'" "length l = k" by blast
    with k(1) allocates_trans [OF al, of l s'] show ?case
      by (intro exI [of _ p'] exI [of _ s'] exI [of _ "i # l"]) simp
  qed
  obtain i s1 where k: "kalloc PrivObj s = (Some i, s1)" "allocs s1 = replicate k True @ False # r"
    using assms(1) by (simp add: kalloc_def)
  have al: "allocates [i] s s1" by (rule allocates_kalloc [OF assms(3) k(1)])
  then have "heap_wf s1" by (simp add: allocates_def)
  define p0 :: "'h crypt_priv" where
    "p0 = \<lparr>pcr_id = i, fcrypts = [], free_l = [], todo_l = [], done_l = [], itemcount = 0, cryptask = False\<rparr>"
  have n: "Suc (k + (15 - k)) = 16" using assms(2) by simp
  from items [OF k(2) \<open>heap_wf s1\<close>, of "15 - k" p0, unfolded n] obtain p' s' l where
    "open_items 16 p0 s1 = (- ENOMEM, p', s')" "allocates l s1 s'" "length l = k" by blast
  with k(1) allocates_trans [OF al, of l s'] show ?thesis
    by (intro exI [of _ s'] exI [of _ "i # l"]) (simp add: cryptodev_open_def p0_def)
qed

theorem open_failure_leaks_witness:
  "\<exists>s' l. cryptodev_open (kst_demo\<lparr>allocs := [True, True, True, False]\<rparr>) = (- ENOMEM, None :: byte list crypt_priv option, s')
    \<and> allocates l (kst_demo\<lparr>allocs := [True, True, True, False]\<rparr>) s' \<and> length l = 3"
  using open_failure_leaks [of "kst_demo\<lparr>allocs := [True, True, True, False]\<rparr>" 2 "[]"] kst_demo_wf
  by (simp add: numeral_2_eq_2 numeral_3_eq_3 heap_wf_def)

text \<open>A failed allocation in \<open>crypto_async_run\<close> (ioctl.c) costs a slot of the ring for good: the call
  returns \<open>-EFAULT\<close>, no item is added, but the item counter stays raised, so that closing the file
  will complain about the number of items.\<close>

theorem async_run_loses_slot:
  assumes "free_l p = []" "itemcount p < 64" "kalloc TodoItem s = (None, s1)" "\<forall>ses \<in> set (fcrypts p). \<not> sem ses"
    "itemcount p = int (length (free_l p @ todo_l p @ done_l p))"
  shows "crypto_async_run p kcop s = (- EFAULT, p\<lparr>itemcount := itemcount p + 1\<rparr>, s1)
    \<and> (\<exists>s2. cryptodev_release (Some (p\<lparr>itemcount := itemcount p + 1\<rparr>)) s1 = Some (0, True, s2))"
  using assms release_kfrees [of "p\<lparr>itemcount := itemcount p + 1\<rparr>" s1]
  by (simp add: crypto_async_run_def take_slot_def)

theorem async_run_loses_slot_witness:
  "fst (crypto_async_run (pcr_demo\<lparr>free_l := [], itemcount := 0\<rparr>) kcop_empty (kst_demo\<lparr>allocs := [False]\<rparr>)) = - EFAULT
    \<and> (\<exists>s2. cryptodev_release (Some (pcr_demo\<lparr>free_l := [], itemcount := 1\<rparr>)) kst_demo = Some (0, True, s2))"
  using async_run_loses_slot [of "pcr_demo\<lparr>free_l := [], itemcount := 0\<rparr>" "kst_demo\<lparr>allocs := [False]\<rparr>" kst_demo kcop_empty]
  by (simp add: pcr_demo_def kst_demo_def kalloc_def ses_demo_def)

text \<open>The calls of ioctl.c are what the step relation of the ring is made of: an uninterrupted
  \<open>crypto_async_run\<close> that succeeds is a run that queues its operation, one pass of
  \<open>cryptask_routine\<close> a run that queues and fetches nothing, and a \<open>crypto_async_fetch\<close> with a
  finished job a run that takes exactly the job it returns.\<close>

theorem async_calls_refine:
  assumes "crypto_async_run p kcop s = (0, p1, s1)" "cryptask_routine A M sh p1 s1 = Some (p2, s2)"
    "done_l p2 \<noteq> []" "crypto_async_fetch p2 kcop0 = (ret, p3, kcop')"
  shows "\<exists>l1 l2. run_of (async_step A M sh) (idle p s) l1 (idle p1 s1) \<and> ins l1 = [k_cop kcop] \<and> outs l1 = []
    \<and> run_of (async_step A M sh) (idle p1 s1) l2 (idle p2 s2) \<and> ins l2 = [] \<and> outs l2 = []
    \<and> run_of (async_step A M sh) (idle p2 s2) [Out (k_cop kcop'), Tau] (idle p3 s2)"
proof -
  have "cryptask p1" using assms(1)
    by (auto simp: crypto_async_run_def take_slot_def push_job_def split: list.splits if_splits option.splits prod.splits)
  with cryptask_steps [OF assms(2)] async_run_steps [OF assms(1)] fetch_steps [OF assms(4,3)] show ?thesis by metis
qed

theorem async_calls_refine_witness:
  "\<exists>p1 p2 p3 l1 l2. crypto_async_run pcr_demo kcop_empty kst_demo = (0, p1, kst_demo)
    \<and> cryptask_routine capi_demo mm_demo 4 p1 kst_demo = Some (p2, kst_demo)
    \<and> run_of (async_step capi_demo mm_demo 4) (idle pcr_demo kst_demo) l1 (idle p1 kst_demo) \<and> ins l1 = [k_cop kcop_empty]
    \<and> run_of (async_step capi_demo mm_demo 4) (idle p1 kst_demo) l2 (idle p2 kst_demo) \<and> ins l2 = []
    \<and> run_of (async_step capi_demo mm_demo 4) (idle p2 kst_demo) [Out (k_cop kcop_empty), Tau] (idle p3 kst_demo)"
proof -
  define p1 where "p1 = push_job kcop_empty (item_zero 1) (pcr_demo\<lparr>free_l := [item_zero 2]\<rparr>)"
  obtain it f where "run_job capi_demo mm_demo 4 (fcrypts p1) ((item_zero 1)\<lparr>it_kcop := kcop_empty\<rparr>) kst_demo = Some (it, f, kst_demo)"
    "k_cop (it_kcop it) = k_cop kcop_empty"
    by (simp add: p1_def push_job_def run_job_def pcr_demo_def crypto_run_def crypto_get_session_by_sid_def run_session_def run_reset_def run_set_iv_def
      run_data_def run_final_def cryptodev_cipher_set_iv_def cryptodev_cipher_get_iv_def crypto_put_session_def Let_def
      kcop_empty_def kcop_demo_def cop_demo_def ses_demo_def cipher_zero_def hash_zero_def kst_demo_def)
  then obtain p2 where c: "cryptask_routine capi_demo mm_demo 4 p1 kst_demo = Some (p2, kst_demo)" "done_l p2 = [it]"
    by (simp add: cryptask_routine_def cut_todo_def splice_done_def p1_def push_job_def pcr_demo_def)
  then obtain p3 where "crypto_async_fetch p2 kcop_empty = (it_result it, p3, it_kcop it)"
    by (simp add: crypto_async_fetch_def pop_done_def)
  from async_calls_refine [OF demo_submit [folded p1_def] c(1) _ this] c \<open>k_cop (it_kcop it) = k_cop kcop_empty\<close> demo_submit [folded p1_def, of kst_demo]
  show ?thesis by (metis list.distinct(1))
qed

end
