(* ===== verification/Crypto_Authenc.thy ===== *)
theory Crypto_Authenc
  imports Crypto_Main "HOL-Library.Signed_Division"
begin

text \<open>
  Authenticated encryption (\<open>cryptodev-linux/authenc.c\<close>): TLS records (MAC, pad, encrypt in place),
  SRTP packets (encrypt in place, MAC over the packet) and AEAD ciphers.  Lengths are 32-bit words
  and wrap as in the source; \<open>int\<close> parameters are the signed values of these words.  The theorems: a
  TLS record decrypts to what was encrypted, decryption succeeds only when the MAC and the padding
  are right, the scatterlists cover the bytes they should, and an operation leaves its session
  unlocked.
\<close>

section \<open>Data\<close>

record kernel_crypt_auth_op =
  k_caop :: crypt_auth_op
  ka_dst_len :: u32
  ka_ivlen :: nat
  ka_iv :: "byte list"

text \<open>\<open>scatterwalk_map_and_copy\<close> from and to a scatterlist; walking past its end is \<open>None\<close>.\<close>

definition scatterwalk_read :: "kst \<Rightarrow> cell list option \<Rightarrow> nat \<Rightarrow> nat \<Rightarrow> byte list option" where
  "scatterwalk_read s l start n =
     (if n = 0 then Some []
      else case l of None \<Rightarrow> None
        | Some cs \<Rightarrow> (if start + n \<le> length cs then sg_gather s (take n (drop start cs)) else None))"

definition scatterwalk_write :: "kst \<Rightarrow> cell list option \<Rightarrow> nat \<Rightarrow> byte list \<Rightarrow> kst option" where
  "scatterwalk_write s l start bs =
     (if bs = [] then Some s
      else case l of None \<Rightarrow> None
        | Some cs \<Rightarrow>
            (if start + length bs \<le> length cs then sg_scatter s (take (length bs) (drop start cs)) bs else None))"

text \<open>
  The first \<open>n\<close> bytes of a local array that starts with \<open>out\<close>: what lies behind \<open>out\<close>, in the
  array or after it, is whatever the stack holds.
\<close>

definition stack_bytes :: "kst \<Rightarrow> byte list \<Rightarrow> nat \<Rightarrow> byte list" where
  "stack_bytes s out n = take n (out @ map (uninit s) [length out..<n])"

section \<open>Mapping the buffers\<close>

definition get_userbuf_tls ::
  "mm \<Rightarrow> nat \<Rightarrow> 'h csession \<Rightarrow> kernel_crypt_auth_op \<Rightarrow> kst \<Rightarrow> (int \<times> nat option \<times> 'h csession \<times> kst) option" where
  "get_userbuf_tls M sh ses kcaop s =
     (let caop = k_caop kcaop
      in if caop_dst caop = 0 then Some (- EINVAL, None, ses, s)
         else if ka_dst_len kcaop = 0 then Some (- EINVAL, None, ses, s)
         else
           (let pagecount = (ucast (PAGECOUNT sh (caop_dst caop) (ka_dst_len kcaop)) :: u32)
            in do {
                 (rc, ses1, s1) \<leftarrow> adjust_sg_array pagecount (ses\<lparr>used_pages := pagecount, readonly_pages := 0\<rparr>) s;
                 if rc \<noteq> 0 then Some (rc, None, ses1, s1)
                 else do {
                   (rc, ses2, s2) \<leftarrow> get_userbuf_pages M sh (caop_dst caop) (ka_dst_len kcaop) True pagecount 0 ses1 s1;
                   if rc \<noteq> 0 then Some (- EINVAL, None, ses2, s2) else Some (0, Some 0, ses2, s2)
                 }
               }))"

abbreviation (input) MAX_SRTP_AUTH_DATA_DIFF :: int where "MAX_SRTP_AUTH_DATA_DIFF \<equiv> 256"

text \<open>The second scatterlist of an SRTP packet: a copy of the first one, advanced to the data.\<close>

definition srtp_dst_sg ::
  "mm \<Rightarrow> nat \<Rightarrow> 'h csession \<Rightarrow> nat \<Rightarrow> nat \<Rightarrow> nat \<Rightarrow> kst
    \<Rightarrow> (int \<times> nat option \<times> nat option \<times> 'h csession \<times> kst) option" where
  "srtp_dst_sg M sh ses auth_pagecount auth_len diff s =
     do {
       t1 \<leftarrow> sg_init_table auth_pagecount auth_pagecount (sg ses);
       (_, t2) \<leftarrow> sg_copy t1 0 auth_pagecount auth_len;
       (dst_sg, t3) \<leftarrow> sg_advance (nth_pg M) sh t2 auth_pagecount diff;
       case dst_sg of
         None \<Rightarrow> do { (ses1, s1) \<leftarrow> release_user_pages M (ses\<lparr>sg := t3\<rparr>) s; Some (- EINVAL, None, None, ses1, s1) }
       | Some j \<Rightarrow> Some (0, Some 0, Some j, ses\<lparr>sg := t3\<rparr>, s)
     }"

definition get_userbuf_srtp ::
  "mm \<Rightarrow> nat \<Rightarrow> 'h csession \<Rightarrow> kernel_crypt_auth_op \<Rightarrow> kst
    \<Rightarrow> (int \<times> nat option \<times> nat option \<times> 'h csession \<times> kst) option" where
  "get_userbuf_srtp M sh ses kcaop s =
     (let caop = k_caop kcaop
      in if caop_dst caop = 0 \<and> caop_auth_src caop = 0 then Some (- EINVAL, None, None, ses, s)
         else if ka_dst_len kcaop = 0 \<or> caop_auth_len caop = 0 then Some (- EINVAL, None, None, ses, s)
         else
           (let auth_pagecount = (ucast (PAGECOUNT sh (caop_auth_src caop) (caop_auth_len caop)) :: u32);
                diff = sint (ucast (caop_src caop - caop_auth_src caop) :: u32)
            in if MAX_SRTP_AUTH_DATA_DIFF < diff \<or> diff < 0 then Some (- EINVAL, None, None, ses, s)
               else do {
                 (rc, ses1, s1) \<leftarrow> adjust_sg_array (auth_pagecount * 2) ses s;
                 if rc \<noteq> 0 then Some (rc, None, None, ses1, s1)
                 else do {
                   (rc, ses2, s2) \<leftarrow>
                     get_userbuf_pages M sh (caop_auth_src caop) (caop_auth_len caop) True auth_pagecount 0 ses1 s1;
                   if rc \<noteq> 0 then Some (- EINVAL, None, None, ses2, s2)
                   else srtp_dst_sg M sh (ses2\<lparr>used_pages := auth_pagecount, readonly_pages := 0\<rparr>)
                          (unat auth_pagecount) (unat (caop_auth_len caop)) (nat diff) s2
                 }
               }))"

section \<open>The request block\<close>

definition fill_kcaop_from_caop ::
  "'h fcrypt \<Rightarrow> kernel_crypt_auth_op \<Rightarrow> kst \<Rightarrow> (int \<times> 'h fcrypt \<times> kernel_crypt_auth_op) option" where
  "fill_kcaop_from_caop fcr kcaop s =
     do {
       (ses_ptr, fcr1) \<leftarrow> crypto_get_session_by_sid fcr (caop_ses (k_caop kcaop));
       case ses_ptr of
         None \<Rightarrow> Some (- EINVAL, fcr1, kcaop)
       | Some ses \<Rightarrow>
           (let caop = k_caop kcaop; fl = caop_flags caop
            in if (has_flag fl COP_FLAG_AEAD_TLS_TYPE \<or> has_flag fl COP_FLAG_AEAD_SRTP_TYPE) \<and> caop_src caop \<noteq> caop_dst caop
               then Some (- EINVAL, crypto_put_session ses fcr1, kcaop)
               else
                 (let caop1 = (if caop_tag_len caop = 0 then caop\<lparr>caop_tag_len := of_nat (h_digestsize (hdata ses))\<rparr> else caop);
                      ivlen = (if caop_iv caop1 \<noteq> 0 then c_ivsize (cdata ses) else 0);
                      dst_len = (if has_flag fl COP_FLAG_AEAD_TLS_TYPE
                                 then caop_len caop1 + of_nat (c_blocksize (cdata ses)) + caop_tag_len caop1
                                 else caop_len caop1);
                      kcaop1 = kcaop\<lparr>k_caop := caop1, ka_ivlen := ivlen, ka_dst_len := dst_len\<rparr>
                  in if caop_iv caop1 \<noteq> 0 then
                       (if EALG_MAX_BLOCK_LEN < ivlen then None
                        else case copy_from_user (um s) (caop_iv caop1) ivlen of
                          None \<Rightarrow> Some (- EFAULT, crypto_put_session ses fcr1, kcaop1)
                        | Some bs \<Rightarrow>
                            Some (0, crypto_put_session ses fcr1, kcaop1\<lparr>ka_iv := bs @ drop ivlen (ka_iv kcaop1)\<rparr>))
                     else Some (0, crypto_put_session ses fcr1, kcaop1)))
     }"

definition fill_caop_from_kcaop :: "kernel_crypt_auth_op \<Rightarrow> kst \<Rightarrow> int \<times> kernel_crypt_auth_op \<times> kst" where
  "fill_caop_from_kcaop kcaop0 s =
     (let kcaop = kcaop0\<lparr>k_caop := (k_caop kcaop0)\<lparr>caop_len := ka_dst_len kcaop0\<rparr>\<rparr>
      in if ka_ivlen kcaop \<noteq> 0 \<and> has_flag (caop_flags (k_caop kcaop)) COP_FLAG_WRITE_IV
         then (case copy_to_user (um s) (caop_iv (k_caop kcaop)) (take (ka_ivlen kcaop) (ka_iv kcaop)) of
                 (k, m) \<Rightarrow> (if k \<noteq> 0 then - EFAULT else 0, kcaop, s\<lparr>um := m\<rparr>))
         else (0, kcaop, s))"

text \<open>The block is a local variable of the caller, uninitialised before it is filled.\<close>

definition kcaop_uninit :: "kst \<Rightarrow> kernel_crypt_auth_op" where
  "kcaop_uninit s = \<lparr>k_caop = crypt_auth_op_of (replicate 72 0), ka_dst_len = 0, ka_ivlen = 0, ka_iv = map (uninit s) [0..<16]\<rparr>"

definition kcaop_from_user ::
  "'h fcrypt \<Rightarrow> u64 \<Rightarrow> kst \<Rightarrow> (int \<times> 'h fcrypt \<times> kernel_crypt_auth_op) option" where
  "kcaop_from_user fcr arg s =
     (case copy_from_user (um s) arg 72 of
        None \<Rightarrow> Some (- EFAULT, fcr, kcaop_uninit s)
      | Some bs \<Rightarrow> fill_kcaop_from_caop fcr ((kcaop_uninit s)\<lparr>k_caop := crypt_auth_op_of bs\<rparr>) s)"

definition kcaop_to_user :: "kernel_crypt_auth_op \<Rightarrow> u64 \<Rightarrow> kst \<Rightarrow> int \<times> kst" where
  "kcaop_to_user kcaop0 arg s =
     (case fill_caop_from_kcaop kcaop0 s of
        (ret, kcaop, s1) \<Rightarrow>
          (if ret \<noteq> 0 then (ret, s1)
           else case copy_to_user (um s1) arg (crypt_auth_op_bytes (k_caop kcaop)) of
             (k, m) \<Rightarrow> (if k \<noteq> 0 then - EFAULT else 0, s1\<lparr>um := m\<rparr>)))"

section \<open>TLS records\<close>

definition copy_tls_hash :: "kst \<Rightarrow> cell list option \<Rightarrow> u32 \<Rightarrow> byte list \<Rightarrow> kst option" where
  "copy_tls_hash s dst_sg len hash = scatterwalk_write s dst_sg (unat len) hash"

definition read_tls_hash :: "kst \<Rightarrow> cell list option \<Rightarrow> u32 \<Rightarrow> u32 \<Rightarrow> byte list option" where
  "read_tls_hash s dst_sg len hash_len = scatterwalk_read s dst_sg (unat (len - hash_len)) (unat hash_len)"

text \<open>\<open>%\<close> is the remainder of the truncating division; a pad larger than its array is \<open>None\<close>.\<close>

definition pad_record :: "kst \<Rightarrow> cell list option \<Rightarrow> u32 \<Rightarrow> nat \<Rightarrow> (int \<times> kst) option" where
  "pad_record s dst_sg len block_size =
     (let pad_size = int block_size - (sint len smod int block_size)
      in if int block_size < pad_size then None
         else do {
           s' \<leftarrow> scatterwalk_write s dst_sg (unat len) (replicate (nat pad_size) (word_of_int (pad_size - 1)));
           Some (pad_size, s')
         })"

definition verify_tls_record_pad :: "kst \<Rightarrow> cell list option \<Rightarrow> u32 \<Rightarrow> nat \<Rightarrow> int option" where
  "verify_tls_record_pad s dst_sg len block_size =
     do {
       b \<leftarrow> scatterwalk_read s dst_sg (unat (len - 1)) 1;
       let pad_size = b ! 0;
       let p = unat pad_size;
       if sint len < int p + 1 then Some (- EBADMSG)
       else do {
         pad \<leftarrow> scatterwalk_read s dst_sg (unat (len - of_nat p - 1)) (p + 1);
         if list_all (\<lambda>x. x = pad_size) (take p pad) then Some (int p + 1) else Some (- EBADMSG)
       }
     }"

text \<open>A hash update that is skipped for an empty input, and the MAC over the two inputs of a record.\<close>

definition hash_some ::
  "'h capi \<Rightarrow> 'h csession \<Rightarrow> cell list option \<Rightarrow> u32 \<Rightarrow> kst \<Rightarrow> (int \<times> 'h csession) option" where
  "hash_some A ses l n s =
     (if 0 < n
      then do { (ret, h) \<leftarrow> cryptodev_hash_update A (hdata ses) l (unat n) s; Some (ret, ses\<lparr>hdata := h\<rparr>) }
      else Some (0, ses))"

definition hash_fin :: "'h capi \<Rightarrow> 'h csession \<Rightarrow> (int \<times> byte list \<times> 'h csession) option" where
  "hash_fin A ses =
     do { (ret, out, h) \<leftarrow> cryptodev_hash_final A (hdata ses); Some (ret, out, ses\<lparr>hdata := h\<rparr>) }"

definition tls_mac ::
  "'h capi \<Rightarrow> 'h csession \<Rightarrow> cell list option \<Rightarrow> u32 \<Rightarrow> cell list option \<Rightarrow> u32 \<Rightarrow> kst
    \<Rightarrow> (int \<times> byte list \<times> 'h csession) option" where
  "tls_mac A ses auth_sg auth_len dst_sg len s =
     do {
       (ret, ses1) \<leftarrow> hash_some A ses auth_sg auth_len s;
       if ret \<noteq> 0 then Some (ret, [], ses1)
       else do {
         (ret, ses2) \<leftarrow> hash_some A ses1 dst_sg len s;
         if ret \<noteq> 0 then Some (ret, [], ses2) else hash_fin A ses2
       }
     }"

definition tls_encrypt ::
  "'h capi \<Rightarrow> 'h csession \<Rightarrow> kernel_crypt_auth_op \<Rightarrow> cell list option \<Rightarrow> u32 \<Rightarrow> cell list option \<Rightarrow> u32 \<Rightarrow> kst
    \<Rightarrow> (int \<times> 'h csession \<times> kernel_crypt_auth_op \<times> kst) option" where
  "tls_encrypt A ses kcaop auth_sg auth_len dst_sg len s =
     do {
       (ret, ses1, len1, s1) \<leftarrow>
         (if h_init (hdata ses) then do {
            (ret, out, ses1) \<leftarrow> tls_mac A ses auth_sg auth_len dst_sg len s;
            if ret \<noteq> 0 then Some (ret, ses1, len, s)
            else do {
              let tag_len = caop_tag_len (k_caop kcaop);
              s1 \<leftarrow> copy_tls_hash s dst_sg len (stack_bytes s out (unat tag_len));
              Some (0, ses1, len + tag_len, s1)
            }
          }
          else Some (0, ses, len, s));
       if ret \<noteq> 0 then Some (ret, ses1, kcaop, s1)
       else if c_init (cdata ses1) then do {
         (len2, s2) \<leftarrow>
           (if 1 < c_blocksize (cdata ses1)
            then do { (p, s2) \<leftarrow> pad_record s1 dst_sg len1 (c_blocksize (cdata ses1)); Some (len1 + word_of_int p, s2) }
            else Some (len1, s1));
         (ret, c, s3) \<leftarrow> cryptodev_cipher_encrypt A (cdata ses1) dst_sg dst_sg (unat len2) s2;
         let ses2 = ses1\<lparr>cdata := c\<rparr>;
         if ret \<noteq> 0 then Some (ret, ses2, kcaop, s3) else Some (0, ses2, kcaop\<lparr>ka_dst_len := len2\<rparr>, s3)
       }
       else Some (0, ses1, kcaop\<lparr>ka_dst_len := len1\<rparr>, s1)
     }"

text \<open>The check of the padding only sets \<open>fail\<close>, which is looked at after the MAC has been computed.\<close>

definition tls_decrypt ::
  "'h capi \<Rightarrow> 'h csession \<Rightarrow> kernel_crypt_auth_op \<Rightarrow> cell list option \<Rightarrow> u32 \<Rightarrow> cell list option \<Rightarrow> u32 \<Rightarrow> kst
    \<Rightarrow> (int \<times> 'h csession \<times> kernel_crypt_auth_op \<times> kst) option" where
  "tls_decrypt A ses kcaop auth_sg auth_len dst_sg len s =
     do {
       (ret, ses1, len1, fail, s1) \<leftarrow>
         (if c_init (cdata ses) then do {
            (ret, c, s1) \<leftarrow> cryptodev_cipher_decrypt A (cdata ses) dst_sg dst_sg (unat len) s;
            let ses1 = ses\<lparr>cdata := c\<rparr>;
            if ret \<noteq> 0 then Some (ret, ses1, len, False, s1)
            else if 1 < c_blocksize (cdata ses1) then do {
              r \<leftarrow> verify_tls_record_pad s1 dst_sg len (c_blocksize (cdata ses1));
              if r < 0 then Some (0, ses1, len, True, s1) else Some (0, ses1, len - word_of_int r, False, s1)
            }
            else Some (0, ses1, len, False, s1)
          }
          else Some (0, ses, len, False, s));
       if ret \<noteq> 0 then Some (ret, ses1, kcaop, s1)
       else if h_init (hdata ses1) then
         (let tag_len = caop_tag_len (k_caop kcaop)
          in if of_nat AALG_MAX_RESULT_LEN < tag_len \<or> len1 < tag_len then Some (- EINVAL, ses1, kcaop, s1)
             else do {
               vhash \<leftarrow> read_tls_hash s1 dst_sg len1 tag_len;
               let len2 = len1 - tag_len;
               (ret, out, ses2) \<leftarrow> tls_mac A ses1 auth_sg auth_len dst_sg len2 s1;
               if ret \<noteq> 0 then Some (ret, ses2, kcaop, s1)
               else if vhash \<noteq> stack_bytes s1 out (unat tag_len) \<or> fail then Some (- EBADMSG, ses2, kcaop, s1)
               else Some (0, ses2, kcaop\<lparr>ka_dst_len := len2\<rparr>, s1)
             })
       else Some (0, ses1, kcaop\<lparr>ka_dst_len := len1\<rparr>, s1)
     }"

definition tls_auth_n_crypt ::
  "'h capi \<Rightarrow> 'h csession \<Rightarrow> kernel_crypt_auth_op \<Rightarrow> cell list option \<Rightarrow> u32 \<Rightarrow> cell list option \<Rightarrow> u32 \<Rightarrow> kst
    \<Rightarrow> (int \<times> 'h csession \<times> kernel_crypt_auth_op \<times> kst) option" where
  "tls_auth_n_crypt A ses kcaop auth_sg auth_len dst_sg len s =
     (if caop_op (k_caop kcaop) = COP_ENCRYPT then tls_encrypt A ses kcaop auth_sg auth_len dst_sg len s
      else tls_decrypt A ses kcaop auth_sg auth_len dst_sg len s)"


section \<open>SRTP packets\<close>

definition srtp_encrypt ::
  "'h capi \<Rightarrow> 'h csession \<Rightarrow> kernel_crypt_auth_op \<Rightarrow> cell list option \<Rightarrow> u32 \<Rightarrow> cell list option \<Rightarrow> u32 \<Rightarrow> kst
    \<Rightarrow> (int \<times> 'h csession \<times> kernel_crypt_auth_op \<times> kst) option" where
  "srtp_encrypt A ses kcaop auth_sg auth_len dst_sg len s =
     do {
       (ret, ses1, s1) \<leftarrow>
         (if c_init (cdata ses) then do {
            (ret, c, s1) \<leftarrow> cryptodev_cipher_encrypt A (cdata ses) dst_sg dst_sg (unat len) s;
            Some (ret, ses\<lparr>cdata := c\<rparr>, s1)
          }
          else Some (0, ses, s));
       if ret \<noteq> 0 then Some (ret, ses1, kcaop, s1)
       else if h_init (hdata ses1) then do {
         (ret, ses2) \<leftarrow> hash_some A ses1 auth_sg auth_len s1;
         if ret \<noteq> 0 then Some (ret, ses2, kcaop, s1)
         else do {
           (ret, out, ses3) \<leftarrow> hash_fin A ses2;
           if ret \<noteq> 0 then Some (ret, ses3, kcaop, s1)
           else
             (case copy_to_user (um s1) (caop_tag (k_caop kcaop)) (stack_bytes s1 out (unat (caop_tag_len (k_caop kcaop)))) of
                (k, m) \<Rightarrow>
                  (if k \<noteq> 0 then Some (- EFAULT, ses3, kcaop, s1\<lparr>um := m\<rparr>)
                   else Some (0, ses3, kcaop\<lparr>ka_dst_len := len\<rparr>, s1\<lparr>um := m\<rparr>)))
         }
       }
       else Some (0, ses1, kcaop\<lparr>ka_dst_len := len\<rparr>, s1)
     }"

definition srtp_decrypt ::
  "'h capi \<Rightarrow> 'h csession \<Rightarrow> kernel_crypt_auth_op \<Rightarrow> cell list option \<Rightarrow> u32 \<Rightarrow> cell list option \<Rightarrow> u32 \<Rightarrow> kst
    \<Rightarrow> (int \<times> 'h csession \<times> kernel_crypt_auth_op \<times> kst) option" where
  "srtp_decrypt A ses kcaop auth_sg auth_len dst_sg len s =
     do {
       (ret, ses1) \<leftarrow>
         (if h_init (hdata ses) then
            (let tag_len = caop_tag_len (k_caop kcaop)
             in if of_nat AALG_MAX_RESULT_LEN < tag_len \<or> len < tag_len then Some (- EINVAL, ses)
                else
                  (case copy_from_user (um s) (caop_tag (k_caop kcaop)) (unat tag_len) of
                     None \<Rightarrow> Some (- EFAULT, ses)
                   | Some vhash \<Rightarrow> do {
                       (ret, h) \<leftarrow> cryptodev_hash_update A (hdata ses) auth_sg (unat auth_len) s;
                       let ses1 = ses\<lparr>hdata := h\<rparr>;
                       if ret \<noteq> 0 then Some (ret, ses1)
                       else do {
                         (ret, out, ses2) \<leftarrow> hash_fin A ses1;
                         if ret \<noteq> 0 then Some (ret, ses2)
                         else if vhash \<noteq> stack_bytes s out (unat tag_len) then Some (- EBADMSG, ses2)
                         else Some (0, ses2)
                       }
                     }))
          else Some (0, ses));
       if ret \<noteq> 0 then Some (ret, ses1, kcaop, s)
       else if c_init (cdata ses1) then do {
         (ret, c, s1) \<leftarrow> cryptodev_cipher_decrypt A (cdata ses1) dst_sg dst_sg (unat len) s;
         let ses2 = ses1\<lparr>cdata := c\<rparr>;
         if ret \<noteq> 0 then Some (ret, ses2, kcaop, s1) else Some (0, ses2, kcaop\<lparr>ka_dst_len := len\<rparr>, s1)
       }
       else Some (0, ses1, kcaop\<lparr>ka_dst_len := len\<rparr>, s)
     }"

definition srtp_auth_n_crypt ::
  "'h capi \<Rightarrow> 'h csession \<Rightarrow> kernel_crypt_auth_op \<Rightarrow> cell list option \<Rightarrow> u32 \<Rightarrow> cell list option \<Rightarrow> u32 \<Rightarrow> kst
    \<Rightarrow> (int \<times> 'h csession \<times> kernel_crypt_auth_op \<times> kst) option" where
  "srtp_auth_n_crypt A ses kcaop auth_sg auth_len dst_sg len s =
     (if caop_op (k_caop kcaop) = COP_ENCRYPT then srtp_encrypt A ses kcaop auth_sg auth_len dst_sg len s
      else srtp_decrypt A ses kcaop auth_sg auth_len dst_sg len s)"

section \<open>AEAD ciphers\<close>

definition auth_n_crypt ::
  "'h capi \<Rightarrow> 'h csession \<Rightarrow> kernel_crypt_auth_op \<Rightarrow> cell list option \<Rightarrow> u32 \<Rightarrow> cell list option \<Rightarrow> cell list option \<Rightarrow> u32
    \<Rightarrow> kst \<Rightarrow> (int \<times> 'h csession \<times> kernel_crypt_auth_op \<times> kst) option" where
  "auth_n_crypt A ses kcaop0 auth_sg auth_len src_sg dst_sg len s =
     (let max_tag_len = cryptodev_cipher_get_tag_size (cdata ses);
          tag_len0 = caop_tag_len (k_caop kcaop0)
      in if of_nat max_tag_len < tag_len0 then Some (- EINVAL, ses, kcaop0, s)
         else
           (let c1 = (if tag_len0 \<noteq> 0 then cryptodev_cipher_set_tag_size A (cdata ses) (unat tag_len0) else cdata ses);
                kcaop = (if tag_len0 \<noteq> 0 then kcaop0
                         else kcaop0\<lparr>k_caop := (k_caop kcaop0)\<lparr>caop_tag_len := of_nat max_tag_len\<rparr>\<rparr>);
                c2 = cryptodev_cipher_auth c1 auth_sg (unat auth_len);
                caop = k_caop kcaop; tag_len = caop_tag_len caop
            in if caop_op caop = COP_ENCRYPT then do {
                 (ret, c3, s1) \<leftarrow> cryptodev_cipher_encrypt A c2 src_sg dst_sg (unat len) s;
                 if ret \<noteq> 0 then Some (ret, ses\<lparr>cdata := c3\<rparr>, kcaop, s1)
                 else Some (0, ses\<lparr>cdata := c3\<rparr>,
                   kcaop\<lparr>ka_dst_len := len + tag_len, k_caop := caop\<lparr>caop_tag := caop_dst caop + ucast len\<rparr>\<rparr>, s1)
               }
               else do {
                 (ret, c3, s1) \<leftarrow> cryptodev_cipher_decrypt A c2 src_sg dst_sg (unat len) s;
                 if ret \<noteq> 0 then Some (ret, ses\<lparr>cdata := c3\<rparr>, kcaop, s1)
                 else Some (0, ses\<lparr>cdata := c3\<rparr>,
                   kcaop\<lparr>ka_dst_len := len - tag_len,
                         k_caop := caop\<lparr>caop_tag := caop_dst caop + ucast len - ucast tag_len\<rparr>\<rparr>, s1)
               }))"

section \<open>The zero-copy run\<close>

text \<open>The SRTP branch.\<close>

definition auth_run_srtp ::
  "'h capi \<Rightarrow> mm \<Rightarrow> nat \<Rightarrow> 'h csession \<Rightarrow> kernel_crypt_auth_op \<Rightarrow> kst
    \<Rightarrow> (int \<times> 'h csession \<times> kernel_crypt_auth_op \<times> kst) option" where
  "auth_run_srtp A M sh ses kcaop s =
     (if c_init (cdata ses) \<and> (\<not> c_stream (cdata ses) \<or> c_aead (cdata ses)) then Some (- EINVAL, ses, kcaop, s)
      else do {
        (ret, auth_sg, dst_sg, ses1, s1) \<leftarrow> get_userbuf_srtp M sh ses kcaop s;
        if ret \<noteq> 0 then Some (ret, ses1, kcaop, s1)
        else do {
          (ret, ses2, kcaop2, s2) \<leftarrow>
            srtp_auth_n_crypt A ses1 kcaop (sg_arg sh ses1 auth_sg) (caop_auth_len (k_caop kcaop))
              (sg_arg sh ses1 dst_sg) (caop_len (k_caop kcaop)) s1;
          (ses3, s3) \<leftarrow> release_user_pages M ses2 s2;
          Some (ret, ses3, kcaop2, s3)
        }
      })"

text \<open>The TLS and AEAD branches, with the page of authenticated data filled.\<close>

definition auth_run_tls ::
  "'h capi \<Rightarrow> mm \<Rightarrow> nat \<Rightarrow> 'h csession \<Rightarrow> kernel_crypt_auth_op \<Rightarrow> cell list option \<Rightarrow> kst
    \<Rightarrow> (int \<times> 'h csession \<times> kernel_crypt_auth_op \<times> kst) option" where
  "auth_run_tls A M sh ses kcaop auth_sg s =
     do {
       (ret, dst_sg, ses1, s1) \<leftarrow> get_userbuf_tls M sh ses kcaop s;
       if ret \<noteq> 0 then Some (ret, ses1, kcaop, s1)
       else do {
         (ret, ses2, kcaop2, s2) \<leftarrow>
           tls_auth_n_crypt A ses1 kcaop auth_sg (caop_auth_len (k_caop kcaop)) (sg_arg sh ses1 dst_sg)
             (caop_len (k_caop kcaop)) s1;
         (ses3, s3) \<leftarrow> release_user_pages M ses2 s2;
         Some (ret, ses3, kcaop2, s3)
       }
     }"

definition auth_run_aead ::
  "'h capi \<Rightarrow> mm \<Rightarrow> nat \<Rightarrow> 'h csession \<Rightarrow> kernel_crypt_auth_op \<Rightarrow> cell list option \<Rightarrow> kst
    \<Rightarrow> (int \<times> 'h csession \<times> kernel_crypt_auth_op \<times> kst) option" where
  "auth_run_aead A M sh ses kcaop auth_sg s =
     (if \<not> c_init (cdata ses) \<or> \<not> c_stream (cdata ses) \<or> \<not> c_aead (cdata ses) then Some (- EINVAL, ses, kcaop, s)
      else
        (let caop = k_caop kcaop;
             dst_len = (if caop_op caop = COP_ENCRYPT
                        then caop_len caop + of_nat (cryptodev_cipher_get_tag_size (cdata ses)) else caop_len caop)
         in do {
              (ret, src_sg, dst_sg, ses1, s1) \<leftarrow> get_userbuf M sh ses (caop_src caop) (caop_len caop) (caop_dst caop) dst_len s;
              if ret \<noteq> 0 then Some (ret, ses1, kcaop, s1)
              else do {
                (ret, ses2, kcaop2, s2) \<leftarrow>
                  auth_n_crypt A ses1 kcaop auth_sg (caop_auth_len caop) (sg_arg sh ses1 src_sg) (sg_arg sh ses1 dst_sg)
                    (caop_len caop) s1;
                (ses3, s3) \<leftarrow> release_user_pages M ses2 s2;
                Some (ret, ses3, kcaop2, s3)
              }
            }))"

definition crypto_auth_run_zc ::
  "'h capi \<Rightarrow> mm \<Rightarrow> nat \<Rightarrow> 'h csession \<Rightarrow> kernel_crypt_auth_op \<Rightarrow> kst
    \<Rightarrow> (int \<times> 'h csession \<times> kernel_crypt_auth_op \<times> kst) option" where
  "crypto_auth_run_zc A M sh ses kcaop s =
     (let caop = k_caop kcaop
      in if has_flag (caop_flags caop) COP_FLAG_AEAD_SRTP_TYPE then auth_run_srtp A M sh ses kcaop s
         else if 2 ^ sh < unat (caop_auth_len caop) then Some (- EINVAL, ses, kcaop, s)
         else
           (case kalloc FreePage s of
              (None, s1) \<Rightarrow> Some (- ENOMEM, ses, kcaop, s1)
            | (Some auth_buf, s1) \<Rightarrow>
                (let s2 = s1\<lparr>kbuf := map (uninit s1) [0..<2 ^ sh]\<rparr>;
                     run = (\<lambda>auth_sg s. if has_flag (caop_flags caop) COP_FLAG_AEAD_TLS_TYPE \<and> \<not> c_aead (cdata ses)
                                        then auth_run_tls A M sh ses kcaop auth_sg s
                                        else auth_run_aead A M sh ses kcaop auth_sg s)
                 in do {
                      (ret, ses3, kcaop3, s3) \<leftarrow>
                        (if caop_auth_src caop \<noteq> 0 \<and> 0 < caop_auth_len caop then
                           (case copy_from_user (um s2) (caop_auth_src caop) (unat (caop_auth_len caop)) of
                              None \<Rightarrow> Some (- EFAULT, ses, kcaop, s2)
                            | Some bs \<Rightarrow> run (sg_init_one (unat (caop_auth_len caop)))
                                (s2\<lparr>kbuf := bs @ drop (unat (caop_auth_len caop)) (kbuf s2)\<rparr>))
                         else run None s2);
                      Some (ret, ses3, kcaop3, kfree (Some auth_buf) s3)
                    })))"

section \<open>\<open>crypto_auth_run\<close>\<close>

definition auth_run_session ::
  "'h capi \<Rightarrow> mm \<Rightarrow> nat \<Rightarrow> 'h csession \<Rightarrow> kernel_crypt_auth_op \<Rightarrow> kst
    \<Rightarrow> (int \<times> 'h csession \<times> kernel_crypt_auth_op \<times> kst) option" where
  "auth_run_session A M sh ses kcaop s =
     (if \<not> c_init (cdata ses) then Some (- EINVAL, ses, kcaop, s)
      else do {
        (ret, ses1) \<leftarrow>
          (if h_init (hdata ses)
           then do { (ret, h) \<leftarrow> cryptodev_hash_reset A (hdata ses); Some (ret, ses\<lparr>hdata := h\<rparr>) }
           else Some (0, ses));
        if ret \<noteq> 0 then Some (ret, ses1, kcaop, s)
        else
          (let ses2 = ses1\<lparr>cdata := cryptodev_cipher_set_iv (cdata ses1) (ka_iv kcaop) (min (c_ivsize (cdata ses1)) (ka_ivlen kcaop))\<rparr>
           in do {
                (ret, ses3, kcaop3, s3) \<leftarrow> crypto_auth_run_zc A M sh ses2 kcaop s;
                if ret \<noteq> 0 then Some (ret, ses3, kcaop3, s3)
                else Some (0, ses3,
                  kcaop3\<lparr>ka_iv := cryptodev_cipher_get_iv (cdata ses3) (ka_iv kcaop3) (min (c_ivsize (cdata ses3)) (ka_ivlen kcaop3))\<rparr>, s3)
              })
      })"

definition crypto_auth_run ::
  "'h capi \<Rightarrow> mm \<Rightarrow> nat \<Rightarrow> 'h fcrypt \<Rightarrow> kernel_crypt_auth_op \<Rightarrow> kst
    \<Rightarrow> (int \<times> 'h fcrypt \<times> kernel_crypt_auth_op \<times> kst) option" where
  "crypto_auth_run A M sh fcr kcaop s =
     (if caop_op (k_caop kcaop) \<noteq> COP_ENCRYPT \<and> caop_op (k_caop kcaop) \<noteq> COP_DECRYPT
      then Some (- EINVAL, fcr, kcaop, s)
      else do {
        (ses_ptr, fcr1) \<leftarrow> crypto_get_session_by_sid fcr (caop_ses (k_caop kcaop));
        case ses_ptr of
          None \<Rightarrow> Some (- EINVAL, fcr1, kcaop, s)
        | Some ses \<Rightarrow> do {
            (ret, ses', kcaop', s') \<leftarrow> auth_run_session A M sh ses kcaop s;
            Some (ret, crypto_put_session ses' fcr1, kcaop', s')
          }
      })"


section \<open>Reading and writing through a scatterlist\<close>

lemma gather_append: "sg_gather s (xs @ ys) = do { a \<leftarrow> sg_gather s xs; b \<leftarrow> sg_gather s ys; Some (a @ b) }"
  by (induction xs) (auto split: Option.bind_splits)

lemma gather_length: "sg_gather s cs = Some mem \<Longrightarrow> length mem = length cs"
  by (induction cs arbitrary: mem) (auto split: Option.bind_splits)

lemma gather_part:
  assumes "sg_gather s cs = Some mem" "start + n \<le> length cs"
  shows "sg_gather s (take n (drop start cs)) = Some (take n (drop start mem))"
proof -
  have "sg_gather s (take start cs @ take n (drop start cs) @ drop (start + n) cs) = Some mem"
    using assms(1) by (metis append_take_drop_id drop_drop add.commute)
  then obtain a b c where p: "sg_gather s (take start cs) = Some a" "sg_gather s (take n (drop start cs)) = Some b" "mem = a @ b @ c"
    by (auto simp: gather_append bind_eq_Some_conv)
  then show ?thesis using assms(2) gather_length [OF p(1)] gather_length [OF p(2)] by auto
qed

lemma read_mem:
  "sg_gather s cs = Some mem \<Longrightarrow> start + n \<le> length cs \<Longrightarrow> scatterwalk_read s (Some cs) start n = Some (take n (drop start mem))"
  by (simp add: scatterwalk_read_def gather_part)

lemma fetch_mem: "sg_gather s cs = Some mem \<Longrightarrow> n \<le> length cs \<Longrightarrow> sg_fetch s (Some cs) n = Some (take n mem)"
  using gather_part [of s cs mem 0 n] by (simp add: sg_fetch_def)

text \<open>What a write through a scatterlist leaves alone.\<close>

definition frame :: "cell set \<Rightarrow> kst \<Rightarrow> kst \<Rightarrow> bool" where
  "frame C s s' \<longleftrightarrow> (\<forall>c. c \<notin> C \<longrightarrow> cell_get s' c = cell_get s c) \<and> uninit s' = uninit s"

lemma frame_refl [simp]: "frame C s s"
  by (simp add: frame_def)

lemma frame_trans: "frame C s t \<Longrightarrow> frame C t u \<Longrightarrow> frame C s u"
  by (simp add: frame_def)

lemma frame_scatter: "sg_scatter s cs bs = Some s' \<Longrightarrow> set cs \<subseteq> C \<Longrightarrow> frame C s s'"
proof -
  have u: "uninit s' = uninit s" if "sg_scatter s cs bs = Some s'" for s
    using that
  proof (induction cs arbitrary: s bs)
    case (Cons c cs)
    then show ?case
      by (cases bs) (auto simp: cell_put_def bind_eq_Some_conv split: option.splits cell.splits)
  qed simp
  assume "sg_scatter s cs bs = Some s'" "set cs \<subseteq> C"
  then show ?thesis using cells.put_frame [of s cs bs s'] u by (auto simp: frame_def)
qed

lemma frame_fetch:
  assumes "frame C s s'" "sg_fetch s l n = Some bs" "\<And>cs. l = Some cs \<Longrightarrow> set cs \<inter> C = {}"
  shows "sg_fetch s' l n = Some bs"
proof (cases "n = 0")
  case False
  with assms(2) obtain cs where l: "l = Some cs" "n \<le> length cs" "sg_gather s (take n cs) = Some bs"
    by (auto simp: sg_fetch_def split: option.splits if_splits)
  have "cell_get s' c = cell_get s c" if "c \<in> set (take n cs)" for c
    using that assms(1) assms(3) [OF l(1)] in_set_takeD [of c n cs] by (auto simp: frame_def)
  then have "sg_gather s' (take n cs) = sg_gather s (take n cs)" by (rule cells.get_cong)
  with l False show ?thesis by (simp add: sg_fetch_def)
qed (use assms(2) in \<open>simp add: sg_fetch_def\<close>)

lemma scatter_part:
  assumes "sg_gather s cs = Some mem" "distinct cs" "start + length bs \<le> length cs"
  shows "\<exists>s'. sg_scatter s (take (length bs) (drop start cs)) bs = Some s'
    \<and> sg_gather s' cs = Some (take start mem @ bs @ drop (start + length bs) mem) \<and> frame (set cs) s s'"
proof -
  define n where "n = length bs"
  define xs ys zs where "xs = take start cs" and "ys = take n (drop start cs)" and "zs = drop (start + n) cs"
  have cs: "cs = xs @ ys @ zs"
    unfolding xs_def ys_def zs_def by (metis append_take_drop_id drop_drop add.commute)
  have ly: "length ys = n" "length xs = start" using assms(3) by (simp_all add: ys_def xs_def n_def)
  have g: "sg_gather s xs = Some (take start mem)" "sg_gather s zs = Some (drop (start + n) mem)" "sg_gather s ys \<noteq> None"
    using gather_part [OF assms(1), of 0 start] gather_part [OF assms(1), of "start + n" "length cs - (start + n)"]
      gather_part [OF assms(1), of start n] assms(3) gather_length [OF assms(1)]
    by (simp_all add: xs_def ys_def zs_def n_def)
  from cells.scatter_total [OF g(3)] obtain s' where s': "sg_scatter s ys bs = Some s'" by blast
  have d: "distinct ys" "set xs \<inter> set ys = {}" "set zs \<inter> set ys = {}" using assms(2) unfolding cs by auto
  have "sg_gather s' ys = Some bs" by (rule cells.gather_after_scatter [OF s']) (simp_all add: ly n_def d)
  moreover have "sg_gather s' xs = Some (take start mem)" using cells.gather_other [OF s' d(2)] g(1) by simp
  moreover have "sg_gather s' zs = Some (drop (start + n) mem)" using cells.gather_other [OF s' d(3)] g(2) by simp
  ultimately have "sg_gather s' cs = Some (take start mem @ bs @ drop (start + n) mem)"
    unfolding cs by (simp add: gather_append)
  moreover have "frame (set cs) s s'" by (rule frame_scatter [OF s']) (auto simp: cs)
  ultimately show ?thesis using s' unfolding ys_def n_def by blast
qed

lemma write_mem:
  assumes "sg_gather s cs = Some mem" "distinct cs" "start + length bs \<le> length cs"
  shows "\<exists>s'. scatterwalk_write s (Some cs) start bs = Some s'
    \<and> sg_gather s' cs = Some (take start mem @ bs @ drop (start + length bs) mem) \<and> frame (set cs) s s'"
  using scatter_part [OF assms] assms by (cases "bs = []") (auto simp: scatterwalk_write_def)

lemma store_mem:
  assumes "sg_gather s cs = Some mem" "distinct cs" "length bs \<le> length cs"
  shows "\<exists>s'. sg_store s (Some cs) bs = Some s' \<and> sg_gather s' cs = Some (bs @ drop (length bs) mem) \<and> frame (set cs) s s'"
  using scatter_part [of s cs mem 0 bs] assms by (cases "bs = []") (auto simp: sg_store_def)

section \<open>Records as byte lists\<close>

text \<open>The specification: what is encrypted for a text, and how a decrypted record is judged.\<close>

definition tls_seal :: "(byte list \<Rightarrow> byte list) \<Rightarrow> nat \<Rightarrow> byte list \<Rightarrow> byte list" where
  "tls_seal tag bsz text =
     (let r = text @ tag text; p = bsz - length r mod bsz in r @ replicate p (of_nat (p - 1)))"

definition unpad :: "byte list \<Rightarrow> byte list option" where
  "unpad r =
     (let p = unat (last r)
      in if p < length r \<and> list_all (\<lambda>x. x = last r) (drop (length r - Suc p) r) then Some (take (length r - Suc p) r) else None)"

definition tls_verify :: "(byte list \<Rightarrow> byte list) \<Rightarrow> nat \<Rightarrow> byte list \<Rightarrow> int + byte list" where
  "tls_verify tag tgl r =
     (let r1 = (case unpad r of None \<Rightarrow> r | Some x \<Rightarrow> x)
      in if 64 < tgl \<or> length r1 < tgl then Inl (- EINVAL)
         else (let text = take (length r1 - tgl) r1
               in if drop (length r1 - tgl) r1 \<noteq> tag text \<or> unpad r = None then Inl (- EBADMSG) else Inr text))"

lemma unpad_pad: "0 < p \<Longrightarrow> p \<le> 256 \<Longrightarrow> unpad (r @ replicate p (of_nat (p - 1))) = Some r"
proof -
  assume p: "0 < p" "p \<le> 256"
  define v :: byte where "v = of_nat (p - 1)"
  have "unat v = p - 1" unfolding v_def by (rule unat_of_nat_small) (use p in simp)
  then show ?thesis unfolding v_def [symmetric] using p by (auto simp: unpad_def Let_def list_all_iff)
qed

lemma verify_seal:
  assumes "0 < bsz" "bsz \<le> 256" "\<And>t. length (tag t) = tgl" "tgl \<le> 64"
  shows "tls_verify tag tgl (tls_seal tag bsz text) = Inr text"
proof -
  define p where "p = bsz - length (text @ tag text) mod bsz"
  have p: "0 < p" "p \<le> 256" using assms(1,2) by (simp_all add: p_def)
  have "unpad (tls_seal tag bsz text) = Some (text @ tag text)"
    unfolding tls_seal_def Let_def p_def [symmetric] by (rule unpad_pad [OF p])
  then show ?thesis using assms(3,4) by (simp add: tls_verify_def)
qed

lemma unpad_Some:
  assumes "unpad r = Some x"
  shows "\<exists>p. r = x @ replicate (Suc p) (of_nat p) \<and> p < 256"
proof -
  define p where "p = unat (last r)"
  have p: "p < length r" "list_all (\<lambda>y. y = last r) (drop (length r - Suc p) r)" "x = take (length r - Suc p) r"
    using assms by (auto simp: unpad_def Let_def p_def split: if_splits)
  have "length (drop (length r - Suc p) r) = Suc p" using p(1) by simp
  then have dr: "drop (length r - Suc p) r = replicate (Suc p) (last r)"
    using p(2) unfolding list_all_iff by (intro replicate_eqI) blast+
  have "r = x @ replicate (Suc p) (last r)" using append_take_drop_id [of "length r - Suc p" r] unfolding dr p(3) by (rule sym)
  moreover have "last r = of_nat p" by (simp add: p_def)
  moreover have "p < 256" unfolding p_def by (rule unat_byte)
  ultimately show ?thesis by metis
qed

lemma verify_authentic:
  assumes "tls_verify tag tgl r = Inr text"
  shows "\<exists>p. r = text @ tag text @ replicate (Suc p) (of_nat p) \<and> p < 256"
proof -
  from assms obtain x where x: "unpad r = Some x" "tgl \<le> length x" "text = take (length x - tgl) x" "drop (length x - tgl) x = tag text"
    by (auto simp: tls_verify_def Let_def split: option.splits if_splits)
  then have "x = text @ tag text" by (metis append_take_drop_id)
  with unpad_Some [OF x(1)] show ?thesis by auto
qed

lemma length_seal_dvd: "0 < bsz \<Longrightarrow> bsz dvd length (tls_seal tag bsz text)"
proof -
  assume "0 < bsz"
  define n where "n = length (text @ tag text)"
  have "n + (bsz - n mod bsz) = (n - n mod bsz) + bsz"
    using mod_less_divisor [OF \<open>0 < bsz\<close>, of n] mod_less_eq_dividend [of n bsz] by linarith
  moreover have "bsz dvd (n - n mod bsz) + bsz" using dvd_minus_mod [of bsz n] by (intro dvd_add) simp_all
  ultimately have "bsz dvd n + (bsz - n mod bsz)" by simp
  then show ?thesis by (simp add: tls_seal_def Let_def n_def add.assoc)
qed

section \<open>TLS operations on memory\<close>

text \<open>Finishing the hash gives the digest \<open>d\<close> of its state.\<close>

definition final_sem :: "'h capi \<Rightarrow> ('h \<Rightarrow> byte list) \<Rightarrow> bool" where
  "final_sem A d \<longleftrightarrow> (\<forall>h. \<exists>ret cbs h'. ahash_final A h = (ret, cbs, d h, h') \<and> completes ret cbs \<and> outcome ret cbs = 0)"

text \<open>A TLS session: a block cipher, a MAC that has absorbed nothing but its key (state \<open>h\<close>).\<close>

definition tls_sem ::
  "'h capi \<Rightarrow> 'h csession \<Rightarrow> tfm \<Rightarrow> (bool \<Rightarrow> byte list \<Rightarrow> byte list \<Rightarrow> byte list)
    \<Rightarrow> (bool \<Rightarrow> byte list \<Rightarrow> byte list \<Rightarrow> byte list) \<Rightarrow> ('h \<Rightarrow> byte list \<Rightarrow> 'h) \<Rightarrow> ('h \<Rightarrow> byte list) \<Rightarrow> 'h \<Rightarrow> bool" where
  "tls_sem A ses t f g u d h \<longleftrightarrow>
     ses_sem A ses t (c_blocksize (cdata ses)) f g u \<and> 1 < c_blocksize (cdata ses) \<and> c_blocksize (cdata ses) \<le> 256
     \<and> h_init (hdata ses) \<and> h_state (hdata ses) = Some h \<and> final_sem A d"

text \<open>The tag of a text: the first bytes of the digest over the authenticated data and the text.\<close>

definition tls_tag :: "kst \<Rightarrow> ('h \<Rightarrow> byte list \<Rightarrow> 'h) \<Rightarrow> ('h \<Rightarrow> byte list) \<Rightarrow> 'h \<Rightarrow> byte list \<Rightarrow> nat \<Rightarrow> byte list \<Rightarrow> byte list" where
  "tls_tag s u d h ad n text = stack_bytes s (d (u (u h ad) text)) n"

lemma length_stack_bytes [simp]: "length (stack_bytes s out n) = n"
  by (simp add: stack_bytes_def)

lemma hash_some_sem:
  assumes "hash_sem A u" "h_state (hdata ses) = Some h" "sg_fetch s l (unat n) = Some bs"
  shows "\<exists>r. hash_some A ses l n s = Some (0, ses\<lparr>hdata := (hdata ses)\<lparr>h_state := Some (u h bs), h_res := r\<rparr>\<rparr>)"
proof (cases "n = 0")
  case True
  with assms(1,3) have "u h bs = h" by (simp add: sg_fetch_def hash_sem_def)
  with True assms(2) show ?thesis
    by (intro exI [of _ "h_res (hdata ses)"]) (simp add: hash_some_def)
next
  case False
  then have "0 < n" by (simp add: word_gt_0)
  moreover from assms(1) obtain ret cbs where "ahash_update A h bs = (ret, cbs, u h bs)" "completes ret cbs" "outcome ret cbs = 0"
    unfolding hash_sem_def by blast
  ultimately show ?thesis
    using assms(2,3) by (auto simp: hash_some_def cryptodev_hash_update_def waitfor_outcome Let_def)
qed

lemma tls_mac_sem:
  assumes "hash_sem A u" "final_sem A d" "h_state (hdata ses) = Some h"
    "sg_fetch s auth_sg (unat al) = Some ad" "sg_fetch s dst_sg (unat n) = Some text"
  shows "\<exists>st r. tls_mac A ses auth_sg al dst_sg n s = Some (0, d (u (u h ad) text), ses\<lparr>hdata := (hdata ses)\<lparr>h_state := Some st, h_res := r\<rparr>\<rparr>)"
proof -
  from hash_some_sem [OF assms(1,3,4)] obtain r1 where
    1: "hash_some A ses auth_sg al s = Some (0, ses\<lparr>hdata := (hdata ses)\<lparr>h_state := Some (u h ad), h_res := r1\<rparr>\<rparr>)" by blast
  define ses1 where "ses1 = ses\<lparr>hdata := (hdata ses)\<lparr>h_state := Some (u h ad), h_res := r1\<rparr>\<rparr>"
  have "h_state (hdata ses1) = Some (u h ad)" by (simp add: ses1_def)
  from hash_some_sem [OF assms(1) this assms(5)] obtain r2 where
    2: "hash_some A ses1 dst_sg n s = Some (0, ses1\<lparr>hdata := (hdata ses1)\<lparr>h_state := Some (u (u h ad) text), h_res := r2\<rparr>\<rparr>)" by blast
  from assms(2) obtain ret cbs h' where "ahash_final A (u (u h ad) text) = (ret, cbs, d (u (u h ad) text), h')"
    "completes ret cbs" "outcome ret cbs = 0" unfolding final_sem_def by blast
  with 1 2 show ?thesis
    unfolding tls_mac_def ses1_def by (simp add: hash_fin_def cryptodev_hash_final_def waitfor_outcome Let_def) blast
qed

lemma smod_nat: "int a smod int b = int (a mod b)"
proof (cases "a = 0 \<or> b = 0")
  case False
  then show ?thesis
    by (simp add: signed_modulo_int_def signed_divide_int_def minus_div_mult_eq_mod flip: zdiv_int zmod_int)
qed (auto simp: signed_modulo_int_def signed_divide_int_def)

lemma pad_record_mem:
  assumes "sg_gather s cs = Some mem" "distinct cs" "unat n < 2 ^ 31" "0 < bsz"
    "p = bsz - unat n mod bsz" "unat n + p \<le> length cs"
  shows "\<exists>s'. pad_record s (Some cs) n bsz = Some (int p, s')
    \<and> sg_gather s' cs = Some (take (unat n) mem @ replicate p (of_nat (p - 1)) @ drop (unat n + p) mem) \<and> frame (set cs) s s'"
proof -
  have sm: "sint n smod int bsz = int (unat n mod bsz)"
    unfolding sint_small [OF assms(3)] by (rule smod_nat)
  have le: "unat n mod bsz < bsz" using assms(4) by simp
  have p: "int bsz - int (unat n mod bsz) = int p" "p \<le> bsz" "0 < p" using le assms(5) by simp_all
  define w :: byte where "w = of_nat (p - 1)"
  have v: "word_of_int (int p - 1) = w"
    unfolding w_def using p(3) by (metis of_nat_1 of_nat_diff Suc_leI One_nat_def of_int_of_nat_eq)
  from write_mem [OF assms(1,2), of "unat n" "replicate p w"] assms(6)
  obtain s' where "scatterwalk_write s (Some cs) (unat n) (replicate p w) = Some s'"
    "sg_gather s' cs = Some (take (unat n) mem @ replicate p w @ drop (unat n + p) mem)" "frame (set cs) s s'"
    by auto
  then show ?thesis using p(2) unfolding pad_record_def sm p(1) Let_def v w_def [symmetric] by simp
qed

lemma cipher_mem:
  assumes "ses_sem A ses t bsz f g u" "sg_gather s cs = Some mem" "distinct cs" "n \<le> length cs" "bsz dvd n"
  shows "\<exists>r s'. cipher_op A enc (cdata ses) (Some cs) (Some cs) n s
      = Some (0, (cdata ses)\<lparr>c_iv := g enc (c_iv (cdata ses)) (take n mem), c_res := r\<rparr>, s')
    \<and> sg_gather s' cs = Some (f enc (c_iv (cdata ses)) (take n mem) @ drop n mem) \<and> frame (set cs) s s'"
proof -
  define out where "out = f enc (c_iv (cdata ses)) (take n mem)"
  have l: "length (take n mem) = n" using gather_length [OF assms(2)] assms(4) by simp
  have lo: "length out = n"
    using assms(1,5) l unfolding ses_sem_def ablk_sem_def out_def by metis
  from store_mem [OF assms(2,3), of out] lo assms(4) obtain s' where
    st: "sg_store s (Some cs) out = Some s'" "sg_gather s' cs = Some (out @ drop n mem)" "frame (set cs) s s'" by auto
  from ses_cipher_sem [OF assms(1) fetch_mem [OF assms(2,4)] l assms(5) st(1) [unfolded out_def]] obtain r where
    "ses_cipher A enc ses (Some cs) (Some cs) n s
      = Some (0, ses\<lparr>cdata := (cdata ses)\<lparr>c_iv := g enc (c_iv (cdata ses)) (take n mem), c_res := r\<rparr>\<rparr>, s')" by blast
  moreover have "c_init (cdata ses)" using assms(1) by (simp add: ses_sem_def)
  ultimately have "cipher_op A enc (cdata ses) (Some cs) (Some cs) n s
      = Some (0, (cdata ses)\<lparr>c_iv := g enc (c_iv (cdata ses)) (take n mem), c_res := r\<rparr>, s')"
    by (cases enc; cases ses) (auto simp: ses_cipher_def cryptodev_cipher_encrypt_def cryptodev_cipher_decrypt_def bind_eq_Some_conv)
  with st(2,3) show ?thesis unfolding out_def by blast
qed

lemma unat_of_nat32: "n < 2 ^ 31 \<Longrightarrow> unat (of_nat n :: u32) = n"
  by (rule unat_of_nat_small) simp

lemma verify_mem:
  assumes "sg_gather s cs = Some mem" "n \<noteq> 0" "unat n < 2 ^ 31" "unat n \<le> length cs"
  shows "verify_tls_record_pad s (Some cs) n bsz
    = Some (case unpad (take (unat n) mem) of None \<Rightarrow> - EBADMSG | Some x \<Rightarrow> int (unat n - length x))"
proof -
  define R where "R = take (unat n) mem"
  define k where "k = unat n"
  have si: "sint n = int k" unfolding k_def by (rule sint_small [OF assms(3)])
  have k: "0 < k" "k \<le> length cs" using assms(2,4) by (simp_all add: k_def unat_gt_0)
  have lR: "length R = k" using gather_length [OF assms(1)] assms(4) by (simp add: R_def k_def)
  then have ne: "R \<noteq> []" using k by auto
  have u1: "unat (n - 1) = k - 1" using unat_minus_one [OF assms(2)] by (simp add: k_def)
  have lastR: "R ! (k - 1) = last R" using ne lR by (simp add: last_conv_nth)
  have "take 1 (drop (k - 1) mem) = [last R]"
  proof -
    have "k - 1 < length mem" using k gather_length [OF assms(1)] by simp
    then have "take 1 (drop (k - 1) mem) = [mem ! (k - 1)]" by (simp add: take_Suc_conv_app_nth Cons_nth_drop_Suc [symmetric])
    then show ?thesis using lastR k by (simp add: R_def k_def [symmetric])
  qed
  then have r1: "scatterwalk_read s (Some cs) (unat (n - 1)) 1 = Some [last R]"
    unfolding u1 using read_mem [OF assms(1), of "k - 1" 1] k by simp
  define p where "p = unat (last R)"
  have pu: "uint (last R) = int p" by (simp add: p_def)
  show ?thesis
  proof (cases "p < k")
    case False
    then have "unpad R = None" using lR by (simp add: unpad_def Let_def p_def)
    moreover have "sint n < int p + 1" using False si by simp
    ultimately show ?thesis
      using r1 unfolding verify_tls_record_pad_def R_def [symmetric] by (simp add: Let_def p_def)
  next
    case True
    have nb: "\<not> sint n < int p + 1" using True si by simp
    have u2: "unat (n - of_nat p - 1) = k - Suc p"
    proof -
      have "unat (of_nat p :: u32) = p" by (rule unat_of_nat32) (use True assms(3) in \<open>simp add: k_def\<close>)
      then show ?thesis using True by (simp add: unat_sub_if' k_def)
    qed
    define pad where "pad = drop (k - Suc p) R"
    have r2: "scatterwalk_read s (Some cs) (unat (n - of_nat p - 1)) (p + 1) = Some pad"
      unfolding u2 using read_mem [OF assms(1), of "k - Suc p" "p + 1"] True k
      by (simp add: pad_def R_def k_def drop_take)
    have lp: "length pad = Suc p" using True lR by (simp add: pad_def)
    have "last pad = last R" using True lR unfolding pad_def by (intro last_drop) simp
    then have sp: "pad = take p pad @ [last R]"
      using lp by (metis append_butlast_last_id butlast_conv_take diff_Suc_1 length_0_conv nat.distinct(1))
    have "list_all (\<lambda>x. x = last R) pad \<longleftrightarrow> list_all (\<lambda>x. x = last R) (take p pad)"
      by (subst sp) simp
    then have "unpad R = (if list_all (\<lambda>x. x = last R) (take p pad) then Some (take (k - Suc p) R) else None)"
      using True lR by (simp add: unpad_def Let_def p_def [symmetric] pad_def)
    then show ?thesis
      using r1 r2 nb True lR k unfolding verify_tls_record_pad_def R_def [symmetric]
      by (auto simp: Let_def p_def [symmetric] k_def [symmetric] pu)
  qed
qed


lemma stack_bytes_frame: "frame C s s' \<Longrightarrow> stack_bytes s' = stack_bytes s"
  by (rule ext)+ (simp add: stack_bytes_def frame_def)

lemma tls_encrypt_mem:
  assumes sem: "tls_sem A ses t f g u d h" and mem: "sg_gather s cs = Some mem" "distinct cs"
    and ad: "sg_fetch s auth_sg (unat al) = Some ad"
    and R: "R = tls_seal (tls_tag s u d h ad (unat (caop_tag_len (k_caop kcaop)))) (c_blocksize (cdata ses)) (take (unat n) mem)"
    and fit: "unat n \<le> length cs" "length R \<le> length cs" "length R < 2 ^ 31"
  shows "\<exists>ses' s'. tls_encrypt A ses kcaop auth_sg al (Some cs) n s
      = Some (0, ses', kcaop\<lparr>ka_dst_len := of_nat (length R)\<rparr>, s')
    \<and> sg_gather s' cs = Some (f True (c_iv (cdata ses)) R @ drop (length R) mem) \<and> frame (set cs) s s'"
proof -
  define bsz where "bsz = c_blocksize (cdata ses)"
  define tgl where "tgl = caop_tag_len (k_caop kcaop)"
  define tx where "tx = take (unat n) mem"
  define tag where "tag = tls_tag s u d h ad (unat tgl) tx"
  define n1 where "n1 = unat n + unat tgl"
  define p where "p = bsz - n1 mod bsz"
  define w :: byte where "w = of_nat (p - 1)"
  from sem have S: "ses_sem A ses t bsz f g u" "1 < bsz" "h_init (hdata ses)" "h_state (hdata ses) = Some h" "final_sem A d"
    "hash_sem A u" by (auto simp: tls_sem_def ses_sem_def bsz_def)
  have lt: "length tx = unat n" "length tag = unat tgl"
    using gather_length [OF mem(1)] fit(1) by (simp_all add: tx_def tag_def tls_tag_def)
  have Req: "R = tx @ tag @ replicate p w"
    unfolding R bsz_def [symmetric] tgl_def [symmetric] tx_def [symmetric] tls_seal_def Let_def tag_def [symmetric] w_def p_def n1_def
    by (simp add: lt)
  have lR: "length R = n1 + p" using lt by (simp add: Req n1_def)
  have sm: "n1 < 2 ^ 31" "p < 2 ^ 31" "n1 + p \<le> length cs" using fit(2,3) lR by linarith+
  have un: "unat (n + tgl) = n1"
    using sm(1) unat_add_lem [of n tgl] by (simp add: n1_def)
  from tls_mac_sem [OF S(6,5,4) ad fetch_mem [OF mem(1) fit(1)]] obtain st r where
    mac: "tls_mac A ses auth_sg al (Some cs) n s = Some (0, d (u (u h ad) tx), ses\<lparr>hdata := (hdata ses)\<lparr>h_state := Some st, h_res := r\<rparr>\<rparr>)"
    unfolding tx_def by blast
  define ses1 where "ses1 = ses\<lparr>hdata := (hdata ses)\<lparr>h_state := Some st, h_res := r\<rparr>\<rparr>"
  have c1: "cdata ses1 = cdata ses" by (simp add: ses1_def)
  have sem1: "ses_sem A ses1 t bsz f g u" using S(1) by (auto simp: ses_sem_def ses1_def)
  have ci: "c_init (cdata ses)" using S(1) by (simp add: ses_sem_def)
  have tg: "stack_bytes s (d (u (u h ad) tx)) (unat tgl) = tag" by (simp add: tag_def tls_tag_def)
  from write_mem [OF mem, of "unat n" tag] sm lt obtain s1 where
    w1: "copy_tls_hash s (Some cs) n tag = Some s1" "sg_gather s1 cs = Some (tx @ tag @ drop n1 mem)" "frame (set cs) s s1"
    by (auto simp: copy_tls_hash_def tx_def n1_def)
  from pad_record_mem [OF w1(2) mem(2), of "n + tgl" bsz p] sm S(2) obtain s2 where
    w2: "pad_record s1 (Some cs) (n + tgl) bsz = Some (int p, s2)"
      "sg_gather s2 cs = Some (take n1 (tx @ tag @ drop n1 mem) @ replicate p w @ drop (n1 + p) (tx @ tag @ drop n1 mem))"
      "frame (set cs) s1 s2"
    unfolding un by (auto simp: p_def w_def)
  have m2: "sg_gather s2 cs = Some (R @ drop (length R) mem)"
    using w2(2) lt lR by (simp add: Req n1_def ac_simps)
  have len2: "(n + tgl) + word_of_int (int p) = of_nat (length R)"
    unfolding lR by (simp flip: un)
  have u2: "unat (of_nat (length R) :: u32) = length R" by (rule unat_of_nat32 [OF fit(3)])
  have "bsz dvd length R" unfolding R bsz_def [symmetric] by (rule length_seal_dvd) (use S(2) in simp)
  from cipher_mem [OF sem1 m2 mem(2) fit(2) this, of True] obtain r' s3 where
    c3: "cipher_op A True (cdata ses1) (Some cs) (Some cs) (length R) s2
        = Some (0, (cdata ses1)\<lparr>c_iv := g True (c_iv (cdata ses)) R, c_res := r'\<rparr>, s3)"
      "sg_gather s3 cs = Some (f True (c_iv (cdata ses)) R @ drop (length R) mem)" "frame (set cs) s2 s3"
    by (auto simp: c1)
  have "tls_encrypt A ses kcaop auth_sg al (Some cs) n s
      = Some (0, ses1\<lparr>cdata := (cdata ses1)\<lparr>c_iv := g True (c_iv (cdata ses)) R, c_res := r'\<rparr>\<rparr>, kcaop\<lparr>ka_dst_len := of_nat (length R)\<rparr>, s3)"
    using S(2,3) mac w1(1) w2(1) c3(1) ci len2 u2 tg
    unfolding tls_encrypt_def tgl_def [symmetric] ses1_def [symmetric]
    by (simp add: c1 bsz_def [symmetric] cryptodev_cipher_encrypt_def Let_def)
  with c3(2,3) w1(3) w2(3) show ?thesis using frame_trans by blast
qed

lemma tls_decrypt_mem:
  assumes sem: "tls_sem A ses t f g u d h" and mem: "sg_gather s cs = Some mem" "distinct cs"
    and ad: "sg_fetch s auth_sg (unat al) = Some ad" "\<And>x. auth_sg = Some x \<Longrightarrow> set x \<inter> set cs = {}"
    and n: "n \<noteq> 0" "unat n < 2 ^ 31" "unat n \<le> length cs" "c_blocksize (cdata ses) dvd unat n"
    and R: "R = f False (c_iv (cdata ses)) (take (unat n) mem)"
    and tgl: "tgl = unat (caop_tag_len (k_caop kcaop))"
  shows "\<exists>ses' s'. tls_decrypt A ses kcaop auth_sg al (Some cs) n s
      = Some (case tls_verify (tls_tag s u d h ad tgl) tgl R of Inl e \<Rightarrow> (e, ses', kcaop, s')
          | Inr text \<Rightarrow> (0, ses', kcaop\<lparr>ka_dst_len := of_nat (length text)\<rparr>, s'))
    \<and> sg_gather s' cs = Some (R @ drop (unat n) mem) \<and> frame (set cs) s s'"
proof -
  define bsz where "bsz = c_blocksize (cdata ses)"
  define tl32 where "tl32 = caop_tag_len (k_caop kcaop)"
  from sem have S: "ses_sem A ses t bsz f g u" "1 < bsz" "h_init (hdata ses)" "h_state (hdata ses) = Some h" "final_sem A d"
    "hash_sem A u" by (auto simp: tls_sem_def ses_sem_def bsz_def)
  have ci: "c_init (cdata ses)" using S(1) by (simp add: ses_sem_def)
  have lR: "length R = unat n"
    using S(1) n(3,4) gather_length [OF mem(1)] unfolding R ses_sem_def ablk_sem_def bsz_def by simp
  from cipher_mem [OF S(1) mem n(3), of False] n(4) obtain r s1 where
    c: "cipher_op A False (cdata ses) (Some cs) (Some cs) (unat n) s
        = Some (0, (cdata ses)\<lparr>c_iv := g False (c_iv (cdata ses)) (take (unat n) mem), c_res := r\<rparr>, s1)"
      "sg_gather s1 cs = Some (R @ drop (unat n) mem)" "frame (set cs) s s1"
    by (auto simp: R bsz_def)
  define ses1 where "ses1 = ses\<lparr>cdata := (cdata ses)\<lparr>c_iv := g False (c_iv (cdata ses)) (take (unat n) mem), c_res := r\<rparr>\<rparr>"
  have c1: "c_blocksize (cdata ses1) = bsz" "hdata ses1 = hdata ses" by (simp_all add: ses1_def bsz_def)
  define fail where "fail = (unpad R = None)"
  define R1 where "R1 = (case unpad R of None \<Rightarrow> R | Some x \<Rightarrow> x)"
  define n1 where "n1 = (if fail then n else n - word_of_int (int (unat n - length R1)))"
  have R1: "length R1 \<le> unat n" "take (length R1) R = R1"
    using unpad_Some [of R] lR by (auto simp: R1_def split: option.splits)
  have un1: "unat n1 = length R1"
  proof (cases fail)
    case True
    then show ?thesis using lR by (simp add: n1_def R1_def fail_def)
  next
    case False
    have "unat (of_nat (unat n - length R1) :: u32) = unat n - length R1" by (rule unat_of_nat32) (use n(2) in simp)
    then have "unat (word_of_int (int (unat n - length R1)) :: u32) = unat n - length R1" by (metis of_int_of_nat_eq)
    then show ?thesis using False R1(1) by (simp add: n1_def unat_sub_if' del: of_nat_diff of_int_of_nat_eq)
  qed
  have take1: "take (unat n) (R @ drop (unat n) mem) = R" using lR by simp
  define rv where "rv = (case unpad R of None \<Rightarrow> - EBADMSG | Some x \<Rightarrow> int (unat n - length x))"
  have v: "verify_tls_record_pad s1 (Some cs) n bsz = Some rv"
    using verify_mem [OF c(2) n(1-3), of bsz] by (simp only: take1 rv_def)
  have dec1: "rv < 0 \<longleftrightarrow> fail" by (auto simp: rv_def fail_def split: option.splits)
  have dec2: "\<not> fail \<Longrightarrow> n - word_of_int rv = n1" "fail \<Longrightarrow> n1 = n"
    by (auto simp: rv_def fail_def n1_def R1_def split: option.splits)
  have top: "tls_decrypt A ses kcaop auth_sg al (Some cs) n s =
     (if 64 < tl32 \<or> n1 < tl32 then Some (- EINVAL, ses1, kcaop, s1)
      else do {
        vhash \<leftarrow> read_tls_hash s1 (Some cs) n1 tl32;
        (ret, out, ses2) \<leftarrow> tls_mac A ses1 auth_sg al (Some cs) (n1 - tl32) s1;
        if ret \<noteq> 0 then Some (ret, ses2, kcaop, s1)
        else if vhash \<noteq> stack_bytes s1 out (unat tl32) \<or> fail then Some (- EBADMSG, ses2, kcaop, s1)
        else Some (0, ses2, kcaop\<lparr>ka_dst_len := n1 - tl32\<rparr>, s1)
      })"
  proof -
    have "(do {
        (ret, c, s1) \<leftarrow> cryptodev_cipher_decrypt A (cdata ses) (Some cs) (Some cs) (unat n) s;
        let ses1 = ses\<lparr>cdata := c\<rparr>;
        if ret \<noteq> 0 then Some (ret, ses1, n, False, s1)
        else if 1 < c_blocksize (cdata ses1) then do {
          r \<leftarrow> verify_tls_record_pad s1 (Some cs) n (c_blocksize (cdata ses1));
          if r < 0 then Some (0, ses1, n, True, s1) else Some (0, ses1, n - word_of_int r, False, s1)
        }
        else Some (0, ses1, n, False, s1)
      }) = Some (0, ses1, n1, fail, s1)"
      unfolding cryptodev_cipher_decrypt_def c(1) using S(2) v dec1 dec2
      by (cases fail) (simp_all add: ses1_def [symmetric] bsz_def [symmetric] c1 Let_def)
    then show ?thesis
      using ci S(3) unfolding tls_decrypt_def tl32_def [symmetric] by (simp add: c1 Let_def)
  qed
  define m1 where "m1 = R @ drop (unat n) mem"
  have m1: "sg_gather s1 cs = Some m1" using c(2) by (simp add: m1_def)
  have tk: "take k m1 = take k R1" if "k \<le> length R1" for k
    using that R1 lR unfolding m1_def by (metis append_take_drop_id le_trans min.absorb1 take_append take_take diff_is_0_eq take_0 append_Nil2)
  show ?thesis
  proof (cases "64 < tgl \<or> length R1 < tgl")
    case True
    then have "64 < tl32 \<or> n1 < tl32" by (auto simp: word_less_nat_alt un1 tgl tl32_def)
    moreover have "tls_verify (tls_tag s u d h ad tgl) tgl R = Inl (- EINVAL)"
      using True by (simp add: tls_verify_def R1_def [symmetric] Let_def)
    ultimately show ?thesis using top c(2,3) by (intro exI [of _ ses1] exI [of _ s1]) simp
  next
    case False
    have u32: "unat tl32 = tgl" by (simp add: tgl tl32_def)
    have ng: "\<not> (64 < tl32 \<or> n1 < tl32)" using False u32 by (simp add: word_less_nat_alt un1)
    define k where "k = length R1 - tgl"
    have uk: "unat (n1 - tl32) = k" using False u32 un1 by (simp add: unat_sub_if' k_def)
    have kl: "k \<le> length R1" "k + tgl = length R1" "k \<le> length cs" "k + tgl \<le> length cs" using False R1(1) n(3) by (simp_all add: k_def)
    have rd: "read_tls_hash s1 (Some cs) n1 tl32 = Some (drop k R1)"
    proof -
      have "length R1 - k = tgl" using kl(2) by simp
      then have "take tgl (drop k m1) = drop k (take (length R1) m1)" by (simp add: drop_take)
      also have "\<dots> = drop k R1" using tk [of "length R1"] by simp
      finally show ?thesis
        unfolding read_tls_hash_def uk u32 using read_mem [OF m1 kl(4)] by simp
    qed
    have "sg_fetch s1 auth_sg (unat al) = Some ad" by (rule frame_fetch [OF c(3) ad])
    moreover have "sg_fetch s1 (Some cs) (unat (n1 - tl32)) = Some (take k R1)"
      unfolding uk using fetch_mem [OF m1 kl(3)] tk [OF kl(1)] by simp
    moreover have "h_state (hdata ses1) = Some h" using S(4) c1 by simp
    ultimately obtain st r2 where mac: "tls_mac A ses1 auth_sg al (Some cs) (n1 - tl32) s1
        = Some (0, d (u (u h ad) (take k R1)), ses1\<lparr>hdata := (hdata ses1)\<lparr>h_state := Some st, h_res := r2\<rparr>\<rparr>)"
      using tls_mac_sem [OF S(6,5)] by blast
    define ses2 where "ses2 = ses1\<lparr>hdata := (hdata ses1)\<lparr>h_state := Some st, h_res := r2\<rparr>\<rparr>"
    have tg: "stack_bytes s1 (d (u (u h ad) (take k R1))) (unat tl32) = tls_tag s u d h ad tgl (take k R1)"
      by (simp add: tls_tag_def u32 stack_bytes_frame [OF c(3)])
    have ver: "tls_verify (tls_tag s u d h ad tgl) tgl R
        = (if drop k R1 \<noteq> tls_tag s u d h ad tgl (take k R1) \<or> fail then Inl (- EBADMSG) else Inr (take k R1))"
      using False by (simp add: tls_verify_def R1_def [symmetric] Let_def k_def fail_def)
    have "length (take k R1) = unat (n1 - tl32)" using kl(1) uk by simp
    then have nl: "of_nat (length (take k R1)) = n1 - tl32" by (simp only: of_nat_unat ucast_id)
    have "tls_decrypt A ses kcaop auth_sg al (Some cs) n s
      = (if drop k R1 \<noteq> tls_tag s u d h ad tgl (take k R1) \<or> fail then Some (- EBADMSG, ses2, kcaop, s1)
         else Some (0, ses2, kcaop\<lparr>ka_dst_len := n1 - tl32\<rparr>, s1))"
      unfolding top using ng rd mac tg by (simp add: ses2_def)
    then show ?thesis using c(2,3) ver nl by (intro exI [of _ ses2] exI [of _ s1]) simp
  qed
qed


section \<open>The scatterlists of an SRTP packet\<close>

lemma sg_advance_loop_ge: "sg_advance_loop t i c = Some (Some j, r) \<Longrightarrow> i \<le> j"
proof (induction t i c rule: sg_advance_loop.induct)
  case (1 t i c)
  show ?case
  proof (cases "i < length t \<and> sg_len (t ! i) \<le> c")
    case True
    with 1(2) obtain k where k: "sg_next t i = Some k" "sg_advance_loop t k (c - sg_len (t ! i)) = Some (Some j, r)"
      by (subst (asm) sg_advance_loop.simps) (auto split: option.splits)
    then have "k \<le> j" using 1(1) True by blast
    moreover have "k = Suc i" using k(1) by (simp add: sg_next_def split: if_splits)
    ultimately show ?thesis by simp
  next
    case False
    with 1(2) show ?thesis by (subst (asm) sg_advance_loop.simps) (auto split: if_splits)
  qed
qed

lemma sg_advance_before:
  "sg_advance np sh t i c = Some (j, t') \<Longrightarrow> length t' = length t \<and> (\<forall>x < i. t' ! x = t ! x)"
  by (auto simp: sg_advance_def Let_def nth_list_update split: option.splits dest!: sg_advance_loop_ge)

lemma srtp_tables:
  assumes "sg_ok sh t 0" "length (upto_end t) = N" "0 < N" "N + N \<le> length t" "sg_span sh t 0 = ucells a n" "0 < n" "k < n"
  shows "\<exists>t1 t2 t3 j. sg_init_table N N t = Some t1 \<and> sg_copy t1 0 N n = Some (0, t2) \<and> sg_advance np sh t2 N k = Some (Some j, t3)
    \<and> length t3 = length t \<and> sg_span sh t3 0 = ucells a n \<and> sg_span sh t3 j = ucells (a + of_nat k) (n - k)"
proof -
  from blank_init [OF assms(3,4)] obtain t1 where t1: "sg_init_table N N t = Some t1" "length t1 = length t" "blank t1 N N"
    "\<forall>x < N. t1 ! x = t ! x" using assms(4) by auto
  have c1: "\<forall>x. 0 \<le> x \<and> x < 0 + length (upto_end (drop 0 t)) \<longrightarrow> t1 ! x = t ! x" using t1(4) assms(2) by simp
  have u1: "length (upto_end (drop 0 t1)) = N" using upto_end_cong [OF t1(2) c1] assms(2) by simp
  have s1: "sg_span sh t1 0 = ucells a n" "sg_ok sh t1 0" using span_cong [OF t1(2) c1] assms(1,5) by auto
  have "\<exists>t2. sg_copy t1 0 N n = Some (0, t2) \<and> length t2 = length t1 \<and> (\<forall>k < N. t2 ! k = t1 ! k)
      \<and> sg_span sh t2 N = take n (sg_span sh t1 0) \<and> sg_ok sh t2 N"
    by (rule sg_copy_take [OF s1(2)]) (use u1 blank_span [OF t1(3)] t1(2) assms s1(1) in simp_all)
  then obtain t2 where t2: "sg_copy t1 0 N n = Some (0, t2)" "length t2 = length t1" "\<forall>k < N. t2 ! k = t1 ! k"
    "sg_span sh t2 N = ucells a n" "sg_ok sh t2 N" using s1(1) by auto
  from sg_advance_drop [OF t2(5), of k np] assms(7) t2(4) obtain j t3 where t3: "sg_advance np sh t2 N k = Some (Some j, t3)"
    "sg_span sh t3 j = drop k (ucells a n)" by auto
  note b = sg_advance_before [OF t3(1)]
  have c3: "\<forall>x. 0 \<le> x \<and> x < 0 + length (upto_end (drop 0 t)) \<longrightarrow> t3 ! x = t ! x"
    using b t2(3) t1(4) assms(2) by simp
  have l3: "length t3 = length t" using b t2(2) t1(2) by simp
  have "drop k (ucells a n) = ucells (a + of_nat k) (n - k)"
    using assms(7) ucells_split [of k n a] by simp
  with t1(1) t2(1) t3 l3 span_cong(1) [OF l3 c3, of sh] assms(5) show ?thesis by metis
qed

lemma get_userbuf_srtp_ok:
  assumes wf: "zc_wf ses" and sh: "4 \<le> sh" and fit: "fits a n"
    and caop: "caop_auth_src (k_caop kcaop) = a" "caop_auth_len (k_caop kcaop) = n" "ka_dst_len kcaop \<noteq> 0"
      "caop_src (k_caop kcaop) = a + of_nat k" "k \<le> 256" "k < unat n"
    and pr: "present M sh (um s) a (npages sh a n) True"
  shows "\<exists>rc i j ses' s'. get_userbuf_srtp M sh ses kcaop s = Some (rc, i, j, ses', s')
    \<and> (rc = 0 \<or> rc = - ENOMEM) \<and> um s' = um s \<and> zcbuf.more ses' = zcbuf.more ses \<and> (rc \<noteq> 0 \<longrightarrow> pins s' = pins s)
    \<and> (rc = 0 \<longrightarrow> sg_arg sh ses' i = Some (ucells a (unat n))
        \<and> sg_arg sh ses' j = Some (ucells (caop_src (k_caop kcaop)) (unat n - k))
        \<and> (\<exists>ps. zc_held ses' ps \<and> pins s' = (\<lambda>p. pins s p + int (count_list ps p))))"
proof -
  from fit have a: "a \<noteq> 0" "n \<noteq> 0" "unat a + unat n \<le> 2 ^ 64" unfolding fits_def by auto
  define pc :: u32 where "pc = ucast (PAGECOUNT sh a n)"
  define N where "N = npages sh a n"
  have pcN: "unat pc = N" unfolding pc_def N_def by (rule PAGECOUNT_npages [OF a(3) sh])
  have N: "0 < N" "N \<le> 2 ^ 28 + 1" using npages_pos [OF a(2)] npages_bound [OF sh] by (simp_all add: N_def)
  have pc2: "unat (pc * 2) = N + N" using pcN N(2) by (simp add: unat_word_ariths)
  have df: "sint (ucast (of_nat k :: u64) :: u32) = int k"
  proof -
    have "unat (of_nat k :: u64) = k" by (rule unat_of_nat_small) (use caop(5) in simp)
    then have "unat (ucast (of_nat k :: u64) :: u32) = k" using caop(5) by (simp add: unsigned_ucast_eq take_bit_nat_eq_self)
    then show ?thesis using sint_small [of "ucast (of_nat k :: u64)"] caop(5) by simp
  qed
  have "N + N \<le> 2 ^ 30" using nat_numeral_bounds(1) [OF N(2) N(2)] .
  with adjust_sg_array_ok [OF wf, of "pc * 2" s] pc2 obtain rc ses1 s1 where
    r: "adjust_sg_array (pc * 2) ses s = Some (rc, ses1, s1)" "same_mem s s1" "zc_wf ses1" "rc = 0 \<or> rc = - ENOMEM"
      "rc = 0 \<longrightarrow> N + N \<le> unat (array_size ses1)" "zcbuf.more ses1 = zcbuf.more ses" by auto
  have um1: "um s1 = um s" "pins s1 = pins s" using r(2) by (auto simp: same_mem_def)
  have pre: "\<not> (caop_dst (k_caop kcaop) = 0 \<and> caop_auth_src (k_caop kcaop) = 0)" using a(1) caop(1) by simp
  show ?thesis
  proof (cases "rc = 0")
    case False
    then have "get_userbuf_srtp M sh ses kcaop s = Some (rc, None, None, ses1, s1)"
      using pre caop a r(1) unfolding get_userbuf_srtp_def by (simp add: Let_def pc_def df)
    with False r um1 show ?thesis by auto
  next
    case True
    have room: "0 + unat pc \<le> length (pages ses1)" "0 + unat pc \<le> length (sg ses1)" "N + N \<le> length (sg ses1)"
      using r(3,5) True pcN unfolding zc_wf_def by auto
    have g: "gup M (um s1) a (unat pc) True = Inr (pages_of sh a (unat pc))" using pr pcN um1 by (simp add: present_def N_def)
    have ft: "PAGEOFFSET sh a + unat n \<le> unat pc * 2 ^ sh" using npages_fit [OF a(2), of sh a] by (simp add: pcN N_def)
    have pc0: "pc \<noteq> 0" using pcN N(1) by auto
    from get_userbuf_pages_ok [OF a(1,2) pc0 g room(1,2) ft] obtain t where
      t: "get_userbuf_pages M sh a n True pc 0 ses1 s1
          = Some (0, ses1\<lparr>pages := splice_at 0 (map Some (pages_of sh a N)) (pages ses1), sg := t\<rparr>, pin_pages (pages_of sh a N) s1)"
        "length t = length (sg ses1)" "sg_span sh t 0 = ucells a (unat n)" "sg_ok sh t 0" "length (upto_end t) = N"
      unfolding pcN by auto
    from srtp_tables [OF t(4,5) N(1) _ t(3) _ caop(6), of "nth_pg M"] room(3) t(2) a(2) obtain t1 t2 t3 j where
      q: "sg_init_table N N t = Some t1" "sg_copy t1 0 N (unat n) = Some (0, t2)" "sg_advance (nth_pg M) sh t2 N k = Some (Some j, t3)"
        "sg_span sh t3 0 = ucells a (unat n)" "sg_span sh t3 j = ucells (a + of_nat k) (unat n - k)"
      by (auto simp: unat_gt_0)
    define ses3 where "ses3 = ses1\<lparr>pages := splice_at 0 (map Some (pages_of sh a N)) (pages ses1), sg := t3, used_pages := pc, readonly_pages := 0\<rparr>"
    have "get_userbuf_srtp M sh ses kcaop s = Some (0, Some 0, Some j, ses3, pin_pages (pages_of sh a N) s1)"
      using pre caop a r(1) True t(1) q(1-3)
      unfolding get_userbuf_srtp_def by (simp add: srtp_dst_sg_def Let_def pcN ses3_def df flip: pc_def)
    moreover have "zc_held ses3 (pages_of sh a N)"
      using room(1) pcN by (simp add: zc_held_def ses3_def splice_at_def)
    moreover have "pins (pin_pages (pages_of sh a N) s1) = (\<lambda>p. pins s p + int (count_list (pages_of sh a N) p))"
      using um1 by (simp add: pin_pages_def)
    ultimately show ?thesis
      using q(4,5) r(6) um1 caop(4) by (auto simp: sg_arg_def ses3_def pin_pages_def)
  qed
qed


section \<open>What an operation keeps of the session\<close>

lemma get_userbuf_tls_more:
  assumes "get_userbuf_tls M sh ses kcaop s = Some (rc, i, ses', s')"
  shows "zcbuf.more ses' = zcbuf.more ses"
proof (cases "caop_dst (k_caop kcaop) = 0 \<or> ka_dst_len kcaop = 0")
  case False
  define pc :: u32 where "pc = ucast (PAGECOUNT sh (caop_dst (k_caop kcaop)) (ka_dst_len kcaop))"
  from False assms obtain rc1 ses1 s1 where
    a: "adjust_sg_array pc (ses\<lparr>used_pages := pc, readonly_pages := 0\<rparr>) s = Some (rc1, ses1, s1)"
    by (auto simp: get_userbuf_tls_def Let_def bind_eq_Some_conv pc_def)
  have "zcbuf.more ses1 = zcbuf.more ses" using adjust_sg_array_more [OF a] by simp
  with False assms a show ?thesis
    unfolding get_userbuf_tls_def Let_def
    by (auto simp: bind_eq_Some_conv simp flip: pc_def split: if_splits dest: get_userbuf_pages_more)
qed (use assms in \<open>auto simp: get_userbuf_tls_def Let_def split: if_splits\<close>)

lemma srtp_dst_sg_more:
  "srtp_dst_sg M sh ses n al diff s = Some (rc, i, j, ses', s') \<Longrightarrow> zcbuf.more ses' = zcbuf.more ses"
  by (auto simp: srtp_dst_sg_def bind_eq_Some_conv split: option.splits dest!: release_user_pages_more)

lemma get_userbuf_srtp_more:
  assumes "get_userbuf_srtp M sh ses kcaop s = Some (rc, i, j, ses', s')"
  shows "zcbuf.more ses' = zcbuf.more ses"
proof -
  define pc :: u32 where "pc = ucast (PAGECOUNT sh (caop_auth_src (k_caop kcaop)) (caop_auth_len (k_caop kcaop)))"
  note top = assms [unfolded get_userbuf_srtp_def Let_def, folded pc_def]
  show ?thesis
  proof (cases "adjust_sg_array (pc * 2) ses s")
    case None
    with top show ?thesis by (auto split: if_splits)
  next
    case (Some r)
    obtain rc1 ses1 s1 where a: "adjust_sg_array (pc * 2) ses s = Some (rc1, ses1, s1)" using Some by (metis prod_cases3)
    have m1: "zcbuf.more ses1 = zcbuf.more ses" by (rule adjust_sg_array_more [OF a])
    have m2: "zcbuf.more x = zcbuf.more ses"
      if "get_userbuf_pages M sh (caop_auth_src (k_caop kcaop)) (caop_auth_len (k_caop kcaop)) True pc 0 ses1 s1 = Some (r2, x, y)" for r2 x y
      using get_userbuf_pages_more [OF that] m1 by simp
    have m3: "zcbuf.more ses' = zcbuf.more x"
      if "srtp_dst_sg M sh (x\<lparr>used_pages := pc, readonly_pages := 0\<rparr>) n al diff y = Some (rc, i, j, ses', s')" for x y n al diff
      using srtp_dst_sg_more [OF that] by simp
    show ?thesis
      using top m1 unfolding a
      by (auto simp: bind_eq_Some_conv split: if_splits dest!: m2 m3)
  qed
qed

lemma hash_steps_same:
  "hash_some A ses l n s = Some (ret, ses') \<Longrightarrow> same_ses ses ses'"
  "hash_fin A ses = Some (ret, out, ses') \<Longrightarrow> same_ses ses ses'"
  by (auto simp: hash_some_def hash_fin_def bind_eq_Some_conv split: if_splits)

lemma tls_mac_same: "tls_mac A ses asg al dsg n s = Some (ret, out, ses') \<Longrightarrow> same_ses ses ses'"
  by (auto simp: same_ses_def tls_mac_def bind_eq_Some_conv split: if_splits dest!: hash_steps_same [unfolded same_ses_def])

lemma tls_encrypt_same: "tls_encrypt A ses kcaop asg al dsg n s = Some (ret, ses', kcaop', s') \<Longrightarrow> same_ses ses ses'"
  unfolding tls_encrypt_def Let_def
  by (elim returned; simp) (auto simp: same_ses_def elim!: returned dest!: tls_mac_same [unfolded same_ses_def])

lemma tls_decrypt_same: "tls_decrypt A ses kcaop asg al dsg n s = Some (ret, ses', kcaop', s') \<Longrightarrow> same_ses ses ses'"
  unfolding tls_decrypt_def Let_def
  by (elim returned; simp) (auto simp: same_ses_def elim!: returned dest!: tls_mac_same [unfolded same_ses_def])

lemma srtp_encrypt_same: "srtp_encrypt A ses kcaop asg al dsg n s = Some (ret, ses', kcaop', s') \<Longrightarrow> same_ses ses ses'"
  unfolding srtp_encrypt_def
  by (elim returned; simp) (auto simp: same_ses_def elim!: returned dest!: hash_steps_same [unfolded same_ses_def])

lemma srtp_decrypt_same: "srtp_decrypt A ses kcaop asg al dsg n s = Some (ret, ses', kcaop', s') \<Longrightarrow> same_ses ses ses'"
  unfolding srtp_decrypt_def Let_def
  by (elim returned; simp) (auto simp: same_ses_def elim!: returned dest!: hash_steps_same [unfolded same_ses_def])

lemma records_same:
  "tls_auth_n_crypt A ses kcaop asg al dsg n s = Some (ret, ses', kcaop', s') \<Longrightarrow> same_ses ses ses'"
  "srtp_auth_n_crypt A ses kcaop asg al dsg n s = Some (ret, ses', kcaop', s') \<Longrightarrow> same_ses ses ses'"
  by (auto simp: tls_auth_n_crypt_def srtp_auth_n_crypt_def split: if_splits
      intro: tls_encrypt_same tls_decrypt_same srtp_encrypt_same srtp_decrypt_same)

lemma auth_same: "auth_n_crypt A ses kcaop asg al ssg dsg n s = Some (ret, ses', kcaop', s') \<Longrightarrow> same_ses ses ses'"
  unfolding auth_n_crypt_def Let_def by (elim returned; clarsimp)

lemma branch_same:
  "auth_run_srtp A M sh ses kcaop s = Some (ret, ses', kcaop', s') \<Longrightarrow> same_ses ses ses'"
  "auth_run_tls A M sh ses kcaop asg s = Some (ret, ses', kcaop', s') \<Longrightarrow> same_ses ses ses'"
  "auth_run_aead A M sh ses kcaop asg s = Some (ret, ses', kcaop', s') \<Longrightarrow> same_ses ses ses'"
proof -
  note more = get_userbuf_srtp_more [THEN sym, THEN same_ses_more] get_userbuf_tls_more [THEN sym, THEN same_ses_more]
    get_userbuf_more [THEN sym, THEN same_ses_more] release_user_pages_more [THEN sym, THEN same_ses_more]
  note steps = more [unfolded same_ses_def] records_same [unfolded same_ses_def] auth_same [unfolded same_ses_def]
  show "auth_run_srtp A M sh ses kcaop s = Some (ret, ses', kcaop', s') \<Longrightarrow> same_ses ses ses'"
    unfolding auth_run_srtp_def by (elim returned; simp) (auto simp: same_ses_def dest!: steps elim!: returned)
  show "auth_run_tls A M sh ses kcaop asg s = Some (ret, ses', kcaop', s') \<Longrightarrow> same_ses ses ses'"
    unfolding auth_run_tls_def by (elim returned; simp) (auto simp: same_ses_def dest!: steps elim!: returned)
  show "auth_run_aead A M sh ses kcaop asg s = Some (ret, ses', kcaop', s') \<Longrightarrow> same_ses ses ses'"
    unfolding auth_run_aead_def Let_def by (elim returned; simp) (auto simp: same_ses_def dest!: steps elim!: returned)
qed

lemma auth_run_zc_same: "crypto_auth_run_zc A M sh ses kcaop s = Some (ret, ses', kcaop', s') \<Longrightarrow> same_ses ses ses'"
  unfolding crypto_auth_run_zc_def Let_def by (auto elim!: returned intro: branch_same)

lemma auth_run_session_same: "auth_run_session A M sh ses kcaop s = Some (ret, ses', kcaop', s') \<Longrightarrow> same_ses ses ses'"
  unfolding auth_run_session_def Let_def
  by (elim returned; simp) (auto simp: same_ses_def elim!: returned dest!: auth_run_zc_same [unfolded same_ses_def])


section \<open>Theorems\<close>

text \<open>The demonstration session with the XOR cipher and the hash as a TLS session; forty zero bytes at 100.\<close>

definition tfm_demo :: tfm where
  "tfm_demo = \<lparr>tfm_id = 1, tfm_name = ''cbc(aes)'', tfm_key = [5, 6], tfm_authsize = 0\<rparr>"

definition caop_demo :: "u16 \<Rightarrow> u32 \<Rightarrow> crypt_auth_op" where
  "caop_demo op tag_len = \<lparr>caop_ses = 7, caop_op = op, caop_flags = 0, caop_len = 9, caop_auth_len = 0, caop_auth_src = 0, caop_src = 100,
     caop_dst = 100, caop_tag = 200, caop_tag_len = tag_len, caop_pad1 = 0, caop_iv = 0, caop_iv_len = 0, caop_pad2 = 0\<rparr>"

definition kcaop_demo :: "u16 \<Rightarrow> u32 \<Rightarrow> kernel_crypt_auth_op" where
  "kcaop_demo op tag_len = \<lparr>k_caop = caop_demo op tag_len, ka_dst_len = 0, ka_ivlen = 0, ka_iv = replicate 16 0\<rparr>"

definition digest_demo :: "byte list \<Rightarrow> byte list" where
  "digest_demo h = take 4 (h @ [0, 0, 0, 0])"

lemma tls_demo_sem:
  "tls_sem capi_demo (ses_demo True) tfm_demo (\<lambda>enc iv bs. xor_key [5, 6] bs) (\<lambda>enc iv bs. iv) (\<lambda>h bs. h @ bs) digest_demo []"
  using ses_demo_sem [of True]
  by (auto simp: tls_sem_def tfm_demo_def final_sem_def digest_demo_def capi_demo_def completes_def outcome_def)
    (simp_all add: ses_demo_def hash_zero_def cipher_zero_def)

lemma ucells_distinct: "n \<le> 2 ^ 64 \<Longrightarrow> distinct (ucells a n)"
proof -
  assume n: "n \<le> 2 ^ 64"
  have "i = j" if "i < n" "j < n" "(of_nat i :: u64) = of_nat j" for i j
  proof -
    have "unat (of_nat i :: u64) = i" "unat (of_nat j :: u64) = j" using that(1,2) n by (auto intro: unat_of_nat_small)
    with that(3) show ?thesis by metis
  qed
  then show ?thesis by (auto simp: ucells_def distinct_map inj_on_def)
qed

lemma xor_key_twice: "xor_key k (xor_key k bs) = bs"
  by (simp add: xor_key_def comp_def xor.assoc)

lemma gather_demo: "sg_gather kst_demo (ucells a n) = Some (replicate n 0)"
  by (simp add: gather_user copy_zeros)



text \<open>C17: A TLS record is accepted only if it is authentic (\<open>tls_auth_n_crypt\<close> of authenc.c, decrypting):
  when the call returns 0, the decrypted record is a text, followed by the tag the MAC gives for the
  authenticated data and that text, followed by well-formed padding; the length reported is the
  length of the text, and the buffer holds the decrypted record.\<close>

theorem tls_decrypt_authentic:
  assumes sem: "tls_sem A ses t f g u d h" and mem: "sg_gather s cs = Some mem" "distinct cs"
    and ad: "sg_fetch s auth_sg (unat al) = Some ad" "\<And>x. auth_sg = Some x \<Longrightarrow> set x \<inter> set cs = {}"
    and n: "n \<noteq> 0" "unat n < 2 ^ 31" "unat n \<le> length cs" "c_blocksize (cdata ses) dvd unat n"
    and op: "caop_op (k_caop kcaop) = COP_DECRYPT"
    and ok: "tls_auth_n_crypt A ses kcaop auth_sg al (Some cs) n s = Some (0, ses', kcaop', s')"
  shows "\<exists>pl p. f False (c_iv (cdata ses)) (take (unat n) mem)
        = pl @ tls_tag s u d h ad (unat (caop_tag_len (k_caop kcaop))) pl @ replicate (Suc p) (of_nat p) \<and> p < 256
      \<and> ka_dst_len kcaop' = of_nat (length pl)
      \<and> sg_gather s' cs = Some (f False (c_iv (cdata ses)) (take (unat n) mem) @ drop (unat n) mem)"
proof -
  define R where "R = f False (c_iv (cdata ses)) (take (unat n) mem)"
  define tgl where "tgl = unat (caop_tag_len (k_caop kcaop))"
  from tls_decrypt_mem [OF sem mem ad n R_def tgl_def] obtain ses2 s2 where
    d: "tls_decrypt A ses kcaop auth_sg al (Some cs) n s
        = Some (case tls_verify (tls_tag s u d h ad tgl) tgl R of Inl e \<Rightarrow> (e, ses2, kcaop, s2)
            | Inr pl \<Rightarrow> (0, ses2, kcaop\<lparr>ka_dst_len := of_nat (length pl)\<rparr>, s2))"
      "sg_gather s2 cs = Some (R @ drop (unat n) mem)" by blast
  have ne: "tls_verify (tls_tag s u d h ad tgl) tgl R \<noteq> Inl 0" by (auto simp: tls_verify_def Let_def)
  from ok op d(1) ne obtain pl where "tls_verify (tls_tag s u d h ad tgl) tgl R = Inr pl"
    "ka_dst_len kcaop' = of_nat (length pl)" "s' = s2"
    by (auto simp: tls_auth_n_crypt_def split: sum.splits)
  with verify_authentic [of "tls_tag s u d h ad tgl" tgl R pl] d(2) show ?thesis
    unfolding R_def [symmetric] tgl_def [symmetric] by blast
qed

theorem tls_decrypt_authentic_witness:
  "\<exists>ses' kcaop' s' pl p. tls_auth_n_crypt capi_demo (ses_demo True) (kcaop_demo COP_DECRYPT 4) None 0 (Some (ucells 100 16)) 16 kst_demo
      = Some (0, ses', kcaop', s')
    \<and> xor_key [5, 6] (replicate 16 0) = pl @ tls_tag kst_demo (\<lambda>h bs. h @ bs) digest_demo [] [] 4 pl @ replicate (Suc p) (of_nat p)
    \<and> p < 256 \<and> ka_dst_len kcaop' = of_nat (length pl)"
proof -
  have "map_option fst (tls_auth_n_crypt capi_demo (ses_demo True) (kcaop_demo COP_DECRYPT 4) None 0 (Some (ucells 100 16)) 16 kst_demo) = Some 0"
    by code_simp
  then obtain ses' kcaop' s' where
    r: "tls_auth_n_crypt capi_demo (ses_demo True) (kcaop_demo COP_DECRYPT 4) None 0 (Some (ucells 100 16)) 16 kst_demo = Some (0, ses', kcaop', s')"
    by auto
  have "c_iv (cdata (ses_demo True)) = replicate 16 0" "c_blocksize (cdata (ses_demo True)) = 4"
    "caop_op (k_caop (kcaop_demo COP_DECRYPT 4)) = COP_DECRYPT" "caop_tag_len (k_caop (kcaop_demo COP_DECRYPT 4)) = 4"
    by (simp_all add: ses_demo_def cipher_zero_def kcaop_demo_def caop_demo_def)
  with r tls_decrypt_authentic [OF tls_demo_sem gather_demo ucells_distinct _ _ _ _ _ _ _ r, of "[]"] show ?thesis
    by (auto simp: sg_fetch_def)
qed

text \<open>Without a MAC the padding of a TLS record is not checked (\<open>tls_auth_n_crypt\<close> of authenc.c): a
  record whose padding is malformed is decrypted with result 0, and its full length is reported.\<close>

theorem tls_decrypt_pad_unchecked:
  assumes sem: "ses_sem A ses t (c_blocksize (cdata ses)) f g u" "1 < c_blocksize (cdata ses)" "\<not> h_init (hdata ses)"
    and mem: "sg_gather s cs = Some mem" "distinct cs"
    and n: "n \<noteq> 0" "unat n < 2 ^ 31" "unat n \<le> length cs" "c_blocksize (cdata ses) dvd unat n"
    and op: "caop_op (k_caop kcaop) = COP_DECRYPT"
    and bad: "unpad (f False (c_iv (cdata ses)) (take (unat n) mem)) = None"
  shows "\<exists>ses' s'. tls_auth_n_crypt A ses kcaop auth_sg al (Some cs) n s = Some (0, ses', kcaop\<lparr>ka_dst_len := n\<rparr>, s')"
proof -
  from cipher_mem [OF sem(1) mem n(3,4), of False] obtain r s1 where
    c: "cipher_op A False (cdata ses) (Some cs) (Some cs) (unat n) s
        = Some (0, (cdata ses)\<lparr>c_iv := g False (c_iv (cdata ses)) (take (unat n) mem), c_res := r\<rparr>, s1)"
      "sg_gather s1 cs = Some (f False (c_iv (cdata ses)) (take (unat n) mem) @ drop (unat n) mem)" by blast
  have "length (f False (c_iv (cdata ses)) (take (unat n) mem)) = unat n"
    using sem(1) n(3,4) gather_length [OF mem(1)] unfolding ses_sem_def ablk_sem_def by simp
  then have "verify_tls_record_pad s1 (Some cs) n (c_blocksize (cdata ses)) = Some (- EBADMSG)"
    using verify_mem [OF c(2) n(1-3), of "c_blocksize (cdata ses)"] bad by simp
  moreover have "c_init (cdata ses)" using sem(1) by (simp add: ses_sem_def)
  ultimately show ?thesis
    using c(1) sem(2,3) op by (simp add: tls_auth_n_crypt_def tls_decrypt_def cryptodev_cipher_decrypt_def Let_def)
qed

definition kst_ones :: kst where
  "kst_ones = kst_demo\<lparr>um := \<lparr>ubytes = (\<lambda>_. Some 1), uwritable = (\<lambda>_. True)\<rparr>\<rparr>"

theorem tls_decrypt_pad_unchecked_witness:
  "\<exists>ses' s'. tls_auth_n_crypt capi_demo (ses_demo False) (kcaop_demo COP_DECRYPT 0) None 0 (Some (ucells 100 4)) 4 kst_ones
      = Some (0, ses', (kcaop_demo COP_DECRYPT 0)\<lparr>ka_dst_len := 4\<rparr>, s')"
proof -
  have b: "c_blocksize (cdata (ses_demo False)) = 4" "\<not> h_init (hdata (ses_demo False))"
    "caop_op (k_caop (kcaop_demo COP_DECRYPT 0)) = COP_DECRYPT"
    by (simp_all add: ses_demo_def cipher_zero_def hash_zero_def kcaop_demo_def caop_demo_def)
  have g: "sg_gather kst_ones (ucells 100 4) = Some [1, 1, 1, 1]" "unpad (xor_key [5, 6] [1, 1, 1, 1]) = None" by code_simp+
  show ?thesis
    by (rule tls_decrypt_pad_unchecked [OF ses_demo_sem [of False, folded b(1)] _ b(2) g(1) ucells_distinct _ _ _ _ b(3)])
      (simp_all add: b(1) g(2))
qed

text \<open>Encrypting a TLS record does not check the tag length (\<open>tls_auth_n_crypt\<close> of authenc.c): with a
  tag length above 64 the record that is encrypted for the user contains the bytes of the kernel
  stack that follow the array holding the digest.\<close>

theorem tls_encrypt_leaks_stack:
  assumes sem: "tls_sem A ses t f g u d h" "\<And>x. length (d x) \<le> 64" and mem: "sg_gather s cs = Some mem" "distinct cs"
    and ad: "sg_fetch s auth_sg (unat al) = Some ad"
    and op: "caop_op (k_caop kcaop) = COP_ENCRYPT" "64 \<le> i" "i < unat (caop_tag_len (k_caop kcaop))"
    and fit: "unat n + unat (caop_tag_len (k_caop kcaop)) + c_blocksize (cdata ses) \<le> length cs" "length cs < 2 ^ 31"
  shows "\<exists>ses' kcaop' s' R. tls_auth_n_crypt A ses kcaop auth_sg al (Some cs) n s = Some (0, ses', kcaop', s')
    \<and> sg_gather s' cs = Some (f True (c_iv (cdata ses)) R @ drop (length R) mem) \<and> R ! (unat n + i) = uninit s i"
proof -
  define bsz tgl where "bsz = c_blocksize (cdata ses)" and "tgl = unat (caop_tag_len (k_caop kcaop))"
  define tx where "tx = take (unat n) mem"
  define R where "R = tls_seal (tls_tag s u d h ad tgl) bsz tx"
  have ltx: "length tx = unat n" using gather_length [OF mem(1)] fit(1) by (simp add: tx_def)
  have lt: "length (tls_tag s u d h ad tgl x) = tgl" for x by (simp add: tls_tag_def)
  have "0 < bsz" using sem(1) by (simp add: tls_sem_def bsz_def)
  then have "(unat n + tgl) mod bsz < bsz" by simp
  then have "length R \<le> unat n + tgl + bsz" using lt ltx by (simp add: R_def tls_seal_def Let_def)
  then have fit': "unat n \<le> length cs" "length R \<le> length cs" "length R < 2 ^ 31"
    using fit unfolding tgl_def [symmetric] bsz_def [symmetric] by linarith+
  from tls_encrypt_mem [OF sem(1) mem ad, of R kcaop n] fit' obtain ses' s1 where
    e: "tls_encrypt A ses kcaop auth_sg al (Some cs) n s = Some (0, ses', kcaop\<lparr>ka_dst_len := of_nat (length R)\<rparr>, s1)"
      "sg_gather s1 cs = Some (f True (c_iv (cdata ses)) R @ drop (length R) mem)"
    unfolding R_def tx_def tgl_def bsz_def by blast
  have "tls_tag s u d h ad tgl tx ! i = uninit s i"
    using op(2,3) sem(2) [of "u (u h ad) tx"] by (simp add: tls_tag_def stack_bytes_def tgl_def nth_append)
  then have "R ! (unat n + i) = uninit s i"
    using ltx lt op(3) by (simp add: R_def tls_seal_def Let_def nth_append tgl_def)
  with e op(1) show ?thesis by (auto simp: tls_auth_n_crypt_def)
qed

theorem tls_encrypt_leaks_stack_witness:
  "\<exists>ses' kcaop' s' R. tls_auth_n_crypt capi_demo (ses_demo True) (kcaop_demo COP_ENCRYPT 65) None 0 (Some (ucells 100 80)) 9 kst_demo
      = Some (0, ses', kcaop', s')
    \<and> sg_gather s' (ucells 100 80) = Some (xor_key [5, 6] R @ drop (length R) (replicate 80 0)) \<and> R ! (unat (9 :: u32) + 64) = uninit kst_demo 64"
  by (rule tls_encrypt_leaks_stack [OF tls_demo_sem _ gather_demo])
    (simp_all add: ucells_distinct kcaop_demo_def caop_demo_def sg_fetch_def ses_demo_def cipher_zero_def digest_demo_def)

text \<open>C21: SRTP packets are verified before they are decrypted (\<open>srtp_auth_n_crypt\<close> of authenc.c): with a
  tag that is not the MAC of the packet the call returns \<open>-EBADMSG\<close> and memory is untouched; with the
  right tag the data are decrypted in place and their length is reported.\<close>

theorem srtp_verify_then_decrypt:
  assumes sem: "ses_sem A ses t bsz f g u" "h_init (hdata ses)" "h_state (hdata ses) = Some h" "final_sem A d"
    and mem: "sg_gather s cs = Some mem" "distinct cs" "unat n \<le> length cs" "bsz dvd unat n"
    and ad: "sg_fetch s auth_sg (unat al) = Some ad"
    and op: "caop_op (k_caop kcaop) = COP_DECRYPT" "caop_tag_len (k_caop kcaop) \<le> 64" "caop_tag_len (k_caop kcaop) \<le> n"
    and tag: "copy_from_user (um s) (caop_tag (k_caop kcaop)) (unat (caop_tag_len (k_caop kcaop))) = Some v"
  shows "\<exists>ses' s'. srtp_auth_n_crypt A ses kcaop auth_sg al (Some cs) n s
      = Some (if v = stack_bytes s (d (u h ad)) (unat (caop_tag_len (k_caop kcaop)))
              then (0, ses', kcaop\<lparr>ka_dst_len := n\<rparr>, s') else (- EBADMSG, ses', kcaop, s))
    \<and> sg_gather s' cs = Some (f False (c_iv (cdata ses)) (take (unat n) mem) @ drop (unat n) mem)"
proof -
  have hs: "hash_sem A u" using sem(1,2) by (simp add: ses_sem_def)
  then obtain ret cbs where up: "ahash_update A h ad = (ret, cbs, u h ad)" "completes ret cbs" "outcome ret cbs = 0"
    unfolding hash_sem_def by blast
  from sem(4) obtain ret2 cbs2 h' where fi: "ahash_final A (u h ad) = (ret2, cbs2, d (u h ad), h')"
    "completes ret2 cbs2" "outcome ret2 cbs2 = 0" unfolding final_sem_def by blast
  from cipher_mem [OF sem(1) mem, of False] obtain r s1 where
    c: "cipher_op A False (cdata ses) (Some cs) (Some cs) (unat n) s
        = Some (0, (cdata ses)\<lparr>c_iv := g False (c_iv (cdata ses)) (take (unat n) mem), c_res := r\<rparr>, s1)"
      "sg_gather s1 cs = Some (f False (c_iv (cdata ses)) (take (unat n) mem) @ drop (unat n) mem)" by blast
  have ci: "c_init (cdata ses)" using sem(1) by (simp add: ses_sem_def)
  have ng: "\<not> (of_nat AALG_MAX_RESULT_LEN < caop_tag_len (k_caop kcaop) \<or> n < caop_tag_len (k_caop kcaop))"
    using op(2,3) by (simp add: not_less)
  show ?thesis
    using c ci ng op(1) up fi sem(2,3) ad tag
    by (simp add: srtp_auth_n_crypt_def srtp_decrypt_def cryptodev_hash_update_def hash_fin_def cryptodev_hash_final_def
        waitfor_outcome cryptodev_cipher_decrypt_def Let_def) blast
qed

theorem srtp_verify_then_decrypt_witness:
  "\<exists>ses' s'. srtp_auth_n_crypt capi_demo (ses_demo True) (kcaop_demo COP_DECRYPT 4) (Some (ucells 40 8)) 8 (Some (ucells 100 12)) 12 kst_demo
      = Some (if replicate 4 0 = stack_bytes kst_demo (digest_demo (replicate 8 0)) 4
              then (0, ses', (kcaop_demo COP_DECRYPT 4)\<lparr>ka_dst_len := 12\<rparr>, s') else (- EBADMSG, ses', kcaop_demo COP_DECRYPT 4, kst_demo))
    \<and> sg_gather s' (ucells 100 12) = Some (xor_key [5, 6] (replicate 12 0))"
proof -
  have b: "h_init (hdata (ses_demo True))" "h_state (hdata (ses_demo True)) = Some []" "final_sem capi_demo digest_demo"
    using tls_demo_sem by (simp_all add: tls_sem_def)
  have k: "caop_op (k_caop (kcaop_demo COP_DECRYPT 4)) = COP_DECRYPT" "caop_tag_len (k_caop (kcaop_demo COP_DECRYPT 4)) = 4"
    "caop_tag (k_caop (kcaop_demo COP_DECRYPT 4)) = 200"
    by (simp_all add: kcaop_demo_def caop_demo_def)
  show ?thesis
    using srtp_verify_then_decrypt [where n = 12 and auth_sg = "Some (ucells 40 8)" and al = 8 and ad = "replicate 8 0"
        and kcaop = "kcaop_demo COP_DECRYPT 4" and v = "replicate 4 0", OF ses_demo_sem b gather_demo ucells_distinct [of 12 100]]
    by (simp add: k sg_fetch_def gather_demo copy_zeros)
qed

text \<open>C30: For an SRTP packet \<open>get_userbuf_srtp\<close> (authenc.c) gives one scatterlist that covers exactly the
  authenticated bytes and, when the data start at most 256 bytes into the packet, a second one over
  the same pages that covers exactly the packet from the data on; it returns 0 or \<open>-ENOMEM\<close>, and the
  pages it pinned are those a release drops.\<close>

theorem get_userbuf_srtp_covers:
  assumes "zc_wf ses" "4 \<le> sh" "fits (caop_auth_src (k_caop kcaop)) (caop_auth_len (k_caop kcaop))" "ka_dst_len kcaop \<noteq> 0"
    "caop_src (k_caop kcaop) = caop_auth_src (k_caop kcaop) + of_nat k" "k \<le> 256" "k < unat (caop_auth_len (k_caop kcaop))"
    "present M sh (um s) (caop_auth_src (k_caop kcaop)) (npages sh (caop_auth_src (k_caop kcaop)) (caop_auth_len (k_caop kcaop))) True"
  shows "\<exists>rc i j ses' s'. get_userbuf_srtp M sh ses kcaop s = Some (rc, i, j, ses', s')
    \<and> (rc = 0 \<or> rc = - ENOMEM) \<and> um s' = um s \<and> (rc \<noteq> 0 \<longrightarrow> pins s' = pins s)
    \<and> (rc = 0 \<longrightarrow> sg_arg sh ses' i = Some (ucells (caop_auth_src (k_caop kcaop)) (unat (caop_auth_len (k_caop kcaop))))
        \<and> sg_arg sh ses' j = Some (ucells (caop_src (k_caop kcaop)) (unat (caop_auth_len (k_caop kcaop)) - k))
        \<and> (\<exists>ses'' s''. release_user_pages M ses' s' = Some (ses'', s'') \<and> pins s'' = pins s))"
proof -
  from get_userbuf_srtp_ok [OF assms(1-3) refl refl assms(4-8)] obtain rc i j ses' s' where
    g: "get_userbuf_srtp M sh ses kcaop s = Some (rc, i, j, ses', s')" "rc = 0 \<or> rc = - ENOMEM" "um s' = um s" "rc \<noteq> 0 \<longrightarrow> pins s' = pins s"
      "rc = 0 \<longrightarrow> sg_arg sh ses' i = Some (ucells (caop_auth_src (k_caop kcaop)) (unat (caop_auth_len (k_caop kcaop))))
        \<and> sg_arg sh ses' j = Some (ucells (caop_src (k_caop kcaop)) (unat (caop_auth_len (k_caop kcaop)) - k))
        \<and> (\<exists>ps. zc_held ses' ps \<and> pins s' = (\<lambda>p. pins s p + int (count_list ps p)))" by blast
  have "\<exists>ses'' s''. release_user_pages M ses' s' = Some (ses'', s'') \<and> pins s'' = pins s" if "rc = 0"
  proof -
    from g(5) that obtain ps where ps: "zc_held ses' ps" "pins s' = (\<lambda>p. pins s p + int (count_list ps p))" by blast
    from release_user_pages_pins [OF ps(1), of M s'] ps(2) show ?thesis by auto
  qed
  with g show ?thesis by blast
qed

definition kcaop_srtp :: kernel_crypt_auth_op where
  "kcaop_srtp = (kcaop_demo COP_DECRYPT 4)\<lparr>k_caop := (caop_demo COP_DECRYPT 4)\<lparr>caop_auth_src := 100, caop_auth_len := 40, caop_src := 112\<rparr>,
     ka_dst_len := 9\<rparr>"

theorem get_userbuf_srtp_covers_witness:
  "\<exists>rc i j ses' s'. get_userbuf_srtp mm_demo 4 (ses_demo False) kcaop_srtp kst_demo = Some (rc, i, j, ses', s')
    \<and> (rc = 0 \<longrightarrow> sg_arg 4 ses' i = Some (ucells 100 40) \<and> sg_arg 4 ses' j = Some (ucells 112 28))"
proof -
  have k: "caop_auth_src (k_caop kcaop_srtp) = 100" "caop_auth_len (k_caop kcaop_srtp) = 40" "caop_src (k_caop kcaop_srtp) = 112"
    "ka_dst_len kcaop_srtp = 9"
    by (simp_all add: kcaop_srtp_def)
  have "zc_wf (ses_demo False)" by (simp add: zc_wf_def ses_demo_def)
  from get_userbuf_srtp_covers [OF this, of 4 kcaop_srtp 12 mm_demo kst_demo] show ?thesis
    by (auto simp: k fits_def present_def mm_demo_def)
qed

text \<open>The tag length of an AEAD session can only shrink (\<open>auth_n_crypt\<close> of authenc.c): the limit an
  operation checks its tag length against is the length the last operation set, so after an
  operation with a shorter tag every longer one is refused with \<open>-EINVAL\<close>.\<close>

theorem aead_tag_only_shrinks:
  assumes "c_init (cdata ses)" "c_aead (cdata ses)" "c_as (cdata ses) = Some t"
    "caop_tag_len (k_caop kcaop) \<noteq> 0" "caop_tag_len (k_caop kcaop) \<le> of_nat (tfm_authsize t)"
    "aead_setauthsize A (tfm_name t) (unat (caop_tag_len (k_caop kcaop))) = 0"
    "auth_n_crypt A ses kcaop auth_sg al src dst n s = Some (ret, ses', kcaop', s')"
    "caop_tag_len (k_caop kcaop) < caop_tag_len (k_caop kcaop2)"
  shows "auth_n_crypt A ses' kcaop2 auth_sg2 al2 src2 dst2 n2 s2 = Some (- EINVAL, ses', kcaop2, s2)"
proof -
  define tgl where "tgl = caop_tag_len (k_caop kcaop)"
  define c1 where "c1 = cryptodev_cipher_set_tag_size A (cdata ses) (unat tgl)"
  have c1: "c_as c1 = Some (t\<lparr>tfm_authsize := unat tgl\<rparr>)" "c_init c1" "c_aead c1"
    using assms(1-3,6) by (simp_all add: c1_def cryptodev_cipher_set_tag_size_def tgl_def)
  have keep: "c_as c' = c_as c \<and> c_init c' = c_init c \<and> c_aead c' = c_aead c"
    if "cipher_op A enc c x y m q = Some (r, c', q')" for enc c x y m q r c' q'
    using that by (auto simp: cipher_op_def cipher_request_def Let_def elim!: returned)
  have "cryptodev_cipher_get_tag_size (cdata ses) = tfm_authsize t" using assms(1-3) by (simp add: cryptodev_cipher_get_tag_size_def)
  then have ng: "\<not> of_nat (cryptodev_cipher_get_tag_size (cdata ses)) < tgl" using assms(5) by (simp add: tgl_def not_less)
  obtain enc c' r q where c': "cipher_op A enc (cryptodev_cipher_auth c1 auth_sg (unat al)) src dst (unat n) s = Some (r, c', q)"
    "cdata ses' = c'"
    using assms(7) ng assms(4) unfolding auth_n_crypt_def Let_def cryptodev_cipher_encrypt_def cryptodev_cipher_decrypt_def
      tgl_def [symmetric] c1_def [symmetric]
    by (elim returned; clarsimp; blast)
  have "c_as c' = Some (t\<lparr>tfm_authsize := unat tgl\<rparr>)" "c_init c'" "c_aead c'"
    using keep [OF c'(1)] c1 by (simp_all add: cryptodev_cipher_auth_def)
  then have "cryptodev_cipher_get_tag_size (cdata ses') = unat tgl" using c'(2) by (simp add: cryptodev_cipher_get_tag_size_def)
  moreover have "(of_nat (unat tgl) :: u32) = tgl" by (simp only: of_nat_unat ucast_id)
  ultimately show ?thesis using assms(8) by (simp add: auth_n_crypt_def tgl_def Let_def)
qed

definition ses_aead :: "byte list csession" where
  "ses_aead = (ses_demo False)\<lparr>cdata := cipher_zero\<lparr>c_init := True, c_aead := True, c_blocksize := 1, c_ivsize := 4,
     c_as := Some \<lparr>tfm_id = 1, tfm_name = ''gcm(aes)'', tfm_key = [5, 6], tfm_authsize = 2\<rparr>\<rparr>\<rparr>"

theorem aead_tag_only_shrinks_witness:
  "\<exists>ret ses' kcaop' s'. auth_n_crypt capi_demo ses_aead (kcaop_demo COP_ENCRYPT 1) None 0 (Some (ucells 100 8)) (Some (ucells 100 9)) 8 kst_demo
      = Some (ret, ses', kcaop', s')
    \<and> auth_n_crypt capi_demo ses' (kcaop_demo COP_ENCRYPT 2) None 0 (Some (ucells 100 8)) (Some (ucells 100 10)) 8 kst_demo
      = Some (- EINVAL, ses', kcaop_demo COP_ENCRYPT 2, kst_demo)"
proof -
  have "auth_n_crypt capi_demo ses_aead (kcaop_demo COP_ENCRYPT 1) None 0 (Some (ucells 100 8)) (Some (ucells 100 9)) 8 kst_demo \<noteq> None"
    by code_simp
  then obtain ret ses' kcaop' s' where
    r: "auth_n_crypt capi_demo ses_aead (kcaop_demo COP_ENCRYPT 1) None 0 (Some (ucells 100 8)) (Some (ucells 100 9)) 8 kst_demo
      = Some (ret, ses', kcaop', s')" by auto
  show ?thesis
    using r aead_tag_only_shrinks [OF _ _ _ _ _ _ r]
    by (simp add: ses_aead_def kcaop_demo_def caop_demo_def capi_demo_def)
qed

text \<open>C38: \<open>crypto_auth_run\<close> (authenc.c) works on its own session only: whatever the outcome, the session
  identifiers of the file stay as they are, every other session is unchanged, and the session it
  worked on is unlocked again; an unknown operation or session is \<open>-EINVAL\<close> and changes nothing.\<close>

theorem crypto_auth_run_unlocks:
  assumes "crypto_auth_run A M sh fcr kcaop s = Some (ret, fcr', kcaop', s')"
  shows "map sid fcr' = map sid fcr
    \<and> (\<forall>d. d \<noteq> caop_ses (k_caop kcaop) \<longrightarrow> find_session d fcr' = find_session d fcr)
    \<and> (caop_op (k_caop kcaop) = COP_ENCRYPT \<or> caop_op (k_caop kcaop) = COP_DECRYPT \<longrightarrow>
        (case find_session (caop_ses (k_caop kcaop)) fcr' of
           Some ses \<Rightarrow> \<not> sem ses | None \<Rightarrow> ret = - EINVAL \<and> fcr' = fcr \<and> kcaop' = kcaop \<and> s' = s))
    \<and> (caop_op (k_caop kcaop) \<noteq> COP_ENCRYPT \<and> caop_op (k_caop kcaop) \<noteq> COP_DECRYPT \<longrightarrow>
        ret = - EINVAL \<and> fcr' = fcr \<and> kcaop' = kcaop \<and> s' = s)"
proof (cases "caop_op (k_caop kcaop) \<noteq> COP_ENCRYPT \<and> caop_op (k_caop kcaop) \<noteq> COP_DECRYPT")
  case True
  with assms show ?thesis by (simp add: crypto_auth_run_def)
next
  case op: False
  define d where "d = caop_ses (k_caop kcaop)"
  show ?thesis
  proof (cases "find_session d fcr")
    case None
    with assms op show ?thesis by (auto simp: crypto_auth_run_def crypto_get_session_by_sid_def d_def)
  next
    case (Some ses)
    from Some assms op obtain ses' where
      r: "auth_run_session A M sh (ses\<lparr>sem := True\<rparr>) kcaop s = Some (ret, ses', kcaop', s')"
        "fcr' = crypto_put_session ses' (replace_session (ses\<lparr>sem := True\<rparr>) fcr)"
      by (auto simp: crypto_auth_run_def crypto_get_session_by_sid_def bind_eq_Some_conv d_def split: if_splits)
    from locked_session [OF Some auth_run_session_same [OF r(1)] r(2)] show ?thesis using op unfolding d_def by auto
  qed
qed

theorem crypto_auth_run_unlocks_witness:
  "\<exists>ret fcr' kcaop' s'. crypto_auth_run capi_demo mm_demo 4 [ses_aead] (kcaop_demo COP_ENCRYPT 1) kst_demo = Some (ret, fcr', kcaop', s')
    \<and> map sid fcr' = [7] \<and> (case find_session 7 fcr' of Some ses \<Rightarrow> \<not> sem ses | None \<Rightarrow> False)"
proof -
  have "crypto_auth_run capi_demo mm_demo 4 [ses_aead] (kcaop_demo COP_ENCRYPT 1) kst_demo \<noteq> None" by code_simp
  then obtain ret fcr' kcaop' s' where
    r: "crypto_auth_run capi_demo mm_demo 4 [ses_aead] (kcaop_demo COP_ENCRYPT 1) kst_demo = Some (ret, fcr', kcaop', s')" by auto
  have m: "map sid [ses_aead] = [7]" "caop_ses (k_caop (kcaop_demo COP_ENCRYPT 1)) = 7" "caop_op (k_caop (kcaop_demo COP_ENCRYPT 1)) = COP_ENCRYPT"
    by (simp_all add: ses_aead_def ses_demo_def kcaop_demo_def caop_demo_def)
  from crypto_auth_run_unlocks [OF r] m have k: "map sid fcr' = [7]" "case find_session 7 fcr' of Some ses \<Rightarrow> \<not> sem ses | None \<Rightarrow> fcr' = [ses_aead]"
    by (auto split: option.splits)
  moreover from k(1) have "find_session 7 fcr' \<noteq> None" by (simp add: find_session_None)
  ultimately show ?thesis using r by (auto split: option.splits)
qed

end
