(* ===== verification/Cryptodev_Ioctl.thy ===== *)
theory Cryptodev_Ioctl
  imports Crypto_Async Crypto_Authenc "HOL-Library.Sublist"
begin

text \<open>
  The ioctl entry points of /dev/crypto (\<open>cryptodev-linux/ioctl.c\<close>, lines 520 to 531 and 608 to
  1116): the copying of operations between user memory and the kernel's request block, session
  information, the dispatch of the native and of the 32-bit ioctl, and the module's registration.
  The theorems: every command keeps the invariant of an open file, the 32-bit entry does what the
  native one does, and creating a session through the ioctl happens completely or not at all.
\<close>

section \<open>The open file\<close>

text \<open>
  \<open>f_count\<close> counts the references to the file, \<open>fd_table\<close> holds the descriptors that name it.
  \<open>get_unused_fd\<close> of the kernel is the argument \<open>unused\<close>: a descriptor that is not in use, or a
  negative error code.
\<close>

record 'h cfile =
  private_data :: "'h crypt_priv option"
  f_count :: int
  fd_table :: "int list"

definition clonefd :: "(int list \<Rightarrow> int) \<Rightarrow> 'h cfile \<Rightarrow> int \<times> 'h cfile" where
  "clonefd unused filp =
     (let ret = unused (fd_table filp)
      in if 0 \<le> ret then (ret, filp\<lparr>f_count := f_count filp + 1, fd_table := ret # fd_table filp\<rparr>) else (ret, filp))"

definition sys_close :: "int \<Rightarrow> 'h cfile \<Rightarrow> 'h cfile" where
  "sys_close fd filp =
     (if fd \<in> set (fd_table filp)
      then filp\<lparr>f_count := f_count filp - 1, fd_table := remove1 fd (fd_table filp)\<rparr> else filp)"

section \<open>Copying operations in and out\<close>

definition fill_kcop_from_cop ::
  "'h fcrypt \<Rightarrow> kernel_crypt_op \<Rightarrow> kst \<Rightarrow> (int \<times> 'h fcrypt \<times> kernel_crypt_op) option" where
  "fill_kcop_from_cop fcr kcop s =
     do {
       (ses_ptr, fcr1) \<leftarrow> crypto_get_session_by_sid fcr (cop_ses (k_cop kcop));
       case ses_ptr of
         None \<Rightarrow> Some (- EINVAL, fcr1, kcop)
       | Some ses \<Rightarrow>
           (let cop = k_cop kcop;
                kcop1 = kcop\<lparr>k_ivlen := (if cop_iv cop \<noteq> 0 then c_ivsize (cdata ses) else 0), k_digestsize := 0\<rparr>;
                fcr2 = crypto_put_session ses fcr1
            in if cop_iv cop \<noteq> 0 then
                 (if EALG_MAX_BLOCK_LEN < k_ivlen kcop1 then None
                  else case copy_from_user (um s) (cop_iv cop) (k_ivlen kcop1) of
                    None \<Rightarrow> Some (- EFAULT, fcr2, kcop1)
                  | Some bs \<Rightarrow> Some (0, fcr2, kcop1\<lparr>k_iv := bs @ drop (k_ivlen kcop1) (k_iv kcop1)\<rparr>))
               else Some (0, fcr2, kcop1))
     }"

definition fill_cop_from_kcop :: "kernel_crypt_op \<Rightarrow> kst \<Rightarrow> int \<times> kst" where
  "fill_cop_from_kcop kcop s =
     (case (if k_digestsize kcop \<noteq> 0
            then copy_to_user (um s) (cop_mac (k_cop kcop)) (take (k_digestsize kcop) (k_hash_output kcop))
            else (0, um s)) of
        (k, m) \<Rightarrow>
          (if k \<noteq> 0 then (- EFAULT, s\<lparr>um := m\<rparr>)
           else if k_ivlen kcop \<noteq> 0 \<and> has_flag (cop_flags (k_cop kcop)) COP_FLAG_WRITE_IV
           then (case copy_to_user m (cop_iv (k_cop kcop)) (take (k_ivlen kcop) (k_iv kcop)) of
                   (k, m') \<Rightarrow> (if k \<noteq> 0 then - EFAULT else 0, s\<lparr>um := m'\<rparr>))
           else (0, s\<lparr>um := m\<rparr>)))"

text \<open>The block is a local variable of the caller, uninitialised before it is filled.\<close>

definition kcop_uninit :: "kst \<Rightarrow> kernel_crypt_op" where
  "kcop_uninit s = \<lparr>k_cop = crypt_op_of (map (uninit s) [0..<48]), k_ivlen = 0, k_iv = map (uninit s) [0..<16],
     k_digestsize = 0, k_hash_output = map (uninit s) [0..<64]\<rparr>"

definition kcop_from_user ::
  "'h fcrypt \<Rightarrow> u64 \<Rightarrow> kst \<Rightarrow> (int \<times> 'h fcrypt \<times> kernel_crypt_op) option" where
  "kcop_from_user fcr arg s =
     (case copy_from_user (um s) arg 48 of
        None \<Rightarrow> Some (- EFAULT, fcr, kcop_uninit s)
      | Some bs \<Rightarrow> fill_kcop_from_cop fcr ((kcop_uninit s)\<lparr>k_cop := crypt_op_of bs\<rparr>) s)"

definition kcop_to_user :: "kernel_crypt_op \<Rightarrow> u64 \<Rightarrow> kst \<Rightarrow> int \<times> kst" where
  "kcop_to_user kcop arg s =
     (case fill_cop_from_kcop kcop s of
        (ret, s1) \<Rightarrow>
          (if ret \<noteq> 0 then (ret, s1)
           else case copy_to_user (um s1) arg (crypt_op_bytes (k_cop kcop)) of
             (k, m) \<Rightarrow> (if k \<noteq> 0 then - EFAULT else 0, s1\<lparr>um := m\<rparr>)))"

section \<open>Session information\<close>

text \<open>\<open>snprintf(dst, 64, "%s", name)\<close> on an array of 64 characters.\<close>

definition snprintf_name :: "byte list \<Rightarrow> byte list \<Rightarrow> byte list" where
  "snprintf_name name dst =
     (let w = take (CRYPTODEV_MAX_ALG_NAME - 1) (takeWhile (\<lambda>b. b \<noteq> 0) name) @ [0] in w @ drop (length w) dst)"

definition tfm_info_to_alg_info :: "'h capi \<Rightarrow> tfm \<Rightarrow> byte list \<times> byte list \<Rightarrow> byte list \<times> byte list" where
  "tfm_info_to_alg_info A t dst =
     (snprintf_name (cra_name A (tfm_name t)) (fst dst), snprintf_name (cra_driver_name A (tfm_name t)) (snd dst))"

definition cstr :: "string \<Rightarrow> byte list" where
  "cstr = map (\<lambda>c. of_nat (of_char c))"

fun strstr :: "byte list \<Rightarrow> byte list \<Rightarrow> bool" where
  "strstr [] n \<longleftrightarrow> n = []"
| "strstr (x # xs) n \<longleftrightarrow> prefix n (x # xs) \<or> strstr xs n"

text \<open>The driver name is a member array, so the test for a null pointer never holds.\<close>

definition is_known_accelerated :: "'h capi \<Rightarrow> tfm \<Rightarrow> bool" where
  "is_known_accelerated A t =
     (let name = takeWhile (\<lambda>b. b \<noteq> 0) (cra_driver_name A (tfm_name t))
      in strstr name (cstr ''-talitos'') \<or> take 3 name = cstr ''mv-'' \<or> strstr name (cstr ''geode'')
       \<or> strstr name (cstr ''hifn'') \<or> strstr name (cstr ''-ixp4xx'') \<or> strstr name (cstr ''-omap'')
       \<or> strstr name (cstr ''-picoxcell'') \<or> strstr name (cstr ''-s5p'') \<or> strstr name (cstr ''-ppc4xx'')
       \<or> strstr name (cstr ''-caam'') \<or> strstr name (cstr ''-n2''))"

abbreviation (input) SIOP_FLAG_KERNEL_DRIVER_ONLY :: u32 where "SIOP_FLAG_KERNEL_DRIVER_ONLY \<equiv> 1"
abbreviation (input) CRYPTO_ALG_KERN_DRIVER_ONLY :: u32 where "CRYPTO_ALG_KERN_DRIVER_ONLY \<equiv> 0x1000"

text \<open>\<open>kdo\<close>: the kernel the module is built for defines \<open>CRYPTO_ALG_KERN_DRIVER_ONLY\<close>.\<close>

definition driver_only :: "bool \<Rightarrow> 'h capi \<Rightarrow> tfm \<Rightarrow> bool" where
  "driver_only kdo A t =
     (if kdo then cra_flags A (tfm_name t) AND CRYPTO_ALG_KERN_DRIVER_ONLY \<noteq> 0 else is_known_accelerated A t)"

definition get_session_info ::
  "bool \<Rightarrow> 'h capi \<Rightarrow> 'h fcrypt \<Rightarrow> session_info_op \<Rightarrow> (int \<times> 'h fcrypt \<times> session_info_op) option" where
  "get_session_info kdo A fcr siop =
     do {
       (ses_ptr, fcr1) \<leftarrow> crypto_get_session_by_sid fcr (siop_ses siop);
       case ses_ptr of
         None \<Rightarrow> Some (- EINVAL, fcr1, siop)
       | Some ses \<Rightarrow> do {
           let siop0 = siop\<lparr>siop_flags := 0\<rparr>;
           siop1 \<leftarrow>
             (if c_init (cdata ses) then do {
                t \<leftarrow> (if \<not> c_aead (cdata ses) then c_s (cdata ses) else c_as (cdata ses));
                let (n, d) = tfm_info_to_alg_info A t (siop_cipher_name siop0, siop_cipher_driver siop0);
                Some (siop0\<lparr>siop_cipher_name := n, siop_cipher_driver := d,
                  siop_flags := (if driver_only kdo A t then siop_flags siop0 OR SIOP_FLAG_KERNEL_DRIVER_ONLY else siop_flags siop0)\<rparr>)
              } else Some siop0);
           siop2 \<leftarrow>
             (if h_init (hdata ses) then do {
                t \<leftarrow> h_s (hdata ses);
                let (n, d) = tfm_info_to_alg_info A t (siop_hash_name siop1, siop_hash_driver siop1);
                Some (siop1\<lparr>siop_hash_name := n, siop_hash_driver := d,
                  siop_flags := (if driver_only kdo A t then siop_flags siop1 OR SIOP_FLAG_KERNEL_DRIVER_ONLY else siop_flags siop1)\<rparr>)
              } else Some siop1);
           Some (0, crypto_put_session ses fcr1, siop2\<lparr>siop_alignmask := of_nat (zc_alignmask ses)\<rparr>)
         }
     }"

section \<open>The commands\<close>

text \<open>
  The cases of the \<open>switch\<close> in \<open>cryptodev_ioctl\<close>.  The cases that differ in the two entry points
  only by the layout of the user's structure take the copying functions as arguments.
\<close>

definition ioctl_crioget :: "(int list \<Rightarrow> int) \<Rightarrow> 'h cfile \<Rightarrow> u64 \<Rightarrow> kst \<Rightarrow> int \<times> 'h cfile \<times> kst" where
  "ioctl_crioget unused filp arg s =
     (case clonefd unused filp of
        (fd, filp1) \<Rightarrow>
          (case put_user32 (um s) arg (word_of_int fd) of
             (ret, m) \<Rightarrow> (ret, if ret \<noteq> 0 then sys_close fd filp1 else filp1, s\<lparr>um := m\<rparr>)))"

definition gsession_done :: "session_op \<Rightarrow> nat \<times> umem \<Rightarrow> 'h fcrypt \<Rightarrow> kst \<Rightarrow> (int \<times> 'h fcrypt \<times> kst) option" where
  "gsession_done sop km fcr s =
     (case km of
        (k, m) \<Rightarrow>
          (if k \<noteq> 0 then do {
             (r, fcr', s') \<leftarrow> crypto_finish_session fcr (sop_ses sop) (s\<lparr>um := m\<rparr>);
             Some (- EFAULT, fcr', s')
           }
           else Some (0, fcr, s\<lparr>um := m\<rparr>)))"

definition ioctl_gsession :: "'h capi \<Rightarrow> 'h fcrypt \<Rightarrow> u64 \<Rightarrow> kst \<Rightarrow> (int \<times> 'h fcrypt \<times> kst) option" where
  "ioctl_gsession A fcr arg s =
     (case copy_from_user (um s) arg 48 of
        None \<Rightarrow> Some (- EFAULT, fcr, s)
      | Some bs \<Rightarrow> do {
          (ret, fcr1, sop, s1) \<leftarrow> crypto_create_session A fcr (session_op_of bs) s;
          if ret \<noteq> 0 then Some (ret, fcr1, s1)
          else gsession_done sop (copy_to_user (um s1) arg (session_op_bytes sop)) fcr1 s1
        })"

definition ioctl_fsession :: "'h fcrypt \<Rightarrow> u64 \<Rightarrow> kst \<Rightarrow> (int \<times> 'h fcrypt \<times> kst) option" where
  "ioctl_fsession fcr arg s =
     (case get_user32 (um s) arg of
        Inl e \<Rightarrow> Some (e, fcr, s)
      | Inr ses \<Rightarrow> crypto_finish_session fcr ses s)"

text \<open>The result of the last copy is returned as it is: the number of bytes not copied.\<close>

definition ioctl_gsessinfo :: "bool \<Rightarrow> 'h capi \<Rightarrow> 'h fcrypt \<Rightarrow> u64 \<Rightarrow> kst \<Rightarrow> (int \<times> 'h fcrypt \<times> kst) option" where
  "ioctl_gsessinfo kdo A fcr arg s =
     (case copy_from_user (um s) arg 268 of
        None \<Rightarrow> Some (- EFAULT, fcr, s)
      | Some bs \<Rightarrow> do {
          (ret, fcr1, siop) \<leftarrow> get_session_info kdo A fcr (session_info_op_of bs);
          if ret \<noteq> 0 then Some (ret, fcr1, s)
          else (case copy_to_user (um s) arg (session_info_op_bytes siop) of (k, m) \<Rightarrow> Some (int k, fcr1, s\<lparr>um := m\<rparr>))
        })"

definition ioctl_crypt ::
  "('h fcrypt \<Rightarrow> u64 \<Rightarrow> kst \<Rightarrow> (int \<times> 'h fcrypt \<times> kernel_crypt_op) option) \<Rightarrow> (kernel_crypt_op \<Rightarrow> u64 \<Rightarrow> kst \<Rightarrow> int \<times> kst)
    \<Rightarrow> 'h capi \<Rightarrow> mm \<Rightarrow> nat \<Rightarrow> 'h fcrypt \<Rightarrow> u64 \<Rightarrow> kst \<Rightarrow> (int \<times> 'h fcrypt \<times> kst) option" where
  "ioctl_crypt from_user to_user A M sh fcr arg s =
     do {
       (ret, fcr1, kcop) \<leftarrow> from_user fcr arg s;
       if ret \<noteq> 0 then Some (ret, fcr1, s)
       else do {
         (ret, fcr2, kcop, s1) \<leftarrow> crypto_run A M sh fcr1 kcop s;
         if ret \<noteq> 0 then Some (ret, fcr2, s1)
         else (case to_user kcop arg s1 of (ret, s2) \<Rightarrow> Some (ret, fcr2, s2))
       }
     }"

definition ioctl_authcrypt :: "'h capi \<Rightarrow> mm \<Rightarrow> nat \<Rightarrow> 'h fcrypt \<Rightarrow> u64 \<Rightarrow> kst \<Rightarrow> (int \<times> 'h fcrypt \<times> kst) option" where
  "ioctl_authcrypt A M sh fcr arg s =
     do {
       (ret, fcr1, kcaop) \<leftarrow> kcaop_from_user fcr arg s;
       if ret \<noteq> 0 then Some (ret, fcr1, s)
       else do {
         (ret, fcr2, kcaop, s1) \<leftarrow> crypto_auth_run A M sh fcr1 kcaop s;
         if ret \<noteq> 0 then Some (ret, fcr2, s1)
         else (case kcaop_to_user kcaop arg s1 of (ret, s2) \<Rightarrow> Some (ret, fcr2, s2))
       }
     }"

definition ioctl_asynccrypt ::
  "('h fcrypt \<Rightarrow> u64 \<Rightarrow> kst \<Rightarrow> (int \<times> 'h fcrypt \<times> kernel_crypt_op) option)
    \<Rightarrow> 'h crypt_priv \<Rightarrow> u64 \<Rightarrow> kst \<Rightarrow> (int \<times> 'h crypt_priv \<times> kst) option" where
  "ioctl_asynccrypt from_user priv arg s =
     do {
       (ret, fcr1, kcop) \<leftarrow> from_user (fcrypts priv) arg s;
       if ret \<noteq> 0 then Some (ret, priv\<lparr>fcrypts := fcr1\<rparr>, s)
       else Some (crypto_async_run (priv\<lparr>fcrypts := fcr1\<rparr>) kcop s)
     }"

definition ioctl_asyncfetch ::
  "(kernel_crypt_op \<Rightarrow> u64 \<Rightarrow> kst \<Rightarrow> int \<times> kst) \<Rightarrow> 'h crypt_priv \<Rightarrow> u64 \<Rightarrow> kst \<Rightarrow> int \<times> 'h crypt_priv \<times> kst" where
  "ioctl_asyncfetch to_user priv arg s =
     (case crypto_async_fetch priv (kcop_uninit s) of
        (ret, pcr1, kcop) \<Rightarrow>
          (if ret \<noteq> 0 then (ret, pcr1, s) else (case to_user kcop arg s of (ret, s1) \<Rightarrow> (ret, pcr1, s1))))"

text \<open>Putting the changed session list or ring back into the file.\<close>

definition on_fcr :: "'h cfile \<Rightarrow> 'h crypt_priv \<Rightarrow> (int \<times> 'h fcrypt \<times> kst) option \<Rightarrow> (int \<times> 'h cfile \<times> kst) option" where
  "on_fcr filp priv r = map_option (\<lambda>(ret, fcr, s). (ret, filp\<lparr>private_data := Some (priv\<lparr>fcrypts := fcr\<rparr>)\<rparr>, s)) r"

definition on_pcr :: "'h cfile \<Rightarrow> (int \<times> 'h crypt_priv \<times> kst) option \<Rightarrow> (int \<times> 'h cfile \<times> kst) option" where
  "on_pcr filp r = map_option (\<lambda>(ret, priv, s). (ret, filp\<lparr>private_data := Some priv\<rparr>, s)) r"

definition cryptodev_ioctl ::
  "bool \<Rightarrow> (int list \<Rightarrow> int) \<Rightarrow> 'h capi \<Rightarrow> mm \<Rightarrow> nat \<Rightarrow> 'h cfile \<Rightarrow> u32 \<Rightarrow> u64 \<Rightarrow> kst
    \<Rightarrow> (int \<times> 'h cfile \<times> kst) option" where
  "cryptodev_ioctl kdo unused A M sh filp cmd arg s =
     (case private_data filp of
        None \<Rightarrow> None
      | Some priv \<Rightarrow>
          (let fcr = fcrypts priv
           in if cmd = cmd_code CIOCASYMFEAT then
                (case put_user32 (um s) arg 0 of (ret, m) \<Rightarrow> Some (ret, filp, s\<lparr>um := m\<rparr>))
              else if cmd = cmd_code CRIOGET then Some (ioctl_crioget unused filp arg s)
              else if cmd = cmd_code CIOCGSESSION then on_fcr filp priv (ioctl_gsession A fcr arg s)
              else if cmd = cmd_code CIOCFSESSION then on_fcr filp priv (ioctl_fsession fcr arg s)
              else if cmd = cmd_code CIOCGSESSINFO then on_fcr filp priv (ioctl_gsessinfo kdo A fcr arg s)
              else if cmd = cmd_code CIOCCRYPT then
                on_fcr filp priv (ioctl_crypt kcop_from_user kcop_to_user A M sh fcr arg s)
              else if cmd = cmd_code CIOCAUTHCRYPT then on_fcr filp priv (ioctl_authcrypt A M sh fcr arg s)
              else if cmd = cmd_code CIOCASYNCCRYPT then on_pcr filp (ioctl_asynccrypt kcop_from_user priv arg s)
              else if cmd = cmd_code CIOCASYNCFETCH then on_pcr filp (Some (ioctl_asyncfetch kcop_to_user priv arg s))
              else Some (- EINVAL, filp, s)))"

section \<open>32-bit callers\<close>

definition compat_ptr :: "u32 \<Rightarrow> u64" where
  "compat_ptr p = ucast p"

definition ptr_to_compat :: "u64 \<Rightarrow> u32" where
  "ptr_to_compat p = ucast p"

definition compat_to_session_op :: "compat_session_op \<Rightarrow> session_op \<Rightarrow> session_op" where
  "compat_to_session_op cmp sop = sop\<lparr>sop_cipher := csop_cipher cmp, sop_mac := csop_mac cmp,
     sop_keylen := csop_keylen cmp, sop_key := compat_ptr (csop_key cmp), sop_mackeylen := csop_mackeylen cmp,
     sop_mackey := compat_ptr (csop_mackey cmp), sop_ses := csop_ses cmp\<rparr>"

definition session_op_to_compat :: "session_op \<Rightarrow> compat_session_op" where
  "session_op_to_compat sop = \<lparr>csop_cipher = sop_cipher sop, csop_mac = sop_mac sop, csop_keylen = sop_keylen sop,
     csop_key = ptr_to_compat (sop_key sop), csop_mackeylen = sop_mackeylen sop,
     csop_mackey = ptr_to_compat (sop_mackey sop), csop_ses = sop_ses sop\<rparr>"

definition compat_to_crypt_op :: "compat_crypt_op \<Rightarrow> crypt_op \<Rightarrow> crypt_op" where
  "compat_to_crypt_op cmp cop = cop\<lparr>cop_ses := ccop_ses cmp, cop_op := ccop_op cmp, cop_flags := ccop_flags cmp,
     cop_len := ccop_len cmp, cop_src := compat_ptr (ccop_src cmp), cop_dst := compat_ptr (ccop_dst cmp),
     cop_mac := compat_ptr (ccop_mac cmp), cop_iv := compat_ptr (ccop_iv cmp)\<rparr>"

definition crypt_op_to_compat :: "crypt_op \<Rightarrow> compat_crypt_op" where
  "crypt_op_to_compat cop = \<lparr>ccop_ses = cop_ses cop, ccop_op = cop_op cop, ccop_flags = cop_flags cop, ccop_len = cop_len cop,
     ccop_src = ptr_to_compat (cop_src cop), ccop_dst = ptr_to_compat (cop_dst cop),
     ccop_mac = ptr_to_compat (cop_mac cop), ccop_iv = ptr_to_compat (cop_iv cop)\<rparr>"

definition compat_kcop_from_user ::
  "'h fcrypt \<Rightarrow> u64 \<Rightarrow> kst \<Rightarrow> (int \<times> 'h fcrypt \<times> kernel_crypt_op) option" where
  "compat_kcop_from_user fcr arg s =
     (case copy_from_user (um s) arg 28 of
        None \<Rightarrow> Some (- EFAULT, fcr, kcop_uninit s)
      | Some bs \<Rightarrow>
          fill_kcop_from_cop fcr
            ((kcop_uninit s)\<lparr>k_cop := compat_to_crypt_op (compat_crypt_op_of bs) (k_cop (kcop_uninit s))\<rparr>) s)"

definition compat_kcop_to_user :: "kernel_crypt_op \<Rightarrow> u64 \<Rightarrow> kst \<Rightarrow> int \<times> kst" where
  "compat_kcop_to_user kcop arg s =
     (case fill_cop_from_kcop kcop s of
        (ret, s1) \<Rightarrow>
          (if ret \<noteq> 0 then (ret, s1)
           else case copy_to_user (um s1) arg (compat_crypt_op_bytes (crypt_op_to_compat (k_cop kcop))) of
             (k, m) \<Rightarrow> (if k \<noteq> 0 then - EFAULT else 0, s1\<lparr>um := m\<rparr>)))"

definition compat_gsession :: "'h capi \<Rightarrow> 'h fcrypt \<Rightarrow> u64 \<Rightarrow> kst \<Rightarrow> (int \<times> 'h fcrypt \<times> kst) option" where
  "compat_gsession A fcr arg s =
     (case copy_from_user (um s) arg 28 of
        None \<Rightarrow> Some (- EFAULT, fcr, s)
      | Some bs \<Rightarrow> do {
          (ret, fcr1, sop, s1) \<leftarrow> crypto_create_session A fcr
            (compat_to_session_op (compat_session_op_of bs) (session_op_of (map (uninit s) [0..<48]))) s;
          if ret \<noteq> 0 then Some (ret, fcr1, s1)
          else gsession_done sop (copy_to_user (um s1) arg (compat_session_op_bytes (session_op_to_compat sop))) fcr1 s1
        })"

definition cryptodev_compat_ioctl ::
  "bool \<Rightarrow> (int list \<Rightarrow> int) \<Rightarrow> 'h capi \<Rightarrow> mm \<Rightarrow> nat \<Rightarrow> 'h cfile \<Rightarrow> u32 \<Rightarrow> u64 \<Rightarrow> kst
    \<Rightarrow> (int \<times> 'h cfile \<times> kst) option" where
  "cryptodev_compat_ioctl kdo unused A M sh filp cmd arg s =
     (case private_data filp of
        None \<Rightarrow> None
      | Some priv \<Rightarrow>
          (let fcr = fcrypts priv
           in if cmd = cmd_code CIOCASYMFEAT \<or> cmd = cmd_code CRIOGET \<or> cmd = cmd_code CIOCFSESSION \<or> cmd = cmd_code CIOCGSESSINFO
              then cryptodev_ioctl kdo unused A M sh filp cmd arg s
              else if cmd = compat_code COMPAT_CIOCGSESSION then on_fcr filp priv (compat_gsession A fcr arg s)
              else if cmd = compat_code COMPAT_CIOCCRYPT then
                on_fcr filp priv (ioctl_crypt compat_kcop_from_user compat_kcop_to_user A M sh fcr arg s)
              else if cmd = compat_code COMPAT_CIOCASYNCCRYPT then on_pcr filp (ioctl_asynccrypt compat_kcop_from_user priv arg s)
              else if cmd = compat_code COMPAT_CIOCASYNCFETCH then
                on_pcr filp (Some (ioctl_asyncfetch compat_kcop_to_user priv arg s))
              else Some (- EINVAL, filp, s)))"

section \<open>Module initialisation\<close>

text \<open>
  What the module has registered with the kernel.  \<open>create_workqueue\<close> may fail (\<open>mkwq\<close>), and
  \<open>misc_register\<close> returns the code \<open>misc\<close>.
\<close>

record module_state =
  cryptodev_wq :: bool
  registered :: bool

definition cryptodev_register :: "int \<Rightarrow> module_state \<Rightarrow> int \<times> module_state" where
  "cryptodev_register misc x = (if misc \<noteq> 0 then (misc, x) else (0, x\<lparr>registered := True\<rparr>))"

definition cryptodev_deregister :: "module_state \<Rightarrow> module_state" where
  "cryptodev_deregister x = x\<lparr>registered := False\<rparr>"

definition init_cryptodev :: "bool \<Rightarrow> int \<Rightarrow> module_state \<Rightarrow> int \<times> module_state" where
  "init_cryptodev mkwq misc x =
     (if \<not> mkwq then (- EFAULT, x\<lparr>cryptodev_wq := False\<rparr>)
      else (case cryptodev_register misc (x\<lparr>cryptodev_wq := True\<rparr>) of
              (rc, y) \<Rightarrow> (if rc \<noteq> 0 then (rc, y\<lparr>cryptodev_wq := False\<rparr>) else (0, y))))"

text \<open>\<open>flush_workqueue\<close> runs the queued work of the open files, of which there is none once the module can be unloaded.\<close>

definition exit_cryptodev :: "module_state \<Rightarrow> module_state" where
  "exit_cryptodev x = cryptodev_deregister (x\<lparr>cryptodev_wq := False\<rparr>)"


section \<open>The invariant of an open file\<close>

text \<open>Session identifiers are distinct, no session is left locked, the job ring is
  accounted for, and every reference to the file has its descriptor.\<close>

definition fcr_ok :: "'h fcrypt \<Rightarrow> bool" where
  "fcr_ok fcr \<longleftrightarrow> sids_ok fcr \<and> (\<forall>x \<in> set fcr. \<not> sem x)"

definition ring_ok :: "'h crypt_priv \<Rightarrow> bool" where
  "ring_ok p \<longleftrightarrow> int (length (free_l p) + length (todo_l p) + length (done_l p)) \<le> itemcount p
     \<and> itemcount p \<le> MAX_COP_RINGSIZE \<and> (todo_l p \<noteq> [] \<longrightarrow> cryptask p)"

definition file_ok :: "'h cfile \<Rightarrow> bool" where
  "file_ok f \<longleftrightarrow> f_count f = int (length (fd_table f)) \<and> (case private_data f of None \<Rightarrow> True | Some p \<Rightarrow> fcr_ok (fcrypts p) \<and> ring_ok p)"

lemma replace_twice: "sid z = sid y \<Longrightarrow> replace_session z (replace_session y f) = replace_session z f"
  by (induction f) auto

lemma set_replace: "set (replace_session z f) \<subseteq> insert z (set f)"
  by (induction f) auto

lemma set_remove: "set (remove_session d f) \<subseteq> set f"
  by (induction f) auto

lemma put_ok:
  assumes "fcr_ok fcr" "sid ses' = sid ses"
  shows "fcr_ok (crypto_put_session ses' (replace_session (ses\<lparr>sem := True\<rparr>) fcr))"
  using assms set_replace [of "ses'\<lparr>sem := False\<rparr>" fcr]
  by (auto simp: fcr_ok_def crypto_put_session_def replace_twice sids_ok_def)

lemma put_ok_same: "fcr_ok fcr \<Longrightarrow> fcr_ok (crypto_put_session (ses\<lparr>sem := True\<rparr>) (replace_session (ses\<lparr>sem := True\<rparr>) fcr))"
  by (rule put_ok) simp_all

lemma crypto_run_ok:
  assumes "crypto_run A M sh fcr kcop s = Some (ret, fcr', kcop', s')" "fcr_ok fcr"
  shows "fcr_ok fcr'"
  using assms unfolding crypto_run_def crypto_get_session_by_sid_def
  by (auto split: if_splits option.splits elim!: bind_SomeE dest!: run_session_same simp: same_ses_def intro!: put_ok)

lemma crypto_auth_run_ok:
  assumes "crypto_auth_run A M sh fcr kcaop s = Some (ret, fcr', kcaop', s')" "fcr_ok fcr"
  shows "fcr_ok fcr'"
  using assms unfolding crypto_auth_run_def crypto_get_session_by_sid_def
  by (auto split: if_splits option.splits elim!: bind_SomeE dest!: auth_run_session_same simp: same_ses_def intro!: put_ok)

lemma fill_kcop_ok: "fill_kcop_from_cop fcr kcop s = Some (ret, fcr', kcop') \<Longrightarrow> fcr_ok fcr \<Longrightarrow> fcr_ok fcr'"
  unfolding fill_kcop_from_cop_def crypto_get_session_by_sid_def
  by (auto split: if_splits option.splits simp: Let_def intro!: put_ok_same)

lemma fill_kcaop_ok: "fill_kcaop_from_caop fcr kcaop s = Some (ret, fcr', kcaop') \<Longrightarrow> fcr_ok fcr \<Longrightarrow> fcr_ok fcr'"
  unfolding fill_kcaop_from_caop_def crypto_get_session_by_sid_def
  by (auto split: if_splits option.splits simp: Let_def intro!: put_ok_same)

lemma from_user_ok:
  "kcop_from_user fcr arg s = Some (ret, fcr', kcop) \<Longrightarrow> fcr_ok fcr \<Longrightarrow> fcr_ok fcr'"
  "compat_kcop_from_user fcr arg s = Some (ret, fcr', kcop) \<Longrightarrow> fcr_ok fcr \<Longrightarrow> fcr_ok fcr'"
  "kcaop_from_user fcr arg s = Some (ret, fcr', kcaop) \<Longrightarrow> fcr_ok fcr \<Longrightarrow> fcr_ok fcr'"
  by (auto simp: kcop_from_user_def compat_kcop_from_user_def kcaop_from_user_def split: option.splits
      dest: fill_kcop_ok fill_kcaop_ok)

lemma session_info_ok: "get_session_info kdo A fcr siop = Some (ret, fcr', siop') \<Longrightarrow> fcr_ok fcr \<Longrightarrow> fcr_ok fcr'"
  unfolding get_session_info_def crypto_get_session_by_sid_def
  by (auto split: if_splits option.splits prod.splits elim!: bind_SomeE simp: Let_def intro!: put_ok_same)

lemma finish_ok: "crypto_finish_session fcr d s = Some (ret, fcr', s') \<Longrightarrow> fcr_ok fcr \<Longrightarrow> fcr_ok fcr'"
  using set_remove [of d fcr] by (auto simp: crypto_finish_session_def fcr_ok_def split: option.splits elim!: bind_SomeE intro: fcr.ok_remove)

lemma create_parts_sem:
  "create_cipher A n st ae sop ses s = (r, ses', s') \<Longrightarrow> sem ses' = sem ses"
  "create_hash A hn hm ae sop ses s = (r, ses', s') \<Longrightarrow> sem ses' = sem ses"
  "create_arrays ses s = (r, ses', s') \<Longrightarrow> sem ses' = sem ses"
  by (auto simp: create_cipher_def create_hash_def create_arrays_def Let_def split: if_splits option.splits prod.splits)

lemma create_ok:
  assumes "crypto_create_session A fcr sop s = Some (ret, fcr', sop', s')" "fcr_ok fcr"
  shows "fcr_ok fcr'"
  using assms unfolding crypto_create_session_def
  by (auto split: if_splits option.splits prod.splits elim!: bind_SomeE dest!: create_parts_sem pick_sid_result
      simp: fcr_ok_def sids_ok_def session_zero_def)


lemmas fcr_ok_intros = crypto_run_ok crypto_auth_run_ok from_user_ok session_info_ok finish_ok create_ok

lemma gsession_done_ok: "gsession_done sop km fcr s = Some (ret, fcr', s') \<Longrightarrow> fcr_ok fcr \<Longrightarrow> fcr_ok fcr'"
  by (auto simp: gsession_done_def split: prod.splits if_splits elim!: bind_SomeE intro: fcr_ok_intros)

lemma commands_ok:
  assumes "fcr_ok fcr"
  shows "ioctl_gsession A fcr arg s = Some (ret, fcr', s') \<Longrightarrow> fcr_ok fcr'"
    "compat_gsession A fcr arg s = Some (ret, fcr', s') \<Longrightarrow> fcr_ok fcr'"
    "ioctl_fsession fcr arg s = Some (ret, fcr', s') \<Longrightarrow> fcr_ok fcr'"
    "ioctl_gsessinfo kdo A fcr arg s = Some (ret, fcr', s') \<Longrightarrow> fcr_ok fcr'"
    "ioctl_crypt kcop_from_user to_user A M sh fcr arg s = Some (ret, fcr', s') \<Longrightarrow> fcr_ok fcr'"
    "ioctl_crypt compat_kcop_from_user to_user A M sh fcr arg s = Some (ret, fcr', s') \<Longrightarrow> fcr_ok fcr'"
    "ioctl_authcrypt A M sh fcr arg s = Some (ret, fcr', s') \<Longrightarrow> fcr_ok fcr'"
  using assms
  by (auto simp: ioctl_gsession_def compat_gsession_def ioctl_fsession_def ioctl_gsessinfo_def ioctl_crypt_def ioctl_authcrypt_def
      split: option.splits if_splits prod.splits sum.splits elim!: bind_SomeE)
    (meson fcr_ok_intros gsession_done_ok)+

lemma async_run_ok: "crypto_async_run p kcop s = (ret, p', s') \<Longrightarrow> ring_ok p \<Longrightarrow> ring_ok p' \<and> fcrypts p' = fcrypts p"
  by (auto simp: crypto_async_run_def take_slot_def push_job_def ring_ok_def split: list.splits if_splits prod.splits option.splits)

lemma async_fetch_ok: "crypto_async_fetch p kcop = (ret, p', kcop') \<Longrightarrow> ring_ok p \<Longrightarrow> ring_ok p' \<and> fcrypts p' = fcrypts p"
  by (auto simp: crypto_async_fetch_def pop_done_def give_back_def ring_ok_def split: list.splits)

lemma ring_ok_fcr [simp]: "ring_ok (p\<lparr>fcrypts := f\<rparr>) = ring_ok p"
  by (simp add: ring_ok_def)

lemma async_commands_ok:
  assumes "fcr_ok (fcrypts p)" "ring_ok p"
  shows "ioctl_asynccrypt kcop_from_user p arg s = Some (ret, p', s') \<Longrightarrow> fcr_ok (fcrypts p') \<and> ring_ok p'"
    "ioctl_asynccrypt compat_kcop_from_user p arg s = Some (ret, p', s') \<Longrightarrow> fcr_ok (fcrypts p') \<and> ring_ok p'"
    "ioctl_asyncfetch to_user p arg s = (ret, p', s') \<Longrightarrow> fcr_ok (fcrypts p') \<and> ring_ok p'"
  using assms
  by (auto simp: ioctl_asynccrypt_def ioctl_asyncfetch_def split: if_splits prod.splits elim!: bind_SomeE
      dest!: async_run_ok async_fetch_ok) (meson from_user_ok)+

lemma sys_close_ok:
  "private_data (sys_close fd f) = private_data f"
  "f_count f = int (length (fd_table f)) \<Longrightarrow> f_count (sys_close fd f) = int (length (fd_table (sys_close fd f)))"
proof -
  show "private_data (sys_close fd f) = private_data f" by (simp add: sys_close_def)
  have "int (length (remove1 fd xs)) = int (length xs) - 1" if "fd \<in> set xs" for xs
    using that by (induction xs) auto
  then show "f_count f = int (length (fd_table f)) \<Longrightarrow> f_count (sys_close fd f) = int (length (fd_table (sys_close fd f)))"
    by (simp add: sys_close_def)
qed

lemma ioctl_ok:
  assumes "cryptodev_ioctl kdo unused A M sh filp cmd arg s = Some (ret, filp', s')" "file_ok filp"
  shows "file_ok filp' \<and> private_data filp' \<noteq> None"
proof -
  from assms obtain p where p: "private_data filp = Some p" "fcr_ok (fcrypts p)" "ring_ok p" "f_count filp = int (length (fd_table filp))"
    by (auto simp: cryptodev_ioctl_def file_ok_def split: option.splits)
  note c = commands_ok [OF p(2)] async_commands_ok [OF p(2,3)]
  from assms(1) p show ?thesis
    unfolding cryptodev_ioctl_def Let_def
    by (auto split: if_splits prod.splits simp: on_fcr_def on_pcr_def file_ok_def ioctl_crioget_def clonefd_def Let_def
        sys_close_ok dest: c)
qed

lemma compat_ioctl_ok:
  assumes "cryptodev_compat_ioctl kdo unused A M sh filp cmd arg s = Some (ret, filp', s')" "file_ok filp"
  shows "file_ok filp' \<and> private_data filp' \<noteq> None"
proof -
  from assms obtain p where p: "private_data filp = Some p" "fcr_ok (fcrypts p)" "ring_ok p" "f_count filp = int (length (fd_table filp))"
    by (auto simp: cryptodev_compat_ioctl_def file_ok_def split: option.splits)
  note c = commands_ok [OF p(2)] async_commands_ok [OF p(2,3)]
  from assms(1) p show ?thesis
    unfolding cryptodev_compat_ioctl_def Let_def
    by (auto split: if_splits prod.splits simp: on_fcr_def on_pcr_def file_ok_def dest: c ioctl_ok [OF _ assms(2), unfolded file_ok_def])
qed


section \<open>Theorems\<close>

lemma compat_ptr_back: "p < 2 ^ 32 \<Longrightarrow> compat_ptr (ptr_to_compat p) = p"
proof -
  assume "p < 2 ^ 32"
  then have "unat p < 2 ^ 32" by (simp add: word_less_nat_alt)
  then show ?thesis
    by (intro unsigned_word_eqI [where 'a = nat])
      (simp add: compat_ptr_def ptr_to_compat_def unsigned_ucast_eq unsigned_take_bit_eq take_bit_nat_eq_self)
qed

lemma compat_cop_back:
  assumes "cop_src x < 2 ^ 32" "cop_dst x < 2 ^ 32" "cop_mac x < 2 ^ 32" "cop_iv x < 2 ^ 32" "cop_pad y = cop_pad x"
  shows "compat_to_crypt_op (crypt_op_to_compat x) y = x"
  using assms by (simp add: compat_to_crypt_op_def crypt_op_to_compat_def compat_ptr_back)

lemma to_user_codes:
  "kcop_to_user kcop arg s = (r, t) \<Longrightarrow> r = 0 \<or> r = - EFAULT"
  "compat_kcop_to_user kcop arg s = (r, t) \<Longrightarrow> r = 0 \<or> r = - EFAULT"
  by (auto simp: kcop_to_user_def compat_kcop_to_user_def fill_cop_from_kcop_def split: prod.splits if_splits)

lemma to_user_agree:
  assumes "kcop_to_user kcop arg s = (0, t)" "compat_kcop_to_user kcop arg32 s = (0, t')"
    "\<not> in_range arg 48 a" "\<not> in_range arg32 28 a"
  shows "urd (um t') a = urd (um t) a"
proof -
  obtain r s1 where f: "fill_cop_from_kcop kcop s = (r, s1)" by fastforce
  have n: "length (crypt_op_bytes (k_cop kcop)) = 48" "length (compat_crypt_op_bytes (crypt_op_to_compat (k_cop kcop))) = 28"
    by (simp_all add: crypt_op.length_enc compat_crypt_op.length_enc)
  from assms(1,2) f have
    "copy_to_user (um s1) arg (crypt_op_bytes (k_cop kcop)) = (0, um t)"
    "copy_to_user (um s1) arg32 (compat_crypt_op_bytes (crypt_op_to_compat (k_cop kcop))) = (0, um t')"
    by (auto simp: kcop_to_user_def compat_kcop_to_user_def split: prod.splits if_splits)
  from user.store_frame [OF this(1), of a] user.store_frame [OF this(2), of a] assms(3,4) n show ?thesis by simp
qed

text \<open>C25: The 32-bit entry does what the native entry does (\<open>cryptodev_compat_ioctl\<close> and
  \<open>cryptodev_ioctl\<close> of ioctl.c).  When the same request is in memory in both layouts, its pointers
  below 4 GiB, both entries queue the same job with the same result, and both run the same
  operation: they end with the same sessions, fail with the same code and state, and when both succeed user memory differs
  only inside the two request blocks.\<close>

theorem compat_agrees:
  assumes mem: "copy_from_user (um s) arg 48 = Some (crypt_op_bytes x)"
      "copy_from_user (um s) arg32 28 = Some (compat_crypt_op_bytes (crypt_op_to_compat x))"
    and ptr: "cop_src x < 2 ^ 32" "cop_dst x < 2 ^ 32" "cop_mac x < 2 ^ 32" "cop_iv x < 2 ^ 32"
    and pad: "cop_pad x = cop_pad (k_cop (kcop_uninit s))"
  shows "cryptodev_compat_ioctl kdo unused A M sh filp (compat_code COMPAT_CIOCASYNCCRYPT) arg32 s
      = cryptodev_ioctl kdo unused A M sh filp (cmd_code CIOCASYNCCRYPT) arg s
    \<and> rel_option (\<lambda>(r, f, t) (r', f', t'). f' = f \<and> (r = 0 \<and> r' = 0 \<longrightarrow>
          (\<forall>a. \<not> in_range arg 48 a \<and> \<not> in_range arg32 28 a \<longrightarrow> urd (um t') a = urd (um t) a))
        \<and> (r \<noteq> 0 \<and> r \<noteq> - EFAULT \<longrightarrow> r' = r \<and> t' = t))
      (cryptodev_ioctl kdo unused A M sh filp (cmd_code CIOCCRYPT) arg s)
      (cryptodev_compat_ioctl kdo unused A M sh filp (compat_code COMPAT_CIOCCRYPT) arg32 s)"
proof -
  have fu: "compat_kcop_from_user fcr arg32 s = kcop_from_user fcr arg s" for fcr :: "'a fcrypt"
    using mem compat_cop_back [OF ptr pad [symmetric]]
    by (simp add: compat_kcop_from_user_def kcop_from_user_def crypt_op.dec_enc compat_crypt_op.dec_enc)
  have "ioctl_asynccrypt compat_kcop_from_user p arg32 s = ioctl_asynccrypt kcop_from_user p arg s" for p :: "'a crypt_priv"
    by (simp add: ioctl_asynccrypt_def fu)
  then have 1: "cryptodev_compat_ioctl kdo unused A M sh filp (compat_code COMPAT_CIOCASYNCCRYPT) arg32 s
      = cryptodev_ioctl kdo unused A M sh filp (cmd_code CIOCASYNCCRYPT) arg s"
    by (simp only: cryptodev_compat_ioctl_def cryptodev_ioctl_def cmd_compat_distinct [symmetric] compat_code_inj cmd_code_inj
        ioctl_cmd.distinct compat_cmd.distinct simp_thms if_True if_False Let_def cong: option.case_cong)
  have 2: "rel_option (\<lambda>(r, f, t) (r', f', t'). f' = f \<and> (r = 0 \<and> r' = 0 \<longrightarrow>
          (\<forall>a. \<not> in_range arg 48 a \<and> \<not> in_range arg32 28 a \<longrightarrow> urd (um t') a = urd (um t) a))
        \<and> (r \<noteq> 0 \<and> r \<noteq> - EFAULT \<longrightarrow> r' = r \<and> t' = t))
      (ioctl_crypt kcop_from_user kcop_to_user A M sh fcr arg s)
      (ioctl_crypt compat_kcop_from_user compat_kcop_to_user A M sh fcr arg32 s)" for fcr
    by (auto simp: ioctl_crypt_def fu split: Option.bind_splits prod.splits intro: to_user_agree dest: to_user_codes)
  have "rel_option (\<lambda>(r, f, t) (r', f', t'). f' = f \<and> (r = 0 \<and> r' = 0 \<longrightarrow>
          (\<forall>a. \<not> in_range arg 48 a \<and> \<not> in_range arg32 28 a \<longrightarrow> urd (um t') a = urd (um t) a))
        \<and> (r \<noteq> 0 \<and> r \<noteq> - EFAULT \<longrightarrow> r' = r \<and> t' = t))
      (on_fcr filp p (ioctl_crypt kcop_from_user kcop_to_user A M sh (fcrypts p) arg s))
      (on_fcr filp p (ioctl_crypt compat_kcop_from_user compat_kcop_to_user A M sh (fcrypts p) arg32 s))" for p
    unfolding on_fcr_def option.rel_map by (rule option.rel_mono_strong [OF 2 [of "fcrypts p"]]) auto
  then have "rel_option (\<lambda>(r, f, t) (r', f', t'). f' = f \<and> (r = 0 \<and> r' = 0 \<longrightarrow>
          (\<forall>a. \<not> in_range arg 48 a \<and> \<not> in_range arg32 28 a \<longrightarrow> urd (um t') a = urd (um t) a))
        \<and> (r \<noteq> 0 \<and> r \<noteq> - EFAULT \<longrightarrow> r' = r \<and> t' = t))
      (cryptodev_ioctl kdo unused A M sh filp (cmd_code CIOCCRYPT) arg s)
      (cryptodev_compat_ioctl kdo unused A M sh filp (compat_code COMPAT_CIOCCRYPT) arg32 s)"
    by (simp only: cryptodev_compat_ioctl_def cryptodev_ioctl_def cmd_compat_distinct [symmetric] compat_code_inj cmd_code_inj
        ioctl_cmd.distinct compat_cmd.distinct simp_thms if_True if_False Let_def split: option.split)
      simp
  with 1 show ?thesis ..
qed

definition priv_demo :: "byte list crypt_priv" where
  "priv_demo = pcr_demo\<lparr>fcrypts := [(ses_demo False)\<lparr>sid := 0\<rparr>]\<rparr>"

definition file_demo :: "byte list cfile" where
  "file_demo = \<lparr>private_data = Some priv_demo, f_count = 1, fd_table = [3]\<rparr>"

lemma demo_blocks: "crypt_op_bytes cop_zero = replicate 48 0" "compat_crypt_op_bytes (crypt_op_to_compat cop_zero) = replicate 28 0"
  "cop_pad (k_cop (kcop_uninit kst_demo)) = 0"
  by code_simp+

theorem compat_agrees_witness:
  "cryptodev_compat_ioctl True (\<lambda>_. 4) capi_demo mm_demo 4 file_demo (compat_code COMPAT_CIOCASYNCCRYPT) 2000 kst_demo
      = cryptodev_ioctl True (\<lambda>_. 4) capi_demo mm_demo 4 file_demo (cmd_code CIOCASYNCCRYPT) 1000 kst_demo
    \<and> rel_option (\<lambda>(r, f, t) (r', f', t'). f' = f \<and> (r = 0 \<and> r' = 0 \<longrightarrow>
          (\<forall>a. \<not> in_range 1000 48 a \<and> \<not> in_range 2000 28 a \<longrightarrow> urd (um t') a = urd (um t) a))
        \<and> (r \<noteq> 0 \<and> r \<noteq> - EFAULT \<longrightarrow> r' = r \<and> t' = t))
      (cryptodev_ioctl True (\<lambda>_. 4) capi_demo mm_demo 4 file_demo (cmd_code CIOCCRYPT) 1000 kst_demo)
      (cryptodev_compat_ioctl True (\<lambda>_. 4) capi_demo mm_demo 4 file_demo (compat_code COMPAT_CIOCCRYPT) 2000 kst_demo)"
  by (rule compat_agrees [of _ _ cop_zero]) (simp_all only: copy_zeros demo_blocks, simp_all add: cop_zero_def)

text \<open>C24: Creating a session through the ioctl (case \<open>CIOCGSESSION\<close> of ioctl.c) happens completely or not
  at all.  On success the file has one more session, unlocked and well formed, under a fresh
  identifier, the caller's block holds that identifier, and \<open>CIOCFSESSION\<close> with it restores the
  sessions and the kernel objects.  On failure the sessions are as before, and when it was the
  copy back to the caller that failed, the kernel objects are too.\<close>

theorem gsession_all_or_nothing:
  assumes "capi_ok A" "fcr_wf fcr s" "ioctl_gsession A fcr arg s = Some (ret, fcr', s')"
  shows "(ret = 0 \<longrightarrow> (\<exists>ses. fcr' = ses # fcr \<and> sid ses \<notin> set (map sid fcr) \<and> ses_ok ses \<and> \<not> sem ses
      \<and> map_option (sop_ses \<circ> session_op_of) (copy_from_user (um s') arg 48) = Some (sid ses)
      \<and> (\<forall>a. get_user32 (um s') a = Inr (sid ses) \<longrightarrow>
          (\<exists>s''. ioctl_fsession fcr' a s' = Some (0, fcr, s'') \<and> live s'' = live s \<and> bad_free s'' = bad_free s))))
    \<and> (ret \<noteq> 0 \<longrightarrow> ret < 0 \<and> fcr' = fcr)
    \<and> (ret \<noteq> 0 \<and> (\<exists>bs. copy_from_user (um s) arg 48 = Some bs
          \<and> map_option fst (crypto_create_session A fcr (session_op_of bs) s) = Some 0)
        \<longrightarrow> live s' = live s \<and> bad_free s' = bad_free s)"
proof (cases "copy_from_user (um s) arg 48")
  case None
  with assms(3) show ?thesis by (simp add: ioctl_gsession_def)
next
  case (Some bs)
  with assms(3) obtain r f sop t where c: "crypto_create_session A fcr (session_op_of bs) s = Some (r, f, sop, t)"
    "(if r \<noteq> 0 then Some (r, f, t) else gsession_done sop (copy_to_user (um t) arg (session_op_bytes sop)) f t) = Some (ret, fcr', s')"
    by (auto simp: ioctl_gsession_def elim!: bind_SomeE)
  note k = create_session_ok [OF c(1) assms(1,2)]
  show ?thesis
  proof (cases "r = 0")
    case False
    with k c Some show ?thesis by auto
  next
    case True
    from k True obtain ses where ses: "f = ses # fcr" "sid ses = sop_ses sop" "sid ses \<notin> set (map sid fcr)" "ses_ok ses" "\<not> sem ses"
      "allocates ([] @ session_ids ses) s t" by auto
    have fin: "\<exists>t''. crypto_finish_session f (sid ses) (t\<lparr>um := m\<rparr>) = Some (0, fcr, t'') \<and> live t'' = live s \<and> bad_free t'' = bad_free s" for m
    proof -
      have "allocates ([] @ session_ids ses) s (t\<lparr>um := m\<rparr>)" using ses(6) by (simp add: allocates_def heap_wf_def ids_def)
      then have "allocates [] s (kfrees (session_ids ses) (t\<lparr>um := m\<rparr>))"
        by (rule allocates_free) (use ses(6) in \<open>auto simp: allocates_def\<close>)
      then show ?thesis using ses(1,5) by (simp add: crypto_finish_session_def destroy_kfrees allocates_def)
    qed
    obtain n m where w: "copy_to_user (um t) arg (session_op_bytes sop) = (n, m)" by fastforce
    show ?thesis
    proof (cases "n = 0")
      case n: True
      with c True w have e: "ret = 0" "fcr' = f" "s' = t\<lparr>um := m\<rparr>" by (auto simp: gsession_done_def)
      have "map_option (sop_ses \<circ> session_op_of) (copy_from_user (um s') arg 48) = Some (sid ses)"
        using session_op.read_back [of "um t" arg sop m] w n ses(2) e(3) by (auto simp: option.map_comp [symmetric])
      with e ses fin [of m] show ?thesis by (auto simp: ioctl_fsession_def)
    next
      case False
      with c True w ses(2) fin [of m] show ?thesis by (auto simp: gsession_done_def elim!: bind_SomeE)
    qed
  qed
qed

definition kst_sop :: kst where
  "kst_sop = kst_demo\<lparr>um := snd (copy_to_user (um kst_demo) 1000 (session_op_bytes sop_demo))\<rparr>"

lemma demo_store: "copy_to_user (um kst_demo) a bs = (0, snd (copy_to_user (um kst_demo) a bs))"
  using user.store_all_writable [of bs "um kst_demo" a] by (simp add: prod_eq_iff uwr_def kst_demo_def)

lemma sop_demo_read: "copy_from_user (um kst_sop) 1000 48 = Some (session_op_bytes sop_demo)"
proof -
  have n: "length (session_op_bytes sop_demo) = 48" by (simp add: session_op.length_enc)
  from user.load_after_store [OF demo_store [of 1000 "session_op_bytes sop_demo"]] show ?thesis by (simp add: n kst_sop_def)
qed

lemma store_sop: "copy_to_user (um kst_sop) a bs = (0, snd (copy_to_user (um kst_sop) a bs))"
proof -
  have "uwr (um kst_sop) x c \<noteq> None" for x c
    using mapped_copy [of "um kst_demo" 1000 "session_op_bytes sop_demo" x] by (simp add: uwr_def kst_sop_def kst_demo_def)
  then show ?thesis using user.store_all_writable [of bs "um kst_sop" a] by (simp add: prod_eq_iff)
qed

theorem gsession_all_or_nothing_witness:
  "\<exists>fcr' s' ses. ioctl_gsession capi_demo [] 1000 kst_sop = Some (0, fcr', s') \<and> fcr' = [ses]
    \<and> map_option (sop_ses \<circ> session_op_of) (copy_from_user (um s') 1000 48) = Some (sid ses)"
proof -
  have wf: "fcr_wf [] kst_sop" using kst_demo_wf by (intro fcr_wf_Nil) (simp add: kst_sop_def heap_wf_def)
  have "map_option fst (crypto_create_session capi_demo [] sop_demo kst_sop) = Some 0" by code_simp
  then obtain fcr1 sop1 s1 where c: "crypto_create_session capi_demo [] sop_demo kst_sop = Some (0, fcr1, sop1, s1)" by auto
  have "um s1 = um kst_sop" using create_session_ok [OF c capi_demo_ok wf] by simp
  moreover obtain m where "copy_to_user (um kst_sop) 1000 (session_op_bytes sop1) = (0, m)" using store_sop by blast
  ultimately have g: "ioctl_gsession capi_demo [] 1000 kst_sop = Some (0, fcr1, s1\<lparr>um := m\<rparr>)"
    using c by (simp add: ioctl_gsession_def sop_demo_read session_op.dec_enc gsession_done_def)
  from gsession_all_or_nothing [OF capi_demo_ok wf g] g show ?thesis by auto
qed

text \<open>C22: Every command of either ioctl entry keeps the invariant of an open file: session identifiers
  stay distinct, no session stays locked, the job ring stays accounted for, every reference to the
  file has its descriptor, and a command that is not known is \<open>-EINVAL\<close> and changes nothing.\<close>

theorem ioctl_keeps_file_ok:
  assumes "file_ok filp"
    "f = (if native then cryptodev_ioctl kdo unused A M sh filp cmd arg s else cryptodev_compat_ioctl kdo unused A M sh filp cmd arg s)"
    "f = Some (ret, filp', s')"
  shows "file_ok filp' \<and> private_data filp' \<noteq> None
    \<and> (cmd \<notin> range cmd_code \<union> range compat_code \<longrightarrow> ret = - EINVAL \<and> filp' = filp \<and> s' = s)"
proof -
  have "ret = - EINVAL \<and> filp' = filp \<and> s' = s" if "cmd \<notin> range cmd_code \<union> range compat_code"
  proof -
    have "cmd \<noteq> cmd_code c" "cmd \<noteq> compat_code d" for c d using that by auto
    with assms(2,3) show ?thesis
      by (auto simp only: cryptodev_ioctl_def cryptodev_compat_ioctl_def Let_def if_False split: if_splits option.splits)
  qed
  then show ?thesis using assms ioctl_ok compat_ioctl_ok by (metis (no_types, lifting))
qed

theorem ioctl_keeps_file_ok_witness:
  "\<exists>filp' s'. cryptodev_ioctl True (\<lambda>_. 4) capi_demo mm_demo 4 file_demo (cmd_code CRIOGET) 1000 kst_demo = Some (0, filp', s') \<and> file_ok filp'"
proof -
  have "map_option fst (cryptodev_ioctl True (\<lambda>_. 4) capi_demo mm_demo 4 file_demo (cmd_code CRIOGET) 1000 kst_demo) = Some 0"
    by code_simp
  then obtain filp' s' where
    g: "cryptodev_ioctl True (\<lambda>_. 4) capi_demo mm_demo 4 file_demo (cmd_code CRIOGET) 1000 kst_demo = Some (0, filp', s')" by auto
  have ok: "file_ok file_demo"
    by (simp add: file_ok_def file_demo_def priv_demo_def fcr_ok_def sids_ok_def ring_ok_def pcr_demo_def ses_demo_def)
  from ioctl_keeps_file_ok [OF ok refl, of True, simplified, OF g] g show ?thesis by blast
qed

text \<open>\<open>CIOCGSESSINFO\<close> (ioctl.c) reports a failed copy to the caller as the positive number of bytes
  that were not copied, not as an error.\<close>

theorem gsessinfo_positive_result:
  assumes "copy_from_user (um s) arg 268 = Some bs" "get_session_info kdo A fcr (session_info_op_of bs) = Some (0, fcr', siop)"
    "\<not> uwritable (um s) arg" "siop_ok siop"
  shows "ioctl_gsessinfo kdo A fcr arg s = Some (268, fcr', s)"
proof -
  have n: "length (session_info_op_bytes siop) = 268" using assms(4) by (rule session_info_op.length_enc)
  then obtain b r where "session_info_op_bytes siop = b # r" by (cases "session_info_op_bytes siop") auto
  with n assms show ?thesis by (simp add: ioctl_gsessinfo_def uwr_def)
qed

definition kst_readonly :: kst where
  "kst_readonly = kst_demo\<lparr>um := (um kst_demo)\<lparr>uwritable := (\<lambda>_. False)\<rparr>\<rparr>"

lemma session_info_zero: "get_session_info True capi_demo [(ses_demo False)\<lparr>sid := 0\<rparr>] (session_info_op_of (replicate 268 0)) \<noteq> None
    \<and> (case get_session_info True capi_demo [(ses_demo False)\<lparr>sid := 0\<rparr>] (session_info_op_of (replicate 268 0)) of
         Some (r, f, x) \<Rightarrow> r = 0 \<and> siop_ok x | None \<Rightarrow> False)"
  by code_simp

theorem gsessinfo_positive_result_witness:
  "\<exists>fcr'. ioctl_gsessinfo True capi_demo [(ses_demo False)\<lparr>sid := 0\<rparr>] 1000 kst_readonly = Some (268, fcr', kst_readonly)"
proof -
  from session_info_zero obtain fcr' siop where
    g: "get_session_info True capi_demo [(ses_demo False)\<lparr>sid := 0\<rparr>] (session_info_op_of (replicate 268 0)) = Some (0, fcr', siop)" "siop_ok siop"
    by (auto split: option.splits)
  have "copy_from_user (um kst_readonly) a n = Some (replicate n 0)" for a n
    by (induction n arbitrary: a) (auto simp: kst_readonly_def kst_demo_def urd_def)
  then have "copy_from_user (um kst_readonly) 1000 268 = Some (replicate 268 0)" .
  from gsessinfo_positive_result [OF this g(1) _ g(2)] show ?thesis by (auto simp: kst_readonly_def)
qed

end
