(* ===== verification/Virtio_Crypto.thy ===== *)
theory Virtio_Crypto
  imports Virtio_Serial Cryptodev_Ioctl
begin

text \<open>
  The crypto port of the emulator (\<open>sgerag_virtio_crypto/qemu/virtio-crypto.c\<close>): a request the guest
  sent as a \<open>struct crypto_data\<close> is turned into an ioctl on \<open>/dev/crypto\<close> of the host, which is the
  driver of the theories on cryptodev, and the changed structure is sent back.  The request stays in
  guest memory, which is mapped into the emulator's address space, so that the host driver reads the
  key and the text and writes the result there.
\<close>

section \<open>The request\<close>

text \<open>
  \<open>struct crypto_data\<close>; the lengths of its text and IV arrays (\<open>CRYPTO_DATA_MAX_LEN\<close>,
  \<open>CRYPTO_BLOCK_MAX_LEN\<close>) are defined outside the sources and are arguments here.
\<close>

record layout =
  data_max :: nat
  block_max :: nat

definition off_key :: nat where "off_key = 48"
definition off_src :: nat where "off_src = 112"
definition off_dst :: "layout \<Rightarrow> nat" where "off_dst L = 112 + data_max L"
definition off_iv :: "layout \<Rightarrow> nat" where "off_iv L = 112 + 2 * data_max L"
definition off_cmd :: "layout \<Rightarrow> nat" where "off_cmd L = (112 + 2 * data_max L + block_max L + 3) div 4 * 4"
definition sz_crypto_data :: "layout \<Rightarrow> nat" where "sz_crypto_data L = (off_cmd L + 4 + 7) div 8 * 8"

section \<open>The emulator as a process of the host\<close>

text \<open>
  \<open>malloc\<close>ed \<open>struct crypto_info\<close> of a port: the pointer is null at first and dangles after it was freed.
\<close>

datatype cr_info = Null | Info int | Freed

record crypto_port =
  cp_chr :: bool
  cp_info :: cr_info

text \<open>The host: kernel state, the open files by descriptor, and what was written to the character device.\<close>

record 'h host =
  ho_kern :: kst
  ho_files :: "int \<Rightarrow> 'h cfile option"
  ho_chr :: "byte list list"

text \<open>
  What the process takes from its environment: where guest RAM is mapped, where the local structure
  of \<open>flush_buf\<close> is, whether \<open>malloc\<close> succeeds, the descriptor \<open>open\<close> picks, and the kernel's
  parameters of the driver.
\<close>

record 'h henv =
  he_base :: u64
  he_size :: nat
  he_stack :: u64
  he_malloc :: bool
  he_newfd :: "(int \<Rightarrow> 'h cfile option) \<Rightarrow> int"
  he_kdo :: bool
  he_unused :: "int list \<Rightarrow> int"
  he_api :: "'h capi"
  he_mm :: mm
  he_sh :: nat

type_synonym ('h, 't) cmach = "(crypto_port, 't, 'h host) vmach"

text \<open>The emulator's memory as the host kernel sees it: guest RAM in its window, the local structure on the stack.\<close>

definition process_memory :: "'h henv \<Rightarrow> gmem \<Rightarrow> byte list \<Rightarrow> umem \<Rightarrow> umem" where
  "process_memory H g arg u =
     u\<lparr>ubytes := (\<lambda>a. if in_range (he_stack H) (length arg) a then Some (arg ! unat (a - he_stack H))
                      else if in_range (he_base H) (he_size H) a then Some (g (a - he_base H)) else ubytes u a),
       uwritable := (\<lambda>a. in_range (he_stack H) (length arg) a \<or> in_range (he_base H) (he_size H) a \<or> uwritable u a)\<rparr>"

definition guest_view :: "'h henv \<Rightarrow> umem \<Rightarrow> gmem \<Rightarrow> gmem" where
  "guest_view H u g = (\<lambda>x. if in_range 0 (he_size H) x then the (ubytes u (he_base H + x)) else g x)"

definition stack_view :: "'h henv \<Rightarrow> umem \<Rightarrow> nat \<Rightarrow> byte list" where
  "stack_view H u n = map (\<lambda>i. the (ubytes u (he_stack H + of_nat i))) [0..<n]"

text \<open>The C library's \<open>ioctl\<close>: error codes of the kernel become \<open>-1\<close>.\<close>

definition host_ioctl :: "'h henv \<Rightarrow> int \<Rightarrow> u32 \<Rightarrow> byte list \<Rightarrow> ('h, 't) cmach \<Rightarrow> (int \<times> byte list \<times> ('h, 't) cmach) option" where
  "host_ioctl H fd cmd arg m =
     (let w = vs_world (rest m); g = mem (guest m)
      in case ho_files w fd of
           None \<Rightarrow> Some (- 1, arg, m)
         | Some filp \<Rightarrow>
             do {
               (r, filp', s) \<leftarrow> cryptodev_ioctl (he_kdo H) (he_unused H) (he_api H) (he_mm H) (he_sh H) filp cmd (he_stack H)
                 ((ho_kern w)\<lparr>um := process_memory H g arg (um (ho_kern w))\<rparr>);
               Some (if - 4095 \<le> r \<and> r \<le> - 1 then - 1 else r, stack_view H (um s) (length arg),
                 m\<lparr>guest := (guest m)\<lparr>mem := guest_view H (um s) g\<rparr>,
                   rest := (rest m)\<lparr>vs_world := w\<lparr>ho_kern := s, ho_files := (ho_files w)(fd \<mapsto> filp')\<rparr>\<rparr>\<rparr>)
             })"

section \<open>Callbacks of the port\<close>

definition port_info :: "u32 \<Rightarrow> ('h, 't) cmach \<Rightarrow> int option" where
  "port_info pid m = do { port \<leftarrow> find_port_by_id m pid; case cp_info (p_opaque port) of Info cfd \<Rightarrow> Some cfd | _ \<Rightarrow> None }"

definition set_mem :: "gmem \<Rightarrow> ('h, 't, 'x) machine \<Rightarrow> ('h, 't, 'x) machine" where
  "set_mem g m = m\<lparr>guest := (guest m)\<lparr>mem := g\<rparr>\<rparr>"

text \<open>Copying to guest memory from an address of the process, which has to be guest memory as well.\<close>

definition memcpy_guest :: "'h henv \<Rightarrow> u64 \<Rightarrow> u64 \<Rightarrow> nat \<Rightarrow> ('h, 't) cmach \<Rightarrow> ('h, 't) cmach option" where
  "memcpy_guest H dst src n m =
     (if unat (src - he_base H) + n \<le> he_size H then Some (set_mem (poke (mem (guest m)) dst (peek (mem (guest m)) (src - he_base H) n)) m)
      else None)"

text \<open>The changed request is sent back; a reply that does not fit the guest's buffers is cut off.\<close>

definition reply :: "layout \<Rightarrow> (crypto_port, 't, 'h host) senv \<Rightarrow> u32 \<Rightarrow> u64 \<Rightarrow> u64 \<Rightarrow> ('h, 't) cmach \<Rightarrow> (int \<times> ('h, 't) cmach) option" where
  "reply L E pid buf len m =
     (if unat len < sz_crypto_data L then None
      else do { (n, m1) \<leftarrow> virtio_serial_write E pid (peek (mem (guest m)) buf (sz_crypto_data L)) m; Some (0, m1) })"

definition flush_gsession :: "layout \<Rightarrow> 'h henv \<Rightarrow> (crypto_port, 't, 'h host) senv \<Rightarrow> u32 \<Rightarrow> u64 \<Rightarrow> u64 \<Rightarrow> ('h, 't) cmach \<Rightarrow> (int \<times> ('h, 't) cmach) option" where
  "flush_gsession L H E pid buf len m =
     do {
       let sess = (session_op_of (peek (mem (guest m)) buf 48))\<lparr>sop_key := he_base H + buf + of_nat off_key\<rparr>;
       cfd \<leftarrow> port_info pid m;
       (ret, arg, m1) \<leftarrow> host_ioctl H cfd (cmd_code CIOCGSESSION) (session_op_bytes sess) m;
       if ret \<noteq> 0 then Some (1, m1)
       else reply L E pid buf len (set_mem (poke (mem (guest m1)) (buf + 40) (put32 (sop_ses (session_op_of arg)))) m1)
     }"

definition flush_crypt :: "layout \<Rightarrow> 'h henv \<Rightarrow> (crypto_port, 't, 'h host) senv \<Rightarrow> u32 \<Rightarrow> u64 \<Rightarrow> u64 \<Rightarrow> ('h, 't) cmach \<Rightarrow> (int \<times> ('h, 't) cmach) option" where
  "flush_crypt L H E pid buf len m =
     do {
       let at = (\<lambda>off. he_base H + buf + of_nat off);
       let crypt = (crypt_op_of (peek (mem (guest m)) buf 48))\<lparr>cop_src := at off_src, cop_dst := at (off_dst L), cop_iv := at (off_iv L)\<rparr>;
       cfd \<leftarrow> port_info pid m;
       (ret, arg, m1) \<leftarrow> host_ioctl H cfd (cmd_code CIOCCRYPT) (crypt_op_bytes crypt) m;
       if ret \<noteq> 0 then Some (1, m1)
       else do {
         let crypt' = crypt_op_of arg;
         m2 \<leftarrow> memcpy_guest H (buf + of_nat (off_dst L)) (cop_dst crypt') (unat (cop_len crypt')) m1;
         reply L E pid buf len m2
       }
     }"

definition flush_fsession :: "layout \<Rightarrow> 'h henv \<Rightarrow> (crypto_port, 't, 'h host) senv \<Rightarrow> u32 \<Rightarrow> u64 \<Rightarrow> u64 \<Rightarrow> ('h, 't) cmach \<Rightarrow> (int \<times> ('h, 't) cmach) option" where
  "flush_fsession L H E pid buf len m =
     do {
       let sess_id = peek (mem (guest m)) buf 4;
       cfd \<leftarrow> port_info pid m;
       (ret, arg, m1) \<leftarrow> host_ioctl H cfd (cmd_code CIOCFSESSION) sess_id m;
       if ret \<noteq> 0 then Some (1, m1) else reply L E pid buf len (set_mem (poke (mem (guest m1)) buf arg) m1)
     }"

definition flush_buf :: "layout \<Rightarrow> 'h henv \<Rightarrow> (crypto_port, 't, 'h host) senv \<Rightarrow> u32 \<Rightarrow> u64 \<Rightarrow> u64 \<Rightarrow> ('h, 't) cmach \<Rightarrow> (int \<times> ('h, 't) cmach) option" where
  "flush_buf L H E pid buf len m =
     do {
       port \<leftarrow> find_port_by_id m pid;
       if \<not> cp_chr (p_opaque port) then Some (sint len, m)
       else if unat len < off_cmd L + 4 then None
       else do {
         let cmd = ldl_phys (mem (guest m)) (buf + of_nat (off_cmd L));
         if cmd = cmd_code CIOCGSESSION then flush_gsession L H E pid buf len m
         else if cmd = cmd_code CIOCCRYPT then flush_crypt L H E pid buf len m
         else if cmd = cmd_code CIOCFSESSION then flush_fsession L H E pid buf len m
         else Some (- EINVAL, m\<lparr>rest := (rest m)\<lparr>vs_world := (vs_world (rest m))\<lparr>ho_chr := ho_chr (vs_world (rest m)) @ [peek (mem (guest m)) buf (unat len)]\<rparr>\<rparr>\<rparr>)
       }
     }"

definition set_info :: "u32 \<Rightarrow> cr_info \<Rightarrow> ('h, 't) cmach \<Rightarrow> ('h, 't) cmach" where
  "set_info pid i = upd_port pid (\<lambda>p. p\<lparr>p_opaque := (p_opaque p)\<lparr>cp_info := i\<rparr>\<rparr>)"

definition sys_open :: "'h henv \<Rightarrow> 'h host \<Rightarrow> int \<times> 'h host" where
  "sys_open H w =
     (let fd = he_newfd H (ho_files w)
      in if fd < 0 then (- 1, w)
         else
           (case cryptodev_open (ho_kern w) of
              (ret, priv, s) \<Rightarrow>
                if ret \<noteq> 0 then (- 1, w\<lparr>ho_kern := s\<rparr>)
                else (fd, w\<lparr>ho_kern := s, ho_files := (ho_files w)(fd \<mapsto> \<lparr>private_data = priv, f_count = 1, fd_table = [fd]\<rparr>)\<rparr>)))"

definition guest_open :: "'h henv \<Rightarrow> u32 \<Rightarrow> ('h, 't) cmach \<Rightarrow> ('h, 't) cmach option" where
  "guest_open H pid m =
     do {
       port \<leftarrow> find_port_by_id m pid;
       if \<not> cp_chr (p_opaque port) then Some m
       else if \<not> he_malloc H then Some (set_info pid Null m)
       else (let (fd, w) = sys_open H (vs_world (rest m)) in Some (set_info pid (Info fd) (m\<lparr>rest := (rest m)\<lparr>vs_world := w\<rparr>\<rparr>)))
     }"

text \<open>Closing a descriptor; the file is released with its last descriptor.\<close>

definition host_close :: "int \<Rightarrow> 'h host \<Rightarrow> 'h host option" where
  "host_close fd w =
     (case ho_files w fd of
        None \<Rightarrow> Some w
      | Some filp \<Rightarrow>
          (let filp' = sys_close fd filp; w1 = w\<lparr>ho_files := (ho_files w)(fd := None)\<rparr>
           in if 0 < f_count filp' then Some w1
              else do { (ret, warn, s) \<leftarrow> cryptodev_release (private_data filp) (ho_kern w); Some (w1\<lparr>ho_kern := s\<rparr>) }))"

definition guest_close :: "u32 \<Rightarrow> ('h, 't) cmach \<Rightarrow> ('h, 't) cmach option" where
  "guest_close pid m =
     do {
       port \<leftarrow> find_port_by_id m pid;
       if \<not> cp_chr (p_opaque port) then Some m
       else do {
         cfd \<leftarrow> port_info pid m;
         w \<leftarrow> host_close cfd (vs_world (rest m));
         Some (set_info pid Freed (m\<lparr>rest := (rest m)\<lparr>vs_world := w\<rparr>\<rparr>))
       }
     }"

section \<open>The character device behind the port\<close>

definition chr_can_read :: "u32 \<Rightarrow> ('h, 't) cmach \<Rightarrow> u64 option" where
  "chr_can_read pid m = virtio_serial_guest_ready pid m"

definition chr_read :: "(crypto_port, 't, 'h host) senv \<Rightarrow> u32 \<Rightarrow> byte list \<Rightarrow> ('h, 't) cmach \<Rightarrow> ('h, 't) cmach option" where
  "chr_read E pid buf m = map_option snd (virtio_serial_write E pid buf m)"

datatype chr_ev = CHR_EVENT_OPENED | CHR_EVENT_CLOSED | CHR_EVENT_OTHER

definition chr_event :: "(crypto_port, 't, 'h host) senv \<Rightarrow> u32 \<Rightarrow> chr_ev \<Rightarrow> ('h, 't) cmach \<Rightarrow> ('h, 't) cmach option" where
  "chr_event E pid event m =
     (case event of
        CHR_EVENT_OPENED \<Rightarrow> virtio_serial_open E pid m
      | CHR_EVENT_CLOSED \<Rightarrow> virtio_serial_close E pid m
      | CHR_EVENT_OTHER \<Rightarrow> Some m)"

definition virtconsole_initfn :: "crypto_port port \<Rightarrow> ('h, 't) cmach \<Rightarrow> (int \<times> crypto_port port \<times> ('h, 't) cmach) option" where
  "virtconsole_initfn port m = (if p_id port = 0 \<and> \<not> p_is_console port then Some (- 1, port, m) else Some (0, port, m))"

text \<open>
  The class of the port.  \<open>flush_buf\<close> writes to the port, so that the environment of the bus holds a
  class that refers to the bus; the class of the environment that \<open>flush_buf\<close> uses is never called,
  because writing to a port calls no callback.
\<close>

definition crypto_class :: "layout \<Rightarrow> 'h henv \<Rightarrow> (crypto_port, 't, 'h host) senv \<Rightarrow> (crypto_port, 't, 'h host) port_class" where
  "crypto_class L H E =
     \<lparr>pc_init = virtconsole_initfn, pc_exit = None, pc_guest_open = Some (guest_open H), pc_guest_close = Some guest_close,
      pc_guest_ready = None, pc_have_data = flush_buf L H E\<rparr>"

definition crypto_env :: "layout \<Rightarrow> 'h henv \<Rightarrow> (u64 \<Rightarrow> u64 \<Rightarrow> bool \<Rightarrow> bool) \<Rightarrow> (handler, 't, (crypto_port, 'h host) vserial) virtio_bindings \<Rightarrow> (crypto_port, 't, 'h host) senv" where
  "crypto_env L H ram b =
     (let no_class = \<lparr>pc_init = virtconsole_initfn, pc_exit = None, pc_guest_open = None, pc_guest_close = None,
                      pc_guest_ready = None, pc_have_data = (\<lambda>pid buf len m. None)\<rparr>
      in \<lparr>se_ram = ram, se_bind = b, se_class = crypto_class L H \<lparr>se_ram = ram, se_bind = b, se_class = no_class\<rparr>\<rparr>)"


section \<open>The port class keeps the bus\<close>

lemma find_port_keep_world [simp]: "find_port_by_id (m\<lparr>rest := (rest m)\<lparr>vs_world := w\<rparr>\<rparr>) pid = find_port_by_id m pid"
  by (simp add: find_port_by_id_def)

lemma shape_world [simp]: "shape (m\<lparr>rest := (rest m)\<lparr>vs_world := w\<rparr>\<rparr>) = shape m"
  by (simp add: shape_def Let_def)

lemma shape_set_mem [simp]: "shape (set_mem g m) = shape m"
  by (simp add: shape_def Let_def set_mem_def)

lemma shape_set_info [simp]: "shape (set_info pid i m) = shape m"
  by (simp add: set_info_def shape_upd_port port_key_def)

lemma shape_host_ioctl: "host_ioctl H fd cmd arg m = Some (ret, arg', m') \<Longrightarrow> shape m' = shape m"
  by (auto simp: host_ioctl_def Let_def shape_def elim!: bind_SomeE split: option.splits)

lemma shape_reply: "reply L E pid buf len m = Some (ret, m') \<Longrightarrow> shape m' = shape m"
  by (auto simp: reply_def elim!: bind_SomeE split: if_splits dest!: shape_write)

lemma shape_memcpy: "memcpy_guest H dst src n m = Some m' \<Longrightarrow> shape m' = shape m"
  by (auto simp: memcpy_guest_def split: if_splits)

lemma shape_flush_buf: "flush_buf L H E pid buf len m = Some (ret, m') \<Longrightarrow> shape m' = shape m"
  by (auto simp: flush_buf_def flush_gsession_def flush_crypt_def flush_fsession_def Let_def elim!: bind_SomeE split: if_splits
      dest!: shape_host_ioctl shape_reply shape_memcpy)

lemma shape_guest_open: "guest_open H pid m = Some m' \<Longrightarrow> shape m' = shape m"
  by (auto simp: guest_open_def elim!: bind_SomeE split: if_splits prod.splits)

lemma shape_guest_close: "guest_close pid m = Some m' \<Longrightarrow> shape m' = shape m"
  by (auto simp: guest_close_def elim!: bind_SomeE split: if_splits)

interpretation crypto: port_hooks "crypto_env L H ram b"
proof unfold_locales
  fix p p' ret m m'
  assume "pc_init (se_class (crypto_env L H ram b)) p m = Some (ret, p', m')"
  then show "shape m' = shape m \<and> p_id p' = p_id p"
    by (auto simp: crypto_env_def crypto_class_def Let_def virtconsole_initfn_def split: if_splits)
qed (auto simp: crypto_env_def crypto_class_def Let_def dest: shape_guest_open shape_guest_close shape_flush_buf)

text \<open>C11: The bus of the crypto device stays well-formed: from its set-up on, whatever the guest writes to
  its memory and to the registers, whatever arrives on the queues, and however ports are opened,
  written, plugged and unplugged, there are 1 to 31 ports' worth of queues, all different, ports have
  different identifiers below that number which are marked in the map, and a port is found by its
  identifier and by its queue.
\<close>

theorem crypto_bus_ok:
  assumes "virtio_serial_init n running g t w = Some (Some m)" "bus_run (crypto_env L H ram b) m m'"
  shows "serial_ok m' \<and> (\<forall>p \<in> set (vs_ports (rest m')). find_port_by_vq m' (p_ovq p) = Some p \<and> find_port_by_id m' (p_id p) = Some p)"
proof -
  have "serial_ok m" using serial_init_ok [OF assms(1)] .
  with assms(2) have ok: "serial_ok m'" by (rule crypto.run_ok)
  moreover have "find_port_by_id m' (p_id p) = Some p" if "p \<in> set (vs_ports (rest m'))" for p
    using find_by_id [OF ok that] .
  ultimately show ?thesis using find_by_vq by blast
qed


text \<open>A device for two ports, and the port that is plugged into it.\<close>

definition host_demo :: "byte list host" where
  "host_demo = \<lparr>ho_kern = kst_demo, ho_files = Map.empty, ho_chr = []\<rparr>"

definition henv_demo :: "byte list henv" where
  "henv_demo = \<lparr>he_base = 0x10000000, he_size = 0x100000, he_stack = 0x1000, he_malloc = True, he_newfd = (\<lambda>_. 5), he_kdo = True,
     he_unused = (\<lambda>_. 6), he_api = capi_demo, he_mm = mm_demo, he_sh = 4\<rparr>"

definition port_demo :: "crypto_port port" where
  "port_demo = \<lparr>p_ivq = 0, p_ovq = 0, p_name = None, p_id = 1, p_elem = elem_empty, p_iov_idx = 0, p_iov_offset = 0,
     p_guest_connected = False, p_host_connected = False, p_throttled = False, p_is_console = False,
     p_opaque = \<lparr>cp_chr = True, cp_info = Null\<rparr>\<rparr>"

abbreviation (input) env_demo :: "(crypto_port, unit, byte list host) senv" where
  "env_demo \<equiv> crypto_env \<lparr>data_max = 16, block_max = 16\<rparr> henv_demo (\<lambda>_ _ _. True) bindings_none"

definition bus_demo :: "(byte list, unit) cmach" where
  "bus_demo = (case virtio_serial_init 2 True gst_zero () host_demo of Some (Some m) \<Rightarrow> m)"

lemma bus_demo_init: "virtio_serial_init 2 True gst_zero () host_demo = Some (Some bus_demo)"
  using serial_init_result [of 2 True gst_zero "()" host_demo, where 'p = crypto_port] by (auto simp: bus_demo_def)

lemma bus_demo_fields:
  "vs_c_ivq (rest bus_demo) = 2" "length (vd_vq (vdev bus_demo)) = 64" "vr_avail (vring (vd_vq (vdev bus_demo) ! 2)) = 0"
  "vs_ports (rest bus_demo) = []" "vs_ports_map (rest bus_demo) = [1]" "vs_max_nr_ports (rest bus_demo) = 2"
  "vs_ivqs (rest bus_demo) = [0, 4]" "vs_ovqs (rest bus_demo) = [1, 5]" "vd_status (vdev bus_demo) = 0"
  by code_simp+

lemma bus_demo_plug: "case virtser_port_qdev_init env_demo port_demo bus_demo of Some (ret, m) \<Rightarrow> ret = 0 \<and> port_ids m = [1] | None \<Rightarrow> False"
  by (simp add: virtser_port_qdev_init_def find_port_by_id_def choose_port_id_def crypto_env_def crypto_class_def virtconsole_initfn_def insert_port_def
      add_port_def mark_port_added_def announce_port_def send_control_event_def send_control_msg_def vq_ready_def get_vq_def virtio_notify_config_def
      virtio_queue_ready_def port_ids_def port_demo_def bus_demo_fields word_le_nat_alt)

theorem crypto_bus_ok_witness:
  "\<exists>m m'. virtio_serial_init 2 True gst_zero () host_demo = Some (Some m) \<and> bus_run env_demo m m' \<and> port_ids m' = [1] \<and> serial_ok m'"
proof -
  from bus_demo_plug obtain m' where m': "virtser_port_qdev_init env_demo port_demo bus_demo = Some (0, m')" "port_ids m' = [1]"
    by (auto split: option.splits)
  have "bus_run env_demo bus_demo m'" by (rule bus_run.step [OF bus_run.start bus_step.plug [OF m'(1)]])
  with crypto_bus_ok [OF bus_demo_init this] bus_demo_init m'(2) show ?thesis by blast
qed

end
