(* ===== verification/Crypto_Path.thy ===== *)
theory Crypto_Path
  imports Virtio_Crypto
begin

text \<open>
  The whole path of a cipher request: from the structure the guest's driver put on a queue, through
  \<open>flush_buf\<close> of the emulator (\<open>virtio-crypto.c\<close>) and \<open>CIOCCRYPT\<close> of the host's driver
  (\<open>cryptodev-linux\<close>), to the cipher text in the guest's memory.  The first section relates the three
  views of the same bytes: guest memory, the emulator's address space, and user memory as the kernel
  accesses it.
\<close>

section \<open>Memory of the emulator\<close>

text \<open>Guest RAM and the local structure of \<open>flush_buf\<close> do not overlap in the emulator's address space.\<close>

definition process_ok :: "'h henv \<Rightarrow> nat \<Rightarrow> bool" where
  "process_ok H n \<longleftrightarrow> he_size H \<le> 2 ^ 64 \<and> n \<le> 2 ^ 64 \<and> disjoint_ranges (he_stack H) n (he_base H) (he_size H)"

text \<open>A request that lies in guest RAM.\<close>

definition in_ram :: "'h henv \<Rightarrow> u64 \<Rightarrow> nat \<Rightarrow> bool" where
  "in_ram H x n \<longleftrightarrow> unat x + n \<le> he_size H"

lemma copy_from_all:
  "(\<And>i. i < n \<Longrightarrow> ubytes m (a + of_nat i) = Some (bs ! i)) \<Longrightarrow> length bs = n \<Longrightarrow> copy_from_user m a n = Some bs"
proof (induction n arbitrary: a bs)
  case (Suc n)
  then obtain b cs where bs: "bs = b # cs" by (cases bs) auto
  have "copy_from_user m (a + 1) n = Some cs"
  proof (rule Suc.IH)
    fix i assume "i < n"
    then show "ubytes m (a + 1 + of_nat i) = Some (cs ! i)" using Suc.prems(1) [of "Suc i"] by (simp add: bs add.assoc)
  qed (use Suc.prems bs in simp)
  moreover have "urd m a = Some b" using Suc.prems(1) [of 0] by (simp add: bs urd_def)
  ultimately show ?case by (simp add: bs)
qed simp

lemma copy_to_all:
  assumes "can_write m a (length bs)" "length bs \<le> 2 ^ 64"
  shows "fst (copy_to_user m a bs) = 0"
    "ubytes (snd (copy_to_user m a bs)) x = (if in_range a (length bs) x then Some (bs ! unat (x - a)) else ubytes m x)"
proof -
  show z: "fst (copy_to_user m a bs) = 0"
    using assms(1) by (intro user.store_all_writable) (auto simp: uwr_def can_write_iff)
  then have s: "copy_to_user m a bs = (0, snd (copy_to_user m a bs))" by (simp add: prod_eq_iff)
  show "ubytes (snd (copy_to_user m a bs)) x = (if in_range a (length bs) x then Some (bs ! unat (x - a)) else ubytes m x)"
  proof (cases "in_range a (length bs) x")
    case True
    have "a + of_nat (unat (x - a)) = x" by (simp only: of_nat_unat ucast_id) simp
    with load_bytes_nth [OF user.load_after_store [OF s assms(2)], of "unat (x - a)"] True show ?thesis
      by (simp add: urd_def in_range_def)
  next
    case False
    with user.store_frame [OF s assms(2)] show ?thesis by (simp add: urd_def)
  qed
qed

lemma window_not_stack:
  assumes "process_ok H n" "in_range (he_stack H) n a" shows "\<not> in_range (he_base H) (he_size H) a"
proof -
  have e: "he_stack H + of_nat (unat (a - he_stack H)) = a" by (simp only: of_nat_unat ucast_id) simp
  have "unat (a - he_stack H) < n" using assms(2) by (simp add: in_range_def)
  with assms(1) have "\<not> in_range (he_base H) (he_size H) (he_stack H + of_nat (unat (a - he_stack H)))"
    unfolding process_ok_def disjoint_iff by blast
  then show ?thesis unfolding e .
qed

lemma in_ram_offset:
  assumes "in_ram H x n" "i < n" "he_size H \<le> 2 ^ 64"
  shows "unat (x + of_nat i) = unat x + i" "in_range (he_base H) (he_size H) (he_base H + x + of_nat i)"
proof -
  have "unat x + i < he_size H" using assms by (simp add: in_ram_def)
  then show "unat (x + of_nat i) = unat x + i" using assms(3) by (simp add: unat_word_ariths unat_of_nat)
  then show "in_range (he_base H) (he_size H) (he_base H + x + of_nat i)"
    using \<open>unat x + i < he_size H\<close> by (simp add: in_range_def add.assoc)
qed

lemma pm_stack: "process_ok H (length arg) \<Longrightarrow> copy_from_user (process_memory H g arg u) (he_stack H) (length arg) = Some arg"
  by (rule copy_from_all) (auto simp: process_memory_def process_ok_def in_range_def unat_of_nat_small)

lemma pm_stack_write: "process_ok H (length arg) \<Longrightarrow> can_write (process_memory H g arg u) (he_stack H) (length arg)"
  by (auto simp: can_write_iff process_memory_def process_ok_def in_range_def unat_of_nat_small)

lemma pm_guest:
  assumes "process_ok H (length arg)" "in_ram H x n"
  shows "copy_from_user (process_memory H g arg u) (he_base H + x) n = Some (peek g x n)" "can_write (process_memory H g arg u) (he_base H + x) n"
proof -
  have w: "in_range (he_base H) (he_size H) (he_base H + x + of_nat i)" "\<not> in_range (he_stack H) (length arg) (he_base H + x + of_nat i)" if "i < n" for i
    using in_ram_offset(2) [OF assms(2) that] assms(1) window_not_stack [OF assms(1)] by (auto simp: process_ok_def)
  then show "copy_from_user (process_memory H g arg u) (he_base H + x) n = Some (peek g x n)"
    by (intro copy_from_all) (simp_all add: process_memory_def peek_def add.assoc)
  from w show "can_write (process_memory H g arg u) (he_base H + x) n" by (simp add: can_write_iff process_memory_def)
qed

text \<open>What the emulator and the guest see after the driver wrote into the request, and after it wrote the structure back.\<close>

lemma views_unchanged:
  assumes "process_ok H (length arg)"
  shows "guest_view H (process_memory H g arg u) g = g" "stack_view H (process_memory H g arg u) (length arg) = arg"
proof -
  have "guest_view H (process_memory H g arg u) g x = g x" for x
    using window_not_stack [OF assms, of "he_base H + x"] by (auto simp: guest_view_def process_memory_def in_range_def)
  then show "guest_view H (process_memory H g arg u) g = g" by blast
  show "stack_view H (process_memory H g arg u) (length arg) = arg"
    using assms by (intro nth_equalityI) (auto simp: stack_view_def process_memory_def process_ok_def in_range_def unat_of_nat_small)
qed

lemma views_guest_write:
  assumes p: "process_ok H (length arg)" and r: "in_ram H x (length bs)"
  shows "guest_view H (snd (copy_to_user (process_memory H g arg u) (he_base H + x) bs)) g = poke g x bs"
    "stack_view H (snd (copy_to_user (process_memory H g arg u) (he_base H + x) bs)) (length arg) = arg"
proof -
  let ?m = "process_memory H g arg u"
  have len: "length bs \<le> 2 ^ 64" using p r by (simp add: process_ok_def in_ram_def)
  note c = copy_to_all(2) [OF pm_guest(2) [OF p r] len]
  show "guest_view H (snd (copy_to_user ?m (he_base H + x) bs)) g = poke g x bs"
  proof
    fix y
    have e: "in_range (he_base H + x) (length bs) (he_base H + y) = in_range x (length bs) y" by (simp add: in_range_def)
    have inw: "in_range 0 (he_size H) y" if "in_range x (length bs) y"
    proof -
      have i: "unat (y - x) < length bs" using that by (simp add: in_range_def)
      have "x + of_nat (unat (y - x)) = y" by (simp only: of_nat_unat ucast_id) simp
      with in_ram_offset(1) [OF r i] p have "unat y = unat x + unat (y - x)" by (simp add: process_ok_def)
      with i r show ?thesis by (simp add: in_range_def in_ram_def)
    qed
    show "guest_view H (snd (copy_to_user ?m (he_base H + x) bs)) g y = poke g x bs y"
    proof (cases "in_range x (length bs) y")
      case True
      with inw show ?thesis by (simp add: guest_view_def poke_def c e)
    next
      case False
      moreover have "guest_view H ?m g y = g y" using views_unchanged(1) [OF p, of g u] by simp
      ultimately show ?thesis by (simp add: guest_view_def poke_def c e split: if_splits)
    qed
  qed
  have ns: "\<not> in_range (he_base H + x) (length bs) (he_stack H + of_nat i)" if "i < length arg" for i
  proof
    assume a: "in_range (he_base H + x) (length bs) (he_stack H + of_nat i)"
    define j where "j = unat (he_stack H + of_nat i - (he_base H + x))"
    have j: "j < length bs" using a by (simp add: in_range_def j_def)
    have "he_base H + x + of_nat j = he_stack H + of_nat i" unfolding j_def by (simp only: of_nat_unat ucast_id) simp
    with in_ram_offset(2) [OF r j] p have "in_range (he_base H) (he_size H) (he_stack H + of_nat i)" by (simp add: process_ok_def)
    moreover have "in_range (he_stack H) (length arg) (he_stack H + of_nat i)" using that p by (intro in_range_offset) (auto simp: process_ok_def)
    ultimately show False using window_not_stack [OF p] by blast
  qed
  have "stack_view H (snd (copy_to_user ?m (he_base H + x) bs)) (length arg) = stack_view H ?m (length arg)"
    using ns by (simp add: stack_view_def c)
  then show "stack_view H (snd (copy_to_user ?m (he_base H + x) bs)) (length arg) = arg" by (simp add: views_unchanged(2) [OF p])
qed


section \<open>The ioctl\<close>

lemma unlocked_again: "\<not> sem ses \<Longrightarrow> ses\<lparr>sem := False\<rparr> = ses"
  by simp

text \<open>The IV of a request is the caller's, or nothing for a caller that gives none.\<close>

definition given_iv :: "umem \<Rightarrow> crypt_op \<Rightarrow> nat \<Rightarrow> byte list \<Rightarrow> bool" where
  "given_iv m cop n ivb \<longleftrightarrow> (if cop_iv cop = 0 then ivb = [] else copy_from_user m (cop_iv cop) n = Some ivb)"

lemma kcop_from_user_ready:
  assumes ses: "find_session (cop_ses cop) fcr = Some ses" "\<not> sem ses" "c_ivsize (cdata ses) \<le> 16"
    and rd: "copy_from_user (um s) arg 48 = Some (crypt_op_bytes cop)" "given_iv (um s) cop (c_ivsize (cdata ses)) ivb"
  shows "\<exists>fcr' kcop. kcop_from_user fcr arg s = Some (0, fcr', kcop) \<and> k_cop kcop = cop \<and> k_ivlen kcop = length ivb
    \<and> k_digestsize kcop = 0 \<and> take (length ivb) (k_iv kcop) = ivb \<and> length (k_iv kcop) = 16 \<and> find_session (cop_ses cop) fcr' = Some ses"
proof -
  define fcr' where "fcr' = crypto_put_session (ses\<lparr>sem := True\<rparr>) (replace_session (ses\<lparr>sem := True\<rparr>) fcr)"
  have "find_session (cop_ses cop) fcr' = Some (ses\<lparr>sem := True\<rparr>\<lparr>sem := False\<rparr>)"
    by (rule locked_session(2) [OF ses(1) _ fcr'_def]) simp
  then have f: "find_session (cop_ses cop) fcr' = Some ses" using unlocked_again [OF ses(2)] by simp
  have l: "length ivb = (if cop_iv cop = 0 then 0 else c_ivsize (cdata ses))"
    using rd(2) length_load_bytes [of urd "um s" "cop_iv cop" "c_ivsize (cdata ses)" ivb] by (auto simp: given_iv_def split: if_splits)
  define kcop where "kcop = (kcop_uninit s)\<lparr>k_cop := cop, k_ivlen := length ivb, k_digestsize := 0,
    k_iv := ivb @ drop (length ivb) (k_iv (kcop_uninit s))\<rparr>"
  have "kcop_from_user fcr arg s = Some (0, fcr', kcop)"
    using ses rd l by (cases "cop_iv cop = 0")
      (simp_all add: kcop_from_user_def fill_kcop_from_cop_def crypto_get_session_by_sid_def crypt_op.dec_enc Let_def fcr'_def kcop_def given_iv_def kcop_uninit_def)
  moreover have "length (k_iv kcop) = 16" "take (length ivb) (k_iv kcop) = ivb"
    using l ses(3) by (simp_all add: kcop_def kcop_uninit_def)
  ultimately show ?thesis using f by (intro exI [of _ fcr'] exI [of _ kcop]) (simp add: kcop_def)
qed

text \<open>
  \<open>CIOCCRYPT\<close> on a structure in user memory, for a session with a block cipher and no hash.  The IV
  the session keeps is the one the next request without an IV starts from.
\<close>

lemma ioctl_crypt_session:
  assumes ses: "find_session (cop_ses cop) fcr = Some ses" "\<not> sem ses" "\<not> h_init (hdata ses)" "c_ivsize (cdata ses) \<le> 16"
    and sem: "ses_sem A ses t bsz f g u" "c_blocksize (cdata ses) = bsz" "0 < bsz" "bsz dvd 2 ^ sh"
    and op: "cop_op cop = (if enc then COP_ENCRYPT else COP_DECRYPT)" "bsz dvd unat (cop_len cop)" "cop_len cop \<noteq> 0"
      "\<not> has_flag (cop_flags cop) COP_FLAG_WRITE_IV"
    and arg: "copy_from_user (um s) arg 48 = Some (crypt_op_bytes cop)"
    and rd: "copy_from_user (um s) (cop_src cop) (unat (cop_len cop)) = Some bs" "given_iv (um s) cop (c_ivsize (cdata ses)) ivb"
    and wr: "can_write (um s) (cop_dst cop) (unat (cop_len cop))" "can_write (um s) arg 48"
    and nc: "no_clobber (cop_src cop) (cop_dst cop) (unat (cop_len cop))"
    and zc: "zc_wf ses" "zc_ready M sh (um s) (cop_src cop) (cop_dst cop) (cop_len cop)"
    and iv: "iv = ivb @ drop (length ivb) (c_iv (cdata ses))"
  shows "\<exists>ret fcr' s'. ioctl_crypt kcop_from_user kcop_to_user A M sh fcr arg s = Some (ret, fcr', s') \<and> pins s' = pins s
    \<and> (ret = 0 \<and> um s' = snd (copy_to_user (snd (copy_to_user (um s) (cop_dst cop) (f enc iv bs))) arg (crypt_op_bytes cop))
      \<or> ret = - ENOMEM \<and> um s' = um s)
    \<and> (\<exists>ses' r. find_session (cop_ses cop) fcr' = Some ses' \<and> \<not> sem ses' \<and> zc_wf ses' \<and> hdata ses' = hdata ses
        \<and> cdata ses' = (cdata ses)\<lparr>c_iv := (if ret = 0 then g enc iv bs else iv), c_res := r\<rparr>)"
proof -
  from kcop_from_user_ready [OF ses(1,2,4) arg rd(2)] obtain fcr1 kcop where k: "kcop_from_user fcr arg s = Some (0, fcr1, kcop)"
    "k_cop kcop = cop" "k_ivlen kcop = length ivb" "k_digestsize kcop = 0" "take (length ivb) (k_iv kcop) = ivb"
    "length (k_iv kcop) = 16" "find_session (cop_ses cop) fcr1 = Some ses" by blast
  have l: "length ivb \<le> c_ivsize (cdata ses)"
    using rd(2) length_load_bytes [of urd "um s" "cop_iv cop" "c_ivsize (cdata ses)" ivb] by (auto simp: given_iv_def split: if_splits)
  have n: "length ivb = min (min (c_ivsize (cdata ses)) (k_ivlen kcop)) 16" using k(3) l ses(4) by simp
  have iv': "iv = take (length ivb) (k_iv kcop) @ drop (length ivb) (c_iv (cdata ses))" by (simp only: iv k(5))
  note run = run_cipher_session [where kcop = kcop, unfolded k(2), OF k(7) ses(2,3) sem op(1-3) rd(1) wr(1) nc zc k(6) n iv']
  from run obtain ret fcr' kcop' s' where r: "crypto_run A M sh fcr1 kcop s = Some (ret, fcr', kcop', s')" "pins s' = pins s" "ret = 0 \<or> ret = - ENOMEM"
    "ret = 0 \<longrightarrow> um s' = snd (copy_to_user (um s) (cop_dst cop) (f enc iv bs)) \<and> kcop' = kcop\<lparr>k_iv := take (length ivb) (g enc iv bs) @ drop (length ivb) (k_iv kcop)\<rparr>"
    "ret \<noteq> 0 \<longrightarrow> um s' = um s \<and> kcop' = kcop"
    "\<exists>ses' r. find_session (cop_ses cop) fcr' = Some ses' \<and> \<not> sem ses' \<and> zc_wf ses' \<and> hdata ses' = hdata ses
      \<and> cdata ses' = (cdata ses)\<lparr>c_iv := (if ret = 0 then g enc iv bs else iv), c_res := r\<rparr>" by blast
  show ?thesis
  proof (cases "ret = 0")
    case True
    have "can_write (um s') arg 48" using wr(2) r(4) True by (simp add: can_write_stable)
    then have "fst (copy_to_user (um s') arg (crypt_op_bytes cop)) = 0" by (intro copy_to_all(1)) (simp_all add: crypt_op.length_enc)
    then have "kcop_to_user kcop' arg s' = (0, s'\<lparr>um := snd (copy_to_user (um s') arg (crypt_op_bytes cop))\<rparr>)"
      using r(4) True k(2,4) op(4) by (auto simp: kcop_to_user_def fill_cop_from_kcop_def split: prod.splits)
    then show ?thesis using True k(1) r by (simp add: ioctl_crypt_def)
  qed (use k(1) r in \<open>simp add: ioctl_crypt_def\<close>)
qed


section \<open>The request\<close>

text \<open>What \<open>flush_buf\<close> hands to the driver for the request at \<open>buf\<close>.\<close>

definition crypt_request :: "layout \<Rightarrow> 'h henv \<Rightarrow> gmem \<Rightarrow> u64 \<Rightarrow> crypt_op" where
  "crypt_request L H g buf = (crypt_op_of (peek g buf 48))\<lparr>cop_src := he_base H + (buf + of_nat off_src),
     cop_dst := he_base H + (buf + of_nat (off_dst L)), cop_iv := he_base H + (buf + of_nat (off_iv L))\<rparr>"

text \<open>The driver's two writes: the result into the request, and the structure back onto the stack.\<close>

lemma views_result:
  assumes p: "process_ok H (length arg)" and r: "in_ram H x (length bs)"
  shows "guest_view H (snd (copy_to_user (snd (copy_to_user (process_memory H g arg u) (he_base H + x) bs)) (he_stack H) arg)) g = poke g x bs"
    "stack_view H (snd (copy_to_user (snd (copy_to_user (process_memory H g arg u) (he_base H + x) bs)) (he_stack H) arg)) (length arg) = arg"
proof -
  let ?m = "snd (copy_to_user (process_memory H g arg u) (he_base H + x) bs)"
  have w: "can_write ?m (he_stack H) (length arg)" by (simp add: can_write_stable pm_stack_write [OF p])
  have len: "length arg \<le> 2 ^ 64" using p by (simp add: process_ok_def)
  note c = copy_to_all(2) [OF w len]
  have "guest_view H (snd (copy_to_user ?m (he_stack H) arg)) g = guest_view H ?m g"
  proof
    fix y
    show "guest_view H (snd (copy_to_user ?m (he_stack H) arg)) g y = guest_view H ?m g y"
      using window_not_stack [OF p, of "he_base H + y"] by (auto simp: guest_view_def c in_range_def)
  qed
  then show "guest_view H (snd (copy_to_user ?m (he_stack H) arg)) g = poke g x bs" by (simp add: views_guest_write(1) [OF p r])
  show "stack_view H (snd (copy_to_user ?m (he_stack H) arg)) (length arg) = arg"
    using len by (intro nth_equalityI) (auto simp: stack_view_def c in_range_def unat_of_nat_small)
qed

lemma no_clobber_fields:
  assumes "n \<le> d" "2 * d \<le> 2 ^ 64"
  shows "no_clobber a (a + of_nat d) n"
proof -
  have "\<not> in_range (a + of_nat d) n (a + of_nat i)" if "i < n" for i
  proof -
    have i: "unat (of_nat d :: u64) = d" "unat (of_nat i :: u64) = i" using assms that by (auto intro!: unat_of_nat_small)
    have "unat (of_nat i - of_nat d :: u64) = 2 ^ 64 + i - d" using i that assms by (simp add: unat_sub_if')
    then show ?thesis using that assms by (simp add: in_range_def)
  qed
  then show ?thesis by (simp add: no_clobber_def disjoint_iff)
qed

lemma poke_peek: "n \<le> 2 ^ 64 \<Longrightarrow> poke g x (peek g x n) = g"
proof
  fix y assume "n \<le> 2 ^ 64"
  have "x + of_nat (unat (y - x)) = y" by (simp only: of_nat_unat ucast_id) simp
  then show "poke g x (peek g x n) y = g y" by (auto simp: poke_def peek_def in_range_def)
qed

lemma in_ram_part: "in_ram H x n \<Longrightarrow> k + j \<le> n \<Longrightarrow> he_size H \<le> 2 ^ 64 \<Longrightarrow> 0 < j \<Longrightarrow> in_ram H (x + of_nat k) j"
  using in_ram_offset(1) [of H x n k] by (auto simp: in_ram_def)

lemma ioctl_dispatch:
  assumes "private_data filp = Some priv"
  shows "cryptodev_ioctl kdo unused A M sh filp (cmd_code CIOCCRYPT) arg s = on_fcr filp priv (ioctl_crypt kcop_from_user kcop_to_user A M sh (fcrypts priv) arg s)"
    "cryptodev_ioctl kdo unused A M sh filp (cmd_code CIOCGSESSION) arg s = on_fcr filp priv (ioctl_gsession A (fcrypts priv) arg s)"
    "cryptodev_ioctl kdo unused A M sh filp (cmd_code CIOCFSESSION) arg s = on_fcr filp priv (ioctl_fsession (fcrypts priv) arg s)"
  by (simp_all only: assms cryptodev_ioctl_def cmd_code_inj ioctl_cmd.distinct simp_thms if_True if_False Let_def option.case)

lemma host_ioctl_cipher:
  assumes fl: "ho_files (vs_world (rest m)) fd = Some filp" "private_data filp = Some priv"
    and p: "process_ok H 48" and cop: "cop_src cop = he_base H + x" "cop_dst cop = he_base H + y" "cop_iv cop = he_base H + z" "cop_iv cop \<noteq> 0"
    and ram: "in_ram H x (unat (cop_len cop))" "in_ram H y (unat (cop_len cop))" "in_ram H z (c_ivsize (cdata ses))"
    and ses: "find_session (cop_ses cop) (fcrypts priv) = Some ses" "\<not> sem ses" "\<not> h_init (hdata ses)" "c_ivsize (cdata ses) \<le> 16"
    and sem: "ses_sem (he_api H) ses t bsz f g u" "c_blocksize (cdata ses) = bsz" "0 < bsz" "bsz dvd 2 ^ he_sh H"
    and op: "cop_op cop = (if enc then COP_ENCRYPT else COP_DECRYPT)" "bsz dvd unat (cop_len cop)" "cop_len cop \<noteq> 0"
      "\<not> has_flag (cop_flags cop) COP_FLAG_WRITE_IV"
    and nc: "no_clobber (cop_src cop) (cop_dst cop) (unat (cop_len cop))"
    and zc: "zc_wf ses"
      "zc_ready (he_mm H) (he_sh H) (process_memory H (mem (guest m)) (crypt_op_bytes cop) (um (ho_kern (vs_world (rest m))))) (cop_src cop) (cop_dst cop) (cop_len cop)"
    and iv: "iv = peek (mem (guest m)) z (c_ivsize (cdata ses)) @ drop (c_ivsize (cdata ses)) (c_iv (cdata ses))"
  shows "\<exists>w'. pins (ho_kern w') = pins (ho_kern (vs_world (rest m))) \<and>
    (host_ioctl H fd (cmd_code CIOCCRYPT) (crypt_op_bytes cop) m
       = Some (0, crypt_op_bytes cop, m\<lparr>guest := (guest m)\<lparr>mem := poke (mem (guest m)) y (f enc iv (peek (mem (guest m)) x (unat (cop_len cop))))\<rparr>,
           rest := (rest m)\<lparr>vs_world := w'\<rparr>\<rparr>)
     \<or> host_ioctl H fd (cmd_code CIOCCRYPT) (crypt_op_bytes cop) m = Some (- 1, crypt_op_bytes cop, m\<lparr>rest := (rest m)\<lparr>vs_world := w'\<rparr>\<rparr>))"
proof -
  define w g0 arg where "w = vs_world (rest m)" and "g0 = mem (guest m)" and "arg = crypt_op_bytes cop"
  define s where "s = (ho_kern w)\<lparr>um := process_memory H g0 arg (um (ho_kern w))\<rparr>"
  have arg: "length arg = 48" by (simp add: arg_def crypt_op.length_enc)
  then have pa: "process_ok H (length arg)" using p by simp
  have um: "um s = process_memory H g0 arg (um (ho_kern w))" "pins s = pins (ho_kern w)" by (simp_all add: s_def)
  have zr: "zc_ready (he_mm H) (he_sh H) (um s) (cop_src cop) (cop_dst cop) (cop_len cop)" using zc(2) by (simp add: um g0_def arg_def w_def)
  have rd: "copy_from_user (um s) (he_stack H) 48 = Some (crypt_op_bytes cop)" "copy_from_user (um s) (cop_src cop) (unat (cop_len cop)) = Some (peek g0 x (unat (cop_len cop)))"
    "copy_from_user (um s) (cop_iv cop) (c_ivsize (cdata ses)) = Some (peek g0 z (c_ivsize (cdata ses)))"
    "can_write (um s) (cop_dst cop) (unat (cop_len cop))" "can_write (um s) (he_stack H) 48"
    using pm_stack [OF pa, of g0] pm_guest [OF pa] pm_stack_write [OF pa] ram arg by (simp_all add: um cop(1-3) flip: arg_def)
  let ?bs = "f enc iv (peek g0 x (unat (cop_len cop)))"
  have gi: "given_iv (um s) cop (c_ivsize (cdata ses)) (peek g0 z (c_ivsize (cdata ses)))" using rd(3) cop(4) by (simp add: given_iv_def)
  have iv': "iv = peek g0 z (c_ivsize (cdata ses)) @ drop (length (peek g0 z (c_ivsize (cdata ses)))) (c_iv (cdata ses))" by (simp add: iv g0_def)
  from ioctl_crypt_session [OF ses sem op rd(1,2) gi rd(4,5) nc zc(1) zr iv'] obtain ret fcr' s' where
    r: "ioctl_crypt kcop_from_user kcop_to_user (he_api H) (he_mm H) (he_sh H) (fcrypts priv) (he_stack H) s = Some (ret, fcr', s')" "pins s' = pins s"
      "ret = 0 \<and> um s' = snd (copy_to_user (snd (copy_to_user (um s) (he_base H + y) ?bs)) (he_stack H) arg) \<or> ret = - ENOMEM \<and> um s' = um s"
    unfolding cop(2) arg_def by blast
  have "cryptodev_ioctl (he_kdo H) (he_unused H) (he_api H) (he_mm H) (he_sh H) filp (cmd_code CIOCCRYPT) (he_stack H) s
      = Some (ret, filp\<lparr>private_data := Some (priv\<lparr>fcrypts := fcr'\<rparr>)\<rparr>, s')"
    by (simp add: ioctl_dispatch(1) [OF fl(2)] on_fcr_def r(1) del: cmd_code.simps)
  then have h: "host_ioctl H fd (cmd_code CIOCCRYPT) arg m
      = Some (if - 4095 \<le> ret \<and> ret \<le> - 1 then - 1 else ret, stack_view H (um s') 48,
          m\<lparr>guest := (guest m)\<lparr>mem := guest_view H (um s') g0\<rparr>,
            rest := (rest m)\<lparr>vs_world := w\<lparr>ho_kern := s', ho_files := (ho_files w)(fd \<mapsto> filp\<lparr>private_data := Some (priv\<lparr>fcrypts := fcr'\<rparr>)\<rparr>)\<rparr>\<rparr>\<rparr>)"
    using fl(1) arg by (simp add: host_ioctl_def Let_def w_def g0_def s_def)
  have "length iv = 16" using sem(1) ses(4) by (simp add: ses_sem_def iv)
  then have lf: "length ?bs = unat (cop_len cop)" using sem(1) op(2) by (auto simp: ses_sem_def ablk_sem_def)
  have gid: "m\<lparr>guest := (guest m)\<lparr>mem := g0\<rparr>\<rparr> = m" by (simp add: g0_def)
  show ?thesis
  proof (rule exI [of _ "w\<lparr>ho_kern := s', ho_files := (ho_files w)(fd \<mapsto> filp\<lparr>private_data := Some (priv\<lparr>fcrypts := fcr'\<rparr>)\<rparr>)\<rparr>"], intro conjI)
    from r(3) show "host_ioctl H fd (cmd_code CIOCCRYPT) (crypt_op_bytes cop) m
       = Some (0, crypt_op_bytes cop, m\<lparr>guest := (guest m)\<lparr>mem := poke (mem (guest m)) y (f enc iv (peek (mem (guest m)) x (unat (cop_len cop))))\<rparr>,
           rest := (rest m)\<lparr>vs_world := w\<lparr>ho_kern := s', ho_files := (ho_files w)(fd \<mapsto> filp\<lparr>private_data := Some (priv\<lparr>fcrypts := fcr'\<rparr>)\<rparr>)\<rparr>\<rparr>\<rparr>)
     \<or> host_ioctl H fd (cmd_code CIOCCRYPT) (crypt_op_bytes cop) m
       = Some (- 1, crypt_op_bytes cop, m\<lparr>rest := (rest m)\<lparr>vs_world := w\<lparr>ho_kern := s', ho_files := (ho_files w)(fd \<mapsto> filp\<lparr>private_data := Some (priv\<lparr>fcrypts := fcr'\<rparr>)\<rparr>)\<rparr>\<rparr>\<rparr>)"
    proof
      assume "ret = 0 \<and> um s' = snd (copy_to_user (snd (copy_to_user (um s) (he_base H + y) ?bs)) (he_stack H) arg)"
      with views_result [OF pa, of y ?bs g0] ram(2) lf h arg show ?thesis by (simp add: um flip: arg_def g0_def)
    next
      assume "ret = - ENOMEM \<and> um s' = um s"
      with views_unchanged [OF pa, of g0] h arg gid show ?thesis by (simp add: um flip: arg_def)
    qed
  qed (use r(2) um(2) in \<open>simp add: w_def\<close>)
qed


text \<open>The pieces of a request that lies in guest RAM.\<close>

lemma request_fields:
  assumes "in_ram H buf (sz_crypto_data L)" "he_size H \<le> 2 ^ 64"
  shows "0 < n \<Longrightarrow> n \<le> data_max L \<Longrightarrow> in_ram H (buf + of_nat off_src) n" "0 < n \<Longrightarrow> n \<le> data_max L \<Longrightarrow> in_ram H (buf + of_nat (off_dst L)) n"
    "0 < n \<Longrightarrow> n \<le> block_max L \<Longrightarrow> in_ram H (buf + of_nat (off_iv L)) n" "2 * data_max L \<le> 2 ^ 64"
proof -
  have sz: "112 + 2 * data_max L + block_max L \<le> sz_crypto_data L" unfolding sz_crypto_data_def off_cmd_def by presburger
  show "0 < n \<Longrightarrow> n \<le> data_max L \<Longrightarrow> in_ram H (buf + of_nat off_src) n"
    by (rule in_ram_part [OF assms(1) _ assms(2)]) (use sz in \<open>simp_all add: off_src_def\<close>)
  show "0 < n \<Longrightarrow> n \<le> data_max L \<Longrightarrow> in_ram H (buf + of_nat (off_dst L)) n"
    by (rule in_ram_part [OF assms(1) _ assms(2)]) (use sz in \<open>simp_all add: off_dst_def\<close>)
  show "0 < n \<Longrightarrow> n \<le> block_max L \<Longrightarrow> in_ram H (buf + of_nat (off_iv L)) n"
    by (rule in_ram_part [OF assms(1) _ assms(2)]) (use sz in \<open>simp_all add: off_iv_def\<close>)
  show "2 * data_max L \<le> 2 ^ 64" using sz assms by (simp add: in_ram_def)
qed

lemma request_cipher:
  fixes m :: "('h, 't) cmach"
  assumes port: "find_port_by_id m pid = Some port" "cp_chr (p_opaque port)" "cp_info (p_opaque port) = Info fd"
    and fl: "ho_files (vs_world (rest m)) fd = Some filp" "private_data filp = Some priv"
    and req: "ldl_phys (mem (guest m)) (buf + of_nat (off_cmd L)) = cmd_code CIOCCRYPT" "sz_crypto_data L \<le> unat len" "in_ram H buf (sz_crypto_data L)"
    and proc: "process_ok H 48" "cop_iv cop \<noteq> 0"
    and cop: "cop = crypt_request L H (mem (guest m)) buf" "unat (cop_len cop) \<le> data_max L" "cop_len cop \<noteq> 0"
      "cop_op cop = (if enc then COP_ENCRYPT else COP_DECRYPT)" "\<not> has_flag (cop_flags cop) COP_FLAG_WRITE_IV"
    and ses: "find_session (cop_ses cop) (fcrypts priv) = Some ses" "\<not> sem ses" "\<not> h_init (hdata ses)" "zc_wf ses"
      "0 < c_ivsize (cdata ses)" "c_ivsize (cdata ses) \<le> 16" "c_ivsize (cdata ses) \<le> block_max L"
    and sem: "ses_sem (he_api H) ses t (c_blocksize (cdata ses)) f g u" "0 < c_blocksize (cdata ses)" "c_blocksize (cdata ses) dvd 2 ^ he_sh H"
      "c_blocksize (cdata ses) dvd unat (cop_len cop)"
    and zc: "zc_ready (he_mm H) (he_sh H) (process_memory H (mem (guest m)) (crypt_op_bytes cop) (um (ho_kern (vs_world (rest m))))) (cop_src cop) (cop_dst cop) (cop_len cop)"
    and iv: "iv = peek (mem (guest m)) (buf + of_nat (off_iv L)) (c_ivsize (cdata ses)) @ drop (c_ivsize (cdata ses)) (c_iv (cdata ses))"
  shows "\<exists>w'. pins (ho_kern w') = pins (ho_kern (vs_world (rest m))) \<and>
    (flush_buf L H E pid buf len m = reply L E pid buf len (m\<lparr>guest := (guest m)\<lparr>mem := poke (mem (guest m)) (buf + of_nat (off_dst L))
         (f enc iv (peek (mem (guest m)) (buf + of_nat off_src) (unat (cop_len cop))))\<rparr>, rest := (rest m)\<lparr>vs_world := w'\<rparr>\<rparr>)
     \<or> flush_buf L H E pid buf len m = Some (1, m\<lparr>rest := (rest m)\<lparr>vs_world := w'\<rparr>\<rparr>))"
proof -
  have size: "he_size H \<le> 2 ^ 64" using proc(1) by (simp add: process_ok_def)
  have ptr: "cop_src cop = he_base H + (buf + of_nat off_src)" "cop_dst cop = he_base H + (buf + of_nat (off_dst L))" "cop_iv cop = he_base H + (buf + of_nat (off_iv L))"
    by (simp_all add: cop(1) crypt_request_def)
  have n: "0 < unat (cop_len cop)" using cop(3) by (simp add: unat_gt_0)
  note ram = request_fields(1,2) [OF req(3) size n cop(2)] request_fields(3) [OF req(3) size ses(5,7)]
  have nc: "no_clobber (cop_src cop) (cop_dst cop) (unat (cop_len cop))"
    using no_clobber_fields [OF cop(2) request_fields(4) [OF req(3) size], of "he_base H + (buf + of_nat off_src)"]
    by (simp add: ptr off_src_def off_dst_def add_ac)
  let ?io = "host_ioctl H fd (cmd_code CIOCCRYPT) (crypt_op_bytes cop) m"
  let ?cmd = "ldl_phys (mem (guest m)) (buf + of_nat (off_cmd L))"
  let ?n = "unat (cop_len cop)" and ?d = "buf + of_nat (off_dst L)"
  have "flush_buf L H E pid buf len m = flush_crypt L H E pid buf len m"
  proof -
    have "off_cmd L + 4 \<le> unat len" using req(2) unfolding sz_crypto_data_def by linarith
    moreover have "?cmd \<noteq> cmd_code CIOCGSESSION" unfolding req(1) by (simp only: cmd_code_inj) simp
    ultimately show ?thesis using port(1,2) req(1) by (simp add: flush_buf_def del: cmd_code.simps)
  qed
  also have "\<dots> = do {
      (ret, arg, m1) \<leftarrow> ?io;
      if ret \<noteq> 0 then Some (1, m1)
      else do { m2 \<leftarrow> memcpy_guest H ?d (cop_dst (crypt_op_of arg)) (unat (cop_len (crypt_op_of arg))) m1; reply L E pid buf len m2 } }"
    unfolding flush_crypt_def port_info_def Let_def cop(1) crypt_request_def using port by (simp add: add.assoc del: cmd_code.simps)
  finally have fb: "flush_buf L H E pid buf len m = \<dots>" .
  have "?n \<le> 2 ^ 64" using unat_bound [of "cop_len cop"] by simp
  then have mc: "memcpy_guest H ?d (he_base H + ?d) ?n m1 = Some m1" for m1 :: "('h, 't) cmach"
    using ram(2) by (simp add: memcpy_guest_def in_ram_def poke_peek set_mem_def)
  from host_ioctl_cipher [OF fl proc(1) ptr proc(2) ram ses(1-3,6) sem(1) refl sem(2,3) cop(4) sem(4) cop(3,5) nc ses(4) zc iv] obtain w' where
    w': "pins (ho_kern w') = pins (ho_kern (vs_world (rest m)))"
      "?io = Some (0, crypt_op_bytes cop, m\<lparr>guest := (guest m)\<lparr>mem := poke (mem (guest m)) ?d (f enc iv (peek (mem (guest m)) (buf + of_nat off_src) ?n))\<rparr>,
           rest := (rest m)\<lparr>vs_world := w'\<rparr>\<rparr>) \<or> ?io = Some (- 1, crypt_op_bytes cop, m\<lparr>rest := (rest m)\<lparr>vs_world := w'\<rparr>\<rparr>)" by blast
  from w'(2) show ?thesis
    by (intro exI [of _ w'] conjI w'(1)) (auto simp: fb crypt_op.dec_enc ptr(2) mc simp del: cmd_code.simps)
qed



lemma disjoint_below:
  assumes "unat a + n \<le> unat b" "unat b + k \<le> 2 ^ 64"
  shows "disjoint_ranges a n b k" "disjoint_ranges b k a n"
proof -
  have "\<not> in_range b k (a + of_nat i)" if "i < n" for i
  proof -
    have "unat (a + of_nat i) = unat a + i" using that assms by (simp add: unat_word_ariths unat_of_nat)
    then show ?thesis using that assms by (simp add: in_range_def unat_sub_if')
  qed
  then show "disjoint_ranges a n b k" by (simp add: disjoint_iff)
  have "\<not> in_range a n (b + of_nat i)" if "i < k" for i
  proof -
    have "unat (b + of_nat i) = unat b + i" using that assms by (simp add: unat_word_ariths unat_of_nat)
    then show ?thesis using that assms by (simp add: in_range_def unat_sub_if')
  qed
  then show "disjoint_ranges b k a n" by (simp add: disjoint_iff)
qed

definition layout_demo :: layout where
  "layout_demo = \<lparr>data_max = 16, block_max = 16\<rparr>"

definition cop_request :: crypt_op where
  "cop_request = \<lparr>cop_ses = 7, cop_op = COP_ENCRYPT, cop_flags = 0, cop_len = 8, cop_pad = 0, cop_src = 0, cop_dst = 0, cop_mac = 0, cop_iv = 0\<rparr>"

definition gmem_request :: gmem where
  "gmem_request = poke (poke (\<lambda>_. 9) 0x1000 (crypt_op_bytes cop_request)) 0x10A0 (put32 (cmd_code CIOCCRYPT))"

definition machine_request :: "(byte list, unit) cmach" where
  "machine_request = bus_demo\<lparr>guest := \<lparr>mem = gmem_request, dirty = []\<rparr>,
     rest := (rest bus_demo)\<lparr>vs_ports := [port_demo\<lparr>p_opaque := \<lparr>cp_chr = True, cp_info = Info 5\<rparr>\<rparr>],
       vs_world := host_demo\<lparr>ho_files := [5 \<mapsto> \<lparr>private_data = Some (priv_demo\<lparr>fcrypts := [ses_demo False]\<rparr>), f_count = 1, fd_table = [5]\<rparr>]\<rparr>\<rparr>\<rparr>"

lemma gmem_request_read:
  "crypt_op_of (peek gmem_request 0x1000 48) = cop_request" "ldl_phys gmem_request 0x10A0 = cmd_code CIOCCRYPT"
  "peek gmem_request 0x1070 8 = replicate 8 9" "peek gmem_request 0x1090 4 = replicate 4 9"
proof -
  have l: "length (put32 (cmd_code CIOCCRYPT)) = 4" by simp
  have peek: "peek gmem_request a n = peek (poke (\<lambda>_. 9) 0x1000 (crypt_op_bytes cop_request)) a n" if "unat a + n \<le> 0x10A0" for a n
    unfolding gmem_request_def by (rule peek_poke_other, unfold l, rule disjoint_below(1)) (use that in simp_all)
  have nine: "peek gmem_request a n = replicate n 9" if "unat a + n \<le> 0x10A0" "0x1030 \<le> unat a" for a n
  proof -
    have "peek (poke (\<lambda>_. 9) 0x1000 (crypt_op_bytes cop_request)) a n = peek (\<lambda>_. 9) a n"
      by (rule peek_poke_other, unfold crypt_op.length_enc [OF TrueI], rule disjoint_below(2)) (use that in simp_all)
    moreover have "peek (\<lambda>_. 9) a n = replicate n (9 :: byte)" by (simp add: peek_def map_replicate_const)
    ultimately show ?thesis using peek [OF that(1)] by simp
  qed
  have "peek gmem_request 0x1000 48 = crypt_op_bytes cop_request"
    using peek [of "0x1000" 48] peek_poke_same [of "crypt_op_bytes cop_request" "\<lambda>_. 9" "0x1000"] by (simp add: crypt_op.length_enc)
  then show "crypt_op_of (peek gmem_request 0x1000 48) = cop_request" by (simp add: crypt_op.dec_enc)
  show "ldl_phys gmem_request 0x10A0 = cmd_code CIOCCRYPT" by (simp add: gmem_request_def flip: stl_phys_def del: cmd_code.simps)
  show "peek gmem_request 0x1070 8 = replicate 8 9" "peek gmem_request 0x1090 4 = replicate 4 9" by (rule nine; simp)+
qed

lemma process_demo: "process_ok henv_demo 48"
  unfolding process_ok_def by (intro conjI disjoint_below) (simp_all add: henv_demo_def)


lemma layout_demo_offsets:
  "off_src = 112" "off_dst layout_demo = 128" "off_iv layout_demo = 144" "off_cmd layout_demo = 160" "sz_crypto_data layout_demo = 168"
  by (simp_all add: layout_demo_def off_src_def off_dst_def off_iv_def off_cmd_def sz_crypto_data_def)



section \<open>Requests that fail\<close>

lemma host_ioctl_no_file: "ho_files (vs_world (rest m)) fd = None \<Longrightarrow> host_ioctl H fd cmd arg m = Some (- 1, arg, m)"
  by (simp add: host_ioctl_def Let_def)

text \<open>C10: What becomes of a request that is not carried out.  Without a backend it counts as consumed.
  With a command other than the three that are forwarded, the bytes go to the character device and
  the answer is \<open>-EINVAL\<close>, upon which the bus aborts the emulator.  When the descriptor of the port
  is not open (opening \<open>/dev/crypto\<close> failed), every request is answered with 1 and changes nothing:
  the guest gets no reply.
\<close>

theorem request_errors:
  assumes port: "find_port_by_id m pid = Some port"
  shows "(\<not> cp_chr (p_opaque port) \<longrightarrow> flush_buf L H E pid buf len m = Some (sint len, m))
    \<and> (cp_chr (p_opaque port) \<and> off_cmd L + 4 \<le> unat len
         \<and> ldl_phys (mem (guest m)) (buf + of_nat (off_cmd L)) \<notin> {cmd_code CIOCGSESSION, cmd_code CIOCCRYPT, cmd_code CIOCFSESSION}
       \<longrightarrow> map_option fst (flush_buf L H E pid buf len m) = Some (- EINVAL)
         \<and> (out_sg (p_elem port) = [\<lparr>iov_base = buf, iov_len = len\<rparr>] \<and> p_iov_offset port = 0 \<longrightarrow> flush_elem (crypto_env L H ram b) pid 0 m = None))
    \<and> (cp_chr (p_opaque port) \<and> off_cmd L + 4 \<le> unat len \<and> cp_info (p_opaque port) = Info fd \<and> ho_files (vs_world (rest m)) fd = None
         \<and> ldl_phys (mem (guest m)) (buf + of_nat (off_cmd L)) \<in> {cmd_code CIOCGSESSION, cmd_code CIOCCRYPT, cmd_code CIOCFSESSION}
       \<longrightarrow> flush_buf L H E pid buf len m = Some (1, m))"
proof -
  let ?cmd = "ldl_phys (mem (guest m)) (buf + of_nat (off_cmd L))"
  have other: "map_option fst (flush_buf L H E' pid buf len m) = Some (- EINVAL)"
    if "cp_chr (p_opaque port)" "off_cmd L + 4 \<le> unat len" "?cmd \<notin> {cmd_code CIOCGSESSION, cmd_code CIOCCRYPT, cmd_code CIOCFSESSION}" for E'
    using that port by (simp add: flush_buf_def Let_def del: cmd_code.simps)
  have abort: "flush_elem (crypto_env L H ram b) pid 0 m = None"
    if "cp_chr (p_opaque port)" "off_cmd L + 4 \<le> unat len" "?cmd \<notin> {cmd_code CIOCGSESSION, cmd_code CIOCCRYPT, cmd_code CIOCFSESSION}"
      "out_sg (p_elem port) = [\<lparr>iov_base = buf, iov_len = len\<rparr>]" "p_iov_offset port = 0"
  proof -
    from other [OF that(1-3)] obtain m1 where "pc_have_data (se_class (crypto_env L H ram b)) pid buf len m = Some (- EINVAL, m1)"
      by (auto simp: crypto_env_def crypto_class_def Let_def)
    then show ?thesis using port that(4,5) by (subst flush_elem.simps) simp
  qed
  have closed: "flush_buf L H E pid buf len m = Some (1, m)"
    if "cp_chr (p_opaque port)" "off_cmd L + 4 \<le> unat len" "cp_info (p_opaque port) = Info fd" "ho_files (vs_world (rest m)) fd = None"
      "?cmd \<in> {cmd_code CIOCGSESSION, cmd_code CIOCCRYPT, cmd_code CIOCFSESSION}"
    using that port
    by (auto simp: flush_buf_def flush_gsession_def flush_crypt_def flush_fsession_def port_info_def Let_def host_ioctl_no_file cmd_code_inj simp del: cmd_code.simps)
  show ?thesis using port other abort closed by (auto simp: flush_buf_def)
qed

theorem request_errors_witness:
  "flush_buf layout_demo henv_demo env_demo 1 0x1000 168
     (machine_request\<lparr>rest := (rest machine_request)\<lparr>vs_world := host_demo\<rparr>\<rparr>) = Some (1, machine_request\<lparr>rest := (rest machine_request)\<lparr>vs_world := host_demo\<rparr>\<rparr>)"
proof -
  let ?m = "machine_request\<lparr>rest := (rest machine_request)\<lparr>vs_world := host_demo\<rparr>\<rparr>"
  have port: "find_port_by_id ?m 1 = Some (port_demo\<lparr>p_opaque := \<lparr>cp_chr = True, cp_info = Info 5\<rparr>\<rparr>)"
    by (simp add: find_port_by_id_def machine_request_def port_demo_def)
  have "(0x1000 :: u64) + of_nat (off_cmd layout_demo) = 0x10A0" "off_cmd layout_demo = 160" by (simp_all add: layout_demo_offsets)
  with request_errors [OF port, of layout_demo henv_demo env_demo "0x1000" 168 "\<lambda>_ _ _. True" bindings_none 5] gmem_request_read(2)
  show ?thesis by (simp add: machine_request_def host_demo_def del: cmd_code.simps)
qed


section \<open>The host's files in every run\<close>

lemma open_items_ring:
  "open_items n p s = (ret, p', s') \<Longrightarrow> fcrypts p' = fcrypts p \<and> todo_l p' = todo_l p \<and> done_l p' = done_l p \<and> cryptask p' = cryptask p
    \<and> int (length (free_l p')) - itemcount p' = int (length (free_l p)) - itemcount p \<and> itemcount p' \<le> itemcount p + int n"
  by (induction n arbitrary: p s) (auto split: prod.splits option.splits if_splits, force)

lemma open_file_ok:
  assumes "cryptodev_open s = (0, priv, s')"
  shows "file_ok \<lparr>private_data = priv, f_count = 1, fd_table = [fd]\<rparr> \<and> priv \<noteq> None"
  using assms by (auto simp: cryptodev_open_def file_ok_def ring_ok_def fcr_ok_def sids_ok_def split: prod.splits option.splits if_splits dest!: open_items_ring)


text \<open>All files the emulator has open satisfy the invariant of an open file.\<close>

definition host_ok :: "'h host \<Rightarrow> bool" where
  "host_ok w \<longleftrightarrow> (\<forall>fd filp. ho_files w fd = Some filp \<longrightarrow> file_ok filp \<and> private_data filp \<noteq> None)"

lemma host_ioctl_ok: "host_ioctl H fd cmd arg m = Some (ret, arg', m') \<Longrightarrow> host_ok (world m) \<Longrightarrow> host_ok (world m')"
  by (auto simp: host_ioctl_def host_ok_def Let_def elim!: bind_SomeE split: option.splits if_splits dest: ioctl_ok)

lemma flush_buf_ok: "flush_buf L H E pid buf len m = Some (ret, m') \<Longrightarrow> host_ok (world m) \<Longrightarrow> host_ok (world m')"
  by (auto simp: flush_buf_def flush_gsession_def flush_crypt_def flush_fsession_def reply_def memcpy_guest_def set_mem_def world_write Let_def
      elim!: bind_SomeE split: if_splits dest!: host_ioctl_ok) (simp add: host_ok_def)

lemma guest_open_ok:
  assumes "guest_open H pid m = Some m'" "host_ok (world m)"
  shows "host_ok (world m')"
proof -
  have "host_ok (snd (sys_open H w))" if "host_ok w" for w
    using that by (auto simp: sys_open_def host_ok_def Let_def split: prod.splits dest: open_file_ok)
  with assms show ?thesis by (auto simp: guest_open_def set_info_def elim!: bind_SomeE split: if_splits prod.splits) (metis snd_conv)+
qed

lemma guest_close_ok:
  assumes "guest_close pid m = Some m'" "host_ok (world m)"
  shows "host_ok (world m')"
proof -
  have "host_ok w'" if "host_close fd w = Some w'" "host_ok w" for fd w w'
    using that by (auto simp: host_close_def host_ok_def Let_def elim!: bind_SomeE split: option.splits if_splits)
  with assms show ?thesis by (auto simp: guest_close_def set_info_def elim!: bind_SomeE split: if_splits)
qed

interpretation crypto_world: port_world "crypto_env L H ram b" host_ok
proof unfold_locales
  fix p p' ret m m'
  assume "pc_init (se_class (crypto_env L H ram b)) p m = Some (ret, p', m')" "host_ok (world m)"
  then show "host_ok (world m')" by (auto simp: crypto_env_def crypto_class_def Let_def virtconsole_initfn_def split: if_splits)
qed (auto simp: crypto_env_def crypto_class_def Let_def dest: guest_open_ok guest_close_ok flush_buf_ok)

text \<open>C4: Whatever the guest does, the driver's open files on the host stay in order: from the set-up of
  the device on, in every run of guest accesses, requests, control messages, plugging and unplugging,
  each file of \<open>/dev/crypto\<close> that the emulator holds has distinct sessions, none of them locked, a
  job ring that is accounted for, and as many references as descriptors.
\<close>

theorem host_files_ok:
  assumes "virtio_serial_init n running g t w = Some (Some m)" "host_ok w" "bus_run (crypto_env L H ram b) m m'"
  shows "host_ok (world m')"
proof -
  have "world m = w" by (rule init_world [OF assms(1)])
  with assms(2) show ?thesis using crypto_world.run_keeps [OF assms(3)] by simp
qed


theorem host_files_ok_witness:
  "\<exists>m m'. virtio_serial_init 2 True gst_zero () host_demo = Some (Some m) \<and> bus_run env_demo m m' \<and> port_ids m' = [1] \<and> host_ok (world m')"
proof -
  from bus_demo_plug obtain m' where m': "virtser_port_qdev_init env_demo port_demo bus_demo = Some (0, m')" "port_ids m' = [1]"
    by (auto split: option.splits)
  have "bus_run env_demo bus_demo m'" by (rule bus_run.step [OF bus_run.start bus_step.plug [OF m'(1)]])
  moreover have "host_ok host_demo" by (simp add: host_ok_def host_demo_def)
  ultimately show ?thesis using host_files_ok [OF bus_demo_init] bus_demo_init m'(2) by blast
qed

end
