(* ===== verification/Guest_Driver.thy ===== *)
theory Guest_Driver
  imports Crypto_Path
begin

text \<open>
  The guest's driver (\<open>sgerag_virtio_crypto/linux_kernel/virtio_crypto.c\<close>): the character device whose
  ioctl packs a request into a \<open>struct crypto_data\<close>, sends it on the port's output queue, waits for
  the reply on the input queue and copies the result back to the caller, and the control protocol
  that adds and removes ports.

  Not part of the sources and hence arguments: the kernel's virtqueue functions, what the rest of the
  machine does while this thread waits, pending signals, and the outcome of registering character
  devices and consoles.  Use of freed memory, a double free and an access outside an object are
  \<open>None\<close>, and so is waiting for ever; waking up other threads has no effect on the state.
\<close>

section \<open>Data\<close>

record port_buffer =
  pb_buf :: "byte list"
  pb_size :: u64
  pb_len :: u64
  pb_offset :: u64

datatype gobj = PortBuf port_buffer | Data "byte list"

text \<open>A port; \<open>gp_portdev\<close> is \<open>portdev != NULL\<close> and \<open>gp_hvc\<close> is \<open>cons.hvc != NULL\<close>.\<close>

record gport =
  gp_id :: u32
  gp_portdev :: bool
  gp_inbuf :: "nat option"
  gp_in_vq :: nat
  gp_out_vq :: nat
  gp_sent :: u64
  gp_received :: u64
  gp_discarded :: u64
  gp_hvc :: bool
  gp_rows :: u16
  gp_cols :: u16
  gp_name :: "byte list option"
  gp_kref :: nat
  gp_outvq_full :: bool
  gp_host_connected :: bool
  gp_guest_connected :: bool

text \<open>
  The driver's state for one device: port structures by address and the list of those that are
  plugged, the heap of buffers by address with the outcomes of the allocations to come, the memory of
  the calling process, the state of the virtqueues and of the device behind them, the numbers of the
  queues.
\<close>

record 'q gdrv =
  gd_port :: "nat \<Rightarrow> gport option"
  gd_ports :: "nat list"
  gd_heap :: "nat \<Rightarrow> gobj option"
  gd_next :: nat
  gd_allocs :: "bool list"
  gd_um :: umem
  gd_q :: 'q
  gd_multiport :: bool
  gd_max_ports :: u32
  gd_c_ivq :: nat
  gd_c_ovq :: nat
  gd_in_vqs :: "nat list"
  gd_out_vqs :: "nat list"

text \<open>
  The kernel's virtqueue interface.  \<open>lv_add n out k tok\<close> offers the device the bytes \<open>out\<close> to read
  and \<open>k\<close> bytes to write, \<open>lv_get\<close> returns a token the device is done with, the number of bytes it
  reports and the bytes it wrote, \<open>lv_detach\<close> takes back a buffer that was not used.
\<close>

record 'q linux_vq =
  lv_add :: "nat \<Rightarrow> byte list \<Rightarrow> nat \<Rightarrow> nat \<Rightarrow> 'q \<Rightarrow> int \<times> 'q"
  lv_kick :: "nat \<Rightarrow> 'q \<Rightarrow> 'q"
  lv_get :: "nat \<Rightarrow> 'q \<Rightarrow> (nat \<times> u32 \<times> byte list) option \<times> 'q"
  lv_detach :: "nat \<Rightarrow> 'q \<Rightarrow> nat option \<times> 'q"

text \<open>
  The rest of the environment: \<open>ge_wait\<close> is what happens while the thread waits, \<open>ge_signal\<close> the code
  \<open>wait_event_freezable\<close> returns for a pending signal (0: none), \<open>ge_garbage\<close> the contents of memory
  from \<open>kmalloc\<close>, \<open>ge_chrdev\<close> and \<open>ge_hvc\<close> the outcome of creating a character device and a console.
\<close>

record 'q genv =
  ge_vq :: "'q linux_vq"
  ge_wait :: "'q gdrv \<Rightarrow> 'q gdrv option"
  ge_signal :: "'q gdrv \<Rightarrow> int"
  ge_garbage :: "nat \<Rightarrow> byte"
  ge_chrdev :: "u32 \<Rightarrow> int"
  ge_hvc :: "u32 \<Rightarrow> int"
  ge_page :: nat
  ge_layout :: layout

abbreviation (input) ENODEV :: int where "ENODEV \<equiv> 19"
abbreviation (input) ENOTTY :: int where "ENOTTY \<equiv> 25"
abbreviation (input) EMFILE :: int where "EMFILE \<equiv> 24"
abbreviation (input) ENXIO :: int where "ENXIO \<equiv> 6"

definition upd_gport :: "nat \<Rightarrow> (gport \<Rightarrow> gport) \<Rightarrow> 'q gdrv \<Rightarrow> 'q gdrv" where
  "upd_gport h f d = d\<lparr>gd_port := (gd_port d)(h := map_option f (gd_port d h))\<rparr>"

section \<open>Lookup\<close>

definition port_at :: "'q gdrv \<Rightarrow> (gport \<Rightarrow> bool) \<Rightarrow> nat option" where
  "port_at d P = find (\<lambda>h. case gd_port d h of None \<Rightarrow> False | Some p \<Rightarrow> P p) (gd_ports d)"

text \<open>The minor number of a port's device is its identifier.\<close>

definition drv_find_port_by_devt :: "'q gdrv \<Rightarrow> u32 \<Rightarrow> nat option" where
  "drv_find_port_by_devt d minor = port_at d (\<lambda>p. gp_id p = minor)"

definition drv_find_port_by_id :: "'q gdrv \<Rightarrow> u32 \<Rightarrow> nat option" where
  "drv_find_port_by_id d pid = port_at d (\<lambda>p. gp_id p = pid)"

definition drv_find_port_by_vq :: "'q gdrv \<Rightarrow> nat \<Rightarrow> nat option" where
  "drv_find_port_by_vq d n = port_at d (\<lambda>p. gp_in_vq p = n \<or> gp_out_vq p = n)"

section \<open>Buffers\<close>

definition next_alloc :: "'q gdrv \<Rightarrow> bool \<times> 'q gdrv" where
  "next_alloc d = (case gd_allocs d of [] \<Rightarrow> (True, d) | ok # r \<Rightarrow> (ok, d\<lparr>gd_allocs := r\<rparr>))"

definition new_obj :: "gobj \<Rightarrow> 'q gdrv \<Rightarrow> nat \<times> 'q gdrv" where
  "new_obj x d = (gd_next d, d\<lparr>gd_heap := (gd_heap d)(gd_next d \<mapsto> x), gd_next := Suc (gd_next d)\<rparr>)"

definition drv_kfree :: "nat \<Rightarrow> 'q gdrv \<Rightarrow> 'q gdrv option" where
  "drv_kfree tok d = (if gd_heap d tok = None then None else Some (d\<lparr>gd_heap := (gd_heap d)(tok := None)\<rparr>))"

definition get_pb :: "'q gdrv \<Rightarrow> nat \<Rightarrow> port_buffer option" where
  "get_pb d tok = (case gd_heap d tok of Some (PortBuf b) \<Rightarrow> Some b | _ \<Rightarrow> None)"

definition get_data :: "'q gdrv \<Rightarrow> nat \<Rightarrow> byte list option" where
  "get_data d tok = (case gd_heap d tok of Some (Data bs) \<Rightarrow> Some bs | _ \<Rightarrow> None)"

definition set_obj :: "nat \<Rightarrow> gobj \<Rightarrow> 'q gdrv \<Rightarrow> 'q gdrv" where
  "set_obj tok x d = d\<lparr>gd_heap := (gd_heap d)(tok \<mapsto> x)\<rparr>"

definition free_buf :: "nat \<Rightarrow> 'q gdrv \<Rightarrow> 'q gdrv option" where
  "free_buf tok d = do { b \<leftarrow> get_pb d tok; drv_kfree tok d }"

definition alloc_buf :: "nat \<Rightarrow> 'q gdrv \<Rightarrow> nat option \<times> 'q gdrv" where
  "alloc_buf n d =
     (let (ok, d1) = next_alloc d
      in if \<not> ok then (None, d1)
         else
           (let (ok, d2) = next_alloc d1
            in if \<not> ok then (None, d2)
               else
                 (let (tok, d3) = new_obj (PortBuf \<lparr>pb_buf = replicate n 0, pb_size = of_nat n, pb_len = 0, pb_offset = 0\<rparr>) d2
                  in (Some tok, d3))))"

definition get_inbuf :: "'q genv \<Rightarrow> nat \<Rightarrow> 'q gdrv \<Rightarrow> (nat option \<times> 'q gdrv) option" where
  "get_inbuf E h d =
     do {
       port \<leftarrow> gd_port d h;
       case gp_inbuf port of
         Some tok \<Rightarrow> Some (Some tok, d)
       | None \<Rightarrow>
           (case lv_get (ge_vq E) (gp_in_vq port) (gd_q d) of
              (None, q) \<Rightarrow> Some (None, d\<lparr>gd_q := q\<rparr>)
            | (Some (tok, len, bs), q) \<Rightarrow>
                do {
                  b \<leftarrow> get_pb d tok;
                  if length (pb_buf b) < length bs then None
                  else Some (Some tok, upd_gport h (\<lambda>p. p\<lparr>gp_received := gp_received p + ucast len\<rparr>)
                    (set_obj tok (PortBuf (b\<lparr>pb_buf := splice_at 0 bs (pb_buf b), pb_len := ucast len, pb_offset := 0\<rparr>)) (d\<lparr>gd_q := q\<rparr>)))
                })
     }"

definition add_inbuf :: "'q genv \<Rightarrow> nat \<Rightarrow> nat \<Rightarrow> 'q gdrv \<Rightarrow> (int \<times> 'q gdrv) option" where
  "add_inbuf E n tok d =
     do {
       b \<leftarrow> get_pb d tok;
       let (ret, q) = lv_add (ge_vq E) n [] (unat (pb_size b)) tok (gd_q d);
       Some (ret, d\<lparr>gd_q := lv_kick (ge_vq E) n q\<rparr>)
     }"

partial_function (option) drv_discard_loop :: "'q genv \<Rightarrow> nat \<Rightarrow> nat option \<Rightarrow> 'q gdrv \<Rightarrow> 'q gdrv option" where
  "drv_discard_loop E h buf d =
     (case buf of
        None \<Rightarrow> Some d
      | Some tok \<Rightarrow>
          do {
            port \<leftarrow> gd_port d h;
            b \<leftarrow> get_pb d tok;
            (ret, d1) \<leftarrow> add_inbuf E (gp_in_vq port) tok (upd_gport h (\<lambda>p. p\<lparr>gp_discarded := gp_discarded p + (pb_len b - pb_offset b)\<rparr>) d);
            d2 \<leftarrow> (if ret < 0 then free_buf tok d1 else Some d1);
            (buf', d3) \<leftarrow> get_inbuf E h (upd_gport h (\<lambda>p. p\<lparr>gp_inbuf := None\<rparr>) d2);
            drv_discard_loop E h buf' d3
          })"

definition discard_port_data :: "'q genv \<Rightarrow> nat \<Rightarrow> 'q gdrv \<Rightarrow> 'q gdrv option" where
  "discard_port_data E h d =
     do {
       port \<leftarrow> gd_port d h;
       if \<not> gp_portdev port then Some d
       else do { (buf, d1) \<leftarrow> get_inbuf E h d; drv_discard_loop E h buf d1 }
     }"

definition port_has_data :: "'q genv \<Rightarrow> nat \<Rightarrow> 'q gdrv \<Rightarrow> (bool \<times> 'q gdrv) option" where
  "port_has_data E h d = do { (buf, d1) \<leftarrow> get_inbuf E h d; Some (buf \<noteq> None, upd_gport h (\<lambda>p. p\<lparr>gp_inbuf := buf\<rparr>) d1) }"


section \<open>Control messages and requests to the host\<close>

text \<open>\<open>while (!virtqueue_get_buf(vq, &len)) cpu_relax();\<close>: the device goes on meanwhile.\<close>

partial_function (option) spin_get :: "'q genv \<Rightarrow> nat \<Rightarrow> 'q gdrv \<Rightarrow> 'q gdrv option" where
  "spin_get E n d =
     (case lv_get (ge_vq E) n (gd_q d) of
        (Some r, q) \<Rightarrow> Some (d\<lparr>gd_q := q\<rparr>)
      | (None, q) \<Rightarrow> do { d1 \<leftarrow> ge_wait E (d\<lparr>gd_q := q\<rparr>); spin_get E n d1 })"

text \<open>The packet is a local variable; its address, the token, is written 0, which no heap object has.\<close>

definition drv_send_control_packet :: "'q genv \<Rightarrow> u32 \<Rightarrow> u16 \<Rightarrow> u16 \<Rightarrow> 'q gdrv \<Rightarrow> 'q gdrv option" where
  "drv_send_control_packet E port_id event v d =
     (if \<not> gd_multiport d then Some d
      else
        (let cpkt = put32 port_id @ put16 event @ put16 v; (ret, q) = lv_add (ge_vq E) (gd_c_ovq d) cpkt 0 0 (gd_q d)
         in if 0 \<le> ret then spin_get E (gd_c_ovq d) (d\<lparr>gd_q := lv_kick (ge_vq E) (gd_c_ovq d) q\<rparr>) else Some (d\<lparr>gd_q := q\<rparr>)))"

definition drv_send_control_msg :: "'q genv \<Rightarrow> nat \<Rightarrow> u16 \<Rightarrow> u16 \<Rightarrow> 'q gdrv \<Rightarrow> 'q gdrv option" where
  "drv_send_control_msg E h event v d =
     do { port \<leftarrow> gd_port d h; if gp_portdev port then drv_send_control_packet E (gp_id port) event v d else Some d }"

partial_function (option) reclaim_loop :: "'q genv \<Rightarrow> nat \<Rightarrow> nat \<Rightarrow> 'q gdrv \<Rightarrow> 'q gdrv option" where
  "reclaim_loop E h n d =
     (case lv_get (ge_vq E) n (gd_q d) of
        (None, q) \<Rightarrow> Some (d\<lparr>gd_q := q\<rparr>)
      | (Some (tok, len, bs), q) \<Rightarrow>
          do { d1 \<leftarrow> drv_kfree tok (d\<lparr>gd_q := q\<rparr>); reclaim_loop E h n (upd_gport h (\<lambda>p. p\<lparr>gp_outvq_full := False\<rparr>) d1) })"

definition reclaim_consumed_buffers :: "'q genv \<Rightarrow> nat \<Rightarrow> 'q gdrv \<Rightarrow> 'q gdrv option" where
  "reclaim_consumed_buffers E h d =
     do { port \<leftarrow> gd_port d h; if \<not> gp_portdev port then Some d else reclaim_loop E h (gp_out_vq port) d }"

definition send_buf :: "'q genv \<Rightarrow> nat \<Rightarrow> nat \<Rightarrow> nat \<Rightarrow> bool \<Rightarrow> 'q gdrv \<Rightarrow> (u64 \<times> 'q gdrv) option" where
  "send_buf E h tok in_count nonblock d =
     do {
       port \<leftarrow> gd_port d h;
       let n = gp_out_vq port;
       d1 \<leftarrow> reclaim_consumed_buffers E h d;
       bs \<leftarrow> get_data d1 tok;
       if length bs < in_count then None
       else do {
         let (ret, q) = lv_add (ge_vq E) n (take in_count bs) 0 tok (gd_q d1);
         let d2 = d1\<lparr>gd_q := lv_kick (ge_vq E) n q\<rparr>;
         if ret < 0 then Some (0, d2)
         else do {
           let d3 = (if ret = 0 then upd_gport h (\<lambda>p. p\<lparr>gp_outvq_full := True\<rparr>) d2 else d2);
           d4 \<leftarrow> (if nonblock then Some d3 else spin_get E n d3);
           Some (of_nat in_count, upd_gport h (\<lambda>p. p\<lparr>gp_sent := gp_sent p + of_nat in_count\<rparr>) d4)
         }
       }
     }"

text \<open>The destination of the data: a buffer of the calling process, or a kernel object.\<close>

datatype rbuf = User u64 | Kern nat

definition store_rbuf :: "rbuf \<Rightarrow> byte list \<Rightarrow> 'q gdrv \<Rightarrow> (int \<times> 'q gdrv) option" where
  "store_rbuf out_buf bs d =
     (case out_buf of
        User a \<Rightarrow> (case copy_to_user (gd_um d) a bs of (k, u) \<Rightarrow> Some (if k \<noteq> 0 then - EFAULT else 0, d\<lparr>gd_um := u\<rparr>))
      | Kern tok \<Rightarrow>
          do { old \<leftarrow> get_data d tok; if length old < length bs then None else Some (0, set_obj tok (Data (splice_at 0 bs old)) d) })"

definition fill_readbuf :: "'q genv \<Rightarrow> nat \<Rightarrow> rbuf \<Rightarrow> u64 \<Rightarrow> 'q gdrv \<Rightarrow> (int \<times> 'q gdrv) option" where
  "fill_readbuf E h out_buf out_count d =
     (if out_count = 0 then Some (0, d)
      else do {
        (has, d1) \<leftarrow> port_has_data E h d;
        if \<not> has then Some (0, d1)
        else do {
          port \<leftarrow> gd_port d1 h;
          tok \<leftarrow> gp_inbuf port;
          b \<leftarrow> get_pb d1 tok;
          let n = min out_count (pb_len b - pb_offset b);
          if length (pb_buf b) < unat (pb_offset b) + unat n then None
          else do {
            (ret, d2) \<leftarrow> store_rbuf out_buf (take (unat n) (drop (unat (pb_offset b)) (pb_buf b))) d1;
            if ret \<noteq> 0 then Some (ret, d2)
            else do {
              let b' = b\<lparr>pb_offset := pb_offset b + n\<rparr>;
              let d3 = set_obj tok (PortBuf b') d2;
              if pb_offset b' = pb_len b' then do {
                (ret, d4) \<leftarrow> add_inbuf E (gp_in_vq port) tok (upd_gport h (\<lambda>p. p\<lparr>gp_inbuf := None\<rparr>) d3);
                Some (int (unat n), d4)
              }
              else Some (int (unat n), d3)
            }
          }
        }
      })"

definition will_read_block :: "'q genv \<Rightarrow> nat \<Rightarrow> 'q gdrv \<Rightarrow> (bool \<times> 'q gdrv) option" where
  "will_read_block E h d =
     do {
       port \<leftarrow> gd_port d h;
       if \<not> gp_guest_connected port then Some (False, d)
       else do {
         (has, d1) \<leftarrow> port_has_data E h d;
         port1 \<leftarrow> gd_port d1 h;
         Some (\<not> has \<and> gp_host_connected port1, d1)
       }
     }"

definition will_write_block :: "'q genv \<Rightarrow> nat \<Rightarrow> 'q gdrv \<Rightarrow> (bool \<times> 'q gdrv) option" where
  "will_write_block E h d =
     do {
       port \<leftarrow> gd_port d h;
       if \<not> gp_guest_connected port then Some (False, d)
       else if \<not> gp_host_connected port then Some (True, d)
       else do {
         d1 \<leftarrow> reclaim_consumed_buffers E h d;
         port1 \<leftarrow> gd_port d1 h;
         Some (gp_outvq_full port1, d1)
       }
     }"

text \<open>\<open>wait_event_freezable(port->waitqueue, !blocked(port))\<close>.\<close>

partial_function (option) wait_event_freezable ::
  "'q genv \<Rightarrow> (nat \<Rightarrow> 'q gdrv \<Rightarrow> (bool \<times> 'q gdrv) option) \<Rightarrow> nat \<Rightarrow> 'q gdrv \<Rightarrow> (int \<times> 'q gdrv) option" where
  "wait_event_freezable E blocked h d =
     do {
       (b, d1) \<leftarrow> blocked h d;
       if \<not> b then Some (0, d1)
       else if ge_signal E d1 \<noteq> 0 then Some (ge_signal E d1, d1)
       else do { d2 \<leftarrow> ge_wait E d1; wait_event_freezable E blocked h d2 }
     }"


section \<open>The ioctl\<close>

definition write_obj :: "nat \<Rightarrow> nat \<Rightarrow> byte list \<Rightarrow> 'q gdrv \<Rightarrow> 'q gdrv option" where
  "write_obj tok off bs d =
     do { old \<leftarrow> get_data d tok; if length old < off + length bs then None else Some (set_obj tok (Data (splice_at off bs old)) d) }"

text \<open>\<open>copy_from_user\<close> into the object: \<open>False\<close> when the caller's memory cannot be read.  The kernel checks no length.\<close>

definition copy_in :: "nat \<Rightarrow> nat \<Rightarrow> u64 \<Rightarrow> nat \<Rightarrow> 'q gdrv \<Rightarrow> (bool \<times> 'q gdrv) option" where
  "copy_in tok off a n d =
     do {
       old \<leftarrow> get_data d tok;
       if length old < off + n then None
       else case copy_from_user (gd_um d) a n of
         None \<Rightarrow> Some (False, d)
       | Some bs \<Rightarrow> do { d1 \<leftarrow> write_obj tok off bs d; Some (True, d1) }
     }"

definition copy_out :: "nat \<Rightarrow> nat \<Rightarrow> u64 \<Rightarrow> nat \<Rightarrow> 'q gdrv \<Rightarrow> (bool \<times> 'q gdrv) option" where
  "copy_out tok off a n d =
     do {
       bs \<leftarrow> get_data d tok;
       if length bs < off + n then None
       else case copy_to_user (gd_um d) a (take n (drop off bs)) of (k, u) \<Rightarrow> Some (k = 0, d\<lparr>gd_um := u\<rparr>)
     }"

text \<open>
  The part the three commands share: sending the request, waiting for the reply and reading it.
  \<open>Some e\<close> as the first component is a \<open>return e\<close> in the middle of it, which does not free the request.
\<close>

definition exchange :: "'q genv \<Rightarrow> nat \<Rightarrow> nat \<Rightarrow> bool \<Rightarrow> 'q gdrv \<Rightarrow> (int option \<times> 'q gdrv) option" where
  "exchange E h tok nonblock d =
     do {
       (sent, d1) \<leftarrow> send_buf E h tok (sz_crypto_data (ge_layout E)) nonblock d;
       (has, d2) \<leftarrow> port_has_data E h d1;
       port \<leftarrow> gd_port d2 h;
       (early, d3) \<leftarrow>
         (if has then Some (None, d2)
          else if \<not> gp_host_connected port then Some (Some (- ENOTTY), d2)
          else do {
            (ret, d3) \<leftarrow> wait_event_freezable E (will_read_block E) h d2;
            Some (if ret < 0 then Some ret else None, d3)
          });
       if early \<noteq> None then Some (early, d3)
       else do {
         port3 \<leftarrow> gd_port d3 h;
         if \<not> gp_guest_connected port3 then Some (Some (- ENODEV), d3)
         else do {
           (has, d4) \<leftarrow> port_has_data E h d3;
           port4 \<leftarrow> gd_port d4 h;
           if \<not> has \<and> \<not> gp_host_connected port4 then Some (Some (- ENOTTY), d4)
           else do { (ret, d5) \<leftarrow> fill_readbuf E h (Kern tok) (of_nat (sz_crypto_data (ge_layout E))) d4; Some (None, d5) }
         }
       }
     }"

text \<open>\<open>free_buf: kfree(cr_data); return ret;\<close>\<close>

definition finish :: "nat \<Rightarrow> int \<Rightarrow> 'q gdrv \<Rightarrow> (int \<times> 'q gdrv) option" where
  "finish tok ret d = do { d1 \<leftarrow> drv_kfree tok d; Some (ret, d1) }"

text \<open>Sending, and what comes after it unless the call returned early.\<close>

definition exchange_then ::
  "'q genv \<Rightarrow> nat \<Rightarrow> nat \<Rightarrow> bool \<Rightarrow> ('q gdrv \<Rightarrow> (int \<times> 'q gdrv) option) \<Rightarrow> 'q gdrv \<Rightarrow> (int \<times> 'q gdrv) option" where
  "exchange_then E h tok nonblock k d =
     do { (early, d1) \<leftarrow> exchange E h tok nonblock d; case early of Some e \<Rightarrow> Some (e, d1) | None \<Rightarrow> k d1 }"

definition drv_gsession :: "'q genv \<Rightarrow> nat \<Rightarrow> nat \<Rightarrow> bool \<Rightarrow> u64 \<Rightarrow> 'q gdrv \<Rightarrow> (int \<times> 'q gdrv) option" where
  "drv_gsession E h tok nonblock arg d =
     do {
       (ok, d1) \<leftarrow> copy_in tok 0 arg 48 d;
       if \<not> ok then finish tok (- EFAULT) d1
       else do {
         bs \<leftarrow> get_data d1 tok;
         let sess = session_op_of (take 48 bs);
         (ok, d2) \<leftarrow> copy_in tok off_key (sop_key sess) (unat (sop_keylen sess)) d1;
         if \<not> ok then finish tok (- EFAULT) d2
         else exchange_then E h tok nonblock
           (\<lambda>d3. do { (ok, d4) \<leftarrow> copy_out tok 0 arg 48 d3; finish tok (if ok then 0 else - EFAULT) d4 }) d2
       }
     }"

text \<open>
  The destination is read from the caller's structure without \<open>get_user\<close>, after the structure was
  written back; a fault there is fatal.
\<close>

definition drv_crypt_done :: "'q genv \<Rightarrow> nat \<Rightarrow> u64 \<Rightarrow> 'q gdrv \<Rightarrow> (int \<times> 'q gdrv) option" where
  "drv_crypt_done E tok arg d =
     do {
       (ok, d1) \<leftarrow> copy_out tok 0 arg 48 d;
       if \<not> ok then finish tok (- EFAULT) d1
       else do {
         bs \<leftarrow> get_data d1 tok;
         user \<leftarrow> copy_from_user (gd_um d1) arg 48;
         (ok, d2) \<leftarrow> copy_out tok (off_dst (ge_layout E)) (cop_dst (crypt_op_of user)) (unat (cop_len (crypt_op_of (take 48 bs)))) d1;
         finish tok (if ok then 0 else - EFAULT) d2
       }
     }"

definition drv_crypt :: "'q genv \<Rightarrow> nat \<Rightarrow> nat \<Rightarrow> bool \<Rightarrow> u64 \<Rightarrow> 'q gdrv \<Rightarrow> (int \<times> 'q gdrv) option" where
  "drv_crypt E h tok nonblock arg d =
     do {
       let L = ge_layout E;
       (ok, d1) \<leftarrow> copy_in tok 0 arg 48 d;
       if \<not> ok then finish tok (- EFAULT) d1
       else do {
         bs \<leftarrow> get_data d1 tok;
         let cop = crypt_op_of (take 48 bs);
         (ok, d2) \<leftarrow> copy_in tok off_src (cop_src cop) (unat (cop_len cop)) d1;
         if \<not> ok then finish tok (- EFAULT) d2
         else do {
           (ok, d3) \<leftarrow> copy_in tok (off_dst L) (cop_dst cop) (unat (cop_len cop)) d2;
           if \<not> ok then finish tok (- EFAULT) d3
           else do {
             (ok, d4) \<leftarrow> copy_in tok (off_iv L) (cop_iv cop) (block_max L) d3;
             if \<not> ok then finish tok (- EFAULT) d4 else exchange_then E h tok nonblock (drv_crypt_done E tok arg) d4
           }
         }
       }
     }"

definition drv_fsession :: "'q genv \<Rightarrow> nat \<Rightarrow> nat \<Rightarrow> bool \<Rightarrow> u64 \<Rightarrow> 'q gdrv \<Rightarrow> (int \<times> 'q gdrv) option" where
  "drv_fsession E h tok nonblock arg d =
     do {
       (ok, d1) \<leftarrow> copy_in tok 0 arg 4 d;
       if \<not> ok then finish tok (- EFAULT) d1
       else exchange_then E h tok nonblock
         (\<lambda>d2. do { (ok, d3) \<leftarrow> copy_out tok 0 arg 4 d2; finish tok (if ok then 0 else - EFAULT) d3 }) d1
     }"

definition port_fops_ioctl :: "'q genv \<Rightarrow> nat \<Rightarrow> bool \<Rightarrow> u32 \<Rightarrow> u64 \<Rightarrow> 'q gdrv \<Rightarrow> (int \<times> 'q gdrv) option" where
  "port_fops_ioctl E h nonblock cmd arg d =
     do {
       (blocked, d1) \<leftarrow> will_write_block E h d;
       (ret, d2) \<leftarrow> (if \<not> blocked then Some (0, d1) else if nonblock then Some (- EAGAIN, d1) else wait_event_freezable E (will_write_block E) h d1);
       if ret < 0 then Some (ret, d2)
       else do {
         port \<leftarrow> gd_port d2 h;
         if \<not> gp_guest_connected port then Some (- ENODEV, d2)
         else do {
           let (ok, d3) = next_alloc d2;
           if \<not> ok then Some (- ENOMEM, d3)
           else do {
             let (tok, d4) = new_obj (Data (map (ge_garbage E) [0..<sz_crypto_data (ge_layout E)])) d3;
             d5 \<leftarrow> write_obj tok (off_cmd (ge_layout E)) (put32 cmd) d4;
             if cmd = cmd_code CIOCGSESSION then drv_gsession E h tok nonblock arg d5
             else if cmd = cmd_code CIOCCRYPT then drv_crypt E h tok nonblock arg d5
             else if cmd = cmd_code CIOCFSESSION then drv_fsession E h tok nonblock arg d5
             else Some (- EINVAL, d5)
           }
         }
       }
     }"


section \<open>Ports\<close>

text \<open>No users remain; the sysfs, device and debugfs entries go with the structure.\<close>

definition drv_remove_port :: "nat \<Rightarrow> 'q gdrv \<Rightarrow> 'q gdrv" where
  "drv_remove_port h d = d\<lparr>gd_port := (gd_port d)(h := None)\<rparr>"

definition kref_put :: "nat \<Rightarrow> 'q gdrv \<Rightarrow> 'q gdrv option" where
  "kref_put h d =
     do {
       port \<leftarrow> gd_port d h;
       Some (if gp_kref port \<le> 1 then drv_remove_port h d else upd_gport h (\<lambda>p. p\<lparr>gp_kref := gp_kref p - 1\<rparr>) d)
     }"

definition port_fops_release :: "'q genv \<Rightarrow> nat \<Rightarrow> 'q gdrv \<Rightarrow> (int \<times> 'q gdrv) option" where
  "port_fops_release E h d =
     do {
       d1 \<leftarrow> drv_send_control_msg E h VIRTIO_CONSOLE_PORT_OPEN 0 d;
       d2 \<leftarrow> discard_port_data E h (upd_gport h (\<lambda>p. p\<lparr>gp_guest_connected := False\<rparr>) d1);
       d3 \<leftarrow> reclaim_consumed_buffers E h d2;
       d4 \<leftarrow> kref_put h d3;
       Some (0, d4)
     }"

text \<open>The result is the return value and, for a successful open, the port the file refers to.\<close>

definition port_fops_open :: "'q genv \<Rightarrow> u32 \<Rightarrow> 'q gdrv \<Rightarrow> (int \<times> nat \<times> 'q gdrv) option" where
  "port_fops_open E minor d =
     do {
       h \<leftarrow> drv_find_port_by_devt d minor;
       let d1 = upd_gport h (\<lambda>p. p\<lparr>gp_kref := gp_kref p + 1\<rparr>) d;
       port \<leftarrow> gd_port d1 h;
       if gp_hvc port then do { d2 \<leftarrow> kref_put h d1; Some (- ENXIO, h, d2) }
       else if gp_guest_connected port then do { d2 \<leftarrow> kref_put h d1; Some (- EMFILE, h, d2) }
       else do {
         d2 \<leftarrow> reclaim_consumed_buffers E h (upd_gport h (\<lambda>p. p\<lparr>gp_guest_connected := True\<rparr>) d1);
         d3 \<leftarrow> drv_send_control_msg E h VIRTIO_CONSOLE_PORT_OPEN 1 d2;
         Some (0, h, d3)
       }
     }"

datatype pollflag = POLLIN | POLLOUT | POLLHUP

definition port_fops_poll :: "'q genv \<Rightarrow> nat \<Rightarrow> 'q gdrv \<Rightarrow> (pollflag set \<times> 'q gdrv) option" where
  "port_fops_poll E h d =
     do {
       port \<leftarrow> gd_port d h;
       if \<not> gp_guest_connected port then Some ({POLLHUP}, d)
       else do {
         (rb, d1) \<leftarrow> will_read_block E h d;
         (wb, d2) \<leftarrow> will_write_block E h d1;
         port2 \<leftarrow> gd_port d2 h;
         Some ((if rb then {} else {POLLIN}) \<union> (if wb then {} else {POLLOUT}) \<union> (if gp_host_connected port2 then {} else {POLLHUP}), d2)
       }
     }"

partial_function (option) fill_queue :: "'q genv \<Rightarrow> nat \<Rightarrow> nat \<Rightarrow> 'q gdrv \<Rightarrow> (nat \<times> 'q gdrv) option" where
  "fill_queue E n nr_added_bufs d =
     (case alloc_buf (ge_page E) d of
        (None, d1) \<Rightarrow> Some (nr_added_bufs, d1)
      | (Some tok, d1) \<Rightarrow>
          do {
            (ret, d2) \<leftarrow> add_inbuf E n tok d1;
            if ret < 0 then do { d3 \<leftarrow> free_buf tok d2; Some (nr_added_bufs, d3) }
            else if 0 < ret then fill_queue E n (Suc nr_added_bufs) d2
            else Some (Suc nr_added_bufs, d2)
          })"

definition init_port_console :: "'q genv \<Rightarrow> nat \<Rightarrow> 'q gdrv \<Rightarrow> (int \<times> 'q gdrv) option" where
  "init_port_console E h d =
     do {
       port \<leftarrow> gd_port d h;
       if ge_hvc E (gp_id port) \<noteq> 0 then Some (ge_hvc E (gp_id port), upd_gport h (\<lambda>p. p\<lparr>gp_hvc := False\<rparr>) d)
       else do {
         d1 \<leftarrow> drv_send_control_msg E h VIRTIO_CONSOLE_PORT_OPEN 1 (upd_gport h (\<lambda>p. p\<lparr>gp_hvc := True, gp_guest_connected := True\<rparr>) d);
         Some (0, d1)
       }
     }"

partial_function (option) detach_loop :: "'q genv \<Rightarrow> nat \<Rightarrow> 'q gdrv \<Rightarrow> 'q gdrv option" where
  "detach_loop E n d =
     (case lv_detach (ge_vq E) n (gd_q d) of
        (None, q) \<Rightarrow> Some (d\<lparr>gd_q := q\<rparr>)
      | (Some tok, q) \<Rightarrow> do { d1 \<leftarrow> free_buf tok (d\<lparr>gd_q := q\<rparr>); detach_loop E n d1 })"

text \<open>Giving up in \<open>add_port\<close>: the structure is freed and the host told.\<close>

definition add_port_fail :: "'q genv \<Rightarrow> nat \<Rightarrow> u32 \<Rightarrow> int \<Rightarrow> 'q gdrv \<Rightarrow> (int \<times> 'q gdrv) option" where
  "add_port_fail E h pid e d =
     do { d1 \<leftarrow> drv_send_control_packet E pid VIRTIO_CONSOLE_PORT_READY 0 (d\<lparr>gd_port := (gd_port d)(h := None)\<rparr>); Some (e, d1) }"

definition drv_add_port :: "'q genv \<Rightarrow> u32 \<Rightarrow> 'q gdrv \<Rightarrow> (int \<times> 'q gdrv) option" where
  "drv_add_port E pid d =
     do {
       let (ok, d1) = next_alloc d;
       let h = gd_next d1;
       if \<not> ok then add_port_fail E h pid (- ENOMEM) d1
       else if length (gd_in_vqs d1) \<le> unat pid \<or> length (gd_out_vqs d1) \<le> unat pid then None
       else do {
         let port = \<lparr>gp_id = pid, gp_portdev = True, gp_inbuf = None, gp_in_vq = gd_in_vqs d1 ! unat pid, gp_out_vq = gd_out_vqs d1 ! unat pid,
               gp_sent = 0, gp_received = 0, gp_discarded = 0, gp_hvc = False, gp_rows = 0, gp_cols = 0, gp_name = None, gp_kref = 1,
               gp_outvq_full = False, gp_host_connected = False, gp_guest_connected = False\<rparr>;
         let d2 = d1\<lparr>gd_port := (gd_port d1)(h \<mapsto> port), gd_next := Suc h\<rparr>;
         if ge_chrdev E pid < 0 then add_port_fail E h pid (ge_chrdev E pid) d2
         else do {
           (nr, d3) \<leftarrow> fill_queue E (gp_in_vq port) 0 d2;
           if nr = 0 then add_port_fail E h pid (- ENOMEM) d3
           else do {
             (e, d4) \<leftarrow> (if gd_multiport d3 then Some (0, d3) else init_port_console E h d3);
             if e \<noteq> 0 then do { d5 \<leftarrow> detach_loop E (gp_in_vq port) d4; add_port_fail E h pid e d5 }
             else do {
               d5 \<leftarrow> drv_send_control_msg E h VIRTIO_CONSOLE_PORT_READY 1 (d4\<lparr>gd_ports := gd_ports d4 @ [h]\<rparr>);
               Some (0, d5)
             }
           }
         }
       }
     }"

definition unplug_port :: "'q genv \<Rightarrow> nat \<Rightarrow> 'q gdrv \<Rightarrow> 'q gdrv option" where
  "unplug_port E h d =
     do {
       port \<leftarrow> gd_port d h;
       let d1 = d\<lparr>gd_ports := remove1 h (gd_ports d)\<rparr>;
       let d2 = (if gp_guest_connected port then upd_gport h (\<lambda>p. p\<lparr>gp_guest_connected := False, gp_host_connected := False\<rparr>) d1 else d1);
       d3 \<leftarrow> discard_port_data E h d2;
       d4 \<leftarrow> reclaim_consumed_buffers E h d3;
       d5 \<leftarrow> detach_loop E (gp_in_vq port) d4;
       kref_put h (upd_gport h (\<lambda>p. p\<lparr>gp_portdev := False\<rparr>) d5)
     }"

definition set_console_size :: "nat option \<Rightarrow> u16 \<Rightarrow> u16 \<Rightarrow> 'q gdrv \<Rightarrow> 'q gdrv" where
  "set_console_size port rows cols d =
     (case port of None \<Rightarrow> d | Some h \<Rightarrow> upd_gport h (\<lambda>p. if gp_hvc p then p\<lparr>gp_rows := rows, gp_cols := cols\<rparr> else p) d)"


section \<open>Messages from the host\<close>

abbreviation (input) VIRTIO_CONSOLE_RESIZE :: u16 where "VIRTIO_CONSOLE_RESIZE \<equiv> 5"

text \<open>The name of a port: as many bytes as the message has after its header, up to a null byte.\<close>

definition set_port_name :: "nat \<Rightarrow> port_buffer \<Rightarrow> 'q gdrv \<Rightarrow> 'q gdrv option" where
  "set_port_name h b d =
     do {
       let off = unat (pb_offset b) + 8;
       let name_size = pb_len b - pb_offset b - 8 + 1;
       let (ok, d1) = next_alloc d;
       if \<not> ok then Some d1
       else if name_size = 0 \<or> length (pb_buf b) < off + (unat name_size - 1) then None
       else Some (upd_gport h (\<lambda>p. p\<lparr>gp_name := Some (takeWhile (\<lambda>c. c \<noteq> 0) (take (unat name_size - 1) (drop off (pb_buf b))))\<rparr>) d1)
     }"

text \<open>A message for a port the driver has.\<close>

definition port_message :: "'q genv \<Rightarrow> nat \<Rightarrow> port_buffer \<Rightarrow> u16 \<Rightarrow> u16 \<Rightarrow> 'q gdrv \<Rightarrow> 'q gdrv option" where
  "port_message E h b event v d =
     do {
       port \<leftarrow> gd_port d h;
       let off = unat (pb_offset b);
       if event = VIRTIO_CONSOLE_PORT_ADD then drv_send_control_msg E h VIRTIO_CONSOLE_PORT_READY 1 d
       else if event = VIRTIO_CONSOLE_PORT_REMOVE then unplug_port E h d
       else if event = VIRTIO_CONSOLE_CONSOLE_PORT then
         (if v = 0 \<or> gp_hvc port then Some d else map_option snd (init_port_console E h d))
       else if event = VIRTIO_CONSOLE_RESIZE then
         (if \<not> gp_hvc port then Some d
          else if length (pb_buf b) < off + 12 then None
          else Some (set_console_size (Some h) (get16 (pb_buf b) (off + 8)) (get16 (pb_buf b) (off + 10)) d))
       else if event = VIRTIO_CONSOLE_PORT_OPEN then reclaim_consumed_buffers E h (upd_gport h (\<lambda>p. p\<lparr>gp_host_connected := (v \<noteq> 0)\<rparr>) d)
       else if event = VIRTIO_CONSOLE_PORT_NAME then (if gp_name port \<noteq> None then Some d else set_port_name h b d)
       else Some d
     }"

definition drv_handle_control_message :: "'q genv \<Rightarrow> nat \<Rightarrow> 'q gdrv \<Rightarrow> 'q gdrv option" where
  "drv_handle_control_message E tok d =
     do {
       b \<leftarrow> get_pb d tok;
       let off = unat (pb_offset b);
       if length (pb_buf b) < off + 8 then None
       else
         (let pid = get32 (pb_buf b) off; event = get16 (pb_buf b) (off + 4); v = get16 (pb_buf b) (off + 6)
          in case drv_find_port_by_id d pid of
               Some h \<Rightarrow> port_message E h b event v d
             | None \<Rightarrow>
                 (if event \<noteq> VIRTIO_CONSOLE_PORT_ADD then Some d
                  else if gd_max_ports d \<le> pid then Some d
                  else map_option snd (drv_add_port E pid d)))
     }"

partial_function (option) control_work_handler :: "'q genv \<Rightarrow> 'q gdrv \<Rightarrow> 'q gdrv option" where
  "control_work_handler E d =
     (case lv_get (ge_vq E) (gd_c_ivq d) (gd_q d) of
        (None, q) \<Rightarrow> Some (d\<lparr>gd_q := q\<rparr>)
      | (Some (tok, len, bs), q) \<Rightarrow>
          do {
            b \<leftarrow> get_pb d tok;
            if length (pb_buf b) < length bs then None
            else do {
              d1 \<leftarrow> drv_handle_control_message E tok
                (set_obj tok (PortBuf (b\<lparr>pb_buf := splice_at 0 bs (pb_buf b), pb_len := ucast len, pb_offset := 0\<rparr>)) (d\<lparr>gd_q := q\<rparr>));
              (ret, d2) \<leftarrow> add_inbuf E (gd_c_ivq d1) tok d1;
              d3 \<leftarrow> (if ret < 0 then free_buf tok d2 else Some d2);
              control_work_handler E d3
            }
          })"

text \<open>The interrupt of an input queue; a console's own input routine is called from outside.\<close>

definition in_intr :: "'q genv \<Rightarrow> nat \<Rightarrow> 'q gdrv \<Rightarrow> 'q gdrv option" where
  "in_intr E n d =
     (case drv_find_port_by_vq d n of
        None \<Rightarrow> Some d
      | Some h \<Rightarrow>
          do {
            (buf, d1) \<leftarrow> get_inbuf E h d;
            let d2 = upd_gport h (\<lambda>p. p\<lparr>gp_inbuf := buf\<rparr>) d1;
            port \<leftarrow> gd_port d2 h;
            if gp_guest_connected port then Some d2 else discard_port_data E h d2
          })"

definition config_intr :: "u16 \<Rightarrow> u16 \<Rightarrow> 'q gdrv \<Rightarrow> 'q gdrv" where
  "config_intr cols rows d = (if gd_multiport d then d else set_console_size (drv_find_port_by_id d 0) rows cols d)"

section \<open>The device\<close>

datatype vq_callback = In_intr | Out_intr | Control_intr | No_callback

fun port_callbacks :: "nat \<Rightarrow> vq_callback list" where
  "port_callbacks 0 = []"
| "port_callbacks (Suc k) = In_intr # Out_intr # port_callbacks k"

definition io_callbacks :: "bool \<Rightarrow> u32 \<Rightarrow> vq_callback list" where
  "io_callbacks multiport nr_ports =
     [In_intr, Out_intr] @ (if multiport then [Control_intr, No_callback] @ port_callbacks (unat nr_ports - 1) else [])"

text \<open>The queues of the ports from index \<open>j\<close> of the array on.\<close>

fun assign_vqs :: "nat list \<Rightarrow> nat \<Rightarrow> nat \<Rightarrow> (nat list \<times> nat list) option" where
  "assign_vqs vqs j 0 = Some ([], [])"
| "assign_vqs vqs j (Suc k) =
     (if length vqs \<le> Suc j then None
      else do { (ins, outs) \<leftarrow> assign_vqs vqs (j + 2) k; Some (vqs ! j # ins, vqs ! Suc j # outs) })"

text \<open>\<open>find_vqs\<close> is the transport's; it gets the callbacks and returns an error code and the queues.\<close>

definition init_vqs :: "(vq_callback list \<Rightarrow> int \<times> nat list) \<Rightarrow> bool list \<Rightarrow> 'q gdrv \<Rightarrow> (int \<times> 'q gdrv) option" where
  "init_vqs find_vqs oks d =
     (let nr_ports = gd_max_ports d; nr_queues = (if gd_multiport d then (nr_ports + 1) * 2 else 2)
      in if \<not> list_all id oks then Some (- ENOMEM, d)
         else if unat nr_queues < length (io_callbacks (gd_multiport d) nr_ports) \<or> nr_ports = 0 then None
         else
           (case find_vqs (io_callbacks (gd_multiport d) nr_ports) of
              (e, vqs) \<Rightarrow>
                (if e \<noteq> 0 then Some (e, d)
                 else if length vqs < 2 then None
                 else if \<not> gd_multiport d then Some (0, d\<lparr>gd_in_vqs := [vqs ! 0], gd_out_vqs := [vqs ! 1]\<rparr>)
                 else if length vqs < 4 then None
                 else do {
                   (ins, outs) \<leftarrow> assign_vqs vqs 4 (unat nr_ports - 1);
                   Some (0, d\<lparr>gd_in_vqs := vqs ! 0 # ins, gd_out_vqs := vqs ! 1 # outs, gd_c_ivq := vqs ! 2, gd_c_ovq := vqs ! 3\<rparr>)
                 })))"

text \<open>
  Probing the device.  \<open>multiport\<close> and \<open>max_ports\<close> are what the configuration space holds, \<open>chr_major\<close>
  the outcome of registering the character device; there is no early console.
\<close>

definition virtcons_probe ::
  "'q genv \<Rightarrow> (vq_callback list \<Rightarrow> int \<times> nat list) \<Rightarrow> bool list \<Rightarrow> int \<Rightarrow> bool \<Rightarrow> u32 \<Rightarrow> 'q gdrv \<Rightarrow> (int \<times> 'q gdrv) option" where
  "virtcons_probe E find_vqs oks chr_major multiport max_ports d =
     do {
       let (ok, d1) = next_alloc d;
       if \<not> ok then Some (- ENOMEM, d1)
       else if chr_major < 0 then Some (chr_major, d1)
       else do {
         (e, d2) \<leftarrow> init_vqs find_vqs oks (d1\<lparr>gd_multiport := multiport, gd_max_ports := (if multiport then max_ports else 1), gd_ports := []\<rparr>);
         if e < 0 then Some (e, d2)
         else do {
           (e, d3) \<leftarrow>
             (if multiport then do { (nr, d3) \<leftarrow> fill_queue E (gd_c_ivq d2) 0 d2; Some (if nr = 0 then - ENOMEM else 0, d3) }
              else do { (ret, d3) \<leftarrow> drv_add_port E 0 d2; Some (0, d3) });
           if e \<noteq> 0 then do { d4 \<leftarrow> drv_send_control_packet E VIRTIO_CONSOLE_BAD_ID VIRTIO_CONSOLE_DEVICE_READY 0 d3; Some (e, d4) }
           else do { d4 \<leftarrow> drv_send_control_packet E VIRTIO_CONSOLE_BAD_ID VIRTIO_CONSOLE_DEVICE_READY 1 d3; Some (0, d4) }
         }
       }
     }"

fun unplug_all :: "'q genv \<Rightarrow> nat list \<Rightarrow> 'q gdrv \<Rightarrow> 'q gdrv option" where
  "unplug_all E [] d = Some d"
| "unplug_all E (h # hs) d = do { d1 \<leftarrow> unplug_port E h d; unplug_all E hs d1 }"

partial_function (option) drain_loop :: "'q genv \<Rightarrow> nat \<Rightarrow> 'q gdrv \<Rightarrow> 'q gdrv option" where
  "drain_loop E n d =
     (case lv_get (ge_vq E) n (gd_q d) of
        (None, q) \<Rightarrow> Some (d\<lparr>gd_q := q\<rparr>)
      | (Some (tok, len, bs), q) \<Rightarrow> do { d1 \<leftarrow> free_buf tok (d\<lparr>gd_q := q\<rparr>); drain_loop E n d1 })"

definition virtcons_remove :: "'q genv \<Rightarrow> 'q gdrv \<Rightarrow> 'q gdrv option" where
  "virtcons_remove E d =
     do {
       d1 \<leftarrow> unplug_all E (gd_ports d) d;
       if gd_multiport d1 then do { d2 \<leftarrow> drain_loop E (gd_c_ivq d1) d1; detach_loop E (gd_c_ivq d2) d2 } else Some d1
     }"


section \<open>One exchange\<close>

lemma heap_simps [simp]:
  "get_data (set_obj tok (Data bs) d) t = (if t = tok then Some bs else get_data d t)"
  "get_pb (set_obj tok (PortBuf b) d) t = (if t = tok then Some b else get_pb d t)"
  "t \<noteq> tok \<Longrightarrow> get_data (set_obj tok x d) t = get_data d t" "t \<noteq> tok \<Longrightarrow> get_pb (set_obj tok x d) t = get_pb d t"
  "get_data (upd_gport h f d) t = get_data d t" "get_pb (upd_gport h f d) t = get_pb d t"
  "get_data (d\<lparr>gd_q := q\<rparr>) t = get_data d t" "get_pb (d\<lparr>gd_q := q\<rparr>) t = get_pb d t"
  "get_data (d\<lparr>gd_um := u\<rparr>) t = get_data d t" "get_pb (d\<lparr>gd_um := u\<rparr>) t = get_pb d t"
  by (simp_all add: get_data_def get_pb_def set_obj_def upd_gport_def)

lemma gdrv_simps [simp]:
  "gd_um (set_obj tok x d) = gd_um d" "gd_q (set_obj tok x d) = gd_q d" "gd_port (set_obj tok x d) = gd_port d"
  "gd_um (upd_gport h f d) = gd_um d" "gd_q (upd_gport h f d) = gd_q d" "gd_heap (upd_gport h f d) = gd_heap d"
  "gd_port (upd_gport h f d) g = (if g = h then map_option f (gd_port d h) else gd_port d g)"
  "gd_heap (set_obj tok x d) = (gd_heap d)(tok \<mapsto> x)"
  by (simp_all add: set_obj_def upd_gport_def)

text \<open>
  A host that answers at once: nothing is left over on the output queue, the request is accepted and
  used up by the time the guest looks, and its answer is in the first buffer of the input queue.
\<close>

definition answers :: "'q genv \<Rightarrow> nat \<Rightarrow> nat \<Rightarrow> nat \<Rightarrow> byte list \<Rightarrow> nat \<Rightarrow> byte list \<Rightarrow> 'q \<Rightarrow> bool" where
  "answers E out_vq in_vq tok req b rep q =
     (case lv_add (ge_vq E) out_vq req 0 tok q of
        (ret, q1) \<Rightarrow> 0 \<le> ret \<and>
          (case lv_get (ge_vq E) out_vq (lv_kick (ge_vq E) out_vq q1) of
             (None, q2) \<Rightarrow> False
           | (Some r, q2) \<Rightarrow>
               (case lv_get (ge_vq E) in_vq q2 of
                  (None, q3) \<Rightarrow> False
                | (Some (tok', len, bs), q3) \<Rightarrow> tok' = b \<and> unat len = length rep \<and> bs = rep)))"

text \<open>An open port that is ready for a request: nothing pending in either direction.\<close>

definition idle_port :: "'q genv \<Rightarrow> nat \<Rightarrow> gport \<Rightarrow> 'q gdrv \<Rightarrow> bool" where
  "idle_port E h port d \<longleftrightarrow> gd_port d h = Some port \<and> gp_portdev port \<and> gp_guest_connected port \<and> gp_host_connected port
     \<and> \<not> gp_outvq_full port \<and> gp_inbuf port = None \<and> lv_get (ge_vq E) (gp_out_vq port) (gd_q d) = (None, gd_q d)"

lemma idle_reclaim: "idle_port E h port d \<Longrightarrow> reclaim_consumed_buffers E h d = Some d"
  by (subst reclaim_consumed_buffers_def, subst reclaim_loop.simps) (simp add: idle_port_def)

lemma spin_get_now: "lv_get (ge_vq E) n (gd_q d) = (Some r, q) \<Longrightarrow> spin_get E n d = Some (d\<lparr>gd_q := q\<rparr>)"
  by (subst spin_get.simps) simp

text \<open>The second half of an exchange: the reply is there when the request has been sent.\<close>

lemma exchange_reply:
  assumes sz: "sz = sz_crypto_data (ge_layout E)" "0 < sz" "sz < 2 ^ 32"
    and send: "send_buf E h tok sz nonblock d = Some (sent, d1)"
    and p1: "gd_port d1 h = Some p1" "gp_inbuf p1 = None" "gp_guest_connected p1" "gp_host_connected p1"
    and req: "get_data d1 tok = Some req" "length req = sz" and rep: "length rep = sz"
    and b: "get_pb d1 b = Some pb" "sz \<le> length (pb_buf pb)" "b \<noteq> tok"
    and get: "lv_get (ge_vq E) (gp_in_vq p1) (gd_q d1) = (Some (b, len, rep), q3)" "unat len = length rep"
  shows "\<exists>d'. exchange E h tok nonblock d = Some (None, d') \<and> get_data d' tok = Some rep \<and> gd_um d' = gd_um d1
    \<and> (\<forall>t. t \<noteq> b \<and> t \<noteq> tok \<longrightarrow> gd_heap d' t = gd_heap d1 t) \<and> get_pb d' b \<noteq> None \<and> gd_port d' h \<noteq> None
    \<and> map_option gp_portdev (gd_port d' h) = Some (gp_portdev p1) \<and> map_option gp_out_vq (gd_port d' h) = Some (gp_out_vq p1)
    \<and> gd_q d' = lv_kick (ge_vq E) (gp_in_vq p1) (snd (lv_add (ge_vq E) (gp_in_vq p1) [] (unat (pb_size pb)) b q3))"
proof -
  let ?n = "sz_crypto_data (ge_layout E)"
  define pb1 where "pb1 = pb\<lparr>pb_buf := splice_at 0 rep (pb_buf pb), pb_len := ucast len, pb_offset := 0\<rparr>"
  define p2 where "p2 = p1\<lparr>gp_received := gp_received p1 + ucast len, gp_inbuf := Some b\<rparr>"
  define d2 where "d2 = set_obj b (PortBuf pb1) (d1\<lparr>gd_q := q3, gd_port := (gd_port d1)(h \<mapsto> p2)\<rparr>)"
  have has: "port_has_data E h d1 = Some (True, d2)"
    using p1 get(1) b(1,2) rep sz(1) by (simp add: port_has_data_def get_inbuf_def upd_gport_def d2_def set_obj_def pb1_def p2_def)
  have d2: "gd_port d2 h = Some p2" "gp_guest_connected p2" "gp_host_connected p2" "gp_inbuf p2 = Some b" "get_pb d2 b = Some pb1"
    "gp_in_vq p2 = gp_in_vq p1" "gd_q d2 = q3"
    using p1 by (simp_all add: d2_def p2_def set_obj_def get_pb_def)
  have has2: "port_has_data E h d2 = Some (True, d2)"
    using d2 by (simp add: port_has_data_def get_inbuf_def upd_gport_def fun_upd_idem)
  have n: "unat (of_nat ?n :: u64) = ?n" "(of_nat ?n :: u64) \<noteq> 0" "(ucast len :: u64) = of_nat ?n"
  proof -
    show 1: "unat (of_nat ?n :: u64) = ?n" using sz by (intro unat_of_nat_small) simp
    then show "(of_nat ?n :: u64) \<noteq> 0" using sz by (metis unat_0 less_numeral_extra(3))
    have "(ucast len :: u64) = of_nat (unat len)" by (simp only: of_nat_unat)
    then show "(ucast len :: u64) = of_nat ?n" using get(2) rep sz(1) by simp
  qed
  obtain r' q5 where ad: "lv_add (ge_vq E) (gp_in_vq p1) [] (unat (pb_size pb)) b q3 = (r', q5)" by fastforce
  have data: "get_data d2 tok = Some req" using req b(3) by (simp add: d2_def get_data_def set_obj_def)
  have "\<exists>d'. fill_readbuf E h (Kern tok) (of_nat ?n) d2 = Some (int ?n, d') \<and> get_data d' tok = Some rep \<and> gd_um d' = gd_um d2
    \<and> (\<forall>t. t \<noteq> b \<and> t \<noteq> tok \<longrightarrow> gd_heap d' t = gd_heap d2 t) \<and> get_pb d' b \<noteq> None \<and> gd_port d' h = Some (p2\<lparr>gp_inbuf := None\<rparr>)
    \<and> gd_q d' = lv_kick (ge_vq E) (gp_in_vq p1) q5"
    using has2 d2 n rep sz req b(2,3) data ad
    by (simp add: fill_readbuf_def store_rbuf_def add_inbuf_def pb1_def splice_at_def Let_def)
  then obtain d' where f: "fill_readbuf E h (Kern tok) (of_nat ?n) d2 = Some (int ?n, d')" "get_data d' tok = Some rep" "gd_um d' = gd_um d2"
    "\<forall>t. t \<noteq> b \<and> t \<noteq> tok \<longrightarrow> gd_heap d' t = gd_heap d2 t" "get_pb d' b \<noteq> None" "gd_port d' h = Some (p2\<lparr>gp_inbuf := None\<rparr>)"
    "gd_q d' = lv_kick (ge_vq E) (gp_in_vq p1) q5" by blast
  have "exchange E h tok nonblock d = Some (None, d')" using send has d2 has2 f(1) sz(1) by (simp add: exchange_def)
  moreover have "gd_um d2 = gd_um d1" "\<forall>t. t \<noteq> b \<longrightarrow> gd_heap d2 t = gd_heap d1 t" by (simp_all add: d2_def set_obj_def)
  ultimately show ?thesis using f ad by (auto simp: p2_def)
qed

lemma exchange_answered:
  assumes idle: "idle_port E h port d" and sz: "sz = sz_crypto_data (ge_layout E)" "0 < sz" "sz < 2 ^ 32"
    and req: "get_data d tok = Some req" "length req = sz" and rep: "length rep = sz"
    and b: "get_pb d b = Some pb" "sz \<le> length (pb_buf pb)" "b \<noteq> tok"
    and ans: "answers E (gp_out_vq port) (gp_in_vq port) tok req b rep (gd_q d)"
  shows "\<exists>d'. exchange E h tok False d = Some (None, d') \<and> get_data d' tok = Some rep \<and> gd_um d' = gd_um d
    \<and> (\<forall>t. t \<noteq> b \<and> t \<noteq> tok \<longrightarrow> gd_heap d' t = gd_heap d t) \<and> get_pb d' b \<noteq> None"
proof -
  obtain ret q1 where 1: "lv_add (ge_vq E) (gp_out_vq port) req 0 tok (gd_q d) = (ret, q1)" by fastforce
  obtain r q2 where 2: "lv_get (ge_vq E) (gp_out_vq port) (lv_kick (ge_vq E) (gp_out_vq port) q1) = (Some r, q2)" "0 \<le> ret"
    using ans by (auto simp: answers_def 1 split: prod.splits option.splits)
  obtain len q3 where 3: "lv_get (ge_vq E) (gp_in_vq port) q2 = (Some (b, len, rep), q3)" "unat len = length rep"
    using ans by (auto simp: answers_def 1 2 split: prod.splits option.splits)
  define p1 where "p1 = (if ret = 0 then port\<lparr>gp_outvq_full := True\<rparr> else port)\<lparr>gp_sent := gp_sent port + of_nat sz\<rparr>"
  define d1 where "d1 = d\<lparr>gd_q := q2, gd_port := (gd_port d)(h \<mapsto> p1)\<rparr>"
  have i: "gd_port d h = Some port" "gp_guest_connected port" "gp_host_connected port" "gp_inbuf port = None" using idle by (auto simp: idle_port_def)
  have send: "send_buf E h tok sz False d = Some (of_nat sz, d1)"
    using idle_reclaim [OF idle] i req 1 2 by (simp add: send_buf_def spin_get_now upd_gport_def d1_def p1_def)
  have p1: "gd_port d1 h = Some p1" "gp_inbuf p1 = None" "gp_guest_connected p1" "gp_host_connected p1" "gp_in_vq p1 = gp_in_vq port"
    using i by (simp_all add: d1_def p1_def)
  have d1: "get_data d1 tok = Some req" "get_pb d1 b = Some pb" "gd_q d1 = q2" "gd_um d1 = gd_um d" "gd_heap d1 = gd_heap d"
    using req b by (simp_all add: d1_def get_data_def get_pb_def)
  from exchange_reply [OF sz send p1(1-4) d1(1) req(2) rep d1(2) b(2,3) _ 3(2)] 3(1) d1(3-5) p1(5) show ?thesis by auto
qed

section \<open>A cipher request\<close>

lemma copy_in_ok:
  assumes "get_data d tok = Some old" "off + n \<le> length old" "copy_from_user (gd_um d) a n = Some bs"
  shows "copy_in tok off a n d = Some (True, set_obj tok (Data (splice_at off bs old)) d)"
  using assms length_load_bytes [OF assms(3)] by (simp add: copy_in_def write_obj_def)

lemma copy_out_ok:
  assumes "get_data d tok = Some bs" "off + n \<le> length bs" "can_write (gd_um d) a n" "n \<le> 2 ^ 64"
  shows "copy_out tok off a n d = Some (True, d\<lparr>gd_um := snd (copy_to_user (gd_um d) a (take n (drop off bs)))\<rparr>)"
proof -
  have "fst (copy_to_user (gd_um d) a (take n (drop off bs))) = 0" using assms by (intro copy_to_all(1)) simp_all
  then show ?thesis using assms(1,2) by (auto simp: copy_out_def split: prod.splits)
qed

text \<open>The request as it is sent.\<close>

definition crypt_packet :: "'q genv \<Rightarrow> byte list \<Rightarrow> byte list \<Rightarrow> byte list \<Rightarrow> byte list \<Rightarrow> byte list" where
  "crypt_packet E copb srcb dstb ivb =
     (let L = ge_layout E
      in splice_at (off_iv L) ivb (splice_at (off_dst L) dstb (splice_at off_src srcb (splice_at 0 copb
           (splice_at (off_cmd L) (put32 (cmd_code CIOCCRYPT)) (map (ge_garbage E) [0..<sz_crypto_data L]))))))"

lemma layout_sizes:
  "112 + 2 * data_max L + block_max L \<le> off_cmd L" "off_cmd L + 4 \<le> sz_crypto_data L" "off_dst L = 112 + data_max L"
  "off_iv L = 112 + 2 * data_max L"
  unfolding off_cmd_def sz_crypto_data_def off_src_def off_dst_def off_iv_def by presburger+

lemma length_splice_chain:
  assumes "length x0 = sz" "48 \<le> sz" "length copb = 48" "112 + length srcb \<le> sz" "i + length dstb \<le> sz" "j + length ivb \<le> sz"
  shows "length (splice_at 0 copb x0) = sz" "length (splice_at 112 srcb (splice_at 0 copb x0)) = sz"
    "length (splice_at i dstb (splice_at 112 srcb (splice_at 0 copb x0))) = sz"
    "length (splice_at j ivb (splice_at i dstb (splice_at 112 srcb (splice_at 0 copb x0)))) = sz"
proof -
  show 1: "length (splice_at 0 copb x0) = sz" using assms by simp
  show 2: "length (splice_at 112 srcb (splice_at 0 copb x0)) = sz" using assms 1 by simp
  show 3: "length (splice_at i dstb (splice_at 112 srcb (splice_at 0 copb x0))) = sz" using assms 2 by simp
  show "length (splice_at j ivb (splice_at i dstb (splice_at 112 srcb (splice_at 0 copb x0)))) = sz" using assms 3 by simp
qed

lemma length_packet:
  assumes "length copb = 48" "length srcb \<le> data_max (ge_layout E)" "length dstb \<le> data_max (ge_layout E)" "length ivb = block_max (ge_layout E)"
  shows "length (crypt_packet E copb srcb dstb ivb) = sz_crypto_data (ge_layout E)"
proof -
  let ?L = "ge_layout E"
  note sz = layout_sizes [of ?L]
  define x0 where "x0 = splice_at (off_cmd ?L) (put32 (cmd_code CIOCCRYPT)) (map (ge_garbage E) [0..<sz_crypto_data ?L])"
  have x0: "length x0 = sz_crypto_data ?L" using sz(2) by (simp add: x0_def del: cmd_code.simps)
  show ?thesis unfolding crypt_packet_def Let_def x0_def [symmetric] off_src_def
    by (rule length_splice_chain(4) [OF x0]) (use assms sz in linarith)+
qed

lemma drv_crypt_sends:
  assumes arg: "copy_from_user (gd_um d) arg 48 = Some (crypt_op_bytes cop)"
    and len: "unat (cop_len cop) \<le> data_max (ge_layout E)"
    and rd: "copy_from_user (gd_um d) (cop_src cop) (unat (cop_len cop)) = Some srcb" "copy_from_user (gd_um d) (cop_dst cop) (unat (cop_len cop)) = Some dstb"
      "copy_from_user (gd_um d) (cop_iv cop) (block_max (ge_layout E)) = Some ivb"
    and tok: "get_data d tok = Some (splice_at (off_cmd (ge_layout E)) (put32 (cmd_code CIOCCRYPT)) (map (ge_garbage E) [0..<sz_crypto_data (ge_layout E)]))"
  shows "drv_crypt E h tok nonblock arg d = exchange_then E h tok nonblock (drv_crypt_done E tok arg)
      (set_obj tok (Data (crypt_packet E (crypt_op_bytes cop) srcb dstb ivb)) d)"
proof -
  let ?L = "ge_layout E" and ?n = "unat (cop_len cop)"
  note sz = layout_sizes [of ?L]
  define x0 where "x0 = splice_at (off_cmd ?L) (put32 (cmd_code CIOCCRYPT)) (map (ge_garbage E) [0..<sz_crypto_data ?L])"
  define x1 where "x1 = splice_at 0 (crypt_op_bytes cop) x0"
  define x2 where "x2 = splice_at off_src srcb x1"
  define x3 where "x3 = splice_at (off_dst ?L) dstb x2"
  define x4 where "x4 = splice_at (off_iv ?L) ivb x3"
  have l: "length srcb = ?n" "length dstb = ?n" "length ivb = block_max ?L" by (rule length_load_bytes [OF rd(1)], rule length_load_bytes [OF rd(2)], rule length_load_bytes [OF rd(3)])
  have lc: "length (crypt_op_bytes cop) = 48" by (simp add: crypt_op.length_enc)
  have x0: "length x0 = sz_crypto_data ?L" using sz(2) by (simp add: x0_def del: cmd_code.simps)
  have bd: "48 \<le> sz_crypto_data ?L" "112 + ?n \<le> sz_crypto_data ?L" "off_dst ?L + ?n \<le> sz_crypto_data ?L" "off_iv ?L + block_max ?L \<le> sz_crypto_data ?L"
    using sz len by linarith+
  have ls: "length x1 = sz_crypto_data ?L" "length x2 = sz_crypto_data ?L" "length x3 = sz_crypto_data ?L"
    using length_splice_chain [OF x0 bd(1) lc, of srcb "off_dst ?L" dstb "off_iv ?L" ivb] bd l unfolding x1_def x2_def x3_def off_src_def by simp_all
  have t48: "take 48 x1 = crypt_op_bytes cop" using lc by (simp add: x1_def splice_at_def)
  have ss: "set_obj tok y (set_obj tok z e) = set_obj tok y e" for y z and e :: "'a gdrv" by (simp add: set_obj_def)
  have c1: "copy_in tok 0 arg 48 d = Some (True, set_obj tok (Data x1) d)"
    unfolding x1_def by (rule copy_in_ok [OF tok [folded x0_def] _ arg]) (use x0 bd in simp)
  have c2: "copy_in tok off_src (cop_src cop) ?n (set_obj tok (Data x1) d) = Some (True, set_obj tok (Data x2) d)"
    unfolding x2_def using copy_in_ok [of "set_obj tok (Data x1) d" tok x1 off_src ?n "cop_src cop" srcb] ls bd rd(1) by (simp add: ss off_src_def)
  have c3: "copy_in tok (off_dst ?L) (cop_dst cop) ?n (set_obj tok (Data x2) d) = Some (True, set_obj tok (Data x3) d)"
    unfolding x3_def using copy_in_ok [of "set_obj tok (Data x2) d" tok x2 "off_dst ?L" ?n "cop_dst cop" dstb] ls bd rd(2) by (simp add: ss)
  have c4: "copy_in tok (off_iv ?L) (cop_iv cop) (block_max ?L) (set_obj tok (Data x3) d) = Some (True, set_obj tok (Data x4) d)"
    unfolding x4_def using copy_in_ok [of "set_obj tok (Data x3) d" tok x3 "off_iv ?L" "block_max ?L" "cop_iv cop" ivb] ls bd rd(3) by (simp add: ss)
  have x4: "x4 = crypt_packet E (crypt_op_bytes cop) srcb dstb ivb" by (simp add: x4_def x3_def x2_def x1_def x0_def crypt_packet_def Let_def)
  show ?thesis unfolding drv_crypt_def Let_def c1 by (simp add: t48 crypt_op.dec_enc c2 c3 c4 x4)
qed

lemma drv_crypt_done_ok:
  assumes rep: "get_data d tok = Some rep" "length rep = sz_crypto_data (ge_layout E)" "take 48 rep = crypt_op_bytes cop"
    and len: "unat (cop_len cop) \<le> data_max (ge_layout E)"
    and wr: "can_write (gd_um d) arg 48" "can_write (gd_um d) (cop_dst cop) (unat (cop_len cop))"
  shows "drv_crypt_done E tok arg d = finish tok 0 (d\<lparr>gd_um := snd (copy_to_user (snd (copy_to_user (gd_um d) arg (crypt_op_bytes cop))) (cop_dst cop)
      (take (unat (cop_len cop)) (drop (off_dst (ge_layout E)) rep)))\<rparr>)"
proof -
  let ?u = "snd (copy_to_user (gd_um d) arg (crypt_op_bytes cop))"
  have l: "length (crypt_op_bytes cop) = 48" by (simp add: crypt_op.length_enc)
  note sz = layout_sizes [of "ge_layout E"]
  have c1: "copy_out tok 0 arg 48 d = Some (True, d\<lparr>gd_um := ?u\<rparr>)"
    using copy_out_ok [OF rep(1) _ wr(1), of 0] rep sz by simp
  have "fst (copy_to_user (gd_um d) arg (crypt_op_bytes cop)) = 0" using wr(1) l by (intro copy_to_all(1)) simp_all
  then have "copy_to_user (gd_um d) arg (crypt_op_bytes cop) = (0, ?u)" by (simp add: prod_eq_iff)
  from user.load_after_store [OF this] have rd: "copy_from_user ?u arg 48 = Some (crypt_op_bytes cop)" using l by simp
  have "unat (cop_len cop) \<le> 2 ^ 64" using unat_bound [of "cop_len cop"] by simp
  then have c2: "copy_out tok (off_dst (ge_layout E)) (cop_dst cop) (unat (cop_len cop)) (d\<lparr>gd_um := ?u\<rparr>)
      = Some (True, d\<lparr>gd_um := snd (copy_to_user ?u (cop_dst cop) (take (unat (cop_len cop)) (drop (off_dst (ge_layout E)) rep)))\<rparr>)"
    using copy_out_ok [of "d\<lparr>gd_um := ?u\<rparr>" tok rep "off_dst (ge_layout E)" "unat (cop_len cop)" "cop_dst cop"] rep sz len wr(2)
    by (simp add: can_write_stable)
  show ?thesis unfolding drv_crypt_done_def c1 by (simp add: rep rd crypt_op.dec_enc c2)
qed


lemma packet_op: "length copb = 48 \<Longrightarrow> length x = sz \<Longrightarrow> 112 \<le> sz \<Longrightarrow> 112 \<le> i \<Longrightarrow> i \<le> sz \<Longrightarrow> 112 \<le> j \<Longrightarrow> j \<le> sz
    \<Longrightarrow> take 48 (splice_at j c (splice_at i b (splice_at 112 a (splice_at 0 copb x)))) = copb"
  by (simp add: splice_at_def)

lemma take_packet:
  assumes "length copb = 48"
  shows "take 48 (crypt_packet E copb srcb dstb ivb) = copb"
proof -
  let ?L = "ge_layout E"
  note sz = layout_sizes [of ?L]
  define x0 where "x0 = splice_at (off_cmd ?L) (put32 (cmd_code CIOCCRYPT)) (map (ge_garbage E) [0..<sz_crypto_data ?L])"
  have x0: "length x0 = sz_crypto_data ?L" using sz(2) by (simp add: x0_def del: cmd_code.simps)
  show ?thesis unfolding crypt_packet_def Let_def x0_def [symmetric] off_src_def
    by (rule packet_op [OF assms x0]) (use sz in linarith)+
qed

lemma packet_fields:
  assumes l: "length copb = 48" "length srcb \<le> data_max (ge_layout E)" "length dstb \<le> data_max (ge_layout E)" "length ivb = block_max (ge_layout E)"
  shows "take (length srcb) (drop off_src (crypt_packet E copb srcb dstb ivb)) = srcb"
    "take (block_max (ge_layout E)) (drop (off_iv (ge_layout E)) (crypt_packet E copb srcb dstb ivb)) = ivb"
    "take 4 (drop (off_cmd (ge_layout E)) (crypt_packet E copb srcb dstb ivb)) = put32 (cmd_code CIOCCRYPT)"
proof -
  let ?L = "ge_layout E" and ?w = "put32 (cmd_code CIOCCRYPT)"
  note sz = layout_sizes [of ?L]
  have w4: "length ?w = 4" by simp
  define x0 where "x0 = splice_at (off_cmd ?L) ?w (map (ge_garbage E) [0..<sz_crypto_data ?L])"
  have x0: "length x0 = sz_crypto_data ?L" using sz(2) w4 by (simp add: x0_def del: cmd_code.simps)
  define x1 where "x1 = splice_at 0 copb x0"
  define x2 where "x2 = splice_at 112 srcb x1"
  define x3 where "x3 = splice_at (off_dst ?L) dstb x2"
  have ls: "length x1 = sz_crypto_data ?L" "length x2 = sz_crypto_data ?L" "length x3 = sz_crypto_data ?L"
    using length_splice_chain [OF x0 _ l(1), of srcb "off_dst ?L" dstb "off_iv ?L" ivb] l sz unfolding x1_def x2_def x3_def by simp_all
  have p: "crypt_packet E copb srcb dstb ivb = splice_at (off_iv ?L) ivb x3" by (simp add: crypt_packet_def x3_def x2_def x1_def x0_def Let_def off_src_def)
  show "take (block_max ?L) (drop (off_iv ?L) (crypt_packet E copb srcb dstb ivb)) = ivb"
    unfolding p l(4) [symmetric] by (rule take_drop_splice_at) (use l ls sz in linarith)
  have "take (length srcb) (drop 112 (splice_at (off_iv ?L) ivb x3)) = take (length srcb) (drop 112 x3)"
    by (rule take_splice_other) (use l ls sz in linarith)+
  also have "\<dots> = take (length srcb) (drop 112 x2)" unfolding x3_def by (rule take_splice_other) (use l ls sz in linarith)+
  also have "\<dots> = srcb" unfolding x2_def by (rule take_drop_splice_at) (use l ls sz in linarith)
  finally show "take (length srcb) (drop off_src (crypt_packet E copb srcb dstb ivb)) = srcb" by (simp add: p off_src_def)
  have "take 4 (drop (off_cmd ?L) (splice_at (off_iv ?L) ivb x3)) = take 4 (drop (off_cmd ?L) x3)"
    by (rule take_splice_other) (use l ls sz in linarith)+
  also have "\<dots> = take 4 (drop (off_cmd ?L) x2)" unfolding x3_def by (rule take_splice_other) (use l ls sz in linarith)+
  also have "\<dots> = take 4 (drop (off_cmd ?L) x1)" unfolding x2_def by (rule take_splice_other) (use l ls sz in linarith)+
  also have "\<dots> = take 4 (drop (off_cmd ?L) x0)" unfolding x1_def by (rule take_splice_other) (use x0 l ls sz in linarith)+
  also have "\<dots> = ?w" unfolding x0_def w4 [symmetric] by (rule take_drop_splice_at) (use w4 sz in simp)
  finally show "take 4 (drop (off_cmd ?L) (crypt_packet E copb srcb dstb ivb)) = ?w" by (simp add: p)
qed

lemma take_splice: "length bs = n \<Longrightarrow> i + n \<le> length xs \<Longrightarrow> take n (drop i (splice_at i bs xs)) = bs"
  "k \<le> i \<Longrightarrow> i \<le> length xs \<Longrightarrow> take k (splice_at i bs xs) = take k xs"
  by (simp_all add: splice_at_def)

text \<open>Up to the request's command, a call on an idle port allocates the request and marks it with the command.\<close>

lemma ioctl_starts:
  assumes idle: "idle_port E h port d" and al: "fst (next_alloc d)" "gd_heap d (gd_next d) = None"
  obtains d5 where "port_fops_ioctl E h nonblock cmd arg d =
      (if cmd = cmd_code CIOCGSESSION then drv_gsession E h (gd_next d) nonblock arg d5
       else if cmd = cmd_code CIOCCRYPT then drv_crypt E h (gd_next d) nonblock arg d5
       else if cmd = cmd_code CIOCFSESSION then drv_fsession E h (gd_next d) nonblock arg d5
       else Some (- EINVAL, d5))"
    "get_data d5 (gd_next d) = Some (splice_at (off_cmd (ge_layout E)) (put32 cmd) (map (ge_garbage E) [0..<sz_crypto_data (ge_layout E)]))"
    "gd_um d5 = gd_um d" "gd_q d5 = gd_q d" "gd_port d5 = gd_port d" "\<forall>t. t \<noteq> gd_next d \<longrightarrow> gd_heap d5 t = gd_heap d t"
proof -
  let ?L = "ge_layout E"
  obtain d3 where d3: "next_alloc d = (True, d3)" using al(1) by (metis prod.collapse)
  then have f: "gd_um d3 = gd_um d" "gd_q d3 = gd_q d" "gd_port d3 = gd_port d" "gd_heap d3 = gd_heap d" "gd_next d3 = gd_next d"
    by (auto simp: next_alloc_def split: list.splits)
  define d4 where "d4 = d3\<lparr>gd_heap := (gd_heap d3)(gd_next d \<mapsto> Data (map (ge_garbage E) [0..<sz_crypto_data ?L])), gd_next := Suc (gd_next d)\<rparr>"
  define d5 where "d5 = set_obj (gd_next d) (Data (splice_at (off_cmd ?L) (put32 cmd) (map (ge_garbage E) [0..<sz_crypto_data ?L]))) d4"
  have g4: "get_data d4 (gd_next d) = Some (map (ge_garbage E) [0..<sz_crypto_data ?L])" by (simp add: get_data_def d4_def)
  have w: "write_obj (gd_next d) (off_cmd ?L) (put32 cmd) d4 = Some d5"
    using layout_sizes(2) [of ?L] by (simp add: write_obj_def g4 d5_def)
  have wb: "will_write_block E h d = Some (False, d)"
    using idle idle_reclaim [OF idle] by (simp add: will_write_block_def idle_port_def)
  have "port_fops_ioctl E h nonblock cmd arg d =
      (if cmd = cmd_code CIOCGSESSION then drv_gsession E h (gd_next d) nonblock arg d5
       else if cmd = cmd_code CIOCCRYPT then drv_crypt E h (gd_next d) nonblock arg d5
       else if cmd = cmd_code CIOCFSESSION then drv_fsession E h (gd_next d) nonblock arg d5
       else Some (- EINVAL, d5))"
    using wb idle d3 w f(5) by (simp add: port_fops_ioctl_def idle_port_def new_obj_def d4_def del: cmd_code.simps)
  moreover have "get_data d5 (gd_next d) = Some (splice_at (off_cmd ?L) (put32 cmd) (map (ge_garbage E) [0..<sz_crypto_data ?L]))"
    by (simp add: d5_def)
  moreover have "gd_um d5 = gd_um d" "gd_q d5 = gd_q d" "gd_port d5 = gd_port d" "\<forall>t. t \<noteq> gd_next d \<longrightarrow> gd_heap d5 t = gd_heap d t"
    using f by (simp_all add: d5_def d4_def)
  ultimately show thesis by (rule that)
qed

lemma ioctl_crypt_answered:
  assumes idle: "idle_port E h port d" and al: "fst (next_alloc d)" "gd_heap d (gd_next d) = None"
    and arg: "copy_from_user (gd_um d) arg 48 = Some (crypt_op_bytes cop)"
    and len: "unat (cop_len cop) \<le> data_max (ge_layout E)" "sz_crypto_data (ge_layout E) < 2 ^ 32"
    and rd: "copy_from_user (gd_um d) (cop_src cop) (unat (cop_len cop)) = Some srcb" "copy_from_user (gd_um d) (cop_dst cop) (unat (cop_len cop)) = Some dstb"
      "copy_from_user (gd_um d) (cop_iv cop) (block_max (ge_layout E)) = Some ivb"
    and wr: "can_write (gd_um d) arg 48" "can_write (gd_um d) (cop_dst cop) (unat (cop_len cop))"
    and b: "get_pb d b = Some pb" "sz_crypto_data (ge_layout E) \<le> length (pb_buf pb)"
    and out: "length out = unat (cop_len cop)"
    and ans: "answers E (gp_out_vq port) (gp_in_vq port) (gd_next d) (crypt_packet E (crypt_op_bytes cop) srcb dstb ivb) b
      (splice_at (off_dst (ge_layout E)) out (crypt_packet E (crypt_op_bytes cop) srcb dstb ivb)) (gd_q d)"
  shows "\<exists>d'. port_fops_ioctl E h False (cmd_code CIOCCRYPT) arg d = Some (0, d')
    \<and> gd_um d' = snd (copy_to_user (snd (copy_to_user (gd_um d) arg (crypt_op_bytes cop))) (cop_dst cop) out)
    \<and> (\<forall>t. t \<noteq> b \<longrightarrow> gd_heap d' t = gd_heap d t) \<and> get_pb d' b \<noteq> None"
proof -
  let ?L = "ge_layout E" and ?tok = "gd_next d"
  define req where "req = crypt_packet E (crypt_op_bytes cop) srcb dstb ivb"
  define rep where "rep = splice_at (off_dst ?L) out req"
  note sz = layout_sizes [of ?L]
  have l: "length srcb = unat (cop_len cop)" "length dstb = unat (cop_len cop)" "length ivb = block_max ?L" "length (crypt_op_bytes cop) = 48"
    by (rule length_load_bytes [OF rd(1)], rule length_load_bytes [OF rd(2)], rule length_load_bytes [OF rd(3)]) (simp add: crypt_op.length_enc)
  have lq: "length req = sz_crypto_data ?L" unfolding req_def using l len(1) by (intro length_packet) simp_all
  have ob: "off_dst ?L + unat (cop_len cop) \<le> sz_crypto_data ?L" "48 \<le> off_dst ?L" "0 < sz_crypto_data ?L" using sz len(1) by linarith+
  have lr: "length rep = sz_crypto_data ?L" using lq ob out by (simp add: rep_def)
  have ne: "cmd_code CIOCCRYPT \<noteq> cmd_code CIOCGSESSION" by (simp only: cmd_code_inj) simp
  from ioctl_starts [OF idle al, of False "cmd_code CIOCCRYPT" arg] ne obtain d5 where
    d5: "port_fops_ioctl E h False (cmd_code CIOCCRYPT) arg d = drv_crypt E h ?tok False arg d5"
    "get_data d5 ?tok = Some (splice_at (off_cmd ?L) (put32 (cmd_code CIOCCRYPT)) (map (ge_garbage E) [0..<sz_crypto_data ?L]))"
    "gd_um d5 = gd_um d" "gd_q d5 = gd_q d" "gd_port d5 = gd_port d" "\<forall>t. t \<noteq> ?tok \<longrightarrow> gd_heap d5 t = gd_heap d t"
    by (metis (no_types, lifting))
  define d6 where "d6 = set_obj ?tok (Data req) d5"
  have bt: "b \<noteq> ?tok" using b(1) al(2) by (auto simp: get_pb_def)
  have s: "drv_crypt E h ?tok False arg d5 = exchange_then E h ?tok False (drv_crypt_done E ?tok arg) d6"
    unfolding d6_def req_def by (rule drv_crypt_sends) (use arg len rd d5 in simp_all)
  have i6: "idle_port E h port d6" using idle d5(4,5) by (simp add: idle_port_def d6_def)
  have g6: "get_data d6 ?tok = Some req" "get_pb d6 b = Some pb" "gd_um d6 = gd_um d" "gd_q d6 = gd_q d" using b(1) bt d5(3,4,6) by (simp_all add: d6_def get_pb_def)
  have "answers E (gp_out_vq port) (gp_in_vq port) ?tok req b rep (gd_q d6)" using ans g6(4) by (simp add: req_def rep_def)
  from exchange_answered [OF i6 refl ob(3) len(2) g6(1) lq lr g6(2) b(2) bt this] obtain d7 where
    d7: "exchange E h ?tok False d6 = Some (None, d7)" "get_data d7 ?tok = Some rep" "gd_um d7 = gd_um d"
      "\<forall>t. t \<noteq> b \<and> t \<noteq> ?tok \<longrightarrow> gd_heap d7 t = gd_heap d6 t" "get_pb d7 b \<noteq> None" unfolding g6(3) by blast
  have tk: "take 48 rep = crypt_op_bytes cop" "take (unat (cop_len cop)) (drop (off_dst ?L) rep) = out"
    using take_packet [OF l(4), of E srcb dstb ivb] take_splice(1) [OF out, of "off_dst ?L" req] take_splice(2) [OF ob(2), of req out] ob lq
    by (simp_all add: rep_def req_def)
  have dn: "drv_crypt_done E ?tok arg d7 = finish ?tok 0 (d7\<lparr>gd_um := snd (copy_to_user (snd (copy_to_user (gd_um d) arg (crypt_op_bytes cop))) (cop_dst cop) out)\<rparr>)"
    using drv_crypt_done_ok [OF d7(2) lr tk(1) len(1)] wr unfolding d7(3) tk(2) by simp
  have live: "gd_heap d7 ?tok \<noteq> None" using d7(2) by (auto simp: get_data_def split: option.splits)
  show ?thesis
    unfolding d5(1) s exchange_then_def d7(1)
    using dn live d7(4,5) d5(6) bt al(2) by (simp add: finish_def drv_kfree_def d6_def get_pb_def)
qed



text \<open>
  A small device for examples: it answers every request at once by writing sevens to the destination
  of the request.  The state of the queues is the tokens that are done and the answers that wait.
\<close>

type_synonym queue_demo = "nat list \<times> byte list list"

definition vq_echo :: "queue_demo linux_vq" where
  "vq_echo = \<lparr>lv_add = (\<lambda>n out k tok (done, ins). if n = 5 then (1, done @ [tok], ins @ [splice_at 128 (replicate 8 7) out]) else (1, done, ins)),
     lv_kick = (\<lambda>n q. q),
     lv_get = (\<lambda>n (done, ins).
       if n = 5 then (case done of [] \<Rightarrow> (None, done, ins) | t # r \<Rightarrow> (Some (t, 0, []), r, ins))
       else (case ins of [] \<Rightarrow> (None, done, ins) | x # r \<Rightarrow> (Some (100, of_nat (length x), x), done, r))),
     lv_detach = (\<lambda>n q. (None, q))\<rparr>"

definition genv_demo :: "queue_demo genv" where
  "genv_demo = \<lparr>ge_vq = vq_echo, ge_wait = Some, ge_signal = (\<lambda>_. 0), ge_garbage = (\<lambda>_. 170), ge_chrdev = (\<lambda>_. 0), ge_hvc = (\<lambda>_. 0), ge_page = 4096,
     ge_layout = layout_demo\<rparr>"

definition cop_user :: crypt_op where
  "cop_user = \<lparr>cop_ses = 7, cop_op = COP_ENCRYPT, cop_flags = 0, cop_len = 8, cop_pad = 0, cop_src = 0x2000, cop_dst = 0x3000, cop_mac = 0, cop_iv = 0x4000\<rparr>"

definition um_user :: umem where
  "um_user = \<lparr>ubytes = (\<lambda>a. if in_range 0x1000 48 a then Some (crypt_op_bytes cop_user ! unat (a - 0x1000)) else Some 0), uwritable = (\<lambda>_. True)\<rparr>"

definition gport_demo :: gport where
  "gport_demo = \<lparr>gp_id = 1, gp_portdev = True, gp_inbuf = None, gp_in_vq = 4, gp_out_vq = 5, gp_sent = 0, gp_received = 0, gp_discarded = 0, gp_hvc = False,
     gp_rows = 0, gp_cols = 0, gp_name = None, gp_kref = 2, gp_outvq_full = False, gp_host_connected = True, gp_guest_connected = True\<rparr>"

definition gdrv_demo :: "queue_demo gdrv" where
  "gdrv_demo = \<lparr>gd_port = [1 \<mapsto> gport_demo], gd_ports = [1],
     gd_heap = [100 \<mapsto> PortBuf \<lparr>pb_buf = replicate 4096 0, pb_size = 4096, pb_len = 0, pb_offset = 0\<rparr>], gd_next = 200, gd_allocs = [], gd_um = um_user,
     gd_q = ([], []), gd_multiport = True, gd_max_ports = 2, gd_c_ivq = 2, gd_c_ovq = 3, gd_in_vqs = [0, 4], gd_out_vqs = [1, 5]\<rparr>"

lemma um_user_read: "copy_from_user um_user 0x1000 48 = Some (crypt_op_bytes cop_user)" "can_write um_user a n"
  "unat a + n \<le> 0x10000 \<Longrightarrow> 0x1030 \<le> unat a \<Longrightarrow> copy_from_user um_user a n = Some (replicate n 0)"
proof -
  show "copy_from_user um_user 0x1000 48 = Some (crypt_op_bytes cop_user)"
    by (rule copy_from_all) (simp_all add: um_user_def in_range_def crypt_op.length_enc unat_of_nat_small)
  show "can_write um_user a n" by (simp add: can_write_iff um_user_def)
  show "copy_from_user um_user a n = Some (replicate n 0)" if a: "unat a + n \<le> 0x10000" "0x1030 \<le> unat a"
  proof (rule copy_from_all)
    fix i assume i: "i < n"
    have "disjoint_ranges a n 0x1000 48" by (rule disjoint_below(2)) (use a in simp_all)
    with i show "ubytes um_user (a + of_nat i) = Some (replicate n 0 ! i)" by (simp add: disjoint_iff um_user_def)
  qed simp
qed

lemma genv_demo_fields: "ge_layout genv_demo = layout_demo" "ge_vq genv_demo = vq_echo" "ge_garbage genv_demo = (\<lambda>_. 170)"
  by (simp_all add: genv_demo_def)



section \<open>Calls that go wrong\<close>

text \<open>A command the driver does not know is refused with \<open>-EINVAL\<close> and nothing is sent, but the
  request that was allocated for it stays allocated: the default branch returns without freeing it.
\<close>

theorem unknown_command_leaks:
  assumes idle: "idle_port E h port d" and al: "fst (next_alloc d)" "gd_heap d (gd_next d) = None"
    and cmd: "cmd \<notin> {cmd_code CIOCGSESSION, cmd_code CIOCCRYPT, cmd_code CIOCFSESSION}"
  shows "\<exists>d'. port_fops_ioctl E h nonblock cmd arg d = Some (- EINVAL, d') \<and> gd_q d' = gd_q d \<and> gd_um d' = gd_um d
    \<and> gd_heap d' (gd_next d) \<noteq> None \<and> (\<forall>t. t \<noteq> gd_next d \<longrightarrow> gd_heap d' t = gd_heap d t)"
proof -
  from ioctl_starts [OF idle al, of nonblock cmd arg] cmd obtain d5 where
    "port_fops_ioctl E h nonblock cmd arg d = Some (- EINVAL, d5)" "get_data d5 (gd_next d) \<noteq> None"
    "gd_um d5 = gd_um d" "gd_q d5 = gd_q d" "\<forall>t. t \<noteq> gd_next d \<longrightarrow> gd_heap d5 t = gd_heap d t"
    by (smt (verit) insert_iff option.distinct(1))
  then show ?thesis by (auto simp: get_data_def split: option.splits)
qed

lemma gdrv_demo_idle: "idle_port genv_demo 1 gport_demo gdrv_demo"
  by (simp add: idle_port_def gdrv_demo_def gport_demo_def genv_demo_fields vq_echo_def)

theorem unknown_command_leaks_witness:
  "\<exists>d'. port_fops_ioctl genv_demo 1 False (cmd_code CIOCGSESSINFO) 0 gdrv_demo = Some (- EINVAL, d') \<and> gd_heap d' 200 \<noteq> None"
proof -
  have d: "fst (next_alloc gdrv_demo)" "gd_heap gdrv_demo (gd_next gdrv_demo) = None" "gd_next gdrv_demo = 200"
    by (simp_all add: gdrv_demo_def next_alloc_def)
  have "cmd_code CIOCGSESSINFO \<notin> {cmd_code CIOCGSESSION, cmd_code CIOCCRYPT, cmd_code CIOCFSESSION}" by (simp only: insert_iff empty_iff cmd_code_inj) simp
  from unknown_command_leaks [OF gdrv_demo_idle d(1,2) this, of False 0] show ?thesis unfolding d(3) by blast
qed

text \<open>In non-blocking mode the request stays on the output queue; the used buffer is still there after the reply.\<close>

lemma exchange_nonblock:
  assumes idle: "idle_port E h port d" and sz: "sz = sz_crypto_data (ge_layout E)" "sz < 2 ^ 32"
    and req: "get_data d tok = Some req" "length req = sz"
    and b: "get_pb d b = Some pb" "sz \<le> length (pb_buf pb)" "b \<noteq> tok"
    and add: "lv_add (ge_vq E) (gp_out_vq port) req 0 tok (gd_q d) = (ret, q1)" "0 \<le> ret"
    and rep: "lv_get (ge_vq E) (gp_in_vq port) (lv_kick (ge_vq E) (gp_out_vq port) q1) = (Some (b, len, rep), q2)" "length rep = sz" "unat len = sz"
    and used: "lv_get (ge_vq E) (gp_out_vq port) (lv_kick (ge_vq E) (gp_in_vq port) (snd (lv_add (ge_vq E) (gp_in_vq port) [] (unat (pb_size pb)) b q2)))
      = (Some (tok, n, bs), q3)"
  shows "\<exists>d'. exchange E h tok True d = Some (None, d') \<and> get_data d' tok = Some rep \<and> gd_um d' = gd_um d
    \<and> map_option gp_portdev (gd_port d' h) = Some True \<and> map_option gp_out_vq (gd_port d' h) = Some (gp_out_vq port)
    \<and> lv_get (ge_vq E) (gp_out_vq port) (gd_q d') = (Some (tok, n, bs), q3)"
proof -
  define p1 where "p1 = (if ret = 0 then port\<lparr>gp_outvq_full := True\<rparr> else port)\<lparr>gp_sent := gp_sent port + of_nat sz\<rparr>"
  define d1 where "d1 = d\<lparr>gd_q := lv_kick (ge_vq E) (gp_out_vq port) q1, gd_port := (gd_port d)(h \<mapsto> p1)\<rparr>"
  have i: "gd_port d h = Some port" "gp_portdev port" "gp_guest_connected port" "gp_host_connected port" "gp_inbuf port = None"
    using idle by (auto simp: idle_port_def)
  have send: "send_buf E h tok sz True d = Some (of_nat sz, d1)"
    using idle_reclaim [OF idle] i req add by (simp add: send_buf_def upd_gport_def d1_def p1_def)
  have p1: "gd_port d1 h = Some p1" "gp_inbuf p1 = None" "gp_guest_connected p1" "gp_host_connected p1"
    "gp_in_vq p1 = gp_in_vq port" "gp_out_vq p1 = gp_out_vq port" "gp_portdev p1"
    using i by (simp_all add: d1_def p1_def)
  have d1: "get_data d1 tok = Some req" "get_pb d1 b = Some pb" "gd_um d1 = gd_um d" "gd_q d1 = lv_kick (ge_vq E) (gp_out_vq port) q1"
    using req b(1) by (simp_all add: d1_def get_data_def get_pb_def)
  have sz0: "0 < sz" using layout_sizes [of "ge_layout E"] sz by linarith
  show ?thesis
    using exchange_reply [OF sz(1) sz0 sz(2) send p1(1-4) d1(1) req(2) rep(2) d1(2) b(2,3), of len q2] rep(1,3) used d1(3,4) p1(5-7) rep(2) by auto
qed

text \<open>On a file opened with \<open>O_NONBLOCK\<close> a request is freed when its reply has been read, while the
  output queue still holds it as a used buffer: \<open>send_buf\<close> does not take it back in that mode.  A
  \<open>CIOCFSESSION\<close> that the host answers returns 0, and the next look at the port, by \<open>poll\<close> or a further
  request, frees the same memory a second time (\<open>reclaim_consumed_buffers\<close>).
\<close>

theorem nonblock_double_free:
  assumes idle: "idle_port E h port d" and al: "fst (next_alloc d)" "gd_heap d (gd_next d) = None"
    and sz: "sz = sz_crypto_data (ge_layout E)" "sz < 2 ^ 32"
    and arg: "copy_from_user (gd_um d) arg 4 = Some ses" "can_write (gd_um d) arg 4"
    and req: "req = splice_at 0 ses (splice_at (off_cmd (ge_layout E)) (put32 (cmd_code CIOCFSESSION)) (map (ge_garbage E) [0..<sz]))"
    and b: "get_pb d b = Some pb" "sz \<le> length (pb_buf pb)"
    and add: "lv_add (ge_vq E) (gp_out_vq port) req 0 (gd_next d) (gd_q d) = (ret, q1)" "0 \<le> ret"
    and rep: "lv_get (ge_vq E) (gp_in_vq port) (lv_kick (ge_vq E) (gp_out_vq port) q1) = (Some (b, len, rep), q2)" "length rep = sz" "unat len = sz"
    and used: "lv_get (ge_vq E) (gp_out_vq port) (lv_kick (ge_vq E) (gp_in_vq port) (snd (lv_add (ge_vq E) (gp_in_vq port) [] (unat (pb_size pb)) b q2)))
      = (Some (gd_next d, n, bs), q3)"
  shows "\<exists>d'. port_fops_ioctl E h True (cmd_code CIOCFSESSION) arg d = Some (0, d') \<and> gd_heap d' (gd_next d) = None
    \<and> reclaim_consumed_buffers E h d' = None"
proof -
  let ?L = "ge_layout E" and ?tok = "gd_next d"
  have ne: "cmd_code CIOCFSESSION \<noteq> cmd_code CIOCGSESSION" "cmd_code CIOCFSESSION \<noteq> cmd_code CIOCCRYPT" by (simp_all only: cmd_code_inj) simp_all
  from ioctl_starts [OF idle al, of True "cmd_code CIOCFSESSION" arg] ne obtain d5 where
    d5: "port_fops_ioctl E h True (cmd_code CIOCFSESSION) arg d = drv_fsession E h ?tok True arg d5"
    "get_data d5 ?tok = Some (splice_at (off_cmd ?L) (put32 (cmd_code CIOCFSESSION)) (map (ge_garbage E) [0..<sz_crypto_data ?L]))"
    "gd_um d5 = gd_um d" "gd_q d5 = gd_q d" "gd_port d5 = gd_port d" "\<forall>t. t \<noteq> ?tok \<longrightarrow> gd_heap d5 t = gd_heap d t"
    by (metis (no_types, lifting))
  note ls = layout_sizes [of ?L]
  define x0 where "x0 = splice_at (off_cmd ?L) (put32 (cmd_code CIOCFSESSION)) (map (ge_garbage E) [0..<sz_crypto_data ?L])"
  have x0: "length x0 = sz_crypto_data ?L" using ls(2) by (simp add: x0_def del: cmd_code.simps)
  have l4: "length ses = 4" by (rule length_load_bytes [OF arg(1)])
  define d6 where "d6 = set_obj ?tok (Data req) d5"
  have c1: "copy_in ?tok 0 arg 4 d5 = Some (True, d6)"
    unfolding d6_def req sz(1) x0_def [symmetric]
    by (rule copy_in_ok [OF d5(2) [folded x0_def]]) (use x0 ls arg(1) d5(3) in simp_all)
  have lq: "length req = sz" using x0 l4 ls unfolding req sz(1) x0_def [symmetric] by simp
  have bt: "b \<noteq> ?tok" using b(1) al(2) by (auto simp: get_pb_def)
  have i6: "idle_port E h port d6" using idle d5(4,5) by (simp add: idle_port_def d6_def)
  have g6: "get_data d6 ?tok = Some req" "get_pb d6 b = Some pb" "gd_um d6 = gd_um d" "gd_q d6 = gd_q d"
    using b(1) bt d5(3,4,6) by (simp_all add: d6_def get_pb_def)
  have "\<exists>d8. exchange E h ?tok True d6 = Some (None, d8) \<and> get_data d8 ?tok = Some rep \<and> gd_um d8 = gd_um d6
    \<and> map_option gp_portdev (gd_port d8 h) = Some True \<and> map_option gp_out_vq (gd_port d8 h) = Some (gp_out_vq port)
    \<and> lv_get (ge_vq E) (gp_out_vq port) (gd_q d8) = (Some (?tok, n, bs), q3)"
    by (rule exchange_nonblock [OF i6 sz g6(1) lq g6(2) b(2) bt _ add(2) rep used]) (simp add: add(1) g6(4))
  then obtain d8 p8 where d8: "exchange E h ?tok True d6 = Some (None, d8)" "get_data d8 ?tok = Some rep" "gd_um d8 = gd_um d"
    "gd_port d8 h = Some p8" "gp_portdev p8" "gp_out_vq p8 = gp_out_vq port" "lv_get (ge_vq E) (gp_out_vq port) (gd_q d8) = (Some (?tok, n, bs), q3)" using g6(3) by auto
  obtain u where c2: "copy_out ?tok 0 arg 4 d8 = Some (True, d8\<lparr>gd_um := u\<rparr>)"
    using copy_out_ok [OF d8(2), of 0 4 arg] rep(2) arg(2) d8(3) ls sz(1) by auto
  have live: "gd_heap d8 ?tok \<noteq> None" using d8(2) by (auto simp: get_data_def split: option.splits)
  define d9 where "d9 = d8\<lparr>gd_um := u, gd_heap := (gd_heap d8)(?tok := None)\<rparr>"
  have "drv_fsession E h ?tok True arg d5 = Some (0, d9)"
    using c1 d8(1) c2 live by (simp add: drv_fsession_def exchange_then_def finish_def drv_kfree_def d9_def)
  moreover have "reclaim_consumed_buffers E h d9 = None"
    by (subst reclaim_consumed_buffers_def, subst reclaim_loop.simps) (use d8(4-7) in \<open>simp add: d9_def drv_kfree_def\<close>)
  ultimately show ?thesis using d5(1) by (auto simp: d9_def)
qed


theorem nonblock_double_free_witness:
  "\<exists>d'. port_fops_ioctl genv_demo 1 True (cmd_code CIOCFSESSION) 0x2000 gdrv_demo = Some (0, d') \<and> gd_heap d' 200 = None
    \<and> reclaim_consumed_buffers genv_demo 1 d' = None"
proof -
  define req where "req = splice_at 0 (replicate 4 0) (splice_at (off_cmd (ge_layout genv_demo)) (put32 (cmd_code CIOCFSESSION)) (map (ge_garbage genv_demo) [0..<168]))"
  have lq: "length req = 168" by (simp add: req_def genv_demo_fields layout_demo_offsets del: cmd_code.simps)
  have d: "fst (next_alloc gdrv_demo)" "gd_heap gdrv_demo (gd_next gdrv_demo) = None" "gd_next gdrv_demo = 200" "gd_um gdrv_demo = um_user" "gd_q gdrv_demo = ([], [])"
    "gd_heap gdrv_demo 100 = Some (PortBuf \<lparr>pb_buf = replicate 4096 0, pb_size = 4096, pb_len = 0, pb_offset = 0\<rparr>)"
    by (simp_all add: gdrv_demo_def next_alloc_def)
  show ?thesis
    unfolding d(3) [symmetric]
    by (rule nonblock_double_free [OF gdrv_demo_idle d(1,2) _ _ _ _ req_def, where b = 100
        and rep = "splice_at 128 (replicate 8 7) req" and len = 168 and ?q2.0 = "([200], [])"])
      (simp_all add: d um_user_read genv_demo_fields layout_demo_offsets get_pb_def gport_demo_def vq_echo_def, simp_all add: lq)
qed

end
