(* ===== verification/Socket_Client.thy ===== *)
theory Socket_Client
  imports Crypto_Path
begin

text \<open>
  The remote shell over an encrypted socket (\<open>socket-client/src\<close>): the functions around a crypto
  session that client and server share (\<open>crypto.c\<close>), the collection of a command's output
  (\<open>run-popen.c\<close>), the server's answer to a message (\<open>dummy-server.c\<close>) and the client's exchange
  (\<open>main.c\<close>).  The programs run on the driver's model: their local structures lie in user memory and
  every \<open>ioctl\<close> is \<open>cryptodev_ioctl\<close>.  A buffer is the list of its bytes, so that copying past its end
  is visible; an undefined access is \<open>None\<close>.
\<close>

section \<open>Strings\<close>

text \<open>The bytes are those from the pointer to the end of the object; without a NUL among them the search leaves the object.\<close>

definition c_strlen :: "byte list \<Rightarrow> nat option" where
  "c_strlen bs = (let n = length (takeWhile (\<lambda>b. b \<noteq> 0) bs) in if n < length bs then Some n else None)"

definition c_string :: "byte list \<Rightarrow> byte list" where
  "c_string bs = takeWhile (\<lambda>b. b \<noteq> 0) bs"

text \<open>\<open>strcpy(dst + off, src)\<close>.\<close>

definition c_strcpy :: "byte list \<Rightarrow> nat \<Rightarrow> byte list \<Rightarrow> byte list option" where
  "c_strcpy dst off src =
     do {
       n \<leftarrow> c_strlen src;
       if length dst < off + n + 1 then None else Some (splice_at off (take n src @ [0]) dst)
     }"

section \<open>Sessions and messages\<close>

definition DATA_SIZE :: nat where "DATA_SIZE = 8192"
definition BLOCK_SIZE :: nat where "BLOCK_SIZE = 16"
definition KEY_SIZE :: nat where "KEY_SIZE = 32"
definition ENC_SIZE :: nat where "ENC_SIZE = 8192"
definition MSG_SIZE :: nat where "MSG_SIZE = 8192"

text \<open>The structure \<open>data\<close> of \<open>encrypt_data\<close> and \<open>decrypt_data\<close>: where its arrays start, and its size.\<close>

definition off_encrypted :: nat where "off_encrypted = DATA_SIZE"
definition off_decrypted :: nat where "off_decrypted = DATA_SIZE + ENC_SIZE"
definition off_data_iv :: nat where "off_data_iv = DATA_SIZE + ENC_SIZE + DATA_SIZE"
definition sz_data :: nat where "sz_data = DATA_SIZE + ENC_SIZE + DATA_SIZE + BLOCK_SIZE + KEY_SIZE"

text \<open>
  The process: the kernel's parameters and where its local structures lie.  \<open>ce_local\<close> is the address
  of \<open>data\<close> (or of the key), \<open>ce_arg\<close> the address of the structure given to \<open>ioctl\<close>.
\<close>

record 'h cenv =
  ce_api :: "'h capi"
  ce_mm :: mm
  ce_sh :: nat
  ce_kdo :: bool
  ce_unused :: "int list \<Rightarrow> int"
  ce_local :: u64
  ce_arg :: u64

definition client_ioctl :: "'h cenv \<Rightarrow> 'h cfile \<Rightarrow> ioctl_cmd \<Rightarrow> kst \<Rightarrow> (int \<times> 'h cfile \<times> kst) option" where
  "client_ioctl E filp cmd s = cryptodev_ioctl (ce_kdo E) (ce_unused E) (ce_api E) (ce_mm E) (ce_sh E) filp (cmd_code cmd) (ce_arg E) s"

text \<open>A local variable at \<open>a\<close>: its bytes are there and can be read and written.\<close>

definition local_var :: "u64 \<Rightarrow> byte list \<Rightarrow> umem \<Rightarrow> umem" where
  "local_var a bs m = m\<lparr>ubytes := (\<lambda>x. if in_range a (length bs) x then Some (bs ! unat (x - a)) else ubytes m x),
     uwritable := (\<lambda>x. in_range a (length bs) x \<or> uwritable m x)\<rparr>"

definition zero_session_op :: session_op where
  "zero_session_op = session_op_of (replicate 48 0)"

definition zero_crypt_op :: crypt_op where
  "zero_crypt_op = crypt_op_of (replicate 48 0)"

text \<open>
  \<open>siop\<close> is not initialised; the result is the return value and the structure of the session.  A failed
  \<open>CIOCGSESSION\<close> is reported and the call goes on.
\<close>

definition init_crypto_session ::
  "'h cenv \<Rightarrow> 'h cfile \<Rightarrow> byte list \<Rightarrow> byte list \<Rightarrow> kst \<Rightarrow> (int \<times> session_op \<times> 'h cfile \<times> kst) option" where
  "init_crypto_session E filp my_key siop s =
     do {
       let sess = zero_session_op\<lparr>sop_cipher := op_code CRYPTO_AES_CBC, sop_keylen := of_nat KEY_SIZE, sop_key := ce_local E\<rparr>;
       let s1 = s\<lparr>um := local_var (ce_arg E) (session_op_bytes sess) (local_var (ce_local E) my_key (um s))\<rparr>;
       (ret, filp1, s2) \<leftarrow> client_ioctl E filp CIOCGSESSION s1;
       sess1 \<leftarrow> map_option session_op_of (copy_from_user (um s2) (ce_arg E) 48);
       let s3 = s2\<lparr>um := local_var (ce_arg E) (session_info_op_bytes ((session_info_op_of siop)\<lparr>siop_ses := sop_ses sess1\<rparr>)) (um s2)\<rparr>;
       (ret, filp2, s4) \<leftarrow> client_ioctl E filp1 CIOCGSESSINFO s3;
       Some (if ret \<noteq> 0 then - 1 else 0, sess1, filp2, s4)
     }"

definition close_crypto_session :: "'h cenv \<Rightarrow> 'h cfile \<Rightarrow> session_op \<Rightarrow> kst \<Rightarrow> (int \<times> 'h cfile \<times> kst) option" where
  "close_crypto_session E filp sess s =
     do {
       (ret, filp1, s1) \<leftarrow> client_ioctl E filp CIOCFSESSION (s\<lparr>um := local_var (ce_arg E) (put32 (sop_ses sess)) (um s)\<rparr>);
       Some (if ret \<noteq> 0 then 1 else 0, filp1, s1)
     }"

text \<open>The result is the caller's buffer after the call; the assignment to the parameter on failure has no effect on it.\<close>

definition encrypt_data ::
  "'h cenv \<Rightarrow> 'h cfile \<Rightarrow> byte list \<Rightarrow> session_op \<Rightarrow> byte list \<Rightarrow> kst \<Rightarrow> (byte list \<times> 'h cfile \<times> kst) option" where
  "encrypt_data E filp arr sess enc s =
     do {
       data \<leftarrow> c_strcpy (replicate sz_data 0) 0 arr;
       let cryp = zero_crypt_op\<lparr>cop_ses := sop_ses sess, cop_len := of_nat DATA_SIZE, cop_src := ce_local E,
         cop_dst := ce_local E + of_nat off_encrypted, cop_op := COP_ENCRYPT\<rparr>;
       let s1 = s\<lparr>um := local_var (ce_arg E) (crypt_op_bytes cryp) (local_var (ce_local E) data (um s))\<rparr>;
       (ret, filp1, s2) \<leftarrow> client_ioctl E filp CIOCCRYPT s1;
       if ret \<noteq> 0 then Some (enc, filp1, s2)
       else do {
         data1 \<leftarrow> copy_from_user (um s2) (ce_local E) sz_data;
         enc1 \<leftarrow> c_strcpy enc 0 (drop off_encrypted data1);
         Some (enc1, filp1, s2)
       }
     }"

definition decrypt_data ::
  "'h cenv \<Rightarrow> 'h cfile \<Rightarrow> byte list \<Rightarrow> session_op \<Rightarrow> byte list \<Rightarrow> kst \<Rightarrow> (byte list \<times> 'h cfile \<times> kst) option" where
  "decrypt_data E filp enc sess arr s =
     do {
       data \<leftarrow> c_strcpy (replicate sz_data 0) off_encrypted enc;
       let cryp = zero_crypt_op\<lparr>cop_ses := sop_ses sess, cop_len := of_nat ENC_SIZE, cop_iv := ce_local E + of_nat off_data_iv,
         cop_src := ce_local E + of_nat off_encrypted, cop_dst := ce_local E + of_nat off_decrypted, cop_op := COP_DECRYPT\<rparr>;
       let s1 = s\<lparr>um := local_var (ce_arg E) (crypt_op_bytes cryp) (local_var (ce_local E) data (um s))\<rparr>;
       (ret, filp1, s2) \<leftarrow> client_ioctl E filp CIOCCRYPT s1;
       if ret \<noteq> 0 then Some (arr, filp1, s2)
       else do {
         data1 \<leftarrow> copy_from_user (um s2) (ce_local E) sz_data;
         arr1 \<leftarrow> c_strcpy arr 0 (drop off_decrypted data1);
         Some (arr1, filp1, s2)
       }
     }"

section \<open>The output of a command\<close>

text \<open>Outcomes of the allocations to come, as in the kernel's model.\<close>

definition next_ok :: "bool list \<Rightarrow> bool \<times> bool list" where
  "next_ok oks = (case oks of [] \<Rightarrow> (True, []) | b # r \<Rightarrow> (b, r))"

text \<open>
  What \<open>vsnprintf\<close> returns for a text and a size: the length of the text, or in the old library -1 when
  the text does not fit.
\<close>

definition vsnprintf_ret :: "bool \<Rightarrow> byte list \<Rightarrow> nat \<Rightarrow> int" where
  "vsnprintf_ret old msg room = (if old \<and> room \<le> length msg then - 1 else int (length msg))"

text \<open>The text is the formatted message; the result is the string, or \<open>None\<close> for NULL, and the value of \<open>*msgsize\<close>.\<close>

partial_function (option) make_message_loop :: "bool \<Rightarrow> byte list \<Rightarrow> nat \<Rightarrow> bool list \<Rightarrow> (byte list option \<times> int \<times> bool list) option" where
  "make_message_loop old msg room oks =
     (let n = vsnprintf_ret old msg room
      in if - 1 < n \<and> n < int room then Some (Some (msg @ [0]), n, oks)
         else (let (ok, oks1) = next_ok oks
               in if \<not> ok then Some (None, n, oks1)
                  else make_message_loop old msg (if - 1 < n then nat n + 1 else room * 2) oks1))"

definition make_message :: "bool \<Rightarrow> byte list \<Rightarrow> int \<Rightarrow> bool list \<Rightarrow> (byte list option \<times> int \<times> bool list) option" where
  "make_message old msg msgsize oks =
     (let (ok, oks1) = next_ok oks in if \<not> ok then Some (None, msgsize, oks1) else make_message_loop old msg 1 oks1)"

text \<open>\<open>fgets\<close> with room for \<open>k\<close> bytes and the NUL: what it reads from the pipe, and what is left in it.\<close>

fun c_fgets :: "nat \<Rightarrow> byte list \<Rightarrow> byte list \<times> byte list" where
  "c_fgets 0 out = ([], out)"
| "c_fgets (Suc k) [] = ([], [])"
| "c_fgets (Suc k) (b # out) = (if b = 10 then ([b], out) else (case c_fgets k out of (l, r) \<Rightarrow> (b # l, r)))"

text \<open>
  \<open>buffer\<close> is not initialised: \<open>None\<close> stands for a pointer that is not the address of a string.  The path
  array has 4 bytes and \<open>fgets\<close> is given 3.
\<close>

partial_function (option) popen_loop ::
  "bool \<Rightarrow> byte list option \<Rightarrow> int \<Rightarrow> byte list \<Rightarrow> bool list \<Rightarrow> (byte list option \<times> int \<times> bool list) option" where
  "popen_loop old buffer msgsize out oks =
     (if out = [] then Some (buffer, msgsize, oks)
      else
        do {
          str \<leftarrow> buffer;
          let (path, rem) = c_fgets 2 out;
          (buffer1, n, oks1) \<leftarrow> make_message old (c_string str @ c_string path) msgsize oks;
          popen_loop old buffer1 n rem oks1
        })"

definition run_popen ::
  "bool \<Rightarrow> byte list option \<Rightarrow> byte list option \<Rightarrow> int \<Rightarrow> bool list \<Rightarrow> (byte list option \<times> int \<times> bool list) option" where
  "run_popen old uninit_buffer out msgsize oks =
     (case out of None \<Rightarrow> Some (None, msgsize, oks) | Some out \<Rightarrow> popen_loop old uninit_buffer msgsize out oks)"

section \<open>Messages on the socket\<close>

definition eot :: "byte list" where "eot = [0, 46, 46, 46, 0]"

text \<open>
  The server's loop that sends the answer.  \<open>wr k c\<close> is what the \<open>k\<close>-th \<open>write\<close> of \<open>c\<close> bytes returns; a
  negative value ends the program.  The result is what went over the socket.
\<close>

partial_function (option) send_loop :: "(nat \<Rightarrow> nat \<Rightarrow> int) \<Rightarrow> byte list \<Rightarrow> nat \<Rightarrow> nat \<Rightarrow> byte list \<Rightarrow> byte list option" where
  "send_loop wr out_buffer k i sent =
     (let n = wr k (ENC_SIZE - i)
      in if n < 0 then None
         else if int (ENC_SIZE + i) \<le> n then Some (sent @ take (nat n) (drop i out_buffer) @ eot)
         else if n = 0 then Some sent
         else send_loop wr out_buffer (Suc k) (i + nat n) (sent @ take (nat n) (drop i out_buffer)))"

text \<open>
  The client's test for the end of an answer, on the bytes of one \<open>read\<close>: with fewer than five the test
  looks before the start of the buffer.
\<close>

definition is_eot :: "byte list \<Rightarrow> bool option" where
  "is_eot chunk = (if length chunk < 5 then None else Some (drop (length chunk - 5) chunk = eot))"

text \<open>The client's loop over what the reads give, with the texts it prints; it waits when there is no more.\<close>

fun client_read ::
  "'h cenv \<Rightarrow> session_op \<Rightarrow> byte list list \<Rightarrow> byte list list \<Rightarrow> 'h cfile \<Rightarrow> kst \<Rightarrow> (byte list list \<times> 'h cfile \<times> kst) option" where
  "client_read E sess [] shown filp s = None"
| "client_read E sess (chunk # chunks) shown filp s =
     do {
       stop \<leftarrow> is_eot chunk;
       if stop then Some (shown, filp, s)
       else do {
         (out_data, filp1, s1) \<leftarrow> decrypt_data E filp (splice_at 0 chunk (replicate ENC_SIZE 0)) sess (replicate MSG_SIZE 0) s;
         client_read E sess chunks (shown @ [c_string out_data]) filp1 s1
       }
     }"

text \<open>One command of the user: what is written to the socket, and what the client shows of the answer.\<close>

definition client_exchange ::
  "'h cenv \<Rightarrow> session_op \<Rightarrow> byte list \<Rightarrow> (byte list \<Rightarrow> byte list list) \<Rightarrow> 'h cfile \<Rightarrow> kst \<Rightarrow> (byte list list \<times> 'h cfile \<times> kst) option" where
  "client_exchange E sess in_data answer filp s =
     do {
       (in_buffer, filp1, s1) \<leftarrow> encrypt_data E filp in_data sess (replicate ENC_SIZE 0) s;
       client_read E sess (answer in_buffer) [] filp1 s1
     }"

text \<open>
  One message at the server: \<open>chunk\<close> is what \<open>read\<close> gives, \<open>shell\<close> the output of a command, \<open>out_data\<close>
  the buffer left from the message before.  \<open>None\<close> in the result is the end of the connection.
\<close>

definition server_message ::
  "'h cenv \<Rightarrow> session_op \<Rightarrow> (byte list \<Rightarrow> byte list option) \<Rightarrow> bool \<Rightarrow> byte list option \<Rightarrow> (nat \<Rightarrow> nat \<Rightarrow> int) \<Rightarrow> bool list
    \<Rightarrow> byte list \<Rightarrow> byte list \<Rightarrow> 'h cfile \<Rightarrow> kst \<Rightarrow> (byte list option \<times> byte list \<times> 'h cfile \<times> kst) option" where
  "server_message E sess shell old uninit_buffer wr oks out_data chunk filp s =
     do {
       k \<leftarrow> c_strlen out_data;
       let out_data = splice_at 0 (replicate k 0) out_data;
       let in_buffer = splice_at 0 chunk (replicate ENC_SIZE 0);
       (in_data, filp1, s1) \<leftarrow> decrypt_data E filp in_buffer sess (replicate MSG_SIZE 0) s;
       if in_data ! 0 = 0 \<or> in_buffer ! 0 = 0 then Some (None, out_data, filp1, s1)
       else do {
         out_data1 \<leftarrow>
           (if in_buffer ! 0 = 10 \<and> in_buffer ! 1 = 0 \<or> in_data ! 0 = 10 \<and> in_data ! 1 = 0
            then c_strcpy out_data 0 (map (of_nat \<circ> of_char) ''No Command!'' @ [10, 0])
            else do { (buf, msgsize, oks1) \<leftarrow> run_popen old uninit_buffer (shell (c_string in_data)) 0 oks; buf });
         (out_buffer, filp2, s2) \<leftarrow> encrypt_data E filp1 out_data1 sess (replicate ENC_SIZE 0) s1;
         sent \<leftarrow> (if chunk = [] then Some [] else send_loop wr out_buffer 0 0 []);
         (in_data1, filp3, s3) \<leftarrow> decrypt_data E filp2 out_buffer sess in_data s2;
         Some (Some sent, out_data1, filp3, s3)
       }
     }"


section \<open>Memory of the process\<close>

text \<open>The two local structures of a call do not overlap and do not wrap around the address space.\<close>

definition frame_ok :: "'h cenv \<Rightarrow> bool" where
  "frame_ok E \<longleftrightarrow> 0 < unat (ce_local E) \<and> unat (ce_local E) + sz_data \<le> unat (ce_arg E) \<and> unat (ce_arg E) + 48 \<le> 2 ^ 64"

lemma data_sizes: "sz_data = 24624" "DATA_SIZE = 8192" "ENC_SIZE = 8192" "MSG_SIZE = 8192" "off_encrypted = 8192" "off_decrypted = 16384" "off_data_iv = 24576"
  by (simp_all add: sz_data_def DATA_SIZE_def ENC_SIZE_def MSG_SIZE_def BLOCK_SIZE_def KEY_SIZE_def off_encrypted_def off_decrypted_def off_data_iv_def)

lemma frame_address:
  assumes "frame_ok E" "k < sz_data"
  shows "in_range (ce_local E) sz_data (ce_local E + of_nat k)" "\<not> in_range (ce_arg E) 48 (ce_local E + of_nat k)"
    "ce_local E + of_nat k - ce_local E = of_nat k" "unat (of_nat k :: u64) = k"
proof -
  show u: "unat (of_nat k :: u64) = k" using assms(2) by (intro unat_of_nat_small) (simp add: data_sizes)
  show "in_range (ce_local E) sz_data (ce_local E + of_nat k)" using assms(2) by (simp add: in_range_def u)
  have "disjoint_ranges (ce_local E) sz_data (ce_arg E) 48" by (rule disjoint_below) (use assms(1) in \<open>simp_all add: frame_ok_def\<close>)
  then show "\<not> in_range (ce_arg E) 48 (ce_local E + of_nat k)" using assms(2) by (simp add: disjoint_iff)
qed simp

lemma frame_reads:
  assumes E: "frame_ok E" and l: "length data = sz_data" "length arg = 48"
    and u: "m1 = local_var (ce_arg E) arg (local_var (ce_local E) data m)"
  shows "copy_from_user m1 (ce_arg E) 48 = Some arg" "can_write m1 (ce_arg E) 48"
    "i + n \<le> sz_data \<Longrightarrow> copy_from_user m1 (ce_local E + of_nat i) n = Some (take n (drop i data))"
    "i + n \<le> sz_data \<Longrightarrow> can_write m1 (ce_local E + of_nat i) n"
proof -
  show "copy_from_user m1 (ce_arg E) 48 = Some arg"
    by (rule copy_from_all) (simp_all add: u l local_var_def in_range_def unat_of_nat_small)
  show "can_write m1 (ce_arg E) 48" by (auto simp: can_write_iff u l local_var_def in_range_def unat_of_nat_small)
  have f: "in_range (ce_local E) sz_data (ce_local E + of_nat i + of_nat k)" "\<not> in_range (ce_arg E) 48 (ce_local E + of_nat i + of_nat k)"
    "unat (ce_local E + of_nat i + of_nat k - ce_local E) = i + k" if "k < n" "i + n \<le> sz_data" for k
    using frame_address [OF E, of "i + k"] that by (simp_all add: add.assoc)
  show "copy_from_user m1 (ce_local E + of_nat i) n = Some (take n (drop i data))" if "i + n \<le> sz_data"
    by (rule copy_from_all) (use f that in \<open>simp_all add: u l local_var_def\<close>)
  show "can_write m1 (ce_local E + of_nat i) n" if "i + n \<le> sz_data" using f that by (simp add: can_write_iff u l local_var_def)
qed

text \<open>The structure \<open>data\<close> after the driver wrote a result into it and the argument back.\<close>

lemma frame_result:
  assumes E: "frame_ok E" and l: "length data = sz_data" "length arg = 48" "j + length bs \<le> sz_data"
    and u: "m1 = local_var (ce_arg E) arg (local_var (ce_local E) data m)"
  shows "copy_from_user (snd (copy_to_user (snd (copy_to_user m1 (ce_local E + of_nat j) bs)) (ce_arg E) arg)) (ce_local E) sz_data = Some (splice_at j bs data)"
proof (rule copy_from_all)
  show "length (splice_at j bs data) = sz_data" using l by simp
  fix i assume i: "i < sz_data"
  note w = frame_reads(2,4) [OF E l(1,2) u]
  let ?m2 = "snd (copy_to_user m1 (ce_local E + of_nat j) bs)"
  have lb: "length bs \<le> 2 ^ 64" using l(3) by (simp add: data_sizes)
  have w2: "can_write ?m2 (ce_arg E) (length arg)" using w(1) l(2) by (simp add: can_write_stable)
  note c2 = copy_to_all(2) [OF w2] and c1 = copy_to_all(2) [OF w(2) [OF l(3)] lb]
  have a: "\<not> in_range (ce_arg E) (length arg) (ce_local E + of_nat i)" using frame_address(2) [OF E i] l(2) by simp
  have off: "ce_local E + of_nat i - (ce_local E + of_nat j) = (of_nat i - of_nat j :: u64)" by simp
  have d: "unat (of_nat i - of_nat j :: u64) = (if j \<le> i then i - j else 2 ^ 64 - (j - i))"
    using i l(3) by (auto simp: unat_sub_if' unat_of_nat data_sizes)
  have r: "in_range (ce_local E + of_nat j) (length bs) (ce_local E + of_nat i) = (j \<le> i \<and> i < j + length bs)"
    unfolding in_range_def off d using i l(3) by (auto simp: data_sizes)
  have "ubytes m1 (ce_local E + of_nat i) = Some (data ! i)"
    using frame_address [OF E i] l by (simp add: u local_var_def)
  then show "ubytes (snd (copy_to_user ?m2 (ce_arg E) arg)) (ce_local E + of_nat i) = Some (splice_at j bs data ! i)"
    using i l a by (subst c2) (simp_all add: c1 r nth_splice_at, simp add: off d)
qed


section \<open>Encrypting and decrypting\<close>

text \<open>
  A session of the file that is ready for the programs' requests: AES in CBC mode (blocks and IV of 16
  bytes) without a hash, where \<open>f\<close> is the cipher and \<open>g\<close> the IV it leaves.
\<close>

definition ready_session ::
  "'h cenv \<Rightarrow> 'h csession \<Rightarrow> tfm \<Rightarrow> (bool \<Rightarrow> byte list \<Rightarrow> byte list \<Rightarrow> byte list) \<Rightarrow> (bool \<Rightarrow> byte list \<Rightarrow> byte list \<Rightarrow> byte list)
    \<Rightarrow> ('h \<Rightarrow> byte list \<Rightarrow> 'h) \<Rightarrow> bool" where
  "ready_session E ses t f g u \<longleftrightarrow> \<not> sem ses \<and> \<not> h_init (hdata ses) \<and> c_ivsize (cdata ses) = 16 \<and> c_blocksize (cdata ses) = 16
     \<and> ses_sem (ce_api E) ses t 16 f g u \<and> 4 \<le> ce_sh E \<and> zc_wf ses"

text \<open>The file has such a session under an identifier, and the session holds an IV.\<close>

definition has_session ::
  "'h cenv \<Rightarrow> 'h cfile \<Rightarrow> u32 \<Rightarrow> tfm \<Rightarrow> (bool \<Rightarrow> byte list \<Rightarrow> byte list \<Rightarrow> byte list) \<Rightarrow> (bool \<Rightarrow> byte list \<Rightarrow> byte list \<Rightarrow> byte list)
    \<Rightarrow> ('h \<Rightarrow> byte list \<Rightarrow> 'h) \<Rightarrow> byte list \<Rightarrow> bool" where
  "has_session E filp d t f g u iv \<longleftrightarrow> (case private_data filp of None \<Rightarrow> False | Some priv \<Rightarrow>
     (case find_session d (fcrypts priv) of None \<Rightarrow> False | Some ses \<Rightarrow> ready_session E ses t f g u \<and> c_iv (cdata ses) = iv))"

lemma client_crypt:
  assumes E: "frame_ok E" and l: "length data = sz_data"
    and has: "has_session E filp (cop_ses cop) t f g u siv"
    and cop: "cop_src cop = ce_local E + of_nat i" "cop_dst cop = ce_local E + of_nat j" "cop_len cop = 8192" "cop_flags cop = 0"
      "cop_op cop = (if enc then COP_ENCRYPT else COP_DECRYPT)" "i + 8192 \<le> j" "j + 8192 \<le> sz_data"
    and iv: "if cop_iv cop = 0 then iv = siv else cop_iv cop = ce_local E + of_nat off_data_iv \<and> iv = take 16 (drop off_data_iv data)"
    and u: "m1 = local_var (ce_arg E) (crypt_op_bytes cop) (local_var (ce_local E) data (um s))"
    and zc: "zc_ready (ce_mm E) (ce_sh E) m1 (cop_src cop) (cop_dst cop) (cop_len cop)"
  shows "\<exists>ret filp' s'. client_ioctl E filp CIOCCRYPT (s\<lparr>um := m1\<rparr>) = Some (ret, filp', s')
    \<and> (ret = 0 \<and> copy_from_user (um s') (ce_local E) sz_data = Some (splice_at j (f enc iv (take 8192 (drop i data))) data) \<or> ret = - ENOMEM)
    \<and> has_session E filp' (cop_ses cop) t f g u (if ret = 0 then g enc iv (take 8192 (drop i data)) else iv)"
proof -
  let ?bs = "take 8192 (drop i data)"
  from has obtain priv ses where ses: "private_data filp = Some priv" "find_session (cop_ses cop) (fcrypts priv) = Some ses" "ready_session E ses t f g u"
    and siv: "c_iv (cdata ses) = siv" by (auto simp: has_session_def split: option.splits)
  define s1 where "s1 = s\<lparr>um := m1\<rparr>"
  have lc: "length (crypt_op_bytes cop) = 48" by (simp add: crypt_op.length_enc)
  note rd = frame_reads [OF E l lc u]
  have n: "unat (cop_len cop) = 8192" "cop_len cop \<noteq> 0" using cop(3) by simp_all
  have r: "\<not> sem ses" "\<not> h_init (hdata ses)" "c_ivsize (cdata ses) = 16" "c_blocksize (cdata ses) = 16" "ses_sem (ce_api E) ses t 16 f g u" "4 \<le> ce_sh E" "zc_wf ses"
    using ses(3) by (simp_all add: ready_session_def)
  have ivl: "length (c_iv (cdata ses)) = 16" "ablk_sem (ce_api E) t 16 f g" using r(5) by (simp_all add: ses_sem_def)
  obtain ivb where gi: "given_iv m1 cop 16 ivb" "iv = ivb @ drop (length ivb) (c_iv (cdata ses))"
  proof (cases "cop_iv cop = 0")
    case True
    then show ?thesis using iv siv by (intro that [of "[]"]) (simp_all add: given_iv_def)
  next
    case False
    then show ?thesis using iv rd(3) [of off_data_iv 16] l ivl(1) by (intro that [of iv]) (simp_all add: given_iv_def data_sizes)
  qed
  have il: "length iv = 16" using iv siv ivl(1) l by (auto simp: data_sizes split: if_splits)
  have src: "copy_from_user m1 (cop_src cop) (unat (cop_len cop)) = Some ?bs" unfolding cop(1) n by (rule rd(3)) (use cop in simp)
  have dst: "can_write m1 (cop_dst cop) (unat (cop_len cop))" unfolding cop(2) n by (rule rd(4)) (use cop in simp)
  have nc: "no_clobber (cop_src cop) (cop_dst cop) (unat (cop_len cop))"
  proof -
    have j: "(of_nat j :: u64) = of_nat i + of_nat (j - i)" using cop(6) by (simp flip: of_nat_add)
    show ?thesis unfolding cop(1,2) n(1) j using no_clobber_fields [of 8192 "j - i" "ce_local E + of_nat i"] cop(6,7) by (simp add: add.assoc data_sizes)
  qed
  have lb: "length ?bs = 8192" using l cop(6,7) by simp
  have lg: "length (g enc iv ?bs) = 16" using ivl(2) il lb by (simp add: ablk_sem_def)
  have dv: "(16 :: nat) dvd 2 ^ ce_sh E" using le_imp_power_dvd [OF r(6), of "2 :: nat"] by simp
  have "\<exists>ret fcr' s'. ioctl_crypt kcop_from_user kcop_to_user (ce_api E) (ce_mm E) (ce_sh E) (fcrypts priv) (ce_arg E) s1 = Some (ret, fcr', s') \<and> pins s' = pins s1
    \<and> (ret = 0 \<and> um s' = snd (copy_to_user (snd (copy_to_user (um s1) (cop_dst cop) (f enc iv ?bs))) (ce_arg E) (crypt_op_bytes cop)) \<or> ret = - ENOMEM \<and> um s' = um s1)
    \<and> (\<exists>ses' r. find_session (cop_ses cop) fcr' = Some ses' \<and> \<not> sem ses' \<and> zc_wf ses' \<and> hdata ses' = hdata ses
        \<and> cdata ses' = (cdata ses)\<lparr>c_iv := (if ret = 0 then g enc iv ?bs else iv), c_res := r\<rparr>)"
    by (rule ioctl_crypt_session [OF ses(2) r(1,2) _ r(5,4) _ dv cop(5) _ n(2) _ _ _ _ _ _ nc r(7) _ gi(2)])
      (use r(3) n(1) cop(4) rd(1,2) src dst zc gi(1) in \<open>simp_all add: s1_def has_flag_def\<close>)
  then obtain ret fcr' s' ses' where x: "ioctl_crypt kcop_from_user kcop_to_user (ce_api E) (ce_mm E) (ce_sh E) (fcrypts priv) (ce_arg E) s1 = Some (ret, fcr', s')"
    "ret = 0 \<and> um s' = snd (copy_to_user (snd (copy_to_user (um s1) (cop_dst cop) (f enc iv ?bs))) (ce_arg E) (crypt_op_bytes cop)) \<or> ret = - ENOMEM"
    "find_session (cop_ses cop) fcr' = Some ses'" "\<not> sem ses'" "zc_wf ses'" "hdata ses' = hdata ses"
    "\<exists>r. cdata ses' = (cdata ses)\<lparr>c_iv := (if ret = 0 then g enc iv ?bs else iv), c_res := r\<rparr>"
    by blast
  have rs: "ready_session E ses' t f g u" "c_iv (cdata ses') = (if ret = 0 then g enc iv ?bs else iv)"
    using x(4-7) r lg il by (auto simp: ready_session_def ses_sem_def)
  have lf: "j + length (f enc iv ?bs) \<le> sz_data" using ivl(2) il lb cop(7) by (simp add: ablk_sem_def)
  have "client_ioctl E filp CIOCCRYPT s1 = Some (ret, filp\<lparr>private_data := Some (priv\<lparr>fcrypts := fcr'\<rparr>)\<rparr>, s')"
    by (simp add: client_ioctl_def ioctl_dispatch(1) [OF ses(1)] on_fcr_def x(1) del: cmd_code.simps)
  moreover have "has_session E (filp\<lparr>private_data := Some (priv\<lparr>fcrypts := fcr'\<rparr>)\<rparr>) (cop_ses cop) t f g u (if ret = 0 then g enc iv ?bs else iv)"
    using x(3) rs by (simp add: has_session_def)
  moreover have "copy_from_user (um s') (ce_local E) sz_data = Some (splice_at j (f enc iv ?bs) data)" if "ret = 0"
    using x(2) that frame_result [OF E l lc lf u] cop(2) by (auto simp: s1_def)
  ultimately show ?thesis using x(2) unfolding s1_def by blast
qed


lemma c_strlen_at: "0 \<notin> set xs \<Longrightarrow> c_strlen (xs @ 0 # ys) = Some (length xs)"
proof -
  assume "0 \<notin> set xs"
  then have "takeWhile (\<lambda>b. b \<noteq> 0) (xs @ 0 # ys) = xs" by (induction xs) auto
  then show ?thesis by (simp add: c_strlen_def)
qed

lemma c_string_at: "0 \<notin> set xs \<Longrightarrow> c_string (xs @ 0 # ys) = xs"
  by (induction xs) (auto simp: c_string_def)

lemma c_string_no_NUL: "0 \<notin> set (c_string bs)"
  by (auto simp: c_string_def dest: set_takeWhileD)

lemma c_string_split:
  assumes "c_strlen bs = Some n"
  shows "n = length (c_string bs)" "\<exists>ys. bs = c_string bs @ 0 # ys" "take n bs = c_string bs"
proof -
  from assms have n: "n = length (takeWhile (\<lambda>b. b \<noteq> 0) bs)" "n < length bs" by (auto simp: c_strlen_def Let_def split: if_splits)
  show "n = length (c_string bs)" by (simp add: n(1) c_string_def)
  have "bs = c_string bs @ dropWhile (\<lambda>b. b \<noteq> 0) bs" by (simp add: c_string_def)
  moreover have "dropWhile (\<lambda>b. b \<noteq> 0) bs \<noteq> []" using n by (metis append_Nil2 less_irrefl takeWhile_dropWhile_id)
  then obtain y ys where d: "dropWhile (\<lambda>b. b \<noteq> 0) bs = y # ys" "y = 0" by (metis (mono_tags, lifting) hd_dropWhile list.exhaust list.sel(1))
  ultimately show "\<exists>ys. bs = c_string bs @ 0 # ys" by metis
  show "take n bs = c_string bs" by (simp add: n(1) c_string_def takeWhile_eq_take [symmetric])
qed

text \<open>Copying a string over zeros: the string and zeros after it.\<close>

lemma c_strcpy_zeros:
  assumes "c_strlen bs = Some n" "off + n < k"
  shows "c_strcpy (replicate k 0) off bs = Some (replicate off 0 @ c_string bs @ replicate (k - off - n) 0)"
proof -
  have "[0 :: byte] @ replicate (k - Suc (off + n)) 0 = replicate (k - off - n) 0"
  proof -
    have "k - off - n = Suc (k - Suc (off + n))" using assms(2) by simp
    then show ?thesis by (simp only: replicate_Suc append_Cons append_Nil)
  qed
  then show ?thesis
    using assms(2) c_string_split(1,3) [OF assms(1)] by (simp add: c_strcpy_def assms(1) splice_at_def min_def)
qed

text \<open>The text of a message as it is encrypted, and the argument of the two calls.\<close>

definition padded :: "byte list \<Rightarrow> byte list" where
  "padded arr = c_string arr @ replicate (DATA_SIZE - length (c_string arr)) 0"

definition enc_op :: "'h cenv \<Rightarrow> session_op \<Rightarrow> crypt_op" where
  "enc_op E sess = zero_crypt_op\<lparr>cop_ses := sop_ses sess, cop_len := of_nat DATA_SIZE, cop_src := ce_local E,
     cop_dst := ce_local E + of_nat off_encrypted, cop_op := COP_ENCRYPT\<rparr>"

definition dec_op :: "'h cenv \<Rightarrow> session_op \<Rightarrow> crypt_op" where
  "dec_op E sess = zero_crypt_op\<lparr>cop_ses := sop_ses sess, cop_len := of_nat ENC_SIZE, cop_iv := ce_local E + of_nat off_data_iv,
     cop_src := ce_local E + of_nat off_encrypted, cop_dst := ce_local E + of_nat off_decrypted, cop_op := COP_DECRYPT\<rparr>"

text \<open>The pages of \<open>data\<close> can be mapped for the request.\<close>

definition frame_mapped :: "'h cenv \<Rightarrow> crypt_op \<Rightarrow> bool" where
  "frame_mapped E cop \<longleftrightarrow> (\<forall>data m. length data = sz_data \<longrightarrow>
     zc_ready (ce_mm E) (ce_sh E) (local_var (ce_arg E) (crypt_op_bytes cop) (local_var (ce_local E) data m)) (cop_src cop) (cop_dst cop) (cop_len cop))"

lemma le_nat_zeros: "le_nat (replicate n 0) = 0"
  by (induction n) simp_all

lemma zero_op [simp]: "cop_flags zero_crypt_op = 0" "cop_iv zero_crypt_op = 0"
  by (simp_all add: zero_crypt_op_def crypt_op_of_def get16_def get64_def field_def le_nat_zeros)

lemma has_session_length:
  "has_session E filp d t f g u iv \<Longrightarrow> length iv = 16"
  "has_session E filp d t f g u iv \<Longrightarrow> length v = 16 \<Longrightarrow> 16 dvd length bs \<Longrightarrow> length (f enc v bs) = length bs"
  by (auto simp: has_session_def ready_session_def ses_sem_def ablk_sem_def split: option.splits)

lemma encrypt_spec:
  assumes E: "frame_ok E" "frame_mapped E (enc_op E sess)"
    and has: "has_session E filp (sop_ses sess) t f g u iv"
    and arr: "c_strlen arr = Some n" "n < DATA_SIZE"
  shows "\<exists>filp' s'. encrypt_data E filp arr sess enc s = Some (enc, filp', s') \<and> has_session E filp' (sop_ses sess) t f g u iv
    \<or> encrypt_data E filp arr sess enc s = map_option (\<lambda>e. (e, filp', s')) (c_strcpy enc 0 (f True iv (padded arr) @ replicate 8240 0))
      \<and> has_session E filp' (sop_ses sess) t f g u (g True iv (padded arr))"
proof -
  let ?cop = "enc_op E sess"
  define data where "data = c_string arr @ replicate (sz_data - n) 0"
  have n: "n = length (c_string arr)" by (rule c_string_split(1) [OF arr(1)])
  have cp: "c_strcpy (replicate sz_data 0) 0 arr = Some data"
    using c_strcpy_zeros [OF arr(1), of 0 sz_data] arr(2) by (simp add: data_def data_sizes)
  have l: "length data = sz_data" using n arr(2) by (simp add: data_def data_sizes)
  have t: "take 8192 data = padded arr" using n arr(2) by (simp add: data_def padded_def data_sizes min_def)
  define m1 where "m1 = local_var (ce_arg E) (crypt_op_bytes ?cop) (local_var (ce_local E) data (um s))"
  have zc: "zc_ready (ce_mm E) (ce_sh E) m1 (cop_src ?cop) (cop_dst ?cop) (cop_len ?cop)" using E(2) l by (simp add: frame_mapped_def m1_def)
  have "\<exists>ret filp' s'. client_ioctl E filp CIOCCRYPT (s\<lparr>um := m1\<rparr>) = Some (ret, filp', s')
    \<and> (ret = 0 \<and> copy_from_user (um s') (ce_local E) sz_data = Some (splice_at 8192 (f True iv (take 8192 (drop 0 data))) data)
\<or> ret = - ENOMEM)
    \<and> has_session E filp' (cop_ses ?cop) t f g u (if ret = 0 then g True iv (take 8192 (drop 0 data)) else iv)"
    by (rule client_crypt [OF E(1) l _ _ _ _ _ _ _ _ _ m1_def zc]) (use has in \<open>simp_all add: enc_op_def data_sizes\<close>)
  then obtain ret filp' s' where x: "client_ioctl E filp CIOCCRYPT (s\<lparr>um := m1\<rparr>) = Some (ret, filp', s')"
    "ret = 0 \<and> copy_from_user (um s') (ce_local E) sz_data = Some (splice_at 8192 (f True iv (padded arr)) data) \<or> ret = - ENOMEM"
    "has_session E filp' (sop_ses sess) t f g u (if ret = 0 then g True iv (padded arr) else iv)"
    by (auto simp: t enc_op_def)
  have lp: "length (padded arr) = 8192" using n arr(2) by (simp add: padded_def data_sizes)
  have lf: "length (f True iv (padded arr)) = 8192" using has_session_length [OF has] lp by simp
  have tail: "drop off_encrypted (splice_at 8192 (f True iv (padded arr)) data) = f True iv (padded arr) @ replicate 8240 0"
  proof -
    have "drop 16384 data = replicate 8240 0" using n arr(2) by (simp add: data_def data_sizes)
    then show ?thesis using lf l by (simp add: splice_at_def data_sizes)
  qed
  show ?thesis
  proof (cases "ret = 0")
    case True
    then have y: "copy_from_user (um s') (ce_local E) sz_data = Some (splice_at 8192 (f True iv (padded arr)) data)"
      "has_session E filp' (sop_ses sess) t f g u (g True iv (padded arr))" using x(2,3) by auto
    have "encrypt_data E filp arr sess enc s = map_option (\<lambda>e. (e, filp', s')) (c_strcpy enc 0 (f True iv (padded arr) @ replicate 8240 0))"
      unfolding encrypt_data_def cp Let_def enc_op_def [symmetric] m1_def [symmetric] x(1)
      by (cases "c_strcpy enc 0 (f True iv (padded arr) @ replicate 8240 0)") (simp_all add: x(1) True y tail enc_op_def [symmetric] m1_def [symmetric])
    with y show ?thesis by blast
  next
    case False
    then have "encrypt_data E filp arr sess enc s = Some (enc, filp', s')"
      unfolding encrypt_data_def cp Let_def by (simp add: enc_op_def [symmetric] m1_def [symmetric] x(1))
    then show ?thesis using x(3) False by auto
  qed
qed

lemma decrypt_spec:
  assumes E: "frame_ok E" "frame_mapped E (dec_op E sess)"
    and has: "has_session E filp (sop_ses sess) t f g u iv"
    and enc: "c_strlen enc = Some n" "n < ENC_SIZE"
  shows "\<exists>filp' s'. decrypt_data E filp enc sess arr s = Some (arr, filp', s') \<and> has_session E filp' (sop_ses sess) t f g u (replicate 16 0)
    \<or> decrypt_data E filp enc sess arr s = map_option (\<lambda>e. (e, filp', s')) (c_strcpy arr 0 (f False (replicate 16 0) (padded enc) @ replicate 48 0))
      \<and> has_session E filp' (sop_ses sess) t f g u (g False (replicate 16 0) (padded enc))"
proof -
  let ?iv = "replicate 16 (0 :: byte)" and ?cop = "dec_op E sess"
  define data where "data = replicate 8192 0 @ c_string enc @ replicate (sz_data - 8192 - n) 0"
  have n: "n = length (c_string enc)" by (rule c_string_split(1) [OF enc(1)])
  have cp: "c_strcpy (replicate sz_data 0) off_encrypted enc = Some data"
    using c_strcpy_zeros [OF enc(1), of off_encrypted sz_data] enc(2) by (simp add: data_def data_sizes)
  have l: "length data = sz_data" using n enc(2) by (simp add: data_def data_sizes)
  have t: "take 8192 (drop 8192 data) = padded enc" "take 16 (drop off_data_iv data) = ?iv" "drop 24576 data = replicate 48 0"
    using n enc(2) by (simp_all add: data_def padded_def data_sizes min_def)
  define m1 where "m1 = local_var (ce_arg E) (crypt_op_bytes ?cop) (local_var (ce_local E) data (um s))"
  have zc: "zc_ready (ce_mm E) (ce_sh E) m1 (cop_src ?cop) (cop_dst ?cop) (cop_len ?cop)" using E(2) l by (simp add: frame_mapped_def m1_def)
  have nz: "cop_iv ?cop \<noteq> 0"
  proof -
    have "unat (ce_local E + of_nat off_data_iv) = unat (ce_local E) + off_data_iv"
      using E(1) by (simp add: frame_ok_def data_sizes unat_word_ariths)
    then have "unat (cop_iv ?cop) \<noteq> 0" by (simp add: dec_op_def data_sizes)
    then show ?thesis by (metis unat_0)
  qed
  have "\<exists>ret filp' s'. client_ioctl E filp CIOCCRYPT (s\<lparr>um := m1\<rparr>) = Some (ret, filp', s')
    \<and> (ret = 0 \<and> copy_from_user (um s') (ce_local E) sz_data = Some (splice_at 16384 (f False ?iv (take 8192 (drop 8192 data))) data)
\<or> ret = - ENOMEM)
    \<and> has_session E filp' (cop_ses ?cop) t f g u (if ret = 0 then g False ?iv (take 8192 (drop 8192 data)) else ?iv)"
    by (rule client_crypt [OF E(1) l _ _ _ _ _ _ _ _ _ m1_def zc]) (use has nz t(2) in \<open>simp_all add: dec_op_def data_sizes\<close>)
  then obtain ret filp' s' where x: "client_ioctl E filp CIOCCRYPT (s\<lparr>um := m1\<rparr>) = Some (ret, filp', s')"
    "ret = 0 \<and> copy_from_user (um s') (ce_local E) sz_data = Some (splice_at 16384 (f False ?iv (padded enc)) data) \<or> ret = - ENOMEM"
    "has_session E filp' (sop_ses sess) t f g u (if ret = 0 then g False ?iv (padded enc) else ?iv)"
    by (auto simp: t dec_op_def)
  have lp: "length (padded enc) = 8192" using n enc(2) by (simp add: padded_def data_sizes)
  have lf: "length (f False ?iv (padded enc)) = 8192" using has_session_length [OF has] lp by simp
  have tail: "drop off_decrypted (splice_at 16384 (f False ?iv (padded enc)) data) = f False ?iv (padded enc) @ replicate 48 0"
    using lf l t(3) by (simp add: splice_at_def data_sizes)
  show ?thesis
  proof (cases "ret = 0")
    case True
    then have y: "copy_from_user (um s') (ce_local E) sz_data = Some (splice_at 16384 (f False ?iv (padded enc)) data)"
      "has_session E filp' (sop_ses sess) t f g u (g False ?iv (padded enc))" using x(2,3) by auto
    have "decrypt_data E filp enc sess arr s = map_option (\<lambda>e. (e, filp', s')) (c_strcpy arr 0 (f False ?iv (padded enc) @ replicate 48 0))"
      unfolding decrypt_data_def cp Let_def dec_op_def [symmetric] m1_def [symmetric] x(1)
      by (cases "c_strcpy arr 0 (f False ?iv (padded enc) @ replicate 48 0)") (simp_all add: x(1) True y tail dec_op_def [symmetric] m1_def [symmetric])
    with y show ?thesis by blast
  next
    case False
    then have "decrypt_data E filp enc sess arr s = Some (arr, filp', s')"
      unfolding decrypt_data_def cp Let_def by (simp add: dec_op_def [symmetric] m1_def [symmetric] x(1))
    then show ?thesis using x(3) False by auto
  qed
qed


lemma padded_string:
  assumes "length (c_string x) < DATA_SIZE"
  shows "c_string (padded x @ ys) = c_string x" "c_strlen (padded x @ ys) = Some (length (c_string x))"
proof -
  have "padded x @ ys = c_string x @ 0 # (replicate (DATA_SIZE - length (c_string x) - 1) 0 @ ys)"
    using assms by (simp add: padded_def flip: replicate_Suc)
  then show "c_string (padded x @ ys) = c_string x" "c_strlen (padded x @ ys) = Some (length (c_string x))"
    using c_string_at [OF c_string_no_NUL] c_strlen_at [OF c_string_no_NUL] by simp_all
qed

lemma strcpy_cipher:
  assumes "length ct = 8192"
  shows "c_strcpy (replicate ENC_SIZE 0) 0 (ct @ replicate (Suc k) 0) = (if 0 \<in> set ct then Some (padded ct) else None)"
proof (cases "0 \<in> set ct")
  case True
  then obtain xs ys where s: "ct = xs @ 0 # ys" "0 \<notin> set xs" by (metis split_list_first)
  have c: "c_string ct = xs" "length xs < 8192" using s assms c_string_at by (simp, simp)
  have c': "c_strlen (ct @ replicate (Suc k) 0) = Some (length xs)" "c_string (ct @ replicate (Suc k) 0) = xs"
    using s c_strlen_at [of xs] c_string_at [of xs] by simp_all
  show ?thesis using c_strcpy_zeros [OF c'(1), of 0 ENC_SIZE] c c'(2) True by (simp add: padded_def data_sizes)
next
  case False
  then have "c_strlen (ct @ replicate (Suc k) 0) = Some 8192" using c_strlen_at [of ct] assms by simp
  then show ?thesis using False by (simp add: c_strcpy_def data_sizes)
qed




text \<open>Processes for examples: their session's cipher combines every byte with the first byte of the key.\<close>

definition ses_aes :: "byte \<Rightarrow> byte list csession" where
  "ses_aes k = (ses_demo False)\<lparr>cdata := cipher_zero\<lparr>c_init := True, c_blocksize := 16, c_ivsize := 16,
     c_s := Some \<lparr>tfm_id = 1, tfm_name = ''cbc(aes)'', tfm_key = [k], tfm_authsize = 0\<rparr>\<rparr>\<rparr>"

definition file_aes :: "byte \<Rightarrow> byte list cfile" where
  "file_aes k = \<lparr>private_data = Some (priv_demo\<lparr>fcrypts := [ses_aes k]\<rparr>), f_count = 1, fd_table = [3]\<rparr>"

definition cenv_demo :: "byte list cenv" where
  "cenv_demo = \<lparr>ce_api = capi_demo, ce_mm = mm_demo, ce_sh = 4, ce_kdo = False, ce_unused = (\<lambda>_. 4), ce_local = 0x10000, ce_arg = 0x20000\<rparr>"

definition sess_demo :: session_op where
  "sess_demo = zero_session_op\<lparr>sop_ses := 7\<rparr>"

lemma cenv_demo_facts:
  "frame_ok cenv_demo" "frame_mapped cenv_demo (enc_op cenv_demo sess_demo)" "frame_mapped cenv_demo (dec_op cenv_demo sess_demo)"
  by (simp_all add: frame_ok_def frame_mapped_def cenv_demo_def data_sizes zc_ready_def fits_def present_def mm_demo_def enc_op_def dec_op_def)

lemma file_aes_session:
  "has_session cenv_demo (file_aes k) (sop_ses sess_demo) \<lparr>tfm_id = 1, tfm_name = ''cbc(aes)'', tfm_key = [k], tfm_authsize = 0\<rparr>
     (\<lambda>enc iv bs. xor_key [k] bs) (\<lambda>enc iv bs. iv) (\<lambda>h bs. h @ bs) (replicate 16 0)"
  by (auto simp: has_session_def file_aes_def sess_demo_def find_session_def ses_aes_def ses_demo_def ready_session_def cenv_demo_def hash_zero_def
      cipher_zero_def zc_wf_def ses_sem_def ablk_sem_def capi_demo_def xor_key_def completes_def outcome_def)

lemma hi_string: "c_strlen [104, 105, 0] = Some 2" "padded [104, 105, 0] = 104 # 105 # replicate 8190 0"
  by (simp_all add: c_strlen_def padded_def c_string_def data_sizes)




section \<open>Answers\<close>

lemma send_rest:
  assumes wr: "\<And>k c. 0 \<le> wr k c \<and> wr k c \<le> int c \<and> (0 < c \<longrightarrow> 0 < wr k c)" and l: "length out = ENC_SIZE"
  shows "0 < i \<Longrightarrow> i \<le> ENC_SIZE \<Longrightarrow> send_loop wr out k i sent = Some (sent @ drop i out)"
proof (induction "ENC_SIZE - i" arbitrary: i k sent rule: less_induct)
  case less
  define n where "n = wr k (ENC_SIZE - i)"
  have n: "0 \<le> n" "n \<le> int (ENC_SIZE - i)" "i < ENC_SIZE \<longrightarrow> 0 < n" using wr [of k "ENC_SIZE - i"] by (simp_all add: n_def)
  have ne: "\<not> int (ENC_SIZE + i) \<le> n" using n less.prems by simp
  show ?case
  proof (cases "i < ENC_SIZE")
    case True
    have "send_loop wr out k i sent = send_loop wr out (Suc k) (i + nat n) (sent @ take (nat n) (drop i out))"
      by (subst send_loop.simps) (use n ne True in \<open>simp add: n_def Let_def\<close>)
    also have "\<dots> = Some ((sent @ take (nat n) (drop i out)) @ drop (i + nat n) out)"
      by (rule less.hyps) (use n True in simp_all)
    finally have st: "send_loop wr out k i sent = Some (sent @ take (nat n) (drop i out) @ drop (i + nat n) out)" by simp
    have "take (nat n) (drop i out) @ drop (i + nat n) out = drop i out" by (metis add.commute append_take_drop_id drop_drop)
    with st show ?thesis by simp
  next
    case False
    then have "n = 0" "drop i out = []" using n less.prems l by simp_all
    then show ?thesis by (subst send_loop.simps) (use ne in \<open>simp add: n_def Let_def\<close>)
  qed
qed



section \<open>Output of commands\<close>

lemma make_message_loop_returns:
  "0 < room \<Longrightarrow> \<exists>r n oks'. make_message_loop old msg room oks = Some (r, n, oks') \<and> (False \<notin> set oks \<longrightarrow> False \<notin> set oks')
    \<and> (r = Some (msg @ [0]) \<and> n = int (length msg) \<or> r = None \<and> False \<in> set oks)"
proof (induction "Suc (length msg) - room" arbitrary: room oks rule: less_induct)
  case less
  let ?n = "vsnprintf_ret old msg room"
  show ?case
  proof (cases "length msg < room")
    case True
    then show ?thesis by (subst make_message_loop.simps) (simp add: vsnprintf_ret_def)
  next
    case False
    obtain ok oks1 where o: "next_ok oks = (ok, oks1)" by fastforce
    then have os: "False \<notin> set oks \<longrightarrow> ok \<and> False \<notin> set oks1" "False \<in> set oks1 \<longrightarrow> False \<in> set oks" by (auto simp: next_ok_def split: list.splits)
    have st: "make_message_loop old msg room oks = (if \<not> ok then Some (None, ?n, oks1) else make_message_loop old msg (if - 1 < ?n then nat ?n + 1 else room * 2) oks1)"
      by (subst make_message_loop.simps) (use False in \<open>simp add: o Let_def vsnprintf_ret_def\<close>)
    show ?thesis
    proof (cases ok)
      case True
      have "\<exists>r n oks'. make_message_loop old msg (if - 1 < ?n then nat ?n + 1 else room * 2) oks1 = Some (r, n, oks') \<and> (False \<notin> set oks1 \<longrightarrow> False \<notin> set oks')
          \<and> (r = Some (msg @ [0]) \<and> n = int (length msg) \<or> r = None \<and> False \<in> set oks1)"
        by (rule less.hyps) (use False less.prems in \<open>auto simp: vsnprintf_ret_def\<close>)
      then show ?thesis using st True os by auto
    next
      case False
      with os have "False \<in> set oks" by auto
      then show ?thesis using st False by simp
    qed
  qed
qed

lemma make_message_returns:
  assumes "False \<notin> set oks"
  shows "\<exists>oks'. make_message old msg ms oks = Some (Some (msg @ [0]), int (length msg), oks') \<and> False \<notin> set oks'"
proof -
  obtain oks1 where o: "next_ok oks = (True, oks1)" "False \<notin> set oks1" using assms by (cases oks) (auto simp: next_ok_def)
  with make_message_loop_returns [of 1 old msg oks1] show ?thesis by (auto simp: make_message_def)
qed

lemma c_fgets_split: "c_fgets k out = (path, rem) \<Longrightarrow> out = path @ rem \<and> (0 < k \<and> out \<noteq> [] \<longrightarrow> path \<noteq> [])"
  by (induction k out arbitrary: path rule: c_fgets.induct) (auto split: if_splits prod.splits)

lemma c_string_clean: "0 \<notin> set bs \<Longrightarrow> c_string bs = bs"
  by (auto simp: c_string_def takeWhile_eq_all_conv)

lemma popen_loop_collects:
  "False \<notin> set oks \<Longrightarrow> 0 \<notin> set out \<Longrightarrow> \<exists>oks'. popen_loop old (Some str) ms out oks
    = Some (Some (if out = [] then str else c_string str @ out @ [0]), if out = [] then ms else int (length (c_string str @ out)), oks')"
proof (induction "length out" arbitrary: str ms out oks rule: less_induct)
  case less
  show ?case
  proof (cases "out = []")
    case True
    then show ?thesis by (subst popen_loop.simps) simp
  next
    case False
    obtain path rem where p: "c_fgets 2 out = (path, rem)" by fastforce
    from c_fgets_split [OF p] False have s: "out = path @ rem" "path \<noteq> []" by auto
    have np: "0 \<notin> set path" using less.prems(2) s(1) by auto
    let ?msg = "c_string str @ path"
    from make_message_returns [OF less.prems(1), of old ?msg ms] obtain oks1 where
      m: "make_message old ?msg ms oks = Some (Some (?msg @ [0]), int (length ?msg), oks1)" "False \<notin> set oks1" by blast
    have st: "popen_loop old (Some str) ms out oks = popen_loop old (Some (?msg @ [0])) (int (length ?msg)) rem oks1"
      by (subst popen_loop.simps) (use False in \<open>simp add: p m(1) c_string_clean [OF np]\<close>)
    have "0 \<notin> set ?msg" using np c_string_no_NUL [of str] by auto
    then have cm: "c_string (?msg @ [0]) = ?msg" using c_string_at [of ?msg "[]"] by simp
    have "\<exists>oks'. popen_loop old (Some (?msg @ [0])) (int (length ?msg)) rem oks1 = Some (Some (if rem = [] then ?msg @ [0] else c_string (?msg @ [0]) @ rem @ [0]),
        if rem = [] then int (length ?msg) else int (length (c_string (?msg @ [0]) @ rem)), oks')"
      by (rule less.hyps) (use s less.prems(2) m(2) in auto)
    then show ?thesis unfolding st cm using s(1) False by (cases "rem = []") auto
  qed
qed

text \<open>\<open>run_popen\<close> collects the output of a command, when memory does not run out: the string it returns is
  the output in order, but after whatever string its uninitialised buffer pointed to; the size is the
  length of all of it.  When the pointer is not the address of a string, any output is an invalid access,
  and when the command prints nothing the pointer itself is returned.
\<close>

theorem run_popen_collects:
  assumes "False \<notin> set oks" "0 \<notin> set out"
  shows "(\<exists>oks'. run_popen old (Some str) (Some out) ms oks
      = Some (Some (if out = [] then str else c_string str @ out @ [0]), if out = [] then ms else int (length (c_string str @ out)), oks'))
    \<and> (out \<noteq> [] \<longrightarrow> run_popen old None (Some out) ms oks = None)"
proof (rule conjI)
  show "\<exists>oks'. run_popen old (Some str) (Some out) ms oks
      = Some (Some (if out = [] then str else c_string str @ out @ [0]), if out = [] then ms else int (length (c_string str @ out)), oks')"
    unfolding run_popen_def option.case by (rule popen_loop_collects [OF assms])
  show "out \<noteq> [] \<longrightarrow> run_popen old None (Some out) ms oks = None"
    unfolding run_popen_def option.case by (subst popen_loop.simps) simp
qed

theorem run_popen_collects_witness:
  "\<exists>oks'. run_popen True (Some [0]) (Some [104, 105, 33, 10]) 0 [] = Some (Some [104, 105, 33, 10, 0], 4, oks')"
  using run_popen_collects [of "[]" "[104, 105, 33, 10]" True "[0]" 0] by (simp add: c_string_def)


text \<open>The client shows the answer and stops at the mark, when the answer and the mark arrive in one read
  each: for a cipher text that survived the server's copying and does not itself end like the mark, the
  one text shown is the server's string (or nothing, when the client's kernel has no memory).  A read of
  fewer than five bytes, as at the end of the connection, makes the test for the mark look before the
  buffer.
\<close>

theorem answer_shown:
  assumes rcv: "frame_ok E" "frame_mapped E (dec_op E sess)" "has_session E filp (sop_ses sess) t f g u iv"
    and arr: "length (c_string arr) < DATA_SIZE" "f False (replicate 16 0) ct = padded arr"
    and ct: "length ct = ENC_SIZE" "0 \<in> set ct" "padded ct = ct" "drop (length ct - 5) ct \<noteq> eot"
  shows "(\<exists>filp' s'. client_read E sess [ct, eot] [] filp s = Some ([[]], filp', s') \<or> client_read E sess [ct, eot] [] filp s = Some ([c_string arr], filp', s'))
    \<and> (length chunk < 5 \<longrightarrow> client_read E sess (chunk # chunks) shown filp s = None)"
proof (intro conjI impI)
  obtain xs ys where "ct = xs @ 0 # ys" "0 \<notin> set xs" using ct(2) by (metis split_list_first)
  then have c: "c_strlen ct = Some (length xs)" "length xs < ENC_SIZE" using c_strlen_at [of xs ys] ct(1) by auto
  have "c_strcpy (replicate MSG_SIZE 0) 0 (padded arr @ replicate 48 0) = Some (padded arr)"
    using c_strcpy_zeros [OF padded_string(2) [OF arr(1)], of 0 MSG_SIZE "replicate 48 0"] arr(1) padded_string(1) [OF arr(1), of "replicate 48 0"]
    by (simp add: data_sizes padded_def)
  then have "\<exists>filp' s'. decrypt_data E filp ct sess (replicate MSG_SIZE 0) s = Some (replicate MSG_SIZE 0, filp', s')
      \<or> decrypt_data E filp ct sess (replicate MSG_SIZE 0) s = Some (padded arr, filp', s')"
    using decrypt_spec [OF rcv c, of "replicate MSG_SIZE 0" s] unfolding ct(3) arr(2) by auto
  moreover have "splice_at 0 ct (replicate ENC_SIZE 0) = ct" using ct(1) by (simp add: splice_at_def)
  moreover have "c_string (replicate MSG_SIZE 0) = []" "c_string (padded arr) = c_string arr" "is_eot eot = Some True" "is_eot ct = Some False"
    using padded_string(1) [OF arr(1), of "[]"] ct(1,4) by (simp_all add: c_string_def is_eot_def eot_def data_sizes takeWhile_replicate)
  ultimately show "\<exists>filp' s'. client_read E sess [ct, eot] [] filp s = Some ([[]], filp', s') \<or> client_read E sess [ct, eot] [] filp s = Some ([c_string arr], filp', s')"
    by (elim ex_forward disj_forward) simp_all
  show "client_read E sess (chunk # chunks) shown filp s = None" if "length chunk < 5" using that by (simp add: is_eot_def)
qed

theorem answer_shown_witness:
  "(\<exists>filp' s'. client_read cenv_demo sess_demo [104 # 105 # replicate 8190 0, eot] [] (file_aes 0) kst_demo = Some ([[]], filp', s')
      \<or> client_read cenv_demo sess_demo [104 # 105 # replicate 8190 0, eot] [] (file_aes 0) kst_demo = Some ([[104, 105]], filp', s'))
    \<and> client_read cenv_demo sess_demo [[]] [] (file_aes 0) kst_demo = None"
proof -
  have p: "padded (104 # 105 # replicate 8190 0) = 104 # 105 # replicate 8190 0" by (simp add: padded_def data_sizes c_string_def)
  have x: "xor_key [0] bs = bs" for bs by (simp add: xor_key_def)
  let ?ct = "104 # 105 # replicate 8190 (0 :: byte)"
  have "drop (length ?ct - 5) ?ct = replicate 5 0" by (simp add: drop_Cons')
  moreover have "replicate 5 (0 :: byte) \<noteq> eot" by code_simp
  ultimately have e: "drop (length ?ct - 5) ?ct \<noteq> eot" by simp
  have h: "length (c_string [104, 105, 0]) < DATA_SIZE" "c_string [104, 105, 0] = [104, 105 :: byte]" "length ?ct = ENC_SIZE" "0 \<in> set ?ct"
    by (simp_all add: c_string_def data_sizes)
  show ?thesis
    using answer_shown [OF cenv_demo_facts(1,3) file_aes_session [of 0] h(1) _ h(3,4) p e, of kst_demo "[]" "[]" "[]"] unfolding h(2) x hi_string by auto
qed


lemma strcpy_padded:
  assumes "length (c_string x) < DATA_SIZE"
  shows "c_strcpy (replicate MSG_SIZE 0) 0 (padded x @ ys) = Some (padded x)"
  using c_strcpy_zeros [OF padded_string(2) [OF assms], of 0 MSG_SIZE ys] assms padded_string(1) [OF assms, of ys]
  by (simp add: data_sizes padded_def)

lemma with_NUL: "0 \<in> set ct \<Longrightarrow> c_strlen ct = Some (length (c_string ct)) \<and> length (c_string ct) < length ct"
proof -
  assume "0 \<in> set ct"
  then obtain xs ys where "ct = xs @ 0 # ys" "0 \<notin> set xs" by (metis split_list_first)
  then show ?thesis using c_strlen_at [of xs ys] c_string_at [of xs ys] by simp
qed

lemma c_strlen_append: "c_strlen bs = Some n \<Longrightarrow> c_strlen (bs @ ys) = Some n"
  using c_string_split [of bs n] c_strlen_at [OF c_string_no_NUL] by (metis append.assoc append_Cons)




end
