(* ===== verification/Pci_Device.thy ===== *)
theory Pci_Device
  imports Qemu_File
begin

text \<open>
  The PCI device a virtio device is wrapped in (\<open>qemu-1.2.0/hw/pci.c\<close> and \<open>hw/msix.c\<close>): configuration
  space with its masks and capabilities, interrupt pins, MSI-X, reset, saving and loading.  Arrays are
  byte lists.  What leaves the device is kept as it is handed over: per pin, the sum of the changes
  asked of the bus (\<open>pd_intx\<close>), and the MSI-X messages in the order they are stored, each with its
  vector (\<open>pd_msgs\<close>).  The device has no MSI capability and no vector notifiers, so
  \<open>msi_write_config\<close>, \<open>msi_reset\<close> and \<open>msix_fire_vector_notifier\<close> return at once; mapping base address
  registers into the address spaces (\<open>pci_update_mappings\<close>) belongs to the memory core.
\<close>

section \<open>Data\<close>

abbreviation (input) ENOSPC :: int where "ENOSPC \<equiv> 28"
abbreviation (input) ENOTSUP :: int where "ENOTSUP \<equiv> 95"
abbreviation (input) PCI_COMMAND :: nat where "PCI_COMMAND \<equiv> 4"
abbreviation (input) PCI_STATUS :: nat where "PCI_STATUS \<equiv> 6"
abbreviation (input) PCI_CAPABILITY_LIST :: nat where "PCI_CAPABILITY_LIST \<equiv> 0x34"
abbreviation (input) PCI_CONFIG_HEADER_SIZE :: nat where "PCI_CONFIG_HEADER_SIZE \<equiv> 64"
abbreviation (input) PCI_CONFIG_SPACE_SIZE :: nat where "PCI_CONFIG_SPACE_SIZE \<equiv> 256"
abbreviation (input) PCI_NUM_PINS :: nat where "PCI_NUM_PINS \<equiv> 4"
abbreviation (input) PCI_ROM_SLOT :: nat where "PCI_ROM_SLOT \<equiv> 6"
abbreviation (input) PCI_MSIX_ENTRY_SIZE :: nat where "PCI_MSIX_ENTRY_SIZE \<equiv> 16"
abbreviation (input) PCI_MSIX_ENTRY_DATA :: nat where "PCI_MSIX_ENTRY_DATA \<equiv> 8"
abbreviation (input) PCI_MSIX_ENTRY_VECTOR_CTRL :: nat where "PCI_MSIX_ENTRY_VECTOR_CTRL \<equiv> 12"
abbreviation (input) MSIX_CONTROL_OFFSET :: nat where "MSIX_CONTROL_OFFSET \<equiv> 3"
abbreviation (input) MSIX_CAP_LENGTH :: nat where "MSIX_CAP_LENGTH \<equiv> 12"

text \<open>
  \<open>pd_bars\<close> has size and type of the seven regions; the last one is the ROM.  \<open>pd_msix\<close> is the bit
  \<open>QEMU_PCI_CAP_MSIX\<close> of \<open>cap_present\<close>.
\<close>

record pcidev =
  pd_config :: "byte list"
  pd_cmask :: "byte list"
  pd_wmask :: "byte list"
  pd_w1cmask :: "byte list"
  pd_used :: "byte list"
  pd_bars :: "(u64 \<times> byte) list"
  pd_irq_state :: byte
  pd_intx :: "int list"
  pd_version_id :: u32
  pd_msix :: bool
  pd_msix_cap :: byte
  pd_entries_nr :: nat
  pd_table :: "byte list"
  pd_pba :: "byte list"
  pd_entry_used :: "u32 list"
  pd_function_masked :: bool
  pd_msgs :: "(nat \<times> u64 \<times> u32) list"

text \<open>\<open>range.h\<close>: ranges are given by offset and length, computed in \<open>uint64_t\<close>.\<close>

definition range_get_last :: "u64 \<Rightarrow> u64 \<Rightarrow> u64" where
  "range_get_last offset len = offset + len - 1"

definition range_covers_byte :: "u64 \<Rightarrow> u64 \<Rightarrow> u64 \<Rightarrow> bool" where
  "range_covers_byte offset len b \<longleftrightarrow> offset \<le> b \<and> b \<le> range_get_last offset len"

definition ranges_overlap :: "u64 \<Rightarrow> u64 \<Rightarrow> u64 \<Rightarrow> u64 \<Rightarrow> bool" where
  "ranges_overlap first1 len1 first2 len2 \<longleftrightarrow> \<not> (range_get_last first2 len2 < first1 \<or> range_get_last first1 len1 < first2)"


section \<open>Interrupt pins\<close>

definition pci_irq_state :: "pcidev \<Rightarrow> nat \<Rightarrow> bool" where
  "pci_irq_state d irq_num = bit (pd_irq_state d) irq_num"

definition pci_set_irq_state :: "nat \<Rightarrow> bool \<Rightarrow> pcidev \<Rightarrow> pcidev" where
  "pci_set_irq_state irq_num level d =
     d\<lparr>pd_irq_state := (pd_irq_state d AND NOT (push_bit irq_num 1)) OR push_bit irq_num (of_bool level)\<rparr>"

definition pci_change_irq_level :: "nat \<Rightarrow> int \<Rightarrow> pcidev \<Rightarrow> pcidev" where
  "pci_change_irq_level irq_num change d = d\<lparr>pd_intx := (pd_intx d)[irq_num := pd_intx d ! irq_num + change]\<rparr>"

definition pci_update_irq_status :: "pcidev \<Rightarrow> pcidev" where
  "pci_update_irq_status d =
     d\<lparr>pd_config := (pd_config d)[PCI_STATUS := (if pd_irq_state d \<noteq> 0 then pd_config d ! PCI_STATUS OR 8 else pd_config d ! PCI_STATUS AND NOT 8)]\<rparr>"

definition pci_irq_disabled :: "pcidev \<Rightarrow> bool" where
  "pci_irq_disabled d \<longleftrightarrow> get16 (pd_config d) PCI_COMMAND AND 0x400 \<noteq> 0"

definition pci_set_irq :: "nat \<Rightarrow> bool \<Rightarrow> pcidev \<Rightarrow> pcidev" where
  "pci_set_irq irq_num level d =
     (let change = of_bool level - of_bool (pci_irq_state d irq_num)
      in if change = 0 then d
         else (let d1 = pci_update_irq_status (pci_set_irq_state irq_num level d)
               in if pci_irq_disabled d1 then d1 else pci_change_irq_level irq_num change d1))"

definition pci_device_deassert_intx :: "pcidev \<Rightarrow> pcidev" where
  "pci_device_deassert_intx d = fold (\<lambda>i. pci_set_irq i False) [0..<PCI_NUM_PINS] d"

definition pci_update_irq_disabled :: "bool \<Rightarrow> pcidev \<Rightarrow> pcidev" where
  "pci_update_irq_disabled was_irq_disabled d =
     (let disabled = pci_irq_disabled d
      in if disabled = was_irq_disabled then d
         else fold (\<lambda>i d. let state = of_bool (pci_irq_state d i) in pci_change_irq_level i (if disabled then - state else state) d) [0..<PCI_NUM_PINS] d)"


section \<open>MSI-X vectors\<close>

definition msix_present :: "pcidev \<Rightarrow> bool" where
  "msix_present d = pd_msix d"

text \<open>Bit 7 of the control byte enables MSI-X, bit 6 masks every vector.\<close>

definition msix_control :: "pcidev \<Rightarrow> nat" where
  "msix_control d = unat (pd_msix_cap d) + MSIX_CONTROL_OFFSET"

definition msix_enabled :: "pcidev \<Rightarrow> bool" where
  "msix_enabled d \<longleftrightarrow> pd_msix d \<and> bit (pd_config d ! msix_control d) 7"

definition msix_get_message :: "pcidev \<Rightarrow> nat \<Rightarrow> u64 \<times> u32" where
  "msix_get_message d vector =
     (get64 (pd_table d) (vector * PCI_MSIX_ENTRY_SIZE), get32 (pd_table d) (vector * PCI_MSIX_ENTRY_SIZE + PCI_MSIX_ENTRY_DATA))"

definition msix_is_pending :: "pcidev \<Rightarrow> nat \<Rightarrow> bool" where
  "msix_is_pending d vector = bit (pd_pba d ! (vector div 8)) (vector mod 8)"

definition msix_set_pending :: "nat \<Rightarrow> pcidev \<Rightarrow> pcidev" where
  "msix_set_pending vector d = d\<lparr>pd_pba := (pd_pba d)[vector div 8 := pd_pba d ! (vector div 8) OR push_bit (vector mod 8) 1]\<rparr>"

definition msix_clr_pending :: "nat \<Rightarrow> pcidev \<Rightarrow> pcidev" where
  "msix_clr_pending vector d = d\<lparr>pd_pba := (pd_pba d)[vector div 8 := pd_pba d ! (vector div 8) AND NOT (push_bit (vector mod 8) 1)]\<rparr>"

definition msix_vector_masked :: "pcidev \<Rightarrow> nat \<Rightarrow> bool \<Rightarrow> bool" where
  "msix_vector_masked d vector fmask \<longleftrightarrow> fmask \<or> bit (pd_table d ! (vector * PCI_MSIX_ENTRY_SIZE + PCI_MSIX_ENTRY_VECTOR_CTRL)) 0"

definition msix_is_masked :: "pcidev \<Rightarrow> nat \<Rightarrow> bool" where
  "msix_is_masked d vector = msix_vector_masked d vector (pd_function_masked d)"

definition msix_notify :: "nat \<Rightarrow> pcidev \<Rightarrow> pcidev" where
  "msix_notify vector d =
     (if pd_entries_nr d \<le> vector \<or> pd_entry_used d ! vector = 0 then d
      else if msix_is_masked d vector then msix_set_pending vector d
      else d\<lparr>pd_msgs := pd_msgs d @ [(vector, msix_get_message d vector)]\<rparr>)"

definition msix_handle_mask_update :: "nat \<Rightarrow> bool \<Rightarrow> pcidev \<Rightarrow> pcidev" where
  "msix_handle_mask_update vector was_masked d =
     (let is_masked = msix_is_masked d vector
      in if is_masked = was_masked then d
         else if \<not> is_masked \<and> msix_is_pending d vector then msix_notify vector (msix_clr_pending vector d)
         else d)"

definition msix_update_function_masked :: "pcidev \<Rightarrow> pcidev" where
  "msix_update_function_masked d = d\<lparr>pd_function_masked := (\<not> msix_enabled d \<or> bit (pd_config d ! msix_control d) 6)\<rparr>"

definition msix_write_config :: "nat \<Rightarrow> nat \<Rightarrow> pcidev \<Rightarrow> pcidev" where
  "msix_write_config addr len d =
     (if \<not> msix_present d \<or> \<not> range_covers_byte (of_nat addr) (of_nat len) (of_nat (msix_control d)) then d
      else (let was_masked = pd_function_masked d; d1 = msix_update_function_masked d
            in if \<not> msix_enabled d1 then d1
               else (let d2 = pci_device_deassert_intx d1
                     in if pd_function_masked d2 = was_masked then d2
                        else fold (\<lambda>vector d. msix_handle_mask_update vector (msix_vector_masked d vector was_masked) d) [0..<pd_entries_nr d2] d2)))"

text \<open>The guest's accesses to the vector table and the pending bits: aligned, four bytes.\<close>

definition msix_table_mmio_read :: "nat \<Rightarrow> pcidev \<Rightarrow> u32 option" where
  "msix_table_mmio_read addr d = (if addr + 4 \<le> length (pd_table d) then Some (get32 (pd_table d) addr) else None)"

definition msix_table_mmio_write :: "nat \<Rightarrow> u32 \<Rightarrow> pcidev \<Rightarrow> pcidev option" where
  "msix_table_mmio_write addr val d =
     (if addr + 4 \<le> length (pd_table d)
      then (let vector = addr div PCI_MSIX_ENTRY_SIZE; was_masked = msix_is_masked d vector
            in Some (msix_handle_mask_update vector was_masked (d\<lparr>pd_table := splice_at addr (put32 val) (pd_table d)\<rparr>)))
      else None)"

definition msix_pba_mmio_read :: "nat \<Rightarrow> pcidev \<Rightarrow> u32 option" where
  "msix_pba_mmio_read addr d = (if addr + 4 \<le> length (pd_pba d) then Some (get32 (pd_pba d) addr) else None)"

definition msix_mask_all :: "nat \<Rightarrow> pcidev \<Rightarrow> pcidev" where
  "msix_mask_all nentries d =
     fold (\<lambda>vector d.
             let offset = vector * PCI_MSIX_ENTRY_SIZE + PCI_MSIX_ENTRY_VECTOR_CTRL; was_masked = msix_is_masked d vector
             in msix_handle_mask_update vector was_masked (d\<lparr>pd_table := (pd_table d)[offset := pd_table d ! offset OR 1]\<rparr>))
       [0..<nentries] d"

definition msix_free_irq_entries :: "pcidev \<Rightarrow> pcidev" where
  "msix_free_irq_entries d =
     fold (\<lambda>vector d. msix_clr_pending vector (d\<lparr>pd_entry_used := (pd_entry_used d)[vector := 0]\<rparr>)) [0..<pd_entries_nr d] d"

definition msix_clear_all_vectors :: "pcidev \<Rightarrow> pcidev" where
  "msix_clear_all_vectors d = fold msix_clr_pending [0..<pd_entries_nr d] d"

definition msix_vector_use :: "nat \<Rightarrow> pcidev \<Rightarrow> int \<times> pcidev" where
  "msix_vector_use vector d =
     (if pd_entries_nr d \<le> vector then (- EINVAL, d)
      else (0, d\<lparr>pd_entry_used := (pd_entry_used d)[vector := pd_entry_used d ! vector + 1]\<rparr>))"

definition msix_vector_unuse :: "nat \<Rightarrow> pcidev \<Rightarrow> pcidev" where
  "msix_vector_unuse vector d =
     (if pd_entries_nr d \<le> vector \<or> pd_entry_used d ! vector = 0 then d
      else (let d1 = d\<lparr>pd_entry_used := (pd_entry_used d)[vector := pd_entry_used d ! vector - 1]\<rparr>
            in if pd_entry_used d1 ! vector \<noteq> 0 then d1 else msix_clr_pending vector d1))"

definition msix_unuse_all_vectors :: "pcidev \<Rightarrow> pcidev" where
  "msix_unuse_all_vectors d = (if \<not> msix_present d then d else msix_free_irq_entries d)"


section \<open>Configuration space\<close>

text \<open>Bytes \<open>a\<close>, \<open>a + 1\<close>, ... are written; writable bits are stored and bits of the second mask are cleared by a 1.\<close>

fun write_bytes :: "nat \<Rightarrow> nat \<Rightarrow> u32 \<Rightarrow> pcidev \<Rightarrow> pcidev option" where
  "write_bytes 0 a val d = Some d"
| "write_bytes (Suc l) a val d =
     (if a < length (pd_config d) \<and> pd_wmask d ! a AND pd_w1cmask d ! a = 0
      then (let wmask = pd_wmask d ! a; w1cmask = pd_w1cmask d ! a; c = (pd_config d ! a AND NOT wmask) OR (ucast val AND wmask)
            in write_bytes l (Suc a) (drop_bit 8 val) (d\<lparr>pd_config := (pd_config d)[a := c AND NOT (ucast val AND w1cmask)]\<rparr>))
      else None)"

definition pci_default_read_config :: "nat \<Rightarrow> nat \<Rightarrow> pcidev \<Rightarrow> u32 option" where
  "pci_default_read_config addr len d =
     (if addr + len \<le> length (pd_config d) \<and> len \<le> 4 then Some (of_nat (field (pd_config d) addr len)) else None)"

definition pci_default_write_config :: "nat \<Rightarrow> u32 \<Rightarrow> nat \<Rightarrow> pcidev \<Rightarrow> pcidev option" where
  "pci_default_write_config addr val l d =
     (let was_irq_disabled = pci_irq_disabled d
      in do {
           d1 \<leftarrow> write_bytes l addr val d;
           let d2 = (if range_covers_byte (of_nat addr) (of_nat l) (of_nat PCI_COMMAND) then pci_update_irq_disabled was_irq_disabled d1 else d1);
           Some (msix_write_config addr l d2)
         })"

text \<open>Capabilities are a linked list in configuration space; following it does not end when it is a loop.\<close>

fun find_space_loop :: "byte list \<Rightarrow> nat \<Rightarrow> nat \<Rightarrow> nat \<Rightarrow> nat" where
  "find_space_loop [] i offset sz = 0"
| "find_space_loop (u # us) i offset sz =
     (if u \<noteq> 0 then find_space_loop us (i + 1) (i + 1) sz
      else if i - offset + 1 = sz then offset
      else find_space_loop us (i + 1) offset sz)"

definition pci_find_space :: "pcidev \<Rightarrow> nat \<Rightarrow> nat" where
  "pci_find_space d sz = find_space_loop (drop PCI_CONFIG_HEADER_SIZE (pd_used d)) PCI_CONFIG_HEADER_SIZE PCI_CONFIG_HEADER_SIZE sz"

partial_function (option) cap_list_loop :: "pcidev \<Rightarrow> byte \<Rightarrow> byte \<Rightarrow> (byte \<times> byte) option" where
  "cap_list_loop d cap_id prev =
     (let next = pd_config d ! unat prev
      in if next = 0 then Some (next, prev)
         else if pd_config d ! unat next = cap_id then Some (next, prev)
         else cap_list_loop d cap_id (next + 1))"

definition pci_find_capability_list :: "pcidev \<Rightarrow> byte \<Rightarrow> (byte \<times> byte) option" where
  "pci_find_capability_list d cap_id =
     (if pd_config d ! PCI_STATUS AND 0x10 = 0 then Some (0, 0) else cap_list_loop d cap_id (of_nat PCI_CAPABILITY_LIST))"

definition pci_find_capability :: "pcidev \<Rightarrow> byte \<Rightarrow> byte option" where
  "pci_find_capability d cap_id = map_option fst (pci_find_capability_list d cap_id)"

partial_function (option) at_offset_loop :: "pcidev \<Rightarrow> byte \<Rightarrow> byte \<Rightarrow> byte \<Rightarrow> byte option" where
  "at_offset_loop d offset found prev =
     (let next = pd_config d ! unat prev
      in if next = 0 then Some found
         else at_offset_loop d offset (if next \<le> offset \<and> found < next then next else found) (next + 1))"

definition pci_find_capability_at_offset :: "pcidev \<Rightarrow> byte \<Rightarrow> byte option" where
  "pci_find_capability_at_offset d offset =
     (if pd_used d ! unat offset = 0 then Some 0
      else if pd_config d ! PCI_STATUS AND 0x10 = 0 then None
      else at_offset_loop d offset 0 (of_nat PCI_CAPABILITY_LIST))"

fun overlapping_cap :: "pcidev \<Rightarrow> nat \<Rightarrow> nat \<Rightarrow> bool option" where
  "overlapping_cap d i 0 = Some False"
| "overlapping_cap d i (Suc n) =
     do {
       c \<leftarrow> pci_find_capability_at_offset d (of_nat i);
       if c \<noteq> 0 then Some True else overlapping_cap d (Suc i) n
     }"

definition memset_at :: "nat \<Rightarrow> 'a \<Rightarrow> nat \<Rightarrow> 'a list \<Rightarrow> 'a list" where
  "memset_at off b n xs = splice_at off (replicate n b) xs"

definition link_capability :: "byte \<Rightarrow> nat \<Rightarrow> nat \<Rightarrow> pcidev \<Rightarrow> pcidev" where
  "link_capability cap_id offset sz d =
     (let c1 = (pd_config d)[offset := cap_id];
          c2 = c1[offset + 1 := c1 ! PCI_CAPABILITY_LIST];
          c3 = c2[PCI_CAPABILITY_LIST := of_nat offset];
          c4 = c3[PCI_STATUS := c3 ! PCI_STATUS OR 0x10]
      in d\<lparr>pd_config := c4, pd_used := memset_at offset 0xff sz (pd_used d), pd_wmask := memset_at offset 0 sz (pd_wmask d),
           pd_cmask := memset_at offset 0xff sz (pd_cmask d)\<rparr>)"

definition pci_add_capability :: "byte \<Rightarrow> byte \<Rightarrow> nat \<Rightarrow> pcidev \<Rightarrow> (int \<times> pcidev) option" where
  "pci_add_capability cap_id offset sz d =
     (if offset = 0
      then (let space = pci_find_space d sz
            in if space = 0 then Some (- ENOSPC, d)
               else if space + sz \<le> length (pd_config d) then Some (int space, link_capability cap_id space sz d) else None)
      else do {
        overlap \<leftarrow> overlapping_cap d (unat offset) sz;
        if overlap then Some (- EINVAL, d)
        else if unat offset + sz \<le> length (pd_config d) then Some (uint offset, link_capability cap_id (unat offset) sz d) else None
      })"

definition pci_del_capability :: "byte \<Rightarrow> nat \<Rightarrow> pcidev \<Rightarrow> pcidev option" where
  "pci_del_capability cap_id sz d =
     do {
       (offset, prev) \<leftarrow> pci_find_capability_list d cap_id;
       let off = unat offset;
       if offset = 0 then Some d
       else if length (pd_config d) < off + sz then None
       else (let c1 = (pd_config d)[unat prev := pd_config d ! (off + 1)];
                 c2 = (if c1 ! PCI_CAPABILITY_LIST = 0 then c1[PCI_STATUS := c1 ! PCI_STATUS AND NOT 0x10] else c1)
             in Some (d\<lparr>pd_config := c2, pd_wmask := memset_at off 0xff sz (pd_wmask d), pd_w1cmask := memset_at off 0 sz (pd_w1cmask d),
                        pd_cmask := memset_at off 0 sz (pd_cmask d), pd_used := memset_at off 0 sz (pd_used d)\<rparr>))
     }"

text \<open>Base address registers of a device that is not a bridge; a region whose size is no power of two ends the emulator.\<close>

definition pci_bar :: "nat \<Rightarrow> nat" where
  "pci_bar reg = (if reg \<noteq> PCI_ROM_SLOT then 0x10 + reg * 4 else 0x30)"

definition pci_register_bar :: "nat \<Rightarrow> byte \<Rightarrow> u64 \<Rightarrow> pcidev \<Rightarrow> pcidev option" where
  "pci_register_bar region_num type sz d =
     (if 7 \<le> region_num \<or> sz AND (sz - 1) \<noteq> 0 then None
      else (let wmask = NOT (sz - 1) OR (if region_num = PCI_ROM_SLOT then 1 else 0); addr = pci_bar region_num;
                d1 = d\<lparr>pd_bars := (pd_bars d)[region_num := (sz, type)], pd_config := splice_at addr (put32 (ucast type)) (pd_config d)\<rparr>
            in if \<not> bit type 0 \<and> bit type 2
               then Some (d1\<lparr>pd_wmask := splice_at addr (put64 wmask) (pd_wmask d1), pd_cmask := splice_at addr (put64 (- 1)) (pd_cmask d1)\<rparr>)
               else Some (d1\<lparr>pd_wmask := splice_at addr (put32 (ucast wmask)) (pd_wmask d1), pd_cmask := splice_at addr (put32 (- 1)) (pd_cmask d1)\<rparr>)))"


section \<open>Set-up and reset\<close>

text \<open>
  The configuration space of a device of a class with the given identifiers; the slot on the bus, the
  multifunction bit and the option ROM are left out.  \<open>serr\<close> is the property \<open>command_serr_enable\<close>.
\<close>

definition pci_init_cmask :: "byte list" where
  "pci_init_cmask =
     (let z = replicate PCI_CONFIG_SPACE_SIZE 0; z1 = splice_at 0 (put16 (- 1)) z; z2 = splice_at 2 (put16 (- 1)) z1;
          z3 = z2[PCI_STATUS := 0x10, 8 := 0xff, 9 := 0xff]; z4 = splice_at 0xa (put16 (- 1)) z3
      in z4[0xe := 0xff, PCI_CAPABILITY_LIST := 0xff])"

definition pci_init_wmask :: "bool \<Rightarrow> byte list" where
  "pci_init_wmask serr =
     (let z = (replicate PCI_CONFIG_SPACE_SIZE 0)[0xc := 0xff, 0x3c := 0xff];
          z1 = splice_at PCI_COMMAND (put16 (1 OR 2 OR 4 OR 0x400 OR (if serr then 0x100 else 0))) z
      in memset_at PCI_CONFIG_HEADER_SIZE 0xff (PCI_CONFIG_SPACE_SIZE - PCI_CONFIG_HEADER_SIZE) z1)"

definition pci_init_w1cmask :: "byte list" where
  "pci_init_w1cmask =
     splice_at PCI_STATUS (put16 (0x100 OR 0x800 OR 0x1000 OR 0x2000 OR 0x4000 OR 0x8000)) (replicate PCI_CONFIG_SPACE_SIZE 0)"

definition do_pci_register_device :: "u16 \<Rightarrow> u16 \<Rightarrow> byte \<Rightarrow> u16 \<Rightarrow> bool \<Rightarrow> pcidev" where
  "do_pci_register_device vendor_id device_id revision class_id serr =
     (let c1 = splice_at 0 (put16 vendor_id) (replicate PCI_CONFIG_SPACE_SIZE 0); c2 = splice_at 2 (put16 device_id) c1;
          c3 = splice_at 0xa (put16 class_id) (c2[8 := revision]); c4 = splice_at 0x2c (put16 0x1af4) c3; c5 = splice_at 0x2e (put16 0x1100) c4
      in \<lparr>pd_config = c5, pd_cmask = pci_init_cmask, pd_wmask = pci_init_wmask serr, pd_w1cmask = pci_init_w1cmask,
          pd_used = replicate PCI_CONFIG_SPACE_SIZE 0, pd_bars = replicate 7 (0, 0), pd_irq_state = 0, pd_intx = replicate PCI_NUM_PINS 0,
          pd_version_id = 2, pd_msix = False, pd_msix_cap = 0, pd_entries_nr = 0, pd_table = [], pd_pba = [], pd_entry_used = [],
          pd_function_masked = False, pd_msgs = []\<rparr>)"

text \<open>
  \<open>supported\<close> is \<open>msi_supported\<close> of the interrupt controller.  Table and pending bits are given by the
  sizes of their regions, the numbers of their registers and their offsets.
\<close>

definition pba_size :: "nat \<Rightarrow> nat" where
  "pba_size nentries = (nentries + 63) div 64 * 64 div 8"

definition msix_setup :: "nat \<Rightarrow> nat \<Rightarrow> nat \<Rightarrow> nat \<Rightarrow> nat \<Rightarrow> nat \<Rightarrow> pcidev \<Rightarrow> pcidev" where
  "msix_setup cap nentries table_bar_nr table_offset pba_bar_nr pba_offset d =
     (let c1 = splice_at (cap + 2) (put16 (of_nat (nentries - 1))) (pd_config d);
          c2 = splice_at (cap + 4) (put32 (of_nat table_offset OR of_nat table_bar_nr)) c1;
          c3 = splice_at (cap + 8) (put32 (of_nat pba_offset OR of_nat pba_bar_nr)) c2
      in msix_mask_all nentries
           (d\<lparr>pd_msix_cap := of_nat cap, pd_msix := True, pd_config := c3, pd_entries_nr := nentries, pd_function_masked := True,
              pd_wmask := (pd_wmask d)[cap + MSIX_CONTROL_OFFSET := pd_wmask d ! (cap + MSIX_CONTROL_OFFSET) OR 0xc0],
              pd_table := replicate (nentries * PCI_MSIX_ENTRY_SIZE) 0, pd_pba := replicate (pba_size nentries) 0,
              pd_entry_used := replicate nentries 0\<rparr>))"

definition msix_init :: "bool \<Rightarrow> nat \<Rightarrow> nat \<Rightarrow> nat \<Rightarrow> nat \<Rightarrow> nat \<Rightarrow> nat \<Rightarrow> nat \<Rightarrow> byte \<Rightarrow> pcidev \<Rightarrow> (int \<times> pcidev) option" where
  "msix_init supported nentries table_bar table_bar_nr table_offset pba_bar pba_bar_nr pba_offset cap_pos d =
     (let table_size = nentries * PCI_MSIX_ENTRY_SIZE; pba_sz = pba_size nentries
      in if \<not> supported then Some (- ENOTSUP, d)
         else if nentries < 1 \<or> 0x7ff + 1 < nentries then Some (- EINVAL, d)
         else if (table_bar_nr = pba_bar_nr \<and> ranges_overlap (of_nat table_offset) (of_nat table_size) (of_nat pba_offset) (of_nat pba_sz))
             \<or> table_bar < table_offset + table_size \<or> pba_bar < pba_offset + pba_sz \<or> (table_offset mod 8 \<noteq> 0 \<or> pba_offset mod 8 \<noteq> 0)
           then Some (- EINVAL, d)
         else do {
           (cap, d1) \<leftarrow> pci_add_capability 0x11 cap_pos MSIX_CAP_LENGTH d;
           if cap < 0 then Some (cap, d1)
           else Some (0, msix_setup (nat cap) nentries table_bar_nr table_offset pba_bar_nr pba_offset d1)
         })"

definition msix_init_exclusive_bar :: "bool \<Rightarrow> nat \<Rightarrow> nat \<Rightarrow> pcidev \<Rightarrow> (int \<times> pcidev) option" where
  "msix_init_exclusive_bar supported nentries bar_nr d =
     (if 4096 div 2 < nentries * PCI_MSIX_ENTRY_SIZE then Some (- EINVAL, d)
      else do {
        (ret, d1) \<leftarrow> msix_init supported nentries 4096 bar_nr 0 4096 bar_nr (4096 div 2) 0 d;
        if ret \<noteq> 0 then Some (ret, d1)
        else do { d2 \<leftarrow> pci_register_bar bar_nr 0 4096 d1; Some (0, d2) }
      })"

definition msix_uninit :: "pcidev \<Rightarrow> pcidev option" where
  "msix_uninit d =
     (if \<not> msix_present d then Some d
      else do {
        d1 \<leftarrow> pci_del_capability 0x11 MSIX_CAP_LENGTH d;
        let d2 = msix_free_irq_entries (d1\<lparr>pd_msix_cap := 0\<rparr>);
        Some (d2\<lparr>pd_entries_nr := 0, pd_pba := [], pd_table := [], pd_entry_used := [], pd_msix := False\<rparr>)
      })"

definition msix_reset :: "pcidev \<Rightarrow> pcidev" where
  "msix_reset d =
     (if \<not> msix_present d then d
      else (let d1 = msix_clear_all_vectors d; k = msix_control d1
            in msix_mask_all (pd_entries_nr d1)
                 (d1\<lparr>pd_config := (pd_config d1)[k := pd_config d1 ! k AND NOT (pd_wmask d1 ! k)],
                     pd_table := memset_at 0 0 (pd_entries_nr d1 * PCI_MSIX_ENTRY_SIZE) (pd_table d1),
                     pd_pba := memset_at 0 0 (pba_size (pd_entries_nr d1)) (pd_pba d1)\<rparr>)))"

text \<open>\<open>pci_device_reset\<close> after the device's own reset: pins, writable registers, base addresses, MSI-X.\<close>

definition clear_mask16 :: "nat \<Rightarrow> pcidev \<Rightarrow> pcidev" where
  "clear_mask16 a d = d\<lparr>pd_config := splice_at a (put16 (get16 (pd_config d) a AND NOT (get16 (pd_wmask d) a OR get16 (pd_w1cmask d) a))) (pd_config d)\<rparr>"

definition reset_bar :: "nat \<Rightarrow> pcidev \<Rightarrow> pcidev" where
  "reset_bar r d =
     (let (sz, type) = pd_bars d ! r
      in if sz = 0 then d
         else if \<not> bit type 0 \<and> bit type 2 then d\<lparr>pd_config := splice_at (pci_bar r) (put64 (ucast type)) (pd_config d)\<rparr>
         else d\<lparr>pd_config := splice_at (pci_bar r) (put32 (ucast type)) (pd_config d)\<rparr>)"

definition pci_device_reset :: "pcidev \<Rightarrow> pcidev" where
  "pci_device_reset d =
     (let d1 = pci_device_deassert_intx (pci_update_irq_status (d\<lparr>pd_irq_state := 0\<rparr>));
          d2 = clear_mask16 PCI_STATUS (clear_mask16 PCI_COMMAND d1);
          d3 = d2\<lparr>pd_config := (pd_config d2)[0xc := 0, 0x3c := 0]\<rparr>
      in msix_reset (fold reset_bar [0..<7] d3))"


section \<open>Saving and loading\<close>

definition pci_device_save :: "pcidev \<Rightarrow> qfile \<Rightarrow> qfile \<times> pcidev" where
  "pci_device_save d f =
     (let d1 = d\<lparr>pd_config := (pd_config d)[PCI_STATUS := pd_config d ! PCI_STATUS AND NOT 8]\<rparr>;
          f1 = qemu_put_be32 f (pd_version_id d1); f2 = qemu_put_buffer f1 (pd_config d1);
          f3 = fold (\<lambda>i f. qemu_put_be32 f (of_bool (pci_irq_state d1 i))) [0..<PCI_NUM_PINS] f2
      in (f3, pci_update_irq_status d1))"

text \<open>A loaded configuration space must agree on the bits that are checked and not writable; a stream that ends inside it leaves it undefined.\<close>

definition config_agrees :: "pcidev \<Rightarrow> byte list \<Rightarrow> bool" where
  "config_agrees d c \<longleftrightarrow>
     (\<forall>i \<in> set [0..<length c]. (c ! i XOR pd_config d ! i) AND (pd_cmask d ! i AND NOT (pd_wmask d ! i) AND NOT (pd_w1cmask d ! i)) = 0)"

definition get_pci_config_device :: "qfile \<Rightarrow> pcidev \<Rightarrow> (int \<times> qfile \<times> pcidev) option" where
  "get_pci_config_device f d =
     (let (c, f1) = qemu_get_buffer f (of_nat PCI_CONFIG_SPACE_SIZE)
      in if length c < PCI_CONFIG_SPACE_SIZE then None
         else if config_agrees d c then Some (0, f1, d\<lparr>pd_config := c\<rparr>) else Some (- EINVAL, f1, d))"

fun get_irq_levels :: "nat \<Rightarrow> qfile \<Rightarrow> bool list option \<times> qfile" where
  "get_irq_levels 0 f = (Some [], f)"
| "get_irq_levels (Suc n) f =
     (let (v, f1) = qemu_get_be32 f
      in if v \<noteq> 1 \<and> v \<noteq> 0 then (None, f1)
         else (case get_irq_levels n f1 of (Some l, f2) \<Rightarrow> (Some ((v = 1) # l), f2) | (None, f2) \<Rightarrow> (None, f2)))"

definition get_pci_irq_state :: "qfile \<Rightarrow> pcidev \<Rightarrow> int \<times> qfile \<times> pcidev" where
  "get_pci_irq_state f d =
     (case get_irq_levels PCI_NUM_PINS f of
        (None, f1) \<Rightarrow> (- EINVAL, f1, d)
      | (Some l, f1) \<Rightarrow> (0, f1, fold (\<lambda>i. pci_set_irq_state i (l ! i)) [0..<PCI_NUM_PINS] d))"

text \<open>
  \<open>vmstate_subsection_load\<close> for a description without subsections: when what follows looks like the
  header of a subsection of \<open>PCIDevice\<close>, loading fails.
\<close>

definition vmstate_name :: "byte list" where
  "vmstate_name = [0x50, 0x43, 0x49, 0x44, 0x65, 0x76, 0x69, 0x63, 0x65]"

definition looks_like_subsection :: "qfile \<Rightarrow> bool" where
  "looks_like_subsection f \<longleftrightarrow>
     2 \<le> length f \<and> f ! 0 = 5 \<and> length vmstate_name + 1 \<le> unat (f ! 1) \<and> unat (f ! 1) + 2 \<le> length f \<and> take (length vmstate_name) (drop 2 f) = vmstate_name"

definition vmstate_subsection_load :: "qfile \<Rightarrow> int" where
  "vmstate_subsection_load f = (if looks_like_subsection f then - ENOENT else 0)"

definition vmstate_load_state :: "qfile \<Rightarrow> pcidev \<Rightarrow> (int \<times> qfile \<times> pcidev) option" where
  "vmstate_load_state f d =
     (let version_id = sint (pd_version_id d)
      in if 2 < version_id \<or> version_id < 1 then Some (- EINVAL, f, d)
         else (let (new, f1) = qemu_get_be32 f
               in if \<not> version_id \<le> sint new then Some (- EINVAL, f1, d)
                  else do {
                    (ret2, f2, d2) \<leftarrow> get_pci_config_device f1 d;
                    if ret2 < 0 then Some (ret2, f2, d2)
                    else do {
                      let (ret3, f3, d3) = (if 2 \<le> version_id then get_pci_irq_state f2 d2 else (0, f2, d2));
                      if ret3 < 0 then Some (ret3, f3, d3) else Some (vmstate_subsection_load f3, f3, d3)
                    }
                  }))"

definition pci_device_load :: "qfile \<Rightarrow> pcidev \<Rightarrow> (int \<times> qfile \<times> pcidev) option" where
  "pci_device_load f d = do { (ret, f1, d1) \<leftarrow> vmstate_load_state f d; Some (ret, f1, pci_update_irq_status d1) }"

definition msix_save :: "pcidev \<Rightarrow> qfile \<Rightarrow> qfile" where
  "msix_save d f =
     (let n = pd_entries_nr d
      in if \<not> msix_present d then f
         else qemu_put_buffer (qemu_put_buffer f (take (n * PCI_MSIX_ENTRY_SIZE) (pd_table d))) (take ((n + 7) div 8) (pd_pba d)))"

definition msix_load :: "qfile \<Rightarrow> pcidev \<Rightarrow> qfile \<times> pcidev" where
  "msix_load f d =
     (let n = pd_entries_nr d
      in if \<not> msix_present d then (f, d)
         else (let d1 = msix_clear_all_vectors d;
                   (t, f1) = qemu_get_buffer f (of_nat (n * PCI_MSIX_ENTRY_SIZE)); (p, f2) = qemu_get_buffer f1 (of_nat ((n + 7) div 8));
                   d2 = msix_update_function_masked (d1\<lparr>pd_table := splice_at 0 t (pd_table d1), pd_pba := splice_at 0 p (pd_pba d1)\<rparr>)
               in (f2, fold (\<lambda>vector. msix_handle_mask_update vector True) [0..<n] d2)))"


section \<open>No interrupt of a vector is lost\<close>

text \<open>The fields of MSI-X; what only concerns the configuration space and the pins leaves them alone.\<close>

definition msix_view :: "pcidev \<Rightarrow> nat \<times> byte list \<times> byte list \<times> u32 list \<times> bool \<times> (nat \<times> u64 \<times> u32) list" where
  "msix_view d = (pd_entries_nr d, pd_table d, pd_pba d, pd_entry_used d, pd_function_masked d, pd_msgs d)"

definition msix_wf :: "pcidev \<Rightarrow> bool" where
  "msix_wf d \<longleftrightarrow> pd_entries_nr d \<le> 2048 \<and> length (pd_table d) = pd_entries_nr d * 16 \<and> length (pd_pba d) = pba_size (pd_entries_nr d)
     \<and> length (pd_entry_used d) = pd_entries_nr d"

text \<open>How many messages a vector has sent, and whether a pending vector is one that is masked and in use.\<close>

definition sent :: "nat \<Rightarrow> pcidev \<Rightarrow> nat" where
  "sent v d = count_list (map fst (pd_msgs d)) v"

definition owed :: "nat \<Rightarrow> pcidev \<Rightarrow> nat" where
  "owed v d = sent v d + of_bool (msix_is_pending d v)"

definition vec_ok :: "bool \<Rightarrow> nat \<Rightarrow> pcidev \<Rightarrow> bool" where
  "vec_ok fmask v d \<longleftrightarrow> (msix_is_pending d v \<longrightarrow> msix_vector_masked d v fmask \<and> pd_entry_used d ! v \<noteq> 0)"

definition msix_ok :: "pcidev \<Rightarrow> bool" where
  "msix_ok d \<longleftrightarrow> msix_wf d \<and> (\<forall>v < pd_entries_nr d. vec_ok (pd_function_masked d) v d)"

lemma view_eqs:
  assumes "msix_view d' = msix_view d"
  shows "msix_wf d' = msix_wf d" "sent v d' = sent v d" "owed v d' = owed v d" "vec_ok b v d' = vec_ok b v d" "msix_ok d' = msix_ok d"
    "pd_entries_nr d' = pd_entries_nr d" "pd_entry_used d' = pd_entry_used d" "msix_is_masked d' v = msix_is_masked d v"
    "msix_is_pending d' v = msix_is_pending d v" "pd_function_masked d' = pd_function_masked d" "msix_vector_masked d' v b = msix_vector_masked d v b"
    "pd_msgs d' = pd_msgs d" "pd_table d' = pd_table d" "pd_pba d' = pd_pba d"
  using assms by (simp_all add: msix_view_def msix_wf_def sent_def owed_def vec_ok_def msix_ok_def msix_is_pending_def msix_is_masked_def msix_vector_masked_def)

lemma pba_index: "v < n \<Longrightarrow> v div 8 < pba_size n"
  by (simp add: pba_size_def)

lemma byte_bit_or: "n < 8 \<Longrightarrow> bit (x OR 2 ^ m :: byte) n \<longleftrightarrow> bit x n \<or> n = m"
  by (auto simp: bit_simps)

lemma byte_bit_andn: "n < 8 \<Longrightarrow> bit (x AND NOT (2 ^ m) :: byte) n \<longleftrightarrow> bit x n \<and> n \<noteq> m"
  by (auto simp: bit_simps)

lemma div_mod_8: "(v :: nat) = w \<longleftrightarrow> v div 8 = w div 8 \<and> v mod 8 = w mod 8"
  by (metis div_mult_mod_eq)

lemma pending_set:
  assumes "msix_wf d" "v < pd_entries_nr d" "w < pd_entries_nr d"
  shows "msix_is_pending (msix_set_pending v d) w \<longleftrightarrow> w = v \<or> msix_is_pending d w"
  using assms pba_index [of v "pd_entries_nr d"] div_mod_8 [of w v]
  by (cases "w div 8 = v div 8") (auto simp: msix_is_pending_def msix_set_pending_def msix_wf_def byte_bit_or)

lemma pending_clr:
  assumes "msix_wf d" "v < pd_entries_nr d" "w < pd_entries_nr d"
  shows "msix_is_pending (msix_clr_pending v d) w \<longleftrightarrow> w \<noteq> v \<and> msix_is_pending d w"
  using assms pba_index [of v "pd_entries_nr d"] div_mod_8 [of w v]
  by (cases "w div 8 = v div 8") (auto simp: msix_is_pending_def msix_clr_pending_def msix_wf_def byte_bit_andn)

lemma pending_frame [simp]:
  "msix_is_masked (msix_set_pending v d) w = msix_is_masked d w" "msix_is_masked (msix_clr_pending v d) w = msix_is_masked d w"
  "msix_vector_masked (msix_set_pending v d) w b = msix_vector_masked d w b" "msix_vector_masked (msix_clr_pending v d) w b = msix_vector_masked d w b"
  "pd_entry_used (msix_set_pending v d) = pd_entry_used d" "pd_entry_used (msix_clr_pending v d) = pd_entry_used d"
  "pd_entries_nr (msix_set_pending v d) = pd_entries_nr d" "pd_entries_nr (msix_clr_pending v d) = pd_entries_nr d"
  "sent w (msix_set_pending v d) = sent w d" "sent w (msix_clr_pending v d) = sent w d"
  "pd_function_masked (msix_set_pending v d) = pd_function_masked d" "pd_function_masked (msix_clr_pending v d) = pd_function_masked d"
  "msix_wf (msix_set_pending v d) = msix_wf d" "msix_wf (msix_clr_pending v d) = msix_wf d"
  by (simp_all add: msix_set_pending_def msix_clr_pending_def msix_is_masked_def msix_vector_masked_def sent_def msix_wf_def)

text \<open>What a notification does to every vector.\<close>

lemma notify_frame [simp]:
  "msix_is_masked (msix_notify v d) w = msix_is_masked d w" "msix_vector_masked (msix_notify v d) w b = msix_vector_masked d w b"
  "pd_entry_used (msix_notify v d) = pd_entry_used d" "pd_entries_nr (msix_notify v d) = pd_entries_nr d"
  "pd_function_masked (msix_notify v d) = pd_function_masked d" "msix_wf (msix_notify v d) = msix_wf d"
  by (simp_all add: msix_notify_def msix_is_masked_def msix_vector_masked_def msix_wf_def msix_set_pending_def)

lemma notify_vec:
  assumes "msix_wf d" "w < pd_entries_nr d"
  shows "msix_is_pending (msix_notify v d) w \<longleftrightarrow> msix_is_pending d w \<or> (w = v \<and> pd_entry_used d ! v \<noteq> 0 \<and> msix_is_masked d v)"
    "sent w (msix_notify v d) = sent w d + of_bool (w = v \<and> pd_entry_used d ! v \<noteq> 0 \<and> \<not> msix_is_masked d v)"
  using assms by (auto simp: msix_notify_def pending_set) (auto simp: sent_def msix_is_pending_def)

lemma handle_frame [simp]:
  "msix_is_masked (msix_handle_mask_update v was d) w = msix_is_masked d w"
  "msix_vector_masked (msix_handle_mask_update v was d) w b = msix_vector_masked d w b"
  "pd_entry_used (msix_handle_mask_update v was d) = pd_entry_used d" "pd_entries_nr (msix_handle_mask_update v was d) = pd_entries_nr d"
  "pd_function_masked (msix_handle_mask_update v was d) = pd_function_masked d"
  "msix_wf (msix_handle_mask_update v was d) = msix_wf d"
  by (simp_all add: msix_handle_mask_update_def Let_def)

lemma handle_vec:
  assumes "msix_wf d" "v < pd_entries_nr d" "w < pd_entries_nr d" "msix_is_pending d v \<longrightarrow> pd_entry_used d ! v \<noteq> 0"
  shows "msix_is_pending (msix_handle_mask_update v was d) w \<longleftrightarrow> msix_is_pending d w \<and> \<not> (w = v \<and> was \<and> \<not> msix_is_masked d v)"
    "owed w (msix_handle_mask_update v was d) = owed w d"
  using assms by (auto simp: msix_handle_mask_update_def Let_def notify_vec pending_clr owed_def)

text \<open>After the update of a vector that was masked as \<open>was\<close> says, it is pending only when it is masked.\<close>

lemma handle_vec_ok:
  assumes "msix_wf d" "v < pd_entries_nr d" "w < pd_entries_nr d" "msix_is_pending d v \<longrightarrow> pd_entry_used d ! v \<noteq> 0"
  shows "(msix_is_pending d v \<longrightarrow> was) \<Longrightarrow> vec_ok (pd_function_masked d) v (msix_handle_mask_update v was d)"
    "w \<noteq> v \<Longrightarrow> vec_ok b w (msix_handle_mask_update v was d) = vec_ok b w d"
  using assms by (auto simp: vec_ok_def handle_vec simp flip: msix_is_masked_def)


text \<open>Pins and bytes of the configuration space are not MSI-X state.\<close>

lemma fold_view: "(\<And>x d. x \<in> set xs \<Longrightarrow> msix_view (f x d) = msix_view d) \<Longrightarrow> msix_view (fold f xs d) = msix_view d"
  by (induction xs arbitrary: d) auto

lemma pins_view [simp]:
  "msix_view (pci_set_irq_state i b d) = msix_view d" "msix_view (pci_change_irq_level i k d) = msix_view d" "msix_view (pci_update_irq_status d) = msix_view d"
  "msix_view (pci_set_irq i b d) = msix_view d" "msix_view (pci_device_deassert_intx d) = msix_view d" "msix_view (pci_update_irq_disabled was d) = msix_view d"
proof -
  show s: "msix_view (pci_set_irq_state i b d) = msix_view d" "msix_view (pci_change_irq_level i k d) = msix_view d" "msix_view (pci_update_irq_status d) = msix_view d"
    for i b k d by (simp_all add: msix_view_def pci_set_irq_state_def pci_change_irq_level_def pci_update_irq_status_def)
  show i: "msix_view (pci_set_irq i b d) = msix_view d" for i b d by (simp add: pci_set_irq_def Let_def s)
  show "msix_view (pci_device_deassert_intx d) = msix_view d" unfolding pci_device_deassert_intx_def by (rule fold_view) (rule i)
  show "msix_view (pci_update_irq_disabled was d) = msix_view d" by (auto simp: pci_update_irq_disabled_def Let_def intro!: fold_view s(2))
qed

lemma write_bytes_view: "write_bytes l a val d = Some d' \<Longrightarrow> msix_view d' = msix_view d"
  by (induction l a val d rule: write_bytes.induct) (auto simp: Let_def msix_view_def split: if_splits)

text \<open>The loop over all vectors after the function mask changed.\<close>

lemma mask_loop:
  assumes "msix_wf d" "distinct vs" "set vs \<subseteq> {..<pd_entries_nr d}" "\<forall>v \<in> set vs. vec_ok was v d"
    "\<forall>v < pd_entries_nr d. v \<notin> set vs \<longrightarrow> vec_ok (pd_function_masked d) v d"
  defines "d' \<equiv> fold (\<lambda>v d. msix_handle_mask_update v (msix_vector_masked d v was) d) vs d"
  shows "msix_ok d' \<and> (\<forall>w < pd_entries_nr d. owed w d' = owed w d) \<and> pd_entries_nr d' = pd_entries_nr d \<and> pd_entry_used d' = pd_entry_used d"
  using assms(1-5) unfolding d'_def
proof (induction vs arbitrary: d)
  case Nil
  then show ?case by (simp add: msix_ok_def)
next
  case (Cons v vs)
  define d1 where "d1 = msix_handle_mask_update v (msix_vector_masked d v was) d"
  have v: "msix_wf d" "v < pd_entries_nr d" "msix_is_pending d v \<longrightarrow> pd_entry_used d ! v \<noteq> 0" "msix_is_pending d v \<longrightarrow> msix_vector_masked d v was"
    using Cons.prems by (auto simp: vec_ok_def)
  have w: "vec_ok b w d1 = vec_ok b w d" if "w < pd_entries_nr d" "w \<noteq> v" for w b using handle_vec_ok(2) [OF v(1,2) that(1) v(3) that(2)] by (simp add: d1_def)
  have "vec_ok (pd_function_masked d) v d1" unfolding d1_def by (rule handle_vec_ok(1) [OF v(1,2,2,3,4)])
  with Cons.prems w have "\<forall>u < pd_entries_nr d1. u \<notin> set vs \<longrightarrow> vec_ok (pd_function_masked d1) u d1" by (auto simp: d1_def)
  moreover have "\<forall>u \<in> set vs. vec_ok was u d1" using Cons.prems w by (metis distinct.simps(2) lessThan_iff list.set_intros(2) subset_code(1))
  ultimately show ?case using Cons.IH [of d1] Cons.prems handle_vec(2) [OF v(1,2) _ v(3)] by (simp add: d1_def)
qed

lemma write_config_ok:
  assumes "msix_ok d"
  shows "msix_ok (msix_write_config a l d) \<and> (\<forall>w < pd_entries_nr d. owed w (msix_write_config a l d) = owed w d)
    \<and> pd_entries_nr (msix_write_config a l d) = pd_entries_nr d \<and> pd_entry_used (msix_write_config a l d) = pd_entry_used d"
proof -
  define d1 where "d1 = msix_update_function_masked d"
  define d2 where "d2 = pci_device_deassert_intx d1"
  let ?was = "pd_function_masked d"
  have d1: "vec_ok b v d1 = vec_ok b v d" "owed v d1 = owed v d" "pd_entries_nr d1 = pd_entries_nr d" "pd_entry_used d1 = pd_entry_used d" "msix_wf d1 = msix_wf d" for b v
    by (simp_all add: d1_def msix_update_function_masked_def vec_ok_def owed_def sent_def msix_is_pending_def msix_vector_masked_def msix_wf_def)
  have "msix_view d2 = msix_view d1" by (simp add: d2_def)
  note d2 = view_eqs [OF this]
  have wf: "msix_wf d" "\<forall>v < pd_entries_nr d. vec_ok ?was v d" using assms by (simp_all add: msix_ok_def)
  have off: "msix_ok d1" if "\<not> msix_enabled d1"
  proof -
    have "pd_function_masked d1" using that by (simp add: d1_def msix_update_function_masked_def msix_enabled_def msix_control_def)
    then show ?thesis using wf d1 by (auto simp: msix_ok_def vec_ok_def msix_vector_masked_def)
  qed
  have same: "msix_ok d2" if "pd_function_masked d2 = ?was" using that wf by (simp add: msix_ok_def d2 d1)
  have loop: "msix_ok d3 \<and> (\<forall>w < pd_entries_nr d2. owed w d3 = owed w d2) \<and> pd_entries_nr d3 = pd_entries_nr d2 \<and> pd_entry_used d3 = pd_entry_used d2"
    if "d3 = fold (\<lambda>v d. msix_handle_mask_update v (msix_vector_masked d v ?was) d) [0..<pd_entries_nr d2] d2" for d3
    unfolding that by (rule mask_loop) (use wf in \<open>auto simp: d2 d1\<close>)
  show ?thesis
    using assms off same loop [OF refl] unfolding msix_write_config_def Let_def d1_def [symmetric] d2_def [symmetric] by (auto simp: d1 d2)
qed


text \<open>
  What can happen to the device between a notification of a vector and a later moment: other
  notifications, pins, and the guest's writes to configuration space and to the vector table, which the
  memory core only lets through when they are aligned.  Vectors are taken into use, and other vectors
  are given up.
\<close>

inductive msix_step :: "nat \<Rightarrow> pcidev \<Rightarrow> pcidev \<Rightarrow> bool" for v where
  notify: "msix_step v d (msix_notify w d)"
| pin: "msix_step v d (pci_set_irq i level d)"
| config: "pci_default_write_config a val l d = Some d' \<Longrightarrow> msix_step v d d'"
| table: "a mod 4 = 0 \<Longrightarrow> msix_table_mmio_write a val d = Some d' \<Longrightarrow> msix_step v d d'"
| taken: "pd_entry_used d ! w + 1 \<noteq> 0 \<Longrightarrow> msix_step v d (snd (msix_vector_use w d))"
| given_up: "w \<noteq> v \<Longrightarrow> msix_step v d (msix_vector_unuse w d)"

inductive msix_run :: "nat \<Rightarrow> pcidev \<Rightarrow> pcidev \<Rightarrow> bool" for v where
  start: "msix_run v d d"
| step: "msix_run v d d' \<Longrightarrow> msix_step v d' d'' \<Longrightarrow> msix_run v d d''"

definition keeps_owed :: "nat \<Rightarrow> pcidev \<Rightarrow> pcidev \<Rightarrow> bool" where
  "keeps_owed v d d' \<longleftrightarrow> msix_ok d' \<and> owed v d \<le> owed v d' \<and> pd_entries_nr d' = pd_entries_nr d \<and> pd_entry_used d' ! v \<noteq> 0"

lemma notify_ok: "msix_ok d \<Longrightarrow> msix_ok (msix_notify w d)" "msix_wf d \<Longrightarrow> v < pd_entries_nr d \<Longrightarrow> owed v d \<le> owed v (msix_notify w d)"
  by (auto simp: msix_ok_def vec_ok_def notify_vec owed_def simp flip: msix_is_masked_def)

lemma table_write_ok:
  assumes ok: "msix_ok d" and a: "a mod 4 = 0" and w: "msix_table_mmio_write a val d = Some d'"
  shows "msix_ok d'" "v < pd_entries_nr d \<Longrightarrow> owed v d' = owed v d" "pd_entries_nr d' = pd_entries_nr d" "pd_entry_used d' = pd_entry_used d"
proof -
  define u where "u = a div 16"
  define d1 where "d1 = d\<lparr>pd_table := splice_at a (put32 val) (pd_table d)\<rparr>"
  have wf: "msix_wf d" and len: "a + 4 \<le> length (pd_table d)" and d': "d' = msix_handle_mask_update u (msix_is_masked d u) d1"
    using ok w by (auto simp: msix_ok_def msix_table_mmio_write_def Let_def u_def d1_def split: if_splits)
  then have u: "u < pd_entries_nr d1" "msix_wf d1" by (auto simp: msix_wf_def u_def d1_def)
  have d1: "msix_is_pending d1 v = msix_is_pending d v" "owed v d1 = owed v d" "pd_entry_used d1 = pd_entry_used d" "pd_entries_nr d1 = pd_entries_nr d"
      "pd_function_masked d1 = pd_function_masked d" for v
    by (simp_all add: d1_def msix_is_pending_def owed_def sent_def)
  have used: "msix_is_pending d1 u \<longrightarrow> pd_entry_used d1 ! u \<noteq> 0" and was: "msix_is_pending d1 u \<longrightarrow> msix_is_masked d u"
    using ok u(1) d1 by (auto simp: msix_ok_def vec_ok_def msix_is_masked_def)
  have "msix_vector_masked d1 v b = msix_vector_masked d v b" if "v \<noteq> u" "v < pd_entries_nr d" for v b
  proof -
    have "v * 16 + 12 < length (pd_table d)" using that(2) wf by (simp add: msix_wf_def)
    moreover have "\<not> (a \<le> v * 16 + 12 \<and> v * 16 + 12 < a + 4)"
      using that(1) a unfolding u_def by presburger
    ultimately show ?thesis using len by (auto simp: msix_vector_masked_def d1_def nth_splice_at)
  qed
  then have "vec_ok b v d1 = vec_ok b v d" if "v \<noteq> u" "v < pd_entries_nr d" for v b using that d1 by (simp add: vec_ok_def)
  with handle_vec_ok [OF u(2,1) _ used] was u ok d1 show "msix_ok d'" unfolding d' by (simp add: msix_ok_def) metis
  show "v < pd_entries_nr d \<Longrightarrow> owed v d' = owed v d" "pd_entries_nr d' = pd_entries_nr d" "pd_entry_used d' = pd_entry_used d"
    using handle_vec(2) [OF u(2,1) _ used] d1 by (simp_all add: d')
qed

lemma use_ok:
  assumes "msix_ok d" "pd_entry_used d ! w + 1 \<noteq> 0" "d' = snd (msix_vector_use w d)"
  shows "msix_ok d'" "owed v d' = owed v d" "pd_entries_nr d' = pd_entries_nr d" "pd_entry_used d ! v \<noteq> 0 \<Longrightarrow> pd_entry_used d' ! v \<noteq> 0"
proof -
  have u: "pd_entry_used d ! v \<noteq> 0 \<Longrightarrow> pd_entry_used d' ! v \<noteq> 0" for v
    using assms by (cases "w < length (pd_entry_used d)"; cases "w = v") (auto simp: msix_vector_use_def nth_list_update msix_ok_def msix_wf_def)
  then show "pd_entry_used d ! v \<noteq> 0 \<Longrightarrow> pd_entry_used d' ! v \<noteq> 0" .
  have p: "msix_is_pending d' v = msix_is_pending d v" "msix_vector_masked d' v b = msix_vector_masked d v b" "pd_function_masked d' = pd_function_masked d" "msix_wf d' = msix_wf d" for v b
    using assms(3) by (auto simp: msix_vector_use_def msix_is_pending_def msix_vector_masked_def msix_wf_def)
  show e: "pd_entries_nr d' = pd_entries_nr d" "owed v d' = owed v d" using assms(3) p by (auto simp: msix_vector_use_def owed_def sent_def)
  show "msix_ok d'" using assms(1) p e u by (auto simp: msix_ok_def vec_ok_def)
qed

lemma unuse_ok:
  assumes "msix_ok d" "w \<noteq> v" "v < pd_entries_nr d"
  shows "msix_ok (msix_vector_unuse w d)" "owed v (msix_vector_unuse w d) = owed v d" "pd_entries_nr (msix_vector_unuse w d) = pd_entries_nr d"
    "pd_entry_used (msix_vector_unuse w d) ! v = pd_entry_used d ! v"
proof -
  define d1 where "d1 = d\<lparr>pd_entry_used := (pd_entry_used d)[w := pd_entry_used d ! w - 1]\<rparr>"
  have d1: "msix_is_pending d1 u = msix_is_pending d u" "msix_vector_masked d1 u b = msix_vector_masked d u b" "pd_function_masked d1 = pd_function_masked d"
      "pd_entries_nr d1 = pd_entries_nr d" "sent u d1 = sent u d" "msix_wf d1" for u b
    using assms(1) by (auto simp: d1_def msix_is_pending_def msix_vector_masked_def msix_wf_def sent_def msix_ok_def)
  have u: "pd_entry_used d1 ! u = pd_entry_used d ! u" if "u \<noteq> w" for u using that by (simp add: d1_def)
  have p: "msix_is_pending (msix_clr_pending w d1) u \<longleftrightarrow> u \<noteq> w \<and> msix_is_pending d u" if "w < pd_entries_nr d" "u < pd_entries_nr d" for u
    using pending_clr [OF d1(6)] that d1 by simp
  have ok: "\<forall>u < pd_entries_nr d. vec_ok (pd_function_masked d) u d" using assms(1) by (simp add: msix_ok_def)
  note eqs = msix_vector_unuse_def Let_def d1_def [symmetric]
  show "msix_ok (msix_vector_unuse w d)" using assms(1) ok d1 u p unfolding eqs by (auto simp: msix_ok_def vec_ok_def) metis+
  show "owed v (msix_vector_unuse w d) = owed v d" "pd_entries_nr (msix_vector_unuse w d) = pd_entries_nr d" "pd_entry_used (msix_vector_unuse w d) ! v = pd_entry_used d ! v"
    using assms p d1 u unfolding eqs by (auto simp: owed_def)
qed

lemma config_write_view:
  assumes "pci_default_write_config a val l d = Some d'"
  shows "\<exists>d1. msix_view d1 = msix_view d \<and> d' = msix_write_config a l d1"
proof -
  from assms obtain x where x: "write_bytes l a val d = Some x"
      "d' = msix_write_config a l (if range_covers_byte (of_nat a) (of_nat l) 4 then pci_update_irq_disabled (pci_irq_disabled d) x else x)"
    by (auto simp: pci_default_write_config_def Let_def elim!: bind_SomeE)
  show ?thesis
    by (rule exI [of _ "if range_covers_byte (of_nat a) (of_nat l) 4 then pci_update_irq_disabled (pci_irq_disabled d) x else x"])
       (simp add: x(2) write_bytes_view [OF x(1)])
qed

lemma step_keeps_owed:
  assumes "msix_step v d d'" "msix_ok d" "v < pd_entries_nr d" "pd_entry_used d ! v \<noteq> 0"
  shows "keeps_owed v d d'"
  using assms(1)
proof cases
  case (notify w)
  then show ?thesis using assms notify_ok [of d] by (simp add: keeps_owed_def msix_ok_def)
next
  case (pin i level)
  have "msix_view d' = msix_view d" by (simp add: pin)
  from view_eqs [OF this] show ?thesis using assms by (simp add: keeps_owed_def)
next
  case (config a val l)
  from config_write_view [OF this] obtain d1 where d1: "msix_view d1 = msix_view d" "d' = msix_write_config a l d1" by blast
  have "msix_ok d1" using assms(2) view_eqs(5) [OF d1(1)] by simp
  from write_config_ok [OF this, of a l] show ?thesis using assms view_eqs [OF d1(1)] by (simp add: d1(2) keeps_owed_def)
next
  case (table a val)
  from table_write_ok [OF assms(2) this] show ?thesis using assms by (simp add: keeps_owed_def)
next
  case (taken w)
  from use_ok [OF assms(2) taken(2,1)] show ?thesis using assms by (simp add: keeps_owed_def)
next
  case (given_up w)
  from unuse_ok [OF assms(2) given_up(2) assms(3)] show ?thesis using assms by (simp add: keeps_owed_def given_up(1))
qed

lemma run_keeps_owed:
  assumes "msix_run v d d'" "msix_ok d" "v < pd_entries_nr d" "pd_entry_used d ! v \<noteq> 0"
  shows "keeps_owed v d d'"
  using assms
proof (induction rule: msix_run.induct)
  case (step d d' d'')
  then have k: "keeps_owed v d d'" by blast
  with step have "keeps_owed v d' d''" by (intro step_keeps_owed) (auto simp: keeps_owed_def)
  with k show ?case by (auto simp: keeps_owed_def)
qed (simp add: keeps_owed_def)

text \<open>C20: No MSI-X interrupt is lost: after a notification of a vector that is in use (\<open>msix_notify\<close> of
  hw/msix.c), whatever the guest writes to the configuration space and the vector table and whichever
  other vectors are notified, either a message of this vector has been sent since, or the vector is
  masked and its pending bit is set; so the message is there as soon as the guest unmasks it.
\<close>

theorem msix_no_lost_interrupt:
  assumes "msix_ok d" "v < pd_entries_nr d" "pd_entry_used d ! v \<noteq> 0" "msix_run v (msix_notify v d) d'"
  shows "msix_ok d' \<and> (sent v d < sent v d' \<or> msix_is_masked d' v \<and> msix_is_pending d' v)"
proof -
  have wf: "msix_wf d" using assms(1) by (simp add: msix_ok_def)
  have p: "\<not> msix_is_masked d v \<Longrightarrow> \<not> msix_is_pending d v" using assms(1,2) by (auto simp: msix_ok_def vec_ok_def msix_is_masked_def)
  have k: "keeps_owed v (msix_notify v d) d'"
    by (rule run_keeps_owed [OF assms(4) notify_ok(1) [OF assms(1)]]) (use assms in simp_all)
  have "sent v d < owed v (msix_notify v d)" using notify_vec [OF wf assms(2), of v] assms(3) by (simp add: owed_def)
  with k have "sent v d < owed v d'" "msix_ok d'" "v < pd_entries_nr d'" using assms(2) by (auto simp: keeps_owed_def)
  then show ?thesis by (cases "msix_is_pending d' v") (auto simp: owed_def msix_ok_def vec_ok_def msix_is_masked_def)
qed


text \<open>A device with two vectors that are masked, the first one in use; the guest unmasks it.\<close>

definition msix_demo :: pcidev where
  "msix_demo = (do_pci_register_device 0x1af4 0x1003 0 0x780 True)
     \<lparr>pd_msix := True, pd_msix_cap := 64, pd_entries_nr := 2, pd_table := (replicate 32 0)[0 := 0xfe, 8 := 0x41, 12 := 1, 28 := 1], pd_pba := replicate 8 0,
      pd_entry_used := [1, 0]\<rparr>"

lemma msix_demo_view:
  "msix_view msix_demo = (2, (replicate 32 0)[0 := 0xfe, 8 := 0x41, 12 := 1, 28 := 1], replicate 8 0, [1, 0], False, [])"
  by (simp add: msix_view_def msix_demo_def do_pci_register_device_def Let_def)

lemma msix_demo_fields:
  "pd_entries_nr msix_demo = 2" "pd_table msix_demo = (replicate 32 0)[0 := 0xfe, 8 := 0x41, 12 := 1, 28 := 1]" "pd_pba msix_demo = replicate 8 0"
  "pd_entry_used msix_demo = [1, 0]" "\<not> pd_function_masked msix_demo" "pd_msgs msix_demo = []"
  using msix_demo_view by (auto simp: msix_view_def)

lemma msix_demo_ok: "msix_ok msix_demo"
  by (auto simp: msix_ok_def msix_wf_def vec_ok_def msix_demo_fields pba_size_def msix_is_pending_def)

theorem msix_no_lost_interrupt_witness:
  "\<exists>d'. msix_table_mmio_write 12 0 (msix_notify 0 msix_demo) = Some d' \<and> msix_is_pending (msix_notify 0 msix_demo) 0 \<and> \<not> msix_is_masked d' 0 \<and> 0 < sent 0 d'"
proof -
  let ?d = "msix_notify 0 msix_demo"
  have m: "msix_is_masked msix_demo 0" by (simp add: msix_is_masked_def msix_vector_masked_def msix_demo_fields)
  have p: "msix_is_pending ?d 0" using notify_vec(1) [of msix_demo 0 0] msix_demo_ok m by (simp add: msix_ok_def msix_demo_fields)
  have t: "pd_table ?d = pd_table msix_demo" by (simp add: msix_notify_def msix_set_pending_def)
  define d1 where "d1 = ?d\<lparr>pd_table := splice_at 12 (put32 0) (pd_table ?d)\<rparr>"
  define d' where "d' = msix_handle_mask_update 0 (msix_is_masked ?d 0) d1"
  have d': "msix_table_mmio_write 12 0 ?d = Some d'" by (simp add: msix_table_mmio_write_def d'_def d1_def t msix_demo_fields Let_def)
  have "msix_is_masked d' 0 = msix_is_masked d1 0" by (simp add: d'_def)
  moreover have z: "put32 0 = [0, 0, 0, 0]" by code_simp
  ultimately have "\<not> msix_is_masked d' 0"
    by (simp add: msix_is_masked_def msix_vector_masked_def d1_def t msix_demo_fields nth_splice_at z)
  moreover have "msix_run 0 ?d d'" by (rule msix_run.step [OF msix_run.start msix_step.table [OF _ d']]) simp
  ultimately show ?thesis using msix_no_lost_interrupt [OF msix_demo_ok, of 0 d'] p d' by (auto simp: msix_demo_fields sent_def)
qed


section \<open>Configuration space and pins\<close>

text \<open>
  The pins the bus sees are the ones of \<open>irq_state\<close> unless the command register disables them, and the
  status register shows whether one is raised; the guest cannot write that bit.
\<close>

definition pins_ok :: "bool \<Rightarrow> pcidev \<Rightarrow> bool" where
  "pins_ok disabled d \<longleftrightarrow> length (pd_intx d) = 4 \<and> (\<forall>i < 4. pd_intx d ! i = of_bool (pci_irq_state d i \<and> \<not> disabled))
     \<and> (\<forall>i. pci_irq_state d i \<longrightarrow> i < 4) \<and> (bit (pd_config d ! 6) 3 \<longleftrightarrow> pd_irq_state d \<noteq> 0)"

definition masks_ok :: "pcidev \<Rightarrow> bool" where
  "masks_ok d \<longleftrightarrow> length (pd_config d) = 256 \<and> length (pd_wmask d) = 256 \<and> length (pd_w1cmask d) = 256
     \<and> (\<forall>a < 256. pd_wmask d ! a AND pd_w1cmask d ! a = 0) \<and> \<not> bit (pd_wmask d ! 6 OR pd_w1cmask d ! 6) 3"

definition pci_wf :: "pcidev \<Rightarrow> bool" where
  "pci_wf d \<longleftrightarrow> masks_ok d \<and> pins_ok (pci_irq_disabled d) d"

text \<open>The bits of the configuration space in which two devices differ.\<close>

definition changed :: "pcidev \<Rightarrow> pcidev \<Rightarrow> nat \<Rightarrow> byte" where
  "changed d d' a = pd_config d' ! a XOR pd_config d ! a"

lemma irq_disabled_bit: "length (pd_config d) = 256 \<Longrightarrow> pci_irq_disabled d \<longleftrightarrow> bit (pd_config d ! 5) 2"
proof -
  assume l: "length (pd_config d) = 256"
  define x y where "x = pd_config d ! 4" and "y = pd_config d ! 5"
  have "take 2 (drop 4 (pd_config d)) = [x, y]" using l by (intro nth_equalityI) (auto simp: x_def y_def less_Suc_eq numeral_2_eq_2)
  then have g: "get16 (pd_config d) 4 = of_nat (unat x + 256 * unat y)" by (simp add: get16_def field_def)
  have b: "bit (get16 (pd_config d) 4) 10 \<longleftrightarrow> bit (unat x + 256 * unat y) 10" unfolding g bit_of_nat_iff by (simp add: possible_bit_word)
  have x: "unat x < 256" using unat_bound [of x] by simp
  have "(unat x + 256 * unat y) div 1024 = unat y div 4" 
    using x div_mult2_eq [of "unat x + 256 * unat y" 256 4] by simp
  then have "bit (unat x + 256 * unat y) 10 \<longleftrightarrow> bit (unat y) 2" by (simp only: bit_iff_odd) simp
  then have "bit (unat x + 256 * unat y) 10 \<longleftrightarrow> bit y 2" by (simp only: bit_unsigned_iff) simp
  with b have "bit (get16 (pd_config d) 4) 10 \<longleftrightarrow> bit y 2" by simp
  moreover have "w AND 0x400 \<noteq> 0 \<longleftrightarrow> bit w 10" for w :: u16 using and_exp_eq_0_iff_not_bit [of w 10] by simp
  ultimately show ?thesis by (simp add: pci_irq_disabled_def y_def)
qed

lemma upt4: "[0..<4] = [0, 1, 2, 3 :: nat]"
  by (simp add: upt_rec)

lemma less4: "(i :: nat) < 4 \<longleftrightarrow> i = 0 \<or> i = 1 \<or> i = 2 \<or> i = 3"
  by auto

lemma irq_state_set:
  "pci_irq_state (pci_set_irq_state i b d) j \<longleftrightarrow> (if j = i then b \<and> i < 8 else pci_irq_state d j)"
  by (auto simp: pci_irq_state_def pci_set_irq_state_def bit_simps dest: bit_imp_le_length)

lemma set_irq_masks [simp]:
  "masks_ok (pci_set_irq i b d) = masks_ok d" "masks_ok d \<Longrightarrow> pci_irq_disabled (pci_set_irq i b d) = pci_irq_disabled d"
  by (auto simp: pci_set_irq_def Let_def masks_ok_def pci_update_irq_status_def pci_set_irq_state_def pci_change_irq_level_def irq_disabled_bit)

lemma byte_bit3: "bit (x OR 8 :: byte) 3" "\<not> bit (x AND - 9 :: byte) 3"
  using bit_and_iff [of x "NOT 8" 3] by (simp_all add: bit_simps)

lemma set_irq_wf:
  assumes "pci_wf d" "i < 4"
  shows "pci_wf (pci_set_irq i b d)"
proof (cases "pci_irq_state d i = b")
  case True
  then show ?thesis using assms by (simp add: pci_set_irq_def)
next
  case False
  define d1 where "d1 = pci_update_irq_status (pci_set_irq_state i b d)"
  have l: "length (pd_config d) = 256" using assms by (simp add: pci_wf_def masks_ok_def)
  have d1: "pd_intx d1 = pd_intx d" "pci_irq_state d1 j \<longleftrightarrow> (if j = i then b else pci_irq_state d j)" "bit (pd_config d1 ! 6) 3 \<longleftrightarrow> pd_irq_state d1 \<noteq> 0"
      "pci_irq_disabled d1 = pci_irq_disabled d" for j
    using irq_state_set [of i b d j] assms l
    by (auto simp: d1_def pci_update_irq_status_def pci_irq_state_def pci_set_irq_state_def byte_bit3 irq_disabled_bit)
  have "pins_ok (pci_irq_disabled d) (pci_set_irq i b d)"
    using assms False d1 unfolding pci_set_irq_def Let_def d1_def [symmetric]
    by (auto simp: pci_wf_def pins_ok_def pci_change_irq_level_def pci_irq_state_def nth_list_update)
  then show ?thesis using assms by (simp add: pci_wf_def)
qed


lemma deassert_wf: "pci_wf d \<Longrightarrow> pci_wf (pci_device_deassert_intx d)"
  unfolding pci_device_deassert_intx_def upt4 by (simp add: set_irq_wf)

text \<open>A write changes writable bits in its range only.\<close>

lemma write_byte_changed: "(((c AND NOT w) OR (v AND w)) AND NOT (v AND w1) XOR c) AND NOT (w OR w1) = (0 :: byte)"
  by (rule bit_eqI) (auto simp: bit_simps)

lemma write_bytes_ok:
  assumes "a + l \<le> 256" "masks_ok d"
  shows "\<exists>c. write_bytes l a val d = Some (d\<lparr>pd_config := c\<rparr>) \<and> length c = 256 \<and> (\<forall>j. j < a \<or> a + l \<le> j \<longrightarrow> c ! j = pd_config d ! j)
    \<and> (\<forall>j < 256. (c ! j XOR pd_config d ! j) AND NOT (pd_wmask d ! j OR pd_w1cmask d ! j) = 0)"
  using assms
proof (induction l arbitrary: a val d)
  case 0
  then show ?case by (intro exI [of _ "pd_config d"]) (simp add: masks_ok_def)
next
  case (Suc l)
  define w w1 where "w = pd_wmask d ! a" and "w1 = pd_w1cmask d ! a"
  define b where "b = ((pd_config d ! a AND NOT w) OR (ucast val AND w)) AND NOT (ucast val AND w1)"
  define d1 where "d1 = d\<lparr>pd_config := (pd_config d)[a := b]\<rparr>"
  have g: "a < length (pd_config d)" "pd_wmask d ! a AND pd_w1cmask d ! a = 0" using Suc.prems by (auto simp: masks_ok_def)
  have s: "write_bytes (Suc l) a val d = write_bytes l (Suc a) (drop_bit 8 val) d1"
    using g by (simp add: d1_def b_def w_def w1_def Let_def)
  have d1: "masks_ok d1" "Suc a + l \<le> 256" using Suc.prems by (auto simp: masks_ok_def d1_def)
  from Suc.IH [OF d1(2,1), of "drop_bit 8 val"] obtain c where
    c: "write_bytes l (Suc a) (drop_bit 8 val) d1 = Some (d1\<lparr>pd_config := c\<rparr>)" "length c = 256" "\<And>j. j < Suc a \<or> Suc a + l \<le> j \<Longrightarrow> c ! j = pd_config d1 ! j"
      "\<And>j. j < 256 \<Longrightarrow> (c ! j XOR pd_config d1 ! j) AND NOT (pd_wmask d1 ! j OR pd_w1cmask d1 ! j) = 0"
    by blast
  have "(c ! j XOR pd_config d ! j) AND NOT (pd_wmask d ! j OR pd_w1cmask d ! j) = 0" if "j < 256" for j
    using c(3) [of a] c(4) [OF that] g write_byte_changed [of "pd_config d ! a" w "ucast val" w1] by (cases "j = a") (simp_all add: d1_def b_def w_def w1_def)
  moreover have "c ! j = pd_config d ! j" if "j < a \<or> a + Suc l \<le> j" for j using c(3) [of j] that by (auto simp: d1_def)
  ultimately show ?case using c(1,2) unfolding s by (intro exI [of _ c]) (simp add: d1_def)
qed

lemma update_disabled_wf:
  assumes "masks_ok d" "pins_ok was d"
  shows "pci_wf (pci_update_irq_disabled was d)" "pd_config (pci_update_irq_disabled was d) = pd_config d"
    "pd_wmask (pci_update_irq_disabled was d) = pd_wmask d" "pd_w1cmask (pci_update_irq_disabled was d) = pd_w1cmask d"
proof -
  note f = upt4 pci_change_irq_level_def pci_update_irq_disabled_def Let_def pci_irq_state_def pci_irq_disabled_def
  show "pd_config (pci_update_irq_disabled was d) = pd_config d" "pd_wmask (pci_update_irq_disabled was d) = pd_wmask d"
    "pd_w1cmask (pci_update_irq_disabled was d) = pd_w1cmask d" by (auto simp: f)
  have s: "masks_ok (pci_update_irq_disabled was d) = masks_ok d" "pci_irq_disabled (pci_update_irq_disabled was d) = pci_irq_disabled d"
    "pci_irq_state (pci_update_irq_disabled was d) i = pci_irq_state d i" for i
    by (auto simp: f masks_ok_def)
  have "pins_ok (pci_irq_disabled d) (pci_update_irq_disabled was d)"
    using assms(2) by (cases "pci_irq_disabled d"; cases was) (auto simp: pins_ok_def less4 f)
  with assms(1) show "pci_wf (pci_update_irq_disabled was d)" by (simp add: pci_wf_def s)
qed

lemma covers_byte:
  assumes "0 < l" "a + l \<le> 256" "b < 2 ^ 64"
  shows "range_covers_byte (of_nat a) (of_nat l) (of_nat b) \<longleftrightarrow> a \<le> b \<and> b < a + l"
proof -
  have "(of_nat a + of_nat l - 1 :: u64) = of_nat (a + l - 1)" using assms(1) by (simp add: of_nat_diff Suc_le_eq)
  then have "unat (of_nat a + of_nat l - 1 :: u64) = a + l - 1" using assms(2) unat_of_nat_small [of "a + l - 1", where 'a = 64] by simp
  then show ?thesis unfolding range_covers_byte_def range_get_last_def word_le_nat_alt using assms by (auto simp: unat_of_nat_small)
qed

text \<open>Handling the masks of vectors leaves configuration space, its masks and the pins alone.\<close>

definition pins_view :: "pcidev \<Rightarrow> byte list \<times> byte list \<times> byte list \<times> byte \<times> int list" where
  "pins_view d = (pd_config d, pd_wmask d, pd_w1cmask d, pd_irq_state d, pd_intx d)"

lemma pins_view_eqs: "pins_view d' = pins_view d \<Longrightarrow> pci_wf d' = pci_wf d" "pins_view d' = pins_view d \<Longrightarrow> changed d0 d' = changed d0 d"
  by (auto simp: pins_view_def pci_wf_def masks_ok_def pins_ok_def pci_irq_state_def pci_irq_disabled_def changed_def)

lemma handle_pins [simp]: "pins_view (msix_handle_mask_update v was d) = pins_view d"
  by (simp add: msix_handle_mask_update_def msix_notify_def msix_clr_pending_def msix_set_pending_def pins_view_def Let_def)

lemma fold_pins: "(\<And>x d. pins_view (f x d) = pins_view d) \<Longrightarrow> pins_view (fold f xs d) = pins_view d"
  by (induction xs arbitrary: d) auto

lemma deassert_config: "j \<noteq> 6 \<Longrightarrow> pd_config (pci_device_deassert_intx d) ! j = pd_config d ! j"
  "pd_config (pci_device_deassert_intx d) ! 6 AND NOT 8 = pd_config d ! 6 AND NOT 8"
proof -
  have s: "j \<noteq> 6 \<Longrightarrow> pd_config (pci_set_irq i False d) ! j = pd_config d ! j" for i d
    by (auto simp: pci_set_irq_def Let_def pci_update_irq_status_def pci_set_irq_state_def pci_change_irq_level_def)
  then show "j \<noteq> 6 \<Longrightarrow> pd_config (pci_device_deassert_intx d) ! j = pd_config d ! j" unfolding pci_device_deassert_intx_def upt4 by simp
  have "(x OR 8) AND NOT 8 = x AND NOT (8 :: byte)" "(x AND NOT 8) AND NOT 8 = x AND NOT (8 :: byte)" for x by (rule bit_eqI; auto simp: bit_simps)+
  then have "pd_config (pci_set_irq i False d) ! 6 AND NOT 8 = pd_config d ! 6 AND NOT 8" for i d
    by (cases "6 < length (pd_config d)") (auto simp: pci_set_irq_def Let_def pci_update_irq_status_def pci_set_irq_state_def pci_change_irq_level_def list_update_beyond)
  then show "pd_config (pci_device_deassert_intx d) ! 6 AND NOT 8 = pd_config d ! 6 AND NOT 8" unfolding pci_device_deassert_intx_def upt4 by simp
qed


definition guest_writable :: "pcidev \<Rightarrow> nat \<Rightarrow> byte" where
  "guest_writable d a = pd_wmask d ! a OR pd_w1cmask d ! a OR (if a = PCI_STATUS then 8 else 0)"

lemma msix_write_pins:
  assumes "pci_wf d"
  shows "pci_wf (msix_write_config a l d)" "changed d (msix_write_config a l d) j AND NOT (if j = 6 then 8 else 0) = 0"
proof -
  define d1 where "d1 = msix_update_function_masked d"
  define d2 where "d2 = pci_device_deassert_intx d1"
  have v1: "pins_view d1 = pins_view d" by (simp add: d1_def msix_update_function_masked_def pins_view_def)
  then have w1: "pci_wf d1" using assms pins_view_eqs(1) by blast
  then have w2: "pci_wf d2" by (simp add: d2_def deassert_wf)
  have "pins_view (fold (\<lambda>v d. msix_handle_mask_update v (msix_vector_masked d v b) d) xs d2) = pins_view d2" for b xs by (rule fold_pins) simp
  then have v: "pins_view (msix_write_config a l d) = pins_view d \<or> pins_view (msix_write_config a l d) = pins_view d2"
    unfolding msix_write_config_def Let_def d1_def [symmetric] d2_def [symmetric] using v1 by simp
  then show "pci_wf (msix_write_config a l d)" using pins_view_eqs(1) assms w2 by blast
  have c: "(x XOR y) AND NOT m = (x AND NOT m) XOR (y AND NOT m)" for x y m :: byte by (rule bit_eqI) (auto simp: bit_simps)
  have cfg: "pd_config d1 = pd_config d" using v1 by (simp add: pins_view_def)
  have "changed d d2 6 AND NOT 8 = 0" unfolding changed_def d2_def c deassert_config(2) cfg by (rule xor_self_eq)
  moreover have "j \<noteq> 6 \<Longrightarrow> changed d d2 j = 0" by (simp add: changed_def d2_def deassert_config(1) cfg)
  ultimately have "changed d d2 j AND NOT (if j = 6 then 8 else 0) = 0" by (cases "j = 6") (simp_all only: if_True if_False simp_thms and_zero_eq zero_and_eq)
  moreover have "changed d d j AND x = 0" for x by (simp add: changed_def)
  moreover note v pins_view_eqs(2) [of "msix_write_config a l d" d d] pins_view_eqs(2) [of "msix_write_config a l d" d2 d]
  ultimately show "changed d (msix_write_config a l d) j AND NOT (if j = 6 then 8 else 0) = 0" by metis
qed




text \<open>A device that was just registered is well-formed.\<close>

lemma le_bytes_2: "le_bytes 2 n = [of_nat (n mod 256), of_nat (n div 256 mod 256)]"
  by (simp add: numeral_2_eq_2)

lemma registered_wf: "pci_wf (do_pci_register_device v i r c serr)"
proof -
  let ?d = "do_pci_register_device v i r c serr"
  have p: "put16 0xf900 = [0, 0xf9]" by (simp add: put16_def le_bytes_2)
  have w1: "pd_w1cmask ?d ! a = (if a = 7 then 0xf9 else 0)" if "a < 256" for a
    using that by (auto simp: do_pci_register_device_def pci_init_w1cmask_def Let_def p nth_splice_at nth_Cons')
  have w: "pd_wmask ?d ! 7 = 0" "pd_wmask ?d ! 6 = 0" by (simp_all add: do_pci_register_device_def pci_init_wmask_def Let_def memset_at_def nth_splice_at)
  have l: "length (pd_config ?d) = 256" "length (pd_wmask ?d) = 256" "length (pd_w1cmask ?d) = 256"
    by (simp_all add: do_pci_register_device_def Let_def pci_init_wmask_def pci_init_w1cmask_def memset_at_def)
  have c: "pd_config ?d ! 5 = 0" "pd_config ?d ! 6 = 0" by (simp_all add: do_pci_register_device_def Let_def nth_splice_at)
  have s: "pd_irq_state ?d = 0" "pd_intx ?d = replicate 4 0" by (simp_all add: do_pci_register_device_def Let_def)
  have "masks_ok ?d" using l w w1 by (auto simp: masks_ok_def)
  moreover have "pins_ok (pci_irq_disabled ?d) ?d" using c s by (simp add: pins_ok_def pci_irq_state_def)
  ultimately show ?thesis by (simp add: pci_wf_def)
qed


lemma set_irq_state: "i < 8 \<Longrightarrow> pci_irq_state (pci_set_irq i b d) j \<longleftrightarrow> (if j = i then b else pci_irq_state d j)"
proof -
  assume i: "i < 8"
  have "pci_irq_state (pci_update_irq_status e) j = pci_irq_state e j" "pci_irq_state (pci_change_irq_level i k e) j = pci_irq_state e j" for k e
    by (simp_all add: pci_irq_state_def pci_update_irq_status_def pci_change_irq_level_def)
  then show ?thesis using irq_state_set [of i b d j] i by (auto simp: pci_set_irq_def Let_def)
qed

text \<open>Disabling the pins through the upper byte of the command register alone goes unnoticed, because
  only a write that covers the lower byte updates the pins: when the interrupt is then withdrawn, the
  device shows no raised pin and disabled interrupts, and the bus still sees the pin raised.
\<close>

theorem intx_stays_raised:
  assumes "pci_wf d" "\<not> pci_irq_disabled d" "\<not> pci_irq_state d 0" "bit (pd_wmask d ! 5) 2" "64 \<le> pd_msix_cap d \<or> \<not> msix_present d"
  shows "\<exists>d1. pci_default_write_config 5 4 1 (pci_set_irq 0 True d) = Some d1
    \<and> \<not> pci_irq_state (pci_set_irq 0 False d1) 0 \<and> pci_irq_disabled (pci_set_irq 0 False d1) \<and> pd_intx (pci_set_irq 0 False d1) ! 0 = 1"
proof -
  define d0 where "d0 = pci_set_irq 0 True d"
  have wf: "pci_wf d0" using assms(1) by (simp add: d0_def set_irq_wf)
  then have m: "masks_ok d0" "\<not> pci_irq_disabled d0" using assms(1,2) by (simp_all add: pci_wf_def d0_def)
  have f: "pd_wmask d0 = pd_wmask d" "pd_msix_cap d0 = pd_msix_cap d" "msix_present d0 = msix_present d" "pci_irq_state d0 0"
    by (simp_all add: d0_def set_irq_state)
       (simp_all add: pci_set_irq_def Let_def pci_update_irq_status_def pci_set_irq_state_def pci_change_irq_level_def msix_present_def)
  define c where "c = (pd_config d0)[5 := ((pd_config d0 ! 5 AND NOT (pd_wmask d0 ! 5)) OR (4 AND pd_wmask d0 ! 5)) AND NOT (4 AND pd_w1cmask d0 ! 5)]"
  have l: "length (pd_config d0) = 256" "pd_wmask d0 ! 5 AND pd_w1cmask d0 ! 5 = 0" using m(1) by (simp_all add: masks_ok_def)
  have "write_bytes (Suc 0) 5 4 d0 = Some (d0\<lparr>pd_config := c\<rparr>)" using l by (simp add: c_def Let_def)
  moreover have "\<not> range_covers_byte 5 1 4" by (simp add: range_covers_byte_def)
  moreover have "msix_write_config 5 1 (d0\<lparr>pd_config := c\<rparr>) = d0\<lparr>pd_config := c\<rparr>"
  proof -
    have "msix_control d0 \<noteq> 5" if "msix_present d" using that assms(5) f(2) by (auto simp: msix_control_def word_le_nat_alt)
    moreover have "msix_control d0 < 2 ^ 64" using unat_bound [of "pd_msix_cap d0"] by (simp add: msix_control_def)
    ultimately show ?thesis using covers_byte [of 1 5 "msix_control d0"] f(3) by (auto simp: msix_write_config_def msix_control_def msix_present_def)
  qed
  ultimately have w: "pci_default_write_config 5 4 1 d0 = Some (d0\<lparr>pd_config := c\<rparr>)"
    by (simp add: pci_default_write_config_def)
  define d1 where "d1 = d0\<lparr>pd_config := c\<rparr>"
  have "\<not> bit (pd_w1cmask d0 ! 5) 2" using l(2) assms(4) f(1) by (metis bit_and_iff bit_0_eq bot_apply bot_bool_def)
  then have "bit (c ! 5) 2" using l assms(4) f(1) by (simp add: c_def bit_simps)
  then have d1: "masks_ok d1" "pci_irq_disabled d1" "pci_irq_state d1 0" "pd_intx d1 ! 0 = 1"
    using m wf f(4) l(1) by (auto simp: d1_def masks_ok_def irq_disabled_bit c_def pci_wf_def pins_ok_def pci_irq_state_def)
  then have "pci_irq_disabled (pci_set_irq 0 False d1)" by simp
  moreover have "\<not> pci_irq_state (pci_set_irq 0 False d1) 0" by (simp add: set_irq_state)
  moreover have "pd_intx (pci_set_irq 0 False d1) ! 0 = 1"
    using d1(4) \<open>pci_irq_disabled (pci_set_irq 0 False d1)\<close> unfolding pci_set_irq_def Let_def
    by (auto simp: pci_update_irq_status_def pci_set_irq_state_def pci_change_irq_level_def pci_irq_disabled_def split: if_splits)
  ultimately show ?thesis using w by (auto simp: d0_def d1_def)
qed


theorem intx_stays_raised_witness:
  "\<exists>d1. pci_default_write_config 5 4 1 (pci_set_irq 0 True (do_pci_register_device 0x1af4 0x1003 0 0x780 True)) = Some d1 \<and> pd_intx (pci_set_irq 0 False d1) ! 0 = 1"
proof -
  let ?d = "do_pci_register_device 0x1af4 0x1003 0 0x780 True"
  have p: "put16 0x507 = [7, 5]" by (simp add: put16_def le_bytes_2)
  have "pd_wmask ?d ! 5 = 5" by (simp add: do_pci_register_device_def pci_init_wmask_def Let_def memset_at_def nth_splice_at p)
  moreover have "\<not> pci_irq_disabled ?d" by (subst irq_disabled_bit) (simp_all add: do_pci_register_device_def Let_def nth_splice_at)
  moreover have "\<not> pci_irq_state ?d 0" "\<not> msix_present ?d" by (simp_all add: do_pci_register_device_def Let_def pci_irq_state_def msix_present_def)
  ultimately show ?thesis using intx_stays_raised [OF registered_wf, of "0x1af4" "0x1003" 0 "0x780" True] by auto
qed

end
