(* ===== verification/Spec2Isabelle.thy ===== *)
theory Spec2Isabelle
  imports Guest_Driver Socket_Client Pci_Device
begin

text \<open>
  A verification development of a paravirtual crypto device: the driver of \<open>/dev/crypto\<close>
  (\<open>src/cryptodev-linux\<close>), the device that gives it to a virtual machine
  (\<open>src/Virtio-serial-askisi/sgerag_virtio_crypto\<close> on QEMU 1.2.0), and a remote shell that encrypts its
  messages with it (\<open>src/Virtio-serial-askisi/socket-client\<close>).

  \<^bold>\<open>The program.\<close>  A program in the guest calls \<open>ioctl\<close> on the device of a port.  The guest's driver
  (\<open>linux_kernel/virtio_crypto.c\<close>) packs the structure, the key, text and IV it points to, and the command
  into one request, puts it on the port's output queue and waits for the reply.  The emulator takes the
  request from the queue (\<open>hw/virtio.c\<close>, \<open>virtio-serial-bus.c\<close>), points the structure at the arrays of the
  request and calls \<open>ioctl\<close> on the host's \<open>/dev/crypto\<close> (\<open>virtio-crypto.c\<close>, \<open>flush_buf\<close>).  The host's driver
  finds the session, maps or copies the text and runs the cipher and the hash of the kernel's crypto API
  (\<open>ioctl.c\<close>, \<open>main.c\<close>, \<open>authenc.c\<close>, \<open>zc.c\<close>, \<open>util.c\<close>, \<open>cryptlib.c\<close>).  The emulator sends the request
  back with the result, and the guest's driver copies the result to the program.  Ports are opened,
  closed, plugged and unplugged with messages on two control queues.

  \<^bold>\<open>Theories and sources.\<close>
  \<^item> \<open>Prelude\<close>: machine types, error numbers, little-endian integers in byte lists, slices and splices.
  \<^item> \<open>Kernel_Env\<close>: what the C code takes from the kernel.  User memory (\<open>umem\<close>: which bytes exist and can be
    written) with \<open>copy_from_user\<close> and \<open>copy_to_user\<close>; the kernel's state \<open>kst\<close> with a table of live
    objects, the outcomes of the allocations to come, and the pins of pages.
  \<^item> \<open>Cryptodev_Types\<close>: \<open>crypto/cryptodev.h\<close> and \<open>cryptodev_int.h\<close>: structures with their byte layouts for
    64-bit and 32-bit callers, flags, \<open>ioctl\<close> numbers.
  \<^item> \<open>Scatterlist\<close> (\<open>util.c\<close>), \<open>Zero_Copy\<close> (\<open>zc.c\<close>), \<open>Cryptlib\<close> (\<open>cryptlib.c\<close>), \<open>Crypto_Session\<close> (\<open>ioctl.c\<close> up
    to \<open>crypto_get_session_by_sid\<close>), \<open>Crypto_Main\<close> (\<open>main.c\<close>), \<open>Crypto_Async\<close> (\<open>ioctl.c\<close>: open, release,
    poll and the job ring), \<open>Crypto_Authenc\<close> (\<open>authenc.c\<close>), \<open>Cryptodev_Ioctl\<close> (\<open>ioctl.c\<close>: the entry points).
    The state is a file (\<open>cfile\<close>) with its private structure, sessions (\<open>csession\<close>) and job lists, and
    the kernel's \<open>kst\<close>; every C function is a function of the same name.
  \<^item> \<open>Fifo\<close>: the contract of first-in first-out components, used for the job ring and for virtqueues.
  \<^item> \<open>Guest_Memory\<close>, \<open>Iov\<close> (\<open>iov.c\<close>), \<open>Virtqueue\<close> and \<open>Virtio_Device\<close> (\<open>hw/virtio.c\<close>), \<open>Qemu_File\<close>
    (\<open>savevm.c\<close>), \<open>Virtio_Serial\<close> (\<open>virtio-serial-bus.c\<close>), \<open>Virtio_Crypto\<close> (\<open>virtio-crypto.c\<close>): the
    emulator.  The state is a machine of a virtio device, guest memory, the transport's state and the
    bus with its ports; the host behind the ports (open files, the driver's \<open>kst\<close>) is the bus's world.
  \<^item> \<open>Pci_Device\<close> (\<open>hw/pci.c\<close>, \<open>hw/msix.c\<close>): the PCI device the virtio device is wrapped in, with its
    configuration space, pins and MSI-X vectors.
  \<^item> \<open>Crypto_Path\<close>: a request through the emulator and the host's driver, over the three views of the same
    bytes (guest memory, the emulator's address space, user memory).
  \<^item> \<open>Guest_Driver\<close>: \<open>linux_kernel/virtio_crypto.c\<close>.  The state is the ports, a heap of buffers whose
    identifiers are the tokens of the queues, the caller's memory and the queues.
  \<^item> \<open>Socket_Client\<close>: \<open>socket-client/src\<close>, running on the driver's model.
  \<^item> This theory: what guest, emulator and host do together.

  \<^bold>\<open>Conventions.\<close>  An \<open>int\<close> status is an \<open>int\<close>, with the negative error numbers of the source.  \<open>None\<close> is the
  end of the defined behaviour: \<open>BUG\<close>, \<open>abort\<close> and \<open>exit\<close>, an access outside an object, the use of freed
  memory, or waiting that never ends.  Integers have the width of the source wherever they can wrap.
  Loops are structural or have a measure; the ones that end only because of what a device or a peer does
  are \<open>partial_function\<close> in the option type, and the theorems about them prove that they return.  No
  definition has fuel.

  \<^bold>\<open>What is a parameter.\<close>  The kernel's crypto API (\<open>capi\<close>; its contract \<open>ses_sem\<close> and \<open>tls_sem\<close> says that a
  cipher is a function of IV and text that can be applied piece by piece), pinning of pages (\<open>mm\<close>), the
  transport of the virtio device (its bindings), which guest addresses are RAM, descriptors and memory of
  the emulator process (\<open>henv\<close>), the virtqueue API of the guest's kernel (\<open>linux_vq\<close>), and for the remote
  shell the shell and the socket.  Every hypothesis about them is met by the instances of the witnesses.

  \<^bold>\<open>What the lemmas show.\<close>
  \<^item> From end to end: a cipher operation of a guest program gives the host's cipher of the program's own text
    under its own IV at its own destination (\<open>guest_program_cipher\<close>); the parts of this are the theorems on
    the emulator and the host (\<open>Crypto_Path\<close>) and on the guest's driver (\<open>Guest_Driver\<close>).  Driver and device
    agree on the queues, and opening a port opens the host's device behind it.
  \<^item> Host driver: the zero-copy and the copying path agree and compute the cipher and the hash of the text;
    TLS records come back from decryption and only authentic ones are accepted; SRTP verifies before it
    decrypts; the job ring is a bounded queue that runs jobs in order with the results of direct calls;
    sessions, files and pins are balanced on every path, error paths included; 32-bit callers get the
    results of 64-bit callers.
  \<^item> Emulator: a virtqueue hands out the guest's chains in order and returns them in order, within the ring and
    without following a loop; saving and loading restores a device; accesses to the configuration space stay
    in it; the bus stays well-formed and the host's files stay in order in every run, whatever the guest does.
  \<^item> Errors: what every kind of refused request leads to, and the places where the code does not do what it
    means to; these are stated as theorems about the model where they are reachable.

  \<^bold>\<open>Contracts.\<close>  \<open>byte_space\<close> (memory, on user memory), \<open>wire_format\<close> (structures as bytes, on each structure),
  \<open>scatter_memory\<close> (on the cells of a scatterlist), \<open>session_store\<close> (on the session list), \<open>fifo\<close> (on the job
  ring and on virtqueues), \<open>port_hooks\<close> and \<open>port_world\<close> (what a port class promises the bus, on the crypto
  port).

  \<^bold>\<open>Not modelled.\<close>  Preemption inside a critical section: a lock is a flag whose misuse is visible, and the
  steps of the job ring and of the bus are its critical sections.  The transport over PCI and the rest of
  the emulator; messages to the log; the hvc console, debugfs and sysfs files of the guest's driver and the
  console driver it was made from; the set-up of sockets and terminals; tests, examples and vendored
  programs, which only call the interfaces modelled here.  The hardware page size, the sizes of the arrays of
  a request (\<open>layout\<close>) and the numbers the kernel draws are parameters.
\<close>

section \<open>From a program in the guest to the cipher of the host\<close>

text \<open>What the emulator finds in guest memory when the driver's request lies there.\<close>

lemma packet_in_memory:
  assumes pk: "peek g buf (sz_crypto_data L) = crypt_packet E (crypt_op_bytes cop) srcb dstb ivb" "L = ge_layout E"
    and l: "length srcb = unat (cop_len cop)" "length dstb = unat (cop_len cop)" "length ivb = block_max L" "unat (cop_len cop) \<le> data_max L"
  shows "crypt_request L H g buf = cop\<lparr>cop_src := he_base H + (buf + of_nat off_src), cop_dst := he_base H + (buf + of_nat (off_dst L)), cop_iv := he_base H + (buf + of_nat (off_iv L))\<rparr>"
    "ldl_phys g (buf + of_nat (off_cmd L)) = cmd_code CIOCCRYPT"
    "peek g (buf + of_nat off_src) (unat (cop_len cop)) = srcb"
    "n \<le> block_max L \<Longrightarrow> peek g (buf + of_nat (off_iv L)) n = take n ivb"
proof -
  note sz = layout_sizes [of L]
  have lc: "length (crypt_op_bytes cop) = 48" by (simp add: crypt_op.length_enc)
  have f: "take (unat (cop_len cop)) (drop off_src (crypt_packet E (crypt_op_bytes cop) srcb dstb ivb)) = srcb"
    "take (block_max L) (drop (off_iv L) (crypt_packet E (crypt_op_bytes cop) srcb dstb ivb)) = ivb"
    "take 4 (drop (off_cmd L) (crypt_packet E (crypt_op_bytes cop) srcb dstb ivb)) = put32 (cmd_code CIOCCRYPT)"
    using packet_fields [OF lc, of srcb E dstb ivb] l pk(2) by (simp_all del: cmd_code.simps)
  have "peek g buf 48 = take 48 (peek g buf (sz_crypto_data L))" using peek_part [of 0 48 "sz_crypto_data L" g buf] sz by simp
  then have "peek g buf 48 = crypt_op_bytes cop" unfolding pk(1) take_packet [OF lc] .
  then show "crypt_request L H g buf = cop\<lparr>cop_src := he_base H + (buf + of_nat off_src), cop_dst := he_base H + (buf + of_nat (off_dst L)), cop_iv := he_base H + (buf + of_nat (off_iv L))\<rparr>"
    by (simp add: crypt_request_def crypt_op.dec_enc)
  have "peek g (buf + of_nat (off_cmd L)) 4 = put32 (cmd_code CIOCCRYPT)" using peek_part [of "off_cmd L" 4 "sz_crypto_data L" g buf] sz f(3) pk(1) by simp
  then show "ldl_phys g (buf + of_nat (off_cmd L)) = cmd_code CIOCCRYPT" by (simp add: ldl_phys_def del: cmd_code.simps)
  show "peek g (buf + of_nat off_src) (unat (cop_len cop)) = srcb"
    using peek_part [of off_src "unat (cop_len cop)" "sz_crypto_data L" g buf] sz l(4) f(1) pk(1) by (simp add: off_src_def)
  show "peek g (buf + of_nat (off_iv L)) n = take n ivb" if "n \<le> block_max L"
    using peek_part [of "off_iv L" n "sz_crypto_data L" g buf] sz f(2) pk(1) that
    by simp (metis min.absorb1 take_take)
qed




text \<open>A device for the example that does what the host's cipher does.\<close>

definition vq_host :: "queue_demo linux_vq" where
  "vq_host = vq_echo\<lparr>lv_add := (\<lambda>n out k tok (done, ins).
     if n = 5 then (1, done @ [tok], ins @ [splice_at 128 (xor_key [5, 6] (take 8 (drop 112 out))) out]) else (1, done, ins))\<rparr>"

definition genv_host :: "queue_demo genv" where "genv_host = genv_demo\<lparr>ge_vq := vq_host\<rparr>"

definition packet_demo :: "byte list" where
  "packet_demo = crypt_packet genv_host (crypt_op_bytes cop_user) (replicate 8 0) (replicate 8 0) (replicate 16 0)"

definition machine_packet :: "(byte list, unit) cmach" where
  "machine_packet = machine_request\<lparr>guest := \<lparr>mem = poke (\<lambda>_. 9) 0x1000 packet_demo, dirty = []\<rparr>\<rparr>"

lemma genv_host_fields: "ge_layout genv_host = layout_demo" "ge_vq genv_host = vq_host" by (simp_all add: genv_host_def genv_demo_fields)

lemma packet_demo_facts:
  "length packet_demo = 168" "peek (mem (guest machine_packet)) 0x1000 168 = packet_demo" "take 8 (drop 112 packet_demo) = replicate 8 0"
proof -
  have b: "data_max layout_demo = 16" "block_max layout_demo = 16" by (simp_all add: layout_demo_def)
  show l: "length packet_demo = 168"
    unfolding packet_demo_def by (subst length_packet) (simp_all add: genv_host_fields b crypt_op.length_enc layout_demo_offsets)
  show "peek (mem (guest machine_packet)) 0x1000 168 = packet_demo" using peek_poke_same [of packet_demo "\<lambda>_. 9" "0x1000"] l by (simp add: machine_packet_def)
  show "take 8 (drop 112 packet_demo) = replicate 8 0"
    using packet_fields(1) [of "crypt_op_bytes cop_user" "replicate 8 0" genv_host "replicate 8 0" "replicate 16 0"]
    by (simp add: packet_demo_def genv_host_fields b crypt_op.length_enc layout_demo_offsets)
qed


section \<open>The queues of both sides\<close>

lemma length_callbacks [simp]: "length (port_callbacks k) = 2 * k"
  by (induction k) simp_all

lemma nth_callbacks: "i < k \<Longrightarrow> port_callbacks k ! (2 * i) = In_intr \<and> port_callbacks k ! Suc (2 * i) = Out_intr"
proof (induction k arbitrary: i)
  case (Suc k)
  then show ?case by (cases i) simp_all
qed simp

lemma assign_upt: "j + 2 * k \<le> n \<Longrightarrow> assign_vqs [0..<n] j k = Some (map (\<lambda>i. 2 * i + j) [0..<k], map (\<lambda>i. Suc (2 * i + j)) [0..<k])"
proof (induction k arbitrary: j)
  case (Suc k)
  have up: "map f [0..<Suc k] = f 0 # map (\<lambda>i. f (Suc i)) [0..<k]" for f :: "nat \<Rightarrow> nat" by (simp only: map_upt_Suc)
  from Suc.IH [of "j + 2"] Suc.prems show ?case unfolding up by simp
qed simp

text \<open>C5: The driver in the guest and the device agree on the queues.  For every number of ports the device
  can be set up with, when the transport hands the queues over in order, the driver's queue for input,
  output and control of each port is the queue the device serves with the handler for it, and the
  callback the driver registers there is the one for that direction.
\<close>

theorem queues_agree:
  assumes ports: "0 < max_ports" "max_ports \<le> 31"
    and drv: "gd_multiport d" "gd_max_ports d = max_ports"
    and find: "find_vqs (io_callbacks True max_ports) = (0, [0..<length (io_callbacks True max_ports)])"
  shows "\<exists>(m :: ('p, 't, 'w) vmach) d'. virtio_serial_init max_ports running g t w = Some (Some m) \<and> init_vqs find_vqs [True] d = Some (0, d')
    \<and> gd_in_vqs d' = vs_ivqs (rest m) \<and> gd_out_vqs d' = vs_ovqs (rest m) \<and> gd_c_ivq d' = vs_c_ivq (rest m) \<and> gd_c_ovq d' = vs_c_ovq (rest m)
    \<and> (\<forall>i < unat max_ports.
        io_callbacks True max_ports ! (gd_in_vqs d' ! i) = In_intr \<and> queue_is m (gd_in_vqs d' ! i) 128 Handle_Input
        \<and> io_callbacks True max_ports ! (gd_out_vqs d' ! i) = Out_intr \<and> queue_is m (gd_out_vqs d' ! i) 128 Handle_Output)
    \<and> io_callbacks True max_ports ! gd_c_ivq d' = Control_intr \<and> queue_is m (gd_c_ivq d') 32 Control_In
    \<and> io_callbacks True max_ports ! gd_c_ovq d' = No_callback \<and> queue_is m (gd_c_ovq d') 32 Control_Out"
proof -
  let ?n = "unat max_ports" and ?cb = "io_callbacks True max_ports"
  have "\<not> (max_ports = 0 \<or> 31 < max_ports)" using ports by auto
  from serial_init_result [OF this, of running g t w, where 'p = 'p] obtain m :: "('p, 't, 'w) vmach" where
    m: "virtio_serial_init max_ports running g t w = Some (Some m)" "vs_c_ivq (rest m) = 2" "vs_c_ovq (rest m) = 3" "queue_is m 2 32 Control_In" "queue_is m 3 32 Control_Out"
      "vs_ivqs (rest m) = 0 # map (\<lambda>i. 2 * i + 2) [1..<?n]" "vs_ovqs (rest m) = 1 # map (\<lambda>i. 2 * i + 3) [1..<?n]"
      "\<forall>i < ?n. queue_is m (vs_ivqs (rest m) ! i) 128 Handle_Input \<and> queue_is m (vs_ovqs (rest m) ! i) 128 Handle_Output" by blast
  have n: "0 < ?n" "?n \<le> 31" using ports by (simp_all add: unat_gt_0 word_le_nat_alt)
  have lc: "length ?cb = 2 * ?n + 2" using n by (simp add: io_callbacks_def)
  have nq: "unat ((max_ports + 1) * 2) = 2 * ?n + 2" using n by (simp add: unat_word_ariths)
  have "[1..<?n] = map Suc [0..<?n - 1]" using n by (simp add: map_Suc_upt)
  then have v: "vs_ivqs (rest m) = 0 # map (\<lambda>i. 2 * i + 4) [0..<?n - 1]" "vs_ovqs (rest m) = 1 # map (\<lambda>i. Suc (2 * i + 4)) [0..<?n - 1]"
    unfolding m by (simp_all only: map_map comp_def) simp_all
  define d' where "d' = d\<lparr>gd_in_vqs := vs_ivqs (rest m), gd_out_vqs := vs_ovqs (rest m), gd_c_ivq := 2, gd_c_ovq := 3\<rparr>"
  obtain k where k: "k = 2 * ?n + 2" "4 \<le> k" "max_ports \<noteq> 0" using n ports by simp
  have "assign_vqs [0..<k] 4 (?n - 1) = Some (map (\<lambda>i. 2 * i + 4) [0..<?n - 1], map (\<lambda>i. Suc (2 * i + 4)) [0..<?n - 1])"
    by (rule assign_upt) (use n k in linarith)
  then have "init_vqs find_vqs [True] d = Some (0, d')"
    using k(2,3) find drv nq unfolding lc k(1) [symmetric] by (simp add: init_vqs_def lc [folded k(1)] d'_def v del: One_nat_def)
  moreover have "?cb ! (gd_in_vqs d' ! i) = In_intr \<and> ?cb ! (gd_out_vqs d' ! i) = Out_intr" if "i < ?n" for i
    using that nth_callbacks [of "i - 1" "?n - 1"] by (cases i) (simp_all add: d'_def v io_callbacks_def numeral_eq_Suc less_diff_conv)
  moreover have "?cb ! 2 = Control_intr" "?cb ! 3 = No_callback" by (simp_all add: io_callbacks_def numeral_eq_Suc)
  ultimately show ?thesis using m by (intro exI [of _ m] exI [of _ d']) (simp add: d'_def)
qed

theorem queues_agree_witness:
  "\<exists>(m :: (nat, nat, nat) vmach) d'. virtio_serial_init 2 True gst_zero 0 0 = Some (Some m) \<and> init_vqs (\<lambda>cb. (0, [0..<length cb])) [True] gdrv_demo = Some (0, d')
    \<and> gd_in_vqs d' = vs_ivqs (rest m) \<and> gd_out_vqs d' = vs_ovqs (rest m) \<and> queue_is m (gd_out_vqs d' ! 1) 128 Handle_Output"
proof -
  have d: "gd_multiport gdrv_demo" "gd_max_ports gdrv_demo = 2" by (simp_all add: gdrv_demo_def)
  have "(0 :: u32) < 2" "(2 :: u32) \<le> 31" "1 < unat (2 :: u32)" by simp_all
  with queues_agree [OF _ _ d, of "\<lambda>cb. (0, [0..<length cb])" True gst_zero "0 :: nat" "0 :: nat", where 'p = nat] show ?thesis by metis
qed


text \<open>For the example, a control queue that is served at once, and the port before it is opened.\<close>

definition genv_control :: "queue_demo genv" where
  "genv_control = genv_demo\<lparr>ge_vq := vq_echo\<lparr>lv_get := (\<lambda>n q. if n = 3 then (Some (0, 0, []), q) else lv_get vq_echo n q)\<rparr>\<rparr>"

definition gdrv_closed :: "queue_demo gdrv" where
  "gdrv_closed = gdrv_demo\<lparr>gd_port := [1 \<mapsto> gport_demo\<lparr>gp_guest_connected := False\<rparr>]\<rparr>"


end
